(* ===== verification/Prelude.thy ===== *)
theory Prelude
  imports Main "HOL-Library.Word" "HOL-Library.AList" "HOL-Library.Char_ord" "HOL-Library.List_Lexorder"
begin

text \<open>
  The vocabulary the components share: the machine integers and identifiers of the Rust code,
  \<open>Result\<close> values, \<open>HashMap\<close>s, the iterator functions the code calls, clock readings, and the
  lemma collections the component proofs are run with.

  A \<open>HashMap\<close> is an association list with distinct keys (\<open>hm_wf\<close>). Rust leaves the iteration order
  of a \<open>HashMap\<close> unspecified; here it is the order of the list, and every theorem holds for every
  list, so for every order.

  An \<open>Instant\<close> and a \<open>Duration\<close> are numbers of nanoseconds. A function that reads the clock takes the
  reading as an argument, and a function that draws a random identifier takes the drawn identifier.
\<close>

section \<open>Types\<close>

type_synonym u8 = "8 word"
type_synonym u32 = "32 word"
type_synonym u64 = "64 word"
type_synonym Uuid = "128 word"
type_synonym Instant = nat
type_synonym Duration = nat
type_synonym ('a, 'e) Result = "'e + 'a"
type_synonym ('k, 'v) HashMap = "('k \<times> 'v) list"

abbreviation Ok :: "'a \<Rightarrow> 'e + 'a" where "Ok \<equiv> Inr"
abbreviation Err :: "'e \<Rightarrow> 'e + 'a" where "Err \<equiv> Inl"
abbreviation is_ok :: "'e + 'a \<Rightarrow> bool" where "is_ok r \<equiv> \<not> isl r"
abbreviation is_err :: "'e + 'a \<Rightarrow> bool" where "is_err r \<equiv> isl r"

definition uuid_nil :: Uuid where
  "uuid_nil = 0"

named_theorems hm_simps \<open>rewriting lookups in updated hash maps\<close>
named_theorems inv_intros \<open>operations keep the component invariants\<close>
named_theorems frame_simps \<open>which parts of the state an operation leaves alone\<close>

section \<open>Durations\<close>

definition from_secs :: "nat \<Rightarrow> Duration" where
  "from_secs n = n * 1000000000"

definition from_millis :: "nat \<Rightarrow> Duration" where
  "from_millis n = n * 1000000"

definition as_secs :: "Duration \<Rightarrow> nat" where
  "as_secs d = d div 1000000000"

definition as_millis :: "Duration \<Rightarrow> nat" where
  "as_millis d = d div 1000000"

text \<open>\<open>Instant::saturating_duration_since\<close> and \<open>duration_since\<close> (which saturates as well) are
  truncated subtraction, as is \<open>checked_sub(..).unwrap_or_default()\<close> on durations.\<close>

definition duration_since :: "Instant \<Rightarrow> Instant \<Rightarrow> Duration" where
  "duration_since later earlier = later - earlier"

definition clamp :: "'a::linorder \<Rightarrow> 'a \<Rightarrow> 'a \<Rightarrow> 'a" where
  "clamp x lo hi = (if x < lo then lo else if hi < x then hi else x)"

lemma clamp_bounds: "lo \<le> hi \<Longrightarrow> lo \<le> clamp x lo hi \<and> clamp x lo hi \<le> hi"
  by (auto simp: clamp_def)

lemma clamp_id [simp]: "lo \<le> x \<Longrightarrow> x \<le> hi \<Longrightarrow> clamp x lo hi = x"
  by (auto simp: clamp_def)

section \<open>Iterators and options\<close>

text \<open>\<open>Iterator::position\<close>: the index of the first element that satisfies the predicate.\<close>

fun list_position :: "('a \<Rightarrow> bool) \<Rightarrow> 'a list \<Rightarrow> nat option" where
  "list_position p [] = None"
| "list_position p (x # xs) = (if p x then Some 0 else map_option Suc (list_position p xs))"

lemma list_position_SomeD:
  "list_position p xs = Some i \<Longrightarrow> i < length xs \<and> p (xs ! i) \<and> (\<forall>j<i. \<not> p (xs ! j))"
proof (induction xs arbitrary: i)
  case Nil
  then show ?case by simp
next
  case (Cons x xs)
  show ?case
  proof (cases "p x")
    case True
    with Cons.prems show ?thesis by simp
  next
    case False
    with Cons.prems obtain k where k: "list_position p xs = Some k" "i = Suc k"
      by auto
    with Cons.IH [OF k(1)] False show ?thesis
      by (auto simp: less_Suc_eq_0_disj)
  qed
qed

lemma list_position_None: "list_position p xs = None \<longleftrightarrow> (\<forall>x\<in>set xs. \<not> p x)"
  by (induction xs) auto

lemma list_position_nth:
  assumes "distinct xs" and "i < length xs"
  shows "list_position (\<lambda>x. x = xs ! i) xs = Some i"
  using assms
proof (induction xs arbitrary: i)
  case Nil
  then show ?case by simp
next
  case (Cons x xs)
  then show ?case by (cases i) auto
qed

definition option_filter :: "('a \<Rightarrow> bool) \<Rightarrow> 'a option \<Rightarrow> 'a option" where
  "option_filter p x = (case x of None \<Rightarrow> None | Some a \<Rightarrow> if p a then Some a else None)"

definition is_some_and :: "'a option \<Rightarrow> ('a \<Rightarrow> bool) \<Rightarrow> bool" where
  "is_some_and x p = (case x of None \<Rightarrow> False | Some a \<Rightarrow> p a)"

definition is_none_or :: "'a option \<Rightarrow> ('a \<Rightarrow> bool) \<Rightarrow> bool" where
  "is_none_or x p = (case x of None \<Rightarrow> True | Some a \<Rightarrow> p a)"

definition unwrap_or :: "'a option \<Rightarrow> 'a \<Rightarrow> 'a" where
  "unwrap_or x d = (case x of None \<Rightarrow> d | Some a \<Rightarrow> a)"

definition ok_or :: "'a option \<Rightarrow> 'e \<Rightarrow> 'e + 'a" where
  "ok_or x e = (case x of None \<Rightarrow> Err e | Some a \<Rightarrow> Ok a)"

definition map_err :: "('e \<Rightarrow> 'f) \<Rightarrow> 'e + 'a \<Rightarrow> 'f + 'a" where
  "map_err f r = (case r of Inl e \<Rightarrow> Inl (f e) | Inr a \<Rightarrow> Inr a)"

lemma option_filter_simps [simp]:
  "option_filter p None = None"
  "option_filter p (Some a) = (if p a then Some a else None)"
  by (simp_all add: option_filter_def)

lemma option_filter_eq_Some: "option_filter p x = Some a \<longleftrightarrow> x = Some a \<and> p a"
  by (auto simp: option_filter_def split: option.splits)

lemma option_filter_eq_None: "option_filter p x = None \<longleftrightarrow> (\<forall>a. x = Some a \<longrightarrow> \<not> p a)"
  by (auto simp: option_filter_def split: option.splits)

lemma is_some_and_simps [simp]:
  "is_some_and None p = False"
  "is_some_and (Some a) p = p a"
  by (simp_all add: is_some_and_def)

lemma is_some_and_iff: "is_some_and x p \<longleftrightarrow> (\<exists>a. x = Some a \<and> p a)"
  by (auto simp: is_some_and_def split: option.splits)

lemma is_none_or_simps [simp]:
  "is_none_or None p = True"
  "is_none_or (Some a) p = p a"
  by (simp_all add: is_none_or_def)

lemma unwrap_or_simps [simp]:
  "unwrap_or None d = d"
  "unwrap_or (Some a) d = a"
  by (simp_all add: unwrap_or_def)

lemma ok_or_simps [simp]:
  "ok_or None e = Err e"
  "ok_or (Some a) e = Ok a"
  by (simp_all add: ok_or_def)

lemma map_err_simps [simp]:
  "map_err f (Inl e) = Inl (f e)"
  "map_err f (Inr a) = Inr a"
  by (simp_all add: map_err_def)

lemma isl_map_err [simp]: "isl (map_err f r) = isl r"
  by (cases r) auto

section \<open>Hash maps\<close>

abbreviation hm_get :: "('k, 'v) HashMap \<Rightarrow> 'k \<Rightarrow> 'v option" where
  "hm_get m k \<equiv> map_of m k"

definition hm_insert :: "'k \<Rightarrow> 'v \<Rightarrow> ('k, 'v) HashMap \<Rightarrow> ('k, 'v) HashMap" where
  "hm_insert = AList.update"

definition hm_remove :: "'k \<Rightarrow> ('k, 'v) HashMap \<Rightarrow> ('k, 'v) HashMap" where
  "hm_remove = AList.delete"

text \<open>\<open>if let Some(v) = map.get_mut(k) { *v = f(v) }\<close>\<close>

definition hm_modify :: "'k \<Rightarrow> ('v \<Rightarrow> 'v) \<Rightarrow> ('k, 'v) HashMap \<Rightarrow> ('k, 'v) HashMap" where
  "hm_modify = AList.map_entry"

definition hm_retain :: "('k \<Rightarrow> 'v \<Rightarrow> bool) \<Rightarrow> ('k, 'v) HashMap \<Rightarrow> ('k, 'v) HashMap" where
  "hm_retain p m = filter (\<lambda>(k, v). p k v) m"

definition hm_map_values :: "('v \<Rightarrow> 'v) \<Rightarrow> ('k, 'v) HashMap \<Rightarrow> ('k, 'v) HashMap" where
  "hm_map_values f m = map (\<lambda>(k, v). (k, f v)) m"

definition hm_values :: "('k, 'v) HashMap \<Rightarrow> 'v list" where
  "hm_values m = map snd m"

definition hm_contains :: "('k, 'v) HashMap \<Rightarrow> 'k \<Rightarrow> bool" where
  "hm_contains m k = (map_of m k \<noteq> None)"

definition hm_wf :: "('k, 'v) HashMap \<Rightarrow> bool" where
  "hm_wf m = distinct (map fst m)"

text \<open>The keys of the entries that satisfy a predicate, in iteration order:
  \<open>iter().filter(..).map(|(&id, _)| id).collect()\<close>.\<close>

definition hm_keys_where :: "('k \<Rightarrow> 'v \<Rightarrow> bool) \<Rightarrow> ('k, 'v) HashMap \<Rightarrow> 'k list" where
  "hm_keys_where p m = map fst (filter (\<lambda>(k, v). p k v) m)"

subsection \<open>The interface of a map\<close>

text \<open>What the components rely on: the laws of lookup after an insertion, a removal and a change in
  place, and that each keeps the representation invariant.\<close>

locale map_interface =
  fixes get :: "'m \<Rightarrow> 'k \<Rightarrow> 'v option"
    and insert :: "'k \<Rightarrow> 'v \<Rightarrow> 'm \<Rightarrow> 'm"
    and remove :: "'k \<Rightarrow> 'm \<Rightarrow> 'm"
    and modify :: "'k \<Rightarrow> ('v \<Rightarrow> 'v) \<Rightarrow> 'm \<Rightarrow> 'm"
    and invar :: "'m \<Rightarrow> bool"
  assumes get_insert: "get (insert k v m) = (get m)(k \<mapsto> v)"
    and get_remove: "get (remove k m) = (get m)(k := None)"
    and get_modify: "get (modify k f m) = (get m)(k := map_option f (get m k))"
    and invar_insert: "invar m \<Longrightarrow> invar (insert k v m)"
    and invar_remove: "invar m \<Longrightarrow> invar (remove k m)"
    and invar_modify: "invar m \<Longrightarrow> invar (modify k f m)"
begin

lemma insert_remove_get: "get (insert k v (remove k m)) = get (insert k v m)"
  by (simp add: get_insert get_remove)

lemma remove_insert_get: "get m k = None \<Longrightarrow> get (remove k (insert k v m)) = get m"
  by (auto simp: get_insert get_remove fun_upd_idem)

lemma insert_commute_get:
  "k \<noteq> k' \<Longrightarrow> get (insert k v (insert k' v' m)) = get (insert k' v' (insert k v m))"
  by (simp add: get_insert fun_upd_twist)

lemma dom_insert: "dom (get (insert k v m)) = {k} \<union> dom (get m)"
  by (simp add: get_insert)

lemma dom_remove: "dom (get (remove k m)) = dom (get m) - {k}"
  by (simp add: get_remove)

end

interpretation hm: map_interface map_of hm_insert hm_remove hm_modify hm_wf
proof unfold_locales
  fix k v and m :: "('a, 'b) HashMap"
  show "map_of (hm_insert k v m) = (map_of m)(k \<mapsto> v)"
    by (simp add: hm_insert_def update_conv')
next
  fix k and m :: "('a, 'b) HashMap"
  show "map_of (hm_remove k m) = (map_of m)(k := None)"
    by (simp add: hm_remove_def delete_conv')
next
  fix k f and m :: "('a, 'b) HashMap"
  show "map_of (hm_modify k f m) = (map_of m)(k := map_option f (map_of m k))"
    by (auto simp: hm_modify_def map_of_map_entry fun_eq_iff split: option.splits)
next
  fix k v and m :: "('a, 'b) HashMap"
  show "hm_wf m \<Longrightarrow> hm_wf (hm_insert k v m)"
    by (simp add: hm_wf_def hm_insert_def distinct_update)
next
  fix k and m :: "('a, 'b) HashMap"
  show "hm_wf m \<Longrightarrow> hm_wf (hm_remove k m)"
    by (simp add: hm_wf_def hm_remove_def distinct_delete)
next
  fix k f and m :: "('a, 'b) HashMap"
  show "hm_wf m \<Longrightarrow> hm_wf (hm_modify k f m)"
    by (simp add: hm_wf_def hm_modify_def distinct_map_entry)
qed

lemmas [simp, hm_simps] = hm.get_insert hm.get_remove hm.get_modify
lemmas [intro, inv_intros] = hm.invar_insert hm.invar_remove hm.invar_modify

lemma hm_wf_Nil [simp]: "hm_wf []"
  by (simp add: hm_wf_def)

lemma hm_wf_retain [intro, inv_intros]: "hm_wf m \<Longrightarrow> hm_wf (hm_retain p m)"
  unfolding hm_wf_def hm_retain_def by (induction m) auto

lemma hm_get_retain [hm_simps]:
  "hm_wf m \<Longrightarrow> hm_get (hm_retain p m) k = option_filter (p k) (hm_get m k)"
  unfolding hm_wf_def hm_retain_def
  by (induction m) (auto simp: option_filter_def map_of_eq_None_iff split: option.splits)

lemma hm_wf_map_values [intro, inv_intros]: "hm_wf m \<Longrightarrow> hm_wf (hm_map_values f m)"
  unfolding hm_wf_def hm_map_values_def by (simp add: comp_def case_prod_unfold)

lemma hm_get_map_values [simp, hm_simps]:
  "hm_get (hm_map_values f m) k = map_option f (hm_get m k)"
  unfolding hm_map_values_def by (induction m) auto

lemma hm_length_map_values [simp]: "length (hm_map_values f m) = length m"
  by (simp add: hm_map_values_def)

lemma hm_contains_insert [simp]: "hm_contains (hm_insert k v m) j = (j = k \<or> hm_contains m j)"
  by (simp add: hm_contains_def)

lemma hm_keys_where_set: "hm_wf m \<Longrightarrow> set (hm_keys_where p m) = {k. \<exists>v. hm_get m k = Some v \<and> p k v}"
  unfolding hm_keys_where_def hm_wf_def
  by (force simp: map_of_eq_Some_iff image_def)

lemma hm_keys_where_distinct: "hm_wf m \<Longrightarrow> distinct (hm_keys_where p m)"
  unfolding hm_keys_where_def hm_wf_def by (induction m) auto

lemma hm_values_set: "hm_wf m \<Longrightarrow> v \<in> set (hm_values m) \<longleftrightarrow> (\<exists>k. hm_get m k = Some v)"
  unfolding hm_values_def hm_wf_def by (force simp: map_of_eq_Some_iff image_def)

lemma hm_length_insert_fresh: "hm_get m k = None \<Longrightarrow> length (hm_insert k v m) = Suc (length m)"
  unfolding hm_insert_def by (induction m) (auto split: if_splits)

lemma hm_length_insert_le: "length (hm_insert k v m) \<le> Suc (length m)"
  unfolding hm_insert_def by (induction m) (auto split: if_splits)

lemma hm_length_insert_old: "hm_get m k \<noteq> None \<Longrightarrow> length (hm_insert k v m) = length m"
  unfolding hm_insert_def by (induction m) (auto split: if_splits)

lemma hm_length_remove_le: "length (hm_remove k m) \<le> length m"
  unfolding hm_remove_def by (simp add: length_delete_le)

lemma hm_length_retain_le: "length (hm_retain p m) \<le> length m"
  unfolding hm_retain_def by simp

lemma hm_values_insert_fresh:
  "hm_get m k = None \<Longrightarrow> hm_values (hm_insert k v m) = hm_values m @ [v]"
  unfolding hm_values_def hm_insert_def by (induction m) (auto split: if_splits)

end
