(* ===== verification/Json.thy ===== *)
theory Json
  imports Prelude
begin

text \<open>
  The JSON values (\<open>serde_json::Value\<close>) the server and the agent exchange, and the readers the code
  uses on them: \<open>v["k"]\<close>, \<open>get\<close>, \<open>as_str\<close>, \<open>as_i64\<close>, \<open>as_u64\<close>, \<open>as_bool\<close>, \<open>as_array\<close>.

  An object is the list of its entries in key order (\<open>serde_json\<close> without \<open>preserve_order\<close> keeps a
  \<open>BTreeMap\<close>). A number is one of the three forms of \<open>serde_json::Number\<close>: a non-negative integer
  (\<open>u64\<close>), a negative integer (\<open>i64\<close>, here in two's complement), or a double (its 64 bits, which the
  modelled code never computes with). A string is the list of its UTF-8 bytes, so \<open>str::len\<close> is
  \<open>length\<close> and \<open>chars().count()\<close> is \<open>chars_count\<close>.

  Formatting and parsing of UUIDs are the \<open>uuid\<close> crate's: the record \<open>Uuid_fmt\<close> is a parameter of
  the definitions that use them, and \<open>uuid_fmt_ok\<close> states what the code relies on, that parsing a
  formatted UUID gives it back.
\<close>

section \<open>Values\<close>

datatype Number = PosInt u64 | NegInt u64 | Float u64

datatype Value =
    Null
  | Bool bool
  | Num Number
  | Str string
  | Arr "Value list"
  | Obj "(string \<times> Value) list"

subsection \<open>Objects\<close>

fun obj_insert :: "string \<Rightarrow> 'v \<Rightarrow> (string \<times> 'v) list \<Rightarrow> (string \<times> 'v) list" where
  "obj_insert k v [] = [(k, v)]"
| "obj_insert k v ((k', v') # kvs) =
     (if k = k' then (k, v) # kvs
      else if k < k' then (k, v) # (k', v') # kvs
      else (k', v') # obj_insert k v kvs)"

definition obj_remove :: "string \<Rightarrow> (string \<times> 'v) list \<Rightarrow> (string \<times> 'v) list" where
  "obj_remove k kvs = filter (\<lambda>(k', _). k' \<noteq> k) kvs"

definition obj_wf :: "(string \<times> 'v) list \<Rightarrow> bool" where
  "obj_wf kvs = sorted_wrt (<) (map fst kvs)"

text \<open>The object literal of the \<open>json!\<close> macro.\<close>

definition json_obj :: "(string \<times> Value) list \<Rightarrow> Value" where
  "json_obj kvs = Obj (foldr (\<lambda>(k, v). obj_insert k v) kvs [])"

lemma obj_wf_simps [simp]:
  "obj_wf []"
  "obj_wf ((k, v) # kvs) \<longleftrightarrow> (\<forall>k' \<in> fst ` set kvs. k < k') \<and> obj_wf kvs"
  by (auto simp: obj_wf_def)

lemma fst_set_obj_insert [simp]: "fst ` set (obj_insert k v kvs) = insert k (fst ` set kvs)"
proof (induction kvs)
  case Nil
  then show ?case by simp
next
  case (Cons p kvs)
  obtain k' v' where "p = (k', v')" by force
  with Cons.IH show ?case by (simp add: insert_commute)
qed

lemma obj_wf_insert [intro, inv_intros]: "obj_wf kvs \<Longrightarrow> obj_wf (obj_insert k v kvs)"
proof (induction kvs)
  case Nil
  then show ?case by simp
next
  case (Cons p kvs)
  obtain k' v' where p: "p = (k', v')" by force
  with Cons have tail: "obj_wf (obj_insert k v kvs)" "obj_wf kvs" "\<forall>j \<in> fst ` set kvs. k' < j"
    by simp_all
  consider "k = k'" | "k < k'" | "k' < k" by (rule linorder_cases)
  then show ?case
  proof cases
    case 1
    with tail p show ?thesis by simp
  next
    case 2
    with tail(3) have "\<forall>j \<in> fst ` set kvs. k < j" by (blast intro: less_trans)
    with 2 tail p show ?thesis by simp
  next
    case 3
    with tail p have "\<forall>j \<in> fst ` set (obj_insert k v kvs). k' < j"
      unfolding fst_set_obj_insert by simp
    with 3 tail p show ?thesis by (simp add: less_not_sym)
  qed
qed

lemma obj_wf_remove [intro, inv_intros]: "obj_wf kvs \<Longrightarrow> obj_wf (obj_remove k kvs)"
  unfolding obj_remove_def by (induction kvs) auto

lemma map_of_obj_insert [simp]:
  "map_of (obj_insert k v kvs) = (map_of kvs)(k \<mapsto> v)"
  by (induction kvs) (auto simp: fun_eq_iff)

lemma map_of_obj_remove [simp]:
  "map_of (obj_remove k kvs) = (map_of kvs)(k := None)"
  unfolding obj_remove_def by (induction kvs) (auto simp: fun_eq_iff)

lemma map_of_foldr_obj_insert [simp]:
  "map_of (foldr (\<lambda>(k, v). obj_insert k v) kvs []) = map_of kvs"
  by (induction kvs) auto

lemma obj_wf_foldr_obj_insert [simp]: "obj_wf (foldr (\<lambda>(k, v). obj_insert k v) kvs [])"
  by (induction kvs) auto

subsection \<open>Reading\<close>

text \<open>\<open>v.get(k)\<close> and \<open>v["k"]\<close>: indexing a missing key, or a value that is no object, reads \<open>Null\<close>.\<close>

fun v_get :: "Value \<Rightarrow> string \<Rightarrow> Value option" where
  "v_get (Obj kvs) k = map_of kvs k"
| "v_get _ k = None"

definition v_index :: "Value \<Rightarrow> string \<Rightarrow> Value" where
  "v_index v k = unwrap_or (v_get v k) Null"

fun as_str :: "Value \<Rightarrow> string option" where
  "as_str (Str s) = Some s"
| "as_str _ = None"

fun as_bool :: "Value \<Rightarrow> bool option" where
  "as_bool (Bool b) = Some b"
| "as_bool _ = None"

fun as_array :: "Value \<Rightarrow> Value list option" where
  "as_array (Arr vs) = Some vs"
| "as_array _ = None"

fun as_u64 :: "Value \<Rightarrow> u64 option" where
  "as_u64 (Num (PosInt n)) = Some n"
| "as_u64 _ = None"

definition i64_max :: int where "i64_max = 2 ^ 63 - 1"

fun as_i64 :: "Value \<Rightarrow> int option" where
  "as_i64 (Num (PosInt n)) = (if uint n \<le> i64_max then Some (uint n) else None)"
| "as_i64 (Num (NegInt n)) = Some (sint n)"
| "as_i64 _ = None"

definition is_null :: "Value \<Rightarrow> bool" where
  "is_null v = (v = Null)"

text \<open>\<open>i32::try_from\<close> on an \<open>i64\<close>.\<close>

definition i32_min :: int where "i32_min = - (2 ^ 31)"
definition i32_max :: int where "i32_max = 2 ^ 31 - 1"

definition i32_try_from :: "int \<Rightarrow> int option" where
  "i32_try_from n = (if i32_min \<le> n \<and> n \<le> i32_max then Some n else None)"

subsection \<open>Writing\<close>

text \<open>\<open>v["k"] = x\<close>: inserts into an object and turns \<open>Null\<close> into one. On any other value it panics;
  every assignment of the modelled code is to an object.\<close>

fun v_set :: "Value \<Rightarrow> string \<Rightarrow> Value \<Rightarrow> Value" where
  "v_set (Obj kvs) k x = Obj (obj_insert k x kvs)"
| "v_set Null k x = Obj [(k, x)]"
| "v_set v k x = v"

fun v_remove :: "Value \<Rightarrow> string \<Rightarrow> Value" where
  "v_remove (Obj kvs) k = Obj (obj_remove k kvs)"
| "v_remove v k = v"

fun is_obj :: "Value \<Rightarrow> bool" where
  "is_obj (Obj _) = True"
| "is_obj _ = False"

text \<open>The number forms of integer literals and of the Rust integers \<open>json!\<close> is given.\<close>

definition json_int :: "int \<Rightarrow> Value" where
  "json_int n = Num (if 0 \<le> n then PosInt (word_of_int n) else NegInt (word_of_int n))"

definition json_u64 :: "u64 \<Rightarrow> Value" where
  "json_u64 n = Num (PosInt n)"

definition json_nat :: "nat \<Rightarrow> Value" where
  "json_nat n = Num (PosInt (of_nat n))"

fun json_opt :: "('a \<Rightarrow> Value) \<Rightarrow> 'a option \<Rightarrow> Value" where
  "json_opt f None = Null"
| "json_opt f (Some x) = f x"

section \<open>Strings\<close>

text \<open>The number of Unicode scalar values of a UTF-8 string: the bytes that are not continuation
  bytes (\<open>10xxxxxx\<close>).\<close>

definition is_utf8_continuation :: "char \<Rightarrow> bool" where
  "is_utf8_continuation c = (128 \<le> (of_char c :: nat) \<and> (of_char c :: nat) < 192)"

definition chars_count :: "string \<Rightarrow> nat" where
  "chars_count s = length (filter (\<lambda>c. \<not> is_utf8_continuation c) s)"

lemma chars_count_le_length: "chars_count s \<le> length s"
  by (simp add: chars_count_def)

section \<open>UUID text\<close>

record Uuid_fmt =
  parse_str :: "string \<Rightarrow> Uuid option"
  to_str :: "Uuid \<Rightarrow> string"

definition uuid_fmt_ok :: "Uuid_fmt \<Rightarrow> bool" where
  "uuid_fmt_ok f = (\<forall>u. parse_str f (to_str f u) = Some u)"

definition json_uuid :: "Uuid_fmt \<Rightarrow> Uuid \<Rightarrow> Value" where
  "json_uuid f u = Str (to_str f u)"

text \<open>\<open>value["k"].as_str().and_then(|s| s.parse::<Uuid>().ok())\<close>\<close>

definition uuid_field :: "Uuid_fmt \<Rightarrow> Value \<Rightarrow> string \<Rightarrow> Uuid option" where
  "uuid_field f v k = Option.bind (as_str (v_index v k)) (parse_str f)"

text \<open>A concrete formatting, for evaluation: the 128 bits as characters.\<close>

fun bits_of :: "nat \<Rightarrow> Uuid \<Rightarrow> string" where
  "bits_of 0 w = []"
| "bits_of (Suc n) w = (if bit w n then CHR ''1'' else CHR ''0'') # bits_of n w"

fun of_bits :: "string \<Rightarrow> Uuid option" where
  "of_bits [] = Some 0"
| "of_bits (c # cs) =
     (if c = CHR ''1'' then map_option (set_bit (length cs)) (of_bits cs)
      else if c = CHR ''0'' then of_bits cs else None)"

definition binary_fmt :: Uuid_fmt where
  "binary_fmt = \<lparr> parse_str = (\<lambda>s. if length s = 128 then of_bits s else None),
                  to_str = bits_of 128 \<rparr>"

section \<open>Lemmas\<close>

lemma v_index_simps [simp]:
  "v_index (Obj kvs) k = unwrap_or (map_of kvs k) Null"
  "v_index Null k = Null"
  "v_index (Bool b) k = Null"
  "v_index (Num n) k = Null"
  "v_index (Str s) k = Null"
  "v_index (Arr vs) k = Null"
  by (simp_all add: v_index_def)

lemma v_get_json_obj [simp]: "v_get (json_obj kvs) k = map_of kvs k"
  by (simp add: json_obj_def)

lemma v_index_json_obj [simp]: "v_index (json_obj kvs) k = unwrap_or (map_of kvs k) Null"
  by (simp add: json_obj_def)

lemma is_obj_json_obj [simp]: "is_obj (json_obj kvs)"
  by (simp add: json_obj_def)

lemma v_index_not_Null_is_obj: "v_index v k \<noteq> Null \<Longrightarrow> is_obj v"
  by (cases v) auto

lemma as_str_index_is_obj: "as_str (v_index v k) = Some s \<Longrightarrow> is_obj v"
  by (cases v) auto

lemma v_get_set [simp]: "is_obj v \<Longrightarrow> v_get (v_set v k x) j = (if j = k then Some x else v_get v j)"
  by (cases v) auto

lemma v_index_set [simp]: "is_obj v \<Longrightarrow> v_index (v_set v k x) j = (if j = k then x else v_index v j)"
  by (simp add: v_index_def)

lemma is_obj_set [simp]: "is_obj v \<Longrightarrow> is_obj (v_set v k x)"
  by (cases v) auto

lemma v_get_remove [simp]: "v_get (v_remove v k) j = (if j = k then None else v_get v j)"
  by (cases v) auto

lemma v_index_remove [simp]: "v_index (v_remove v k) j = (if j = k then Null else v_index v j)"
  by (simp add: v_index_def)

lemma is_obj_remove [simp]: "is_obj (v_remove v k) = is_obj v"
  by (cases v) auto

lemma as_str_simps [simp]:
  "as_str (json_u64 n) = None" "as_str (json_nat m) = None" "as_str (json_int i) = None"
  by (simp_all add: json_u64_def json_nat_def json_int_def)

lemma as_u64_json_u64 [simp]: "as_u64 (json_u64 n) = Some n"
  by (simp add: json_u64_def)

lemma as_i64_json_int:
  assumes "- (2 ^ 63) \<le> n" and "n < 2 ^ 63"
  shows "as_i64 (json_int n) = Some n"
proof (cases "0 \<le> n")
  case True
  with assms show ?thesis
    by (simp add: json_int_def i64_max_def uint_word_of_int take_bit_int_eq_self)
next
  case False
  with assms show ?thesis
    by (simp add: json_int_def sint_sbintrunc' signed_take_bit_int_eq_self)
qed

lemma i32_try_from_SomeD: "i32_try_from n = Some m \<Longrightarrow> m = n \<and> i32_min \<le> m \<and> m \<le> i32_max"
  by (auto simp: i32_try_from_def split: if_splits)

lemma as_i64_json_i32 [simp]:
  "i32_min \<le> n \<Longrightarrow> n \<le> i32_max \<Longrightarrow> as_i64 (json_int n) = Some n"
  by (rule as_i64_json_int) (simp_all add: i32_min_def i32_max_def)

lemma obj_insert_fresh_first:
  assumes "obj_wf kvs" and "\<forall>k' \<in> fst ` set kvs. k < k'"
  shows "obj_insert k v kvs = (k, v) # kvs"
  using assms by (cases kvs) auto

lemma obj_remove_absent: "map_of kvs k = None \<Longrightarrow> obj_remove k kvs = kvs"
  unfolding obj_remove_def by (induction kvs) (auto split: if_splits)

lemma obj_remove_insert:
  assumes "obj_wf kvs" and "map_of kvs k = None"
  shows "obj_remove k (obj_insert k v kvs) = kvs"
  using assms
proof (induction kvs)
  case Nil
  then show ?case by (simp add: obj_remove_def)
next
  case (Cons p kvs)
  obtain k' v' where p: "p = (k', v')" by force
  have tail: "obj_remove k kvs = kvs"
    by (rule obj_remove_absent) (use Cons.prems p in \<open>auto split: if_splits\<close>)
  from Cons.prems p have "k \<noteq> k'" "obj_wf kvs" "map_of kvs k = None"
    by (auto split: if_splits)
  with Cons.IH tail p show ?case
    by (auto simp: obj_remove_def)
qed

lemma v_remove_set:
  "v = Obj kvs \<Longrightarrow> obj_wf kvs \<Longrightarrow> map_of kvs k = None \<Longrightarrow> v_remove (v_set v k x) k = v"
  by (simp add: obj_remove_insert)

lemma uuid_field_json_obj:
  "map_of kvs k = Some (json_uuid f u) \<Longrightarrow> uuid_fmt_ok f \<Longrightarrow> uuid_field f (json_obj kvs) k = Some u"
  by (simp add: uuid_field_def json_uuid_def uuid_fmt_ok_def)

lemma length_bits_of [simp]: "length (bits_of n w) = n"
  by (induction n) auto

lemma of_bits_bits_of: "of_bits (bits_of n w) = Some (take_bit n w)"
proof (induction n)
  case 0
  then show ?case by simp
next
  case (Suc n)
  have on: "set_bit n (take_bit n w) = take_bit (Suc n) w" if "bit w n"
    by (rule bit_word_eqI) (use that in \<open>auto simp: bit_set_bit_iff bit_take_bit_iff less_Suc_eq\<close>)
  have off: "take_bit n w = take_bit (Suc n) w" if "\<not> bit w n"
    by (rule bit_word_eqI) (use that in \<open>auto simp: bit_take_bit_iff less_Suc_eq\<close>)
  from Suc.IH on off show ?case by simp
qed

lemma binary_fmt_ok: "uuid_fmt_ok binary_fmt"
  by (auto simp: uuid_fmt_ok_def binary_fmt_def of_bits_bits_of take_bit_word_eq_self)

end
