(* ===== verification/Protocol.thy ===== *)
theory Protocol
  imports Json
begin

text \<open>
  The shared wire vocabulary (\<open>protocol/src/modules.rs\<close>, \<open>commands.rs\<close>, \<open>lenient.rs\<close>): the module
  catalogue, the typed server commands with their payloads, their JSON form in both directions, and
  the one table that says how a command is authorized (\<open>gate\<close>).

  A payload struct is a record; its \<open>serde\<close> attributes are written out in \<open>parse_tagged\<close> (the lenient
  readers) and \<open>command_fields\<close> (fields that are \<open>None\<close> are skipped). The one floating-point field,
  \<open>StartCapture::fps\<close>, is kept as the JSON number it is read from.
\<close>

section \<open>The module catalogue\<close>

datatype Module =
    KeyboardText | IdleActivity | WindowActivity | BrowserUrls | Recall | LiveScreen | LiveAudio
  | RemoteInput | Clipboard | Files | Terminal | Scripts | SoftwareInventory | ResourceMetrics
  | SystemInfo | SystemControl | AppPolicy | NetworkPolicy | Logs

definition MODULES :: "Module list" where
  "MODULES = [KeyboardText, IdleActivity, WindowActivity, BrowserUrls, Recall, LiveScreen, LiveAudio,
     RemoteInput, Clipboard, Files, Terminal, Scripts, SoftwareInventory, ResourceMetrics,
     SystemInfo, SystemControl, AppPolicy, NetworkPolicy, Logs]"

fun module_as_str :: "Module \<Rightarrow> string" where
  "module_as_str KeyboardText = ''keyboard_text''"
| "module_as_str IdleActivity = ''idle_activity''"
| "module_as_str WindowActivity = ''window_activity''"
| "module_as_str BrowserUrls = ''browser_urls''"
| "module_as_str Recall = ''recall''"
| "module_as_str LiveScreen = ''live_screen''"
| "module_as_str LiveAudio = ''live_audio''"
| "module_as_str RemoteInput = ''remote_input''"
| "module_as_str Clipboard = ''clipboard''"
| "module_as_str Files = ''files''"
| "module_as_str Terminal = ''terminal''"
| "module_as_str Scripts = ''scripts''"
| "module_as_str SoftwareInventory = ''software_inventory''"
| "module_as_str ResourceMetrics = ''resource_metrics''"
| "module_as_str SystemInfo = ''system_info''"
| "module_as_str SystemControl = ''system_control''"
| "module_as_str AppPolicy = ''app_policy''"
| "module_as_str NetworkPolicy = ''network_policy''"
| "module_as_str Logs = ''logs''"

text \<open>The derived \<open>Serialize\<close> and \<open>Deserialize\<close> of the enum: a unit variant is its snake-case name; a
  one-entry object from that name to null is read as well.\<close>

definition json_module :: "Module \<Rightarrow> Value" where
  "json_module m = Str (module_as_str m)"

definition module_of_str :: "string \<Rightarrow> Module option" where
  "module_of_str s = map_of (map (\<lambda>m. (module_as_str m, m)) MODULES) s"

fun module_of_value :: "Value \<Rightarrow> Module option" where
  "module_of_value (Str s) = module_of_str s"
| "module_of_value (Obj [(s, Null)]) = module_of_str s"
| "module_of_value _ = None"

lemma set_MODULES: "set MODULES = UNIV"
proof -
  have "m \<in> set MODULES" for m by (cases m) (simp_all add: MODULES_def)
  then show ?thesis by auto
qed

lemma distinct_MODULES: "distinct MODULES"
  by (simp add: MODULES_def)

lemma length_MODULES [simp]: "length MODULES = 19"
  by (simp add: MODULES_def)

lemma in_MODULES [simp]: "m \<in> set MODULES"
  by (simp add: set_MODULES)

lemma module_of_str_as_str [simp]: "module_of_str (module_as_str m) = Some m"
  unfolding module_of_str_def MODULES_def by (cases m) simp_all

lemma module_as_str_inject [simp]: "module_as_str m = module_as_str m' \<longleftrightarrow> m = m'"
  by (metis module_of_str_as_str option.inject)

lemma module_of_value_json [simp]: "module_of_value (json_module m) = Some m"
  by (simp add: json_module_def)

lemma json_module_inject [simp]: "json_module m = json_module m' \<longleftrightarrow> m = m'"
  by (simp add: json_module_def)

text \<open>The derived order of the enum, by position in the declaration.\<close>

instantiation Module :: linorder
begin

definition less_eq_Module :: "Module \<Rightarrow> Module \<Rightarrow> bool" where
  "m \<le> n = (the (list_position (\<lambda>x. x = m) MODULES) \<le> the (list_position (\<lambda>x. x = n) MODULES))"

definition less_Module :: "Module \<Rightarrow> Module \<Rightarrow> bool" where
  "m < n = (the (list_position (\<lambda>x. x = m) MODULES) < the (list_position (\<lambda>x. x = n) MODULES))"

instance
proof
  fix m n k :: Module
  have some: "\<exists>i. list_position (\<lambda>x. x = m) MODULES = Some i" for m
  proof (rule ccontr)
    assume "\<not> ?thesis"
    then have "list_position (\<lambda>x. x = m) MODULES = None" by simp
    then show False unfolding list_position_None using in_MODULES [of m] by blast
  qed
  have inj: "m = n"
    if "list_position (\<lambda>x. x = m) MODULES = Some i" "list_position (\<lambda>x. x = n) MODULES = Some i" for m n i
    using list_position_SomeD [OF that(1)] list_position_SomeD [OF that(2)] by simp
  show "(m < n) = (m \<le> n \<and> \<not> n \<le> m)"
    by (auto simp: less_Module_def less_eq_Module_def)
  show "m \<le> m"
    by (simp add: less_eq_Module_def)
  show "m \<le> n \<Longrightarrow> n \<le> k \<Longrightarrow> m \<le> k"
    by (simp add: less_eq_Module_def)
  show "m \<le> n \<or> n \<le> m"
    by (auto simp: less_eq_Module_def)
  show "m \<le> n \<Longrightarrow> n \<le> m \<Longrightarrow> m = n"
  proof -
    assume le: "m \<le> n" "n \<le> m"
    obtain i j where ij: "list_position (\<lambda>x. x = m) MODULES = Some i"
      "list_position (\<lambda>x. x = n) MODULES = Some j"
      using some by blast
    from le have "i = j" by (simp add: less_eq_Module_def ij)
    with ij show "m = n" by (auto intro: inj)
  qed
qed

end

section \<open>Lenient field readers\<close>

text \<open>\<open>lenient::opt\<close> at the types the payloads use: \<open>Some\<close> only when the value has the expected JSON
  type. A missing field reads \<open>None\<close> by \<open>serde(default)\<close>.\<close>

definition opt_u64 :: "Value \<Rightarrow> string \<Rightarrow> u64 option" where
  "opt_u64 v k = Option.bind (v_get v k) as_u64"

definition opt_bool :: "Value \<Rightarrow> string \<Rightarrow> bool option" where
  "opt_bool v k = Option.bind (v_get v k) as_bool"

definition opt_string :: "Value \<Rightarrow> string \<Rightarrow> string option" where
  "opt_string v k = Option.bind (v_get v k) as_str"

definition opt_module :: "Value \<Rightarrow> string \<Rightarrow> Module option" where
  "opt_module v k = Option.bind (v_get v k) module_of_value"

fun as_number :: "Value \<Rightarrow> Number option" where
  "as_number (Num n) = Some n"
| "as_number _ = None"

definition opt_number :: "Value \<Rightarrow> string \<Rightarrow> Number option" where
  "opt_number v k = Option.bind (v_get v k) as_number"

text \<open>\<open>lenient::string\<close>, \<open>present\<close>, \<open>array\<close> and \<open>uuid\<close>.\<close>

definition lenient_string :: "Value \<Rightarrow> string \<Rightarrow> string" where
  "lenient_string v k = unwrap_or (opt_string v k) ''''"

definition present_u64 :: "Value \<Rightarrow> string \<Rightarrow> u64 option option" where
  "present_u64 v k = map_option as_u64 (v_get v k)"

definition present_number :: "Value \<Rightarrow> string \<Rightarrow> Number option option" where
  "present_number v k = map_option as_number (v_get v k)"

definition lenient_array :: "Value \<Rightarrow> string \<Rightarrow> Value list" where
  "lenient_array v k = unwrap_or (Option.bind (v_get v k) as_array) []"

definition lenient_uuid :: "Uuid_fmt \<Rightarrow> Value \<Rightarrow> string \<Rightarrow> Uuid option" where
  "lenient_uuid f v k = Option.bind (opt_string v k) (parse_str f)"

text \<open>The readers agent messages use: \<open>i64_or_zero\<close>, \<open>i64_wrap_or_zero\<close> (an \<open>u64\<close> beyond the range
  wraps) and \<open>trimmed_non_empty\<close>.\<close>

definition i64_or_zero :: "Value \<Rightarrow> string \<Rightarrow> int" where
  "i64_or_zero v k = unwrap_or (Option.bind (v_get v k) as_i64) 0"

definition i64_wrap_or_zero :: "Value \<Rightarrow> int" where
  "i64_wrap_or_zero v =
     (case as_i64 v of Some n \<Rightarrow> n
      | None \<Rightarrow> (case as_u64 v of Some u \<Rightarrow> sint u | None \<Rightarrow> 0))"

section \<open>Command payloads\<close>

record DisableModule =
  dm_module :: "Module option"
  dm_expected_revision :: "u64 option"
  dm_command_id :: "Uuid option"

record HistoryFrameAck =
  hfa_uid :: string
  hfa_rejected :: "bool option"
  hfa_reason :: "string option"

record ClipboardRequest =
  cr_request_id :: "Uuid option"

record ClipboardWrite =
  cw_request_id :: "Uuid option"
  cw_text :: "string option"

record TerminalSize =
  ts_session_id :: "Uuid option"
  ts_cols :: "u64 option"
  ts_rows :: "u64 option"

record TerminalInput =
  ti_session_id :: "Uuid option"
  ti_data :: "string option"

record TerminalSession =
  tss_session_id :: "Uuid option"

record SetAutoUpdate =
  sau_enabled :: "bool option"

record SetNetworkPolicy =
  snp_blocked :: "bool option"

record BlockRules =
  br_rules :: "Value list"

record SetRecallSettings =
  srs_settings :: Value

record StartCapture =
  sc_jpeg_quality :: "u64 option option"
  sc_jpeg_q :: "u64 option option"
  sc_interval_ms :: "Number option option"
  sc_fps :: "Number option"
  sc_monitor :: "u64 option option"
  sc_monitor_index :: "u64 option option"

record ListLogSources =
  lls_request_id :: string

record ReadLogTail =
  rlt_request_id :: string
  rlt_kind :: "string option"
  rlt_max_kb :: "u64 option"

record FilePath =
  fp_path :: string

record Mkdir =
  mk_request_id :: string
  mk_path :: string
  mk_name :: string

record PathPair =
  pp_request_id :: string
  pp_src :: string
  pp_dst :: string

record DeletePath =
  dp_request_id :: string
  dp_path :: string
  dp_recursive :: "bool option"

record WriteFileChunk =
  wfc_path :: string
  wfc_total_chunks :: "u64 option"
  wfc_chunk_index :: "u64 option"
  wfc_data :: string

record RunScript =
  rs_request_id :: string
  rs_shell :: "string option"
  rs_script :: string
  rs_timeout_secs :: "u64 option"

section \<open>Commands\<close>

datatype ServerCommand =
    AgentDeleted
  | AgentCredentialsRevoked
  | DisableModule DisableModule
  | HistoryFrameAck HistoryFrameAck
  | ClipboardRead ClipboardRequest
  | ClipboardWrite ClipboardWrite
  | ClipboardCancel ClipboardRequest
  | TerminalStart TerminalSize
  | TerminalInput TerminalInput
  | TerminalResize TerminalSize
  | TerminalClose TerminalSession
  | RequestInfo
  | CollectSoftware
  | LockHost
  | RestartHost
  | ShutdownHost
  | UpdateNow
  | SetAutoUpdate SetAutoUpdate
  | SetNetworkPolicy SetNetworkPolicy
  | SetInternetBlockRules BlockRules
  | SetRecallSettings SetRecallSettings
  | SetAppBlockRules BlockRules
  | StartCapture StartCapture
  | StopCapture
  | StartAudio
  | StopAudio
  | ListLogSources ListLogSources
  | ReadLogTail ReadLogTail
  | ListDir FilePath
  | ReadFile FilePath
  | WriteFileChunk WriteFileChunk
  | Mkdir Mkdir
  | RenamePath PathPair
  | DeletePath DeletePath
  | CopyPath PathPair
  | RunScript RunScript
  | MouseMove
  | MouseClick
  | MouseDoubleClick
  | MouseDown
  | MouseUp
  | MouseScroll
  | Scroll
  | KeyDown
  | KeyUp
  | KeyPress
  | KeyChar
  | TypeText
  | Notify
  | Unknown

text \<open>The constructors of the payloads the server builds.\<close>

definition DisableModule_new :: "Module \<Rightarrow> u64 \<Rightarrow> Uuid \<Rightarrow> DisableModule" where
  "DisableModule_new m r c =
     \<lparr> dm_module = Some m, dm_expected_revision = Some r, dm_command_id = Some c \<rparr>"

definition HistoryFrameAck_accepted :: "string \<Rightarrow> HistoryFrameAck" where
  "HistoryFrameAck_accepted u = \<lparr> hfa_uid = u, hfa_rejected = None, hfa_reason = None \<rparr>"

definition HistoryFrameAck_rejected :: "string \<Rightarrow> string \<Rightarrow> HistoryFrameAck" where
  "HistoryFrameAck_rejected u r = \<lparr> hfa_uid = u, hfa_rejected = Some True, hfa_reason = Some r \<rparr>"

definition ClipboardRequest_new :: "Uuid \<Rightarrow> ClipboardRequest" where
  "ClipboardRequest_new i = \<lparr> cr_request_id = Some i \<rparr>"

definition ClipboardWrite_new :: "Uuid \<Rightarrow> string \<Rightarrow> ClipboardWrite" where
  "ClipboardWrite_new i t = \<lparr> cw_request_id = Some i, cw_text = Some t \<rparr>"

definition StartCapture_default :: StartCapture where
  "StartCapture_default = \<lparr> sc_jpeg_quality = None, sc_jpeg_q = None, sc_interval_ms = None,
     sc_fps = None, sc_monitor = None, sc_monitor_index = None \<rparr>"

definition StartCapture_new :: "u32 option \<Rightarrow> u8 \<Rightarrow> u32 \<Rightarrow> StartCapture" where
  "StartCapture_new m q i = StartCapture_default
     \<lparr> sc_jpeg_quality := Some (Some (ucast q)),
       sc_interval_ms := Some (Some (PosInt (ucast i))),
       sc_monitor := Some (map_option ucast m) \<rparr>"

subsection \<open>The wire names\<close>

fun command_tag :: "ServerCommand \<Rightarrow> string" where
  "command_tag AgentDeleted = ''agent_deleted''"
| "command_tag AgentCredentialsRevoked = ''agent_credentials_revoked''"
| "command_tag (DisableModule _) = ''disable_module''"
| "command_tag (HistoryFrameAck _) = ''history_frame_ack''"
| "command_tag (ClipboardRead _) = ''ClipboardRead''"
| "command_tag (ClipboardWrite _) = ''ClipboardWrite''"
| "command_tag (ClipboardCancel _) = ''ClipboardCancel''"
| "command_tag (TerminalStart _) = ''TerminalStart''"
| "command_tag (TerminalInput _) = ''TerminalInput''"
| "command_tag (TerminalResize _) = ''TerminalResize''"
| "command_tag (TerminalClose _) = ''TerminalClose''"
| "command_tag RequestInfo = ''RequestInfo''"
| "command_tag CollectSoftware = ''CollectSoftware''"
| "command_tag LockHost = ''LockHost''"
| "command_tag RestartHost = ''RestartHost''"
| "command_tag ShutdownHost = ''ShutdownHost''"
| "command_tag UpdateNow = ''update_now''"
| "command_tag (SetAutoUpdate _) = ''set_auto_update''"
| "command_tag (SetNetworkPolicy _) = ''set_network_policy''"
| "command_tag (SetInternetBlockRules _) = ''set_internet_block_rules''"
| "command_tag (SetRecallSettings _) = ''set_recall_settings''"
| "command_tag (SetAppBlockRules _) = ''set_app_block_rules''"
| "command_tag (StartCapture _) = ''start_capture''"
| "command_tag StopCapture = ''stop_capture''"
| "command_tag StartAudio = ''start_audio''"
| "command_tag StopAudio = ''stop_audio''"
| "command_tag (ListLogSources _) = ''ListLogSources''"
| "command_tag (ReadLogTail _) = ''ReadLogTail''"
| "command_tag (ListDir _) = ''ListDir''"
| "command_tag (ReadFile _) = ''ReadFile''"
| "command_tag (WriteFileChunk _) = ''WriteFileChunk''"
| "command_tag (Mkdir _) = ''Mkdir''"
| "command_tag (RenamePath _) = ''RenamePath''"
| "command_tag (DeletePath _) = ''DeletePath''"
| "command_tag (CopyPath _) = ''CopyPath''"
| "command_tag (RunScript _) = ''RunScript''"
| "command_tag MouseMove = ''MouseMove''"
| "command_tag MouseClick = ''MouseClick''"
| "command_tag MouseDoubleClick = ''MouseDoubleClick''"
| "command_tag MouseDown = ''MouseDown''"
| "command_tag MouseUp = ''MouseUp''"
| "command_tag MouseScroll = ''MouseScroll''"
| "command_tag Scroll = ''Scroll''"
| "command_tag KeyDown = ''KeyDown''"
| "command_tag KeyUp = ''KeyUp''"
| "command_tag KeyPress = ''KeyPress''"
| "command_tag KeyChar = ''KeyChar''"
| "command_tag TypeText = ''TypeText''"
| "command_tag Notify = ''Notify''"
| "command_tag Unknown = ''Unknown''"

subsection \<open>Parsing\<close>

text \<open>\<open>serde\<close>'s internally tagged form: the variant named by the string under \<open>type\<close>, each payload
  field read by its lenient reader; \<open>serde(other)\<close> maps every other name to \<open>Unknown\<close>, and \<open>parse\<close> a
  frame with no string \<open>type\<close> too. Frames are objects: both sides read \<open>type\<close> as a string field first.\<close>

definition parse_tagged :: "Uuid_fmt \<Rightarrow> string \<Rightarrow> Value \<Rightarrow> ServerCommand" where
  "parse_tagged f kind v =
    (let request = \<lparr> cr_request_id = lenient_uuid f v ''request_id'' \<rparr>;
         term_size = \<lparr> ts_session_id = lenient_uuid f v ''session_id'',
                       ts_cols = opt_u64 v ''cols'', ts_rows = opt_u64 v ''rows'' \<rparr>;
         rules = \<lparr> br_rules = lenient_array v ''rules'' \<rparr>;
         file_path = \<lparr> fp_path = lenient_string v ''path'' \<rparr>;
         path_pair = \<lparr> pp_request_id = lenient_string v ''request_id'',
                       pp_src = lenient_string v ''src'', pp_dst = lenient_string v ''dst'' \<rparr>
     in
     if kind = ''agent_deleted'' then AgentDeleted
     else if kind = ''agent_credentials_revoked'' then AgentCredentialsRevoked
     else if kind = ''disable_module'' then DisableModule
       \<lparr> dm_module = opt_module v ''module'', dm_expected_revision = opt_u64 v ''expected_revision'',
         dm_command_id = lenient_uuid f v ''command_id'' \<rparr>
     else if kind = ''history_frame_ack'' then HistoryFrameAck
       \<lparr> hfa_uid = lenient_string v ''uid'', hfa_rejected = opt_bool v ''rejected'',
         hfa_reason = opt_string v ''reason'' \<rparr>
     else if kind = ''ClipboardRead'' then ClipboardRead request
     else if kind = ''ClipboardWrite'' then ClipboardWrite
       \<lparr> cw_request_id = lenient_uuid f v ''request_id'', cw_text = opt_string v ''text'' \<rparr>
     else if kind = ''ClipboardCancel'' then ClipboardCancel request
     else if kind = ''TerminalStart'' then TerminalStart term_size
     else if kind = ''TerminalInput'' then TerminalInput
       \<lparr> ti_session_id = lenient_uuid f v ''session_id'', ti_data = opt_string v ''data'' \<rparr>
     else if kind = ''TerminalResize'' then TerminalResize term_size
     else if kind = ''TerminalClose'' then TerminalClose
       \<lparr> tss_session_id = lenient_uuid f v ''session_id'' \<rparr>
     else if kind = ''RequestInfo'' then RequestInfo
     else if kind = ''CollectSoftware'' then CollectSoftware
     else if kind = ''LockHost'' then LockHost
     else if kind = ''RestartHost'' then RestartHost
     else if kind = ''ShutdownHost'' then ShutdownHost
     else if kind = ''update_now'' then UpdateNow
     else if kind = ''set_auto_update'' then SetAutoUpdate \<lparr> sau_enabled = opt_bool v ''enabled'' \<rparr>
     else if kind = ''set_network_policy'' then SetNetworkPolicy \<lparr> snp_blocked = opt_bool v ''blocked'' \<rparr>
     else if kind = ''set_internet_block_rules'' then SetInternetBlockRules rules
     else if kind = ''set_recall_settings'' then
       SetRecallSettings \<lparr> srs_settings = unwrap_or (v_get v ''settings'') Null \<rparr>
     else if kind = ''set_app_block_rules'' then SetAppBlockRules rules
     else if kind = ''start_capture'' then StartCapture
       \<lparr> sc_jpeg_quality = present_u64 v ''jpeg_quality'', sc_jpeg_q = present_u64 v ''jpeg_q'',
         sc_interval_ms = present_number v ''interval_ms'', sc_fps = opt_number v ''fps'',
         sc_monitor = present_u64 v ''monitor'', sc_monitor_index = present_u64 v ''monitor_index'' \<rparr>
     else if kind = ''stop_capture'' then StopCapture
     else if kind = ''start_audio'' then StartAudio
     else if kind = ''stop_audio'' then StopAudio
     else if kind = ''ListLogSources'' then ListLogSources \<lparr> lls_request_id = lenient_string v ''request_id'' \<rparr>
     else if kind = ''ReadLogTail'' then ReadLogTail
       \<lparr> rlt_request_id = lenient_string v ''request_id'', rlt_kind = opt_string v ''kind'',
         rlt_max_kb = opt_u64 v ''max_kb'' \<rparr>
     else if kind = ''ListDir'' then ListDir file_path
     else if kind = ''ReadFile'' then ReadFile file_path
     else if kind = ''WriteFileChunk'' then WriteFileChunk
       \<lparr> wfc_path = lenient_string v ''path'', wfc_total_chunks = opt_u64 v ''total_chunks'',
         wfc_chunk_index = opt_u64 v ''chunk_index'', wfc_data = lenient_string v ''data'' \<rparr>
     else if kind = ''Mkdir'' then Mkdir
       \<lparr> mk_request_id = lenient_string v ''request_id'', mk_path = lenient_string v ''path'',
         mk_name = lenient_string v ''name'' \<rparr>
     else if kind = ''RenamePath'' then RenamePath path_pair
     else if kind = ''DeletePath'' then DeletePath
       \<lparr> dp_request_id = lenient_string v ''request_id'', dp_path = lenient_string v ''path'',
         dp_recursive = opt_bool v ''recursive'' \<rparr>
     else if kind = ''CopyPath'' then CopyPath path_pair
     else if kind = ''RunScript'' then RunScript
       \<lparr> rs_request_id = lenient_string v ''request_id'', rs_shell = opt_string v ''shell'',
         rs_script = lenient_string v ''script'', rs_timeout_secs = opt_u64 v ''timeout_secs'' \<rparr>
     else if kind = ''MouseMove'' then MouseMove
     else if kind = ''MouseClick'' then MouseClick
     else if kind = ''MouseDoubleClick'' then MouseDoubleClick
     else if kind = ''MouseDown'' then MouseDown
     else if kind = ''MouseUp'' then MouseUp
     else if kind = ''MouseScroll'' then MouseScroll
     else if kind = ''Scroll'' then Scroll
     else if kind = ''KeyDown'' then KeyDown
     else if kind = ''KeyUp'' then KeyUp
     else if kind = ''KeyPress'' then KeyPress
     else if kind = ''KeyChar'' then KeyChar
     else if kind = ''TypeText'' then TypeText
     else if kind = ''Notify'' then Notify
     else Unknown)"

definition parse :: "Uuid_fmt \<Rightarrow> Value \<Rightarrow> ServerCommand" where
  "parse f v = (case as_str (v_index v ''type'') of None \<Rightarrow> Unknown | Some kind \<Rightarrow> parse_tagged f kind v)"

definition from_kind :: "Uuid_fmt \<Rightarrow> string \<Rightarrow> ServerCommand" where
  "from_kind f kind = parse f (json_obj [(''type'', Str kind)])"

subsection \<open>Serializing\<close>

definition opt_field :: "string \<Rightarrow> ('a \<Rightarrow> Value) \<Rightarrow> 'a option \<Rightarrow> (string \<times> Value) list" where
  "opt_field k g x = (case x of None \<Rightarrow> [] | Some a \<Rightarrow> [(k, g a)])"

fun command_fields :: "Uuid_fmt \<Rightarrow> ServerCommand \<Rightarrow> (string \<times> Value) list" where
  "command_fields f (DisableModule p) =
     opt_field ''module'' json_module (dm_module p)
     @ opt_field ''expected_revision'' json_u64 (dm_expected_revision p)
     @ opt_field ''command_id'' (json_uuid f) (dm_command_id p)"
| "command_fields f (HistoryFrameAck p) =
     (''uid'', Str (hfa_uid p))
     # opt_field ''rejected'' Bool (hfa_rejected p) @ opt_field ''reason'' Str (hfa_reason p)"
| "command_fields f (ClipboardRead p) = opt_field ''request_id'' (json_uuid f) (cr_request_id p)"
| "command_fields f (ClipboardWrite p) =
     opt_field ''request_id'' (json_uuid f) (cw_request_id p) @ opt_field ''text'' Str (cw_text p)"
| "command_fields f (ClipboardCancel p) = opt_field ''request_id'' (json_uuid f) (cr_request_id p)"
| "command_fields f (TerminalStart p) =
     opt_field ''session_id'' (json_uuid f) (ts_session_id p)
     @ opt_field ''cols'' json_u64 (ts_cols p) @ opt_field ''rows'' json_u64 (ts_rows p)"
| "command_fields f (TerminalInput p) =
     opt_field ''session_id'' (json_uuid f) (ti_session_id p) @ opt_field ''data'' Str (ti_data p)"
| "command_fields f (TerminalResize p) =
     opt_field ''session_id'' (json_uuid f) (ts_session_id p)
     @ opt_field ''cols'' json_u64 (ts_cols p) @ opt_field ''rows'' json_u64 (ts_rows p)"
| "command_fields f (TerminalClose p) = opt_field ''session_id'' (json_uuid f) (tss_session_id p)"
| "command_fields f (SetAutoUpdate p) = opt_field ''enabled'' Bool (sau_enabled p)"
| "command_fields f (SetNetworkPolicy p) = opt_field ''blocked'' Bool (snp_blocked p)"
| "command_fields f (SetInternetBlockRules p) = [(''rules'', Arr (br_rules p))]"
| "command_fields f (SetRecallSettings p) = [(''settings'', srs_settings p)]"
| "command_fields f (SetAppBlockRules p) = [(''rules'', Arr (br_rules p))]"
| "command_fields f (StartCapture p) =
     opt_field ''jpeg_quality'' (json_opt json_u64) (sc_jpeg_quality p)
     @ opt_field ''jpeg_q'' (json_opt json_u64) (sc_jpeg_q p)
     @ opt_field ''interval_ms'' (json_opt Num) (sc_interval_ms p)
     @ opt_field ''fps'' Num (sc_fps p)
     @ opt_field ''monitor'' (json_opt json_u64) (sc_monitor p)
     @ opt_field ''monitor_index'' (json_opt json_u64) (sc_monitor_index p)"
| "command_fields f (ListLogSources p) = [(''request_id'', Str (lls_request_id p))]"
| "command_fields f (ReadLogTail p) =
     (''request_id'', Str (rlt_request_id p))
     # opt_field ''kind'' Str (rlt_kind p) @ opt_field ''max_kb'' json_u64 (rlt_max_kb p)"
| "command_fields f (ListDir p) = [(''path'', Str (fp_path p))]"
| "command_fields f (ReadFile p) = [(''path'', Str (fp_path p))]"
| "command_fields f (WriteFileChunk p) =
     (''path'', Str (wfc_path p)) # (''data'', Str (wfc_data p))
     # opt_field ''total_chunks'' json_u64 (wfc_total_chunks p)
     @ opt_field ''chunk_index'' json_u64 (wfc_chunk_index p)"
| "command_fields f (Mkdir p) =
     [(''request_id'', Str (mk_request_id p)), (''path'', Str (mk_path p)), (''name'', Str (mk_name p))]"
| "command_fields f (RenamePath p) =
     [(''request_id'', Str (pp_request_id p)), (''src'', Str (pp_src p)), (''dst'', Str (pp_dst p))]"
| "command_fields f (DeletePath p) =
     (''request_id'', Str (dp_request_id p)) # (''path'', Str (dp_path p))
     # opt_field ''recursive'' Bool (dp_recursive p)"
| "command_fields f (CopyPath p) =
     [(''request_id'', Str (pp_request_id p)), (''src'', Str (pp_src p)), (''dst'', Str (pp_dst p))]"
| "command_fields f (RunScript p) =
     (''request_id'', Str (rs_request_id p)) # (''script'', Str (rs_script p))
     # opt_field ''shell'' Str (rs_shell p) @ opt_field ''timeout_secs'' json_u64 (rs_timeout_secs p)"
| "command_fields f _ = []"

definition to_value :: "Uuid_fmt \<Rightarrow> ServerCommand \<Rightarrow> Value" where
  "to_value f c = json_obj ((''type'', Str (command_tag c)) # command_fields f c)"

section \<open>Authorization\<close>

datatype Gate = GateModule Module | GateProtocol | GateDisableModule | GateDenied

fun gate :: "ServerCommand \<Rightarrow> Gate" where
  "gate (StartCapture _) = GateModule LiveScreen"
| "gate StartAudio = GateModule LiveAudio"
| "gate (ClipboardRead _) = GateModule Clipboard"
| "gate (ClipboardWrite _) = GateModule Clipboard"
| "gate MouseMove = GateModule RemoteInput"
| "gate MouseClick = GateModule RemoteInput"
| "gate MouseDoubleClick = GateModule RemoteInput"
| "gate MouseDown = GateModule RemoteInput"
| "gate MouseUp = GateModule RemoteInput"
| "gate MouseScroll = GateModule RemoteInput"
| "gate Scroll = GateModule RemoteInput"
| "gate KeyDown = GateModule RemoteInput"
| "gate KeyUp = GateModule RemoteInput"
| "gate KeyPress = GateModule RemoteInput"
| "gate KeyChar = GateModule RemoteInput"
| "gate TypeText = GateModule RemoteInput"
| "gate Notify = GateModule RemoteInput"
| "gate (TerminalStart _) = GateModule Terminal"
| "gate (TerminalInput _) = GateModule Terminal"
| "gate (TerminalResize _) = GateModule Terminal"
| "gate (RunScript _) = GateModule Scripts"
| "gate (ListDir _) = GateModule Files"
| "gate (ReadFile _) = GateModule Files"
| "gate (WriteFileChunk _) = GateModule Files"
| "gate (Mkdir _) = GateModule Files"
| "gate (RenamePath _) = GateModule Files"
| "gate (DeletePath _) = GateModule Files"
| "gate (CopyPath _) = GateModule Files"
| "gate CollectSoftware = GateModule SoftwareInventory"
| "gate RequestInfo = GateModule SystemInfo"
| "gate LockHost = GateModule SystemControl"
| "gate RestartHost = GateModule SystemControl"
| "gate ShutdownHost = GateModule SystemControl"
| "gate (SetAppBlockRules _) = GateModule AppPolicy"
| "gate (SetNetworkPolicy _) = GateModule NetworkPolicy"
| "gate (SetInternetBlockRules _) = GateModule NetworkPolicy"
| "gate (ListLogSources _) = GateModule Logs"
| "gate (ReadLogTail _) = GateModule Logs"
| "gate (DisableModule _) = GateDisableModule"
| "gate AgentDeleted = GateProtocol"
| "gate AgentCredentialsRevoked = GateProtocol"
| "gate (HistoryFrameAck _) = GateProtocol"
| "gate (ClipboardCancel _) = GateProtocol"
| "gate (TerminalClose _) = GateProtocol"
| "gate UpdateNow = GateProtocol"
| "gate (SetAutoUpdate _) = GateProtocol"
| "gate (SetRecallSettings _) = GateProtocol"
| "gate StopCapture = GateProtocol"
| "gate StopAudio = GateProtocol"
| "gate Unknown = GateDenied"

definition module_of_command :: "ServerCommand \<Rightarrow> Module option" where
  "module_of_command c = (case gate c of GateModule m \<Rightarrow> Some m | _ \<Rightarrow> None)"

section \<open>Lemmas\<close>

lemma opt_field_simps [simp]:
  "opt_field k g None = []"
  "opt_field k g (Some a) = [(k, g a)]"
  by (simp_all add: opt_field_def)

lemma map_of_opt_field [simp]: "map_of (opt_field k g x) j = (if j = k then map_option g x else None)"
  by (cases x) auto

lemma map_add_opt_field [simp]:
  "(m ++ map_of (opt_field k g x)) j = (if j = k then (if x = None then m j else map_option g x) else m j)"
  by (cases x) auto

lemma if_some_map_option [simp]: "(if x = None then None else map_option g x) = map_option g x"
  by (cases x) auto

lemma as_u64_json_opt [simp]: "as_u64 (json_opt json_u64 x) = x"
  by (cases x) auto

lemma as_number_json_opt [simp]: "as_number (json_opt Num x) = x"
  by (cases x) auto

lemma map_option_json_opt [simp]:
  "map_option as_u64 (map_option (json_opt json_u64) y) = y"
  "map_option as_number (map_option (json_opt Num) z) = z"
  by (cases y; simp) (cases z; simp)

lemmas lenient_defs = opt_u64_def opt_bool_def opt_string_def opt_module_def opt_number_def
  lenient_string_def present_u64_def present_number_def lenient_array_def lenient_uuid_def

text \<open>The tag of a parsed command is the tag it was read under.\<close>

definition tagged_as :: "string \<Rightarrow> ServerCommand \<Rightarrow> bool" where
  "tagged_as kind c \<longleftrightarrow> c = Unknown \<or> command_tag c = kind"

lemma tagged_as_if: "(b \<Longrightarrow> tagged_as kind c) \<Longrightarrow> tagged_as kind c' \<Longrightarrow> tagged_as kind (if b then c else c')"
  by simp

lemma tagged_as_tag: "kind = k \<Longrightarrow> command_tag c = k \<Longrightarrow> tagged_as kind c"
  by (simp add: tagged_as_def)

lemma parse_tagged_as: "tagged_as kind (parse_tagged f kind v)"
  unfolding parse_tagged_def Let_def
  by (intro tagged_as_if) (erule tagged_as_tag, simp only: command_tag.simps, simp add: tagged_as_def)+

lemma from_kind_tag: "from_kind f kind \<noteq> Unknown \<Longrightarrow> command_tag (from_kind f kind) = kind"
  using parse_tagged_as [of kind f "json_obj [(''type'', Str kind)]"]
  by (simp add: from_kind_def parse_def tagged_as_def)

text \<open>Which module gates a command depends on its \<open>type\<close> alone: the server, which looks the bare
  string up, and the agent, which has parsed the whole frame, read the same row of the table.\<close>

definition same_gate :: "ServerCommand \<Rightarrow> ServerCommand \<Rightarrow> bool" where
  "same_gate c c' \<longleftrightarrow> gate c = gate c'"

lemma same_gate_if:
  "same_gate c d \<Longrightarrow> same_gate c' d' \<Longrightarrow> same_gate (if b then c else c') (if b then d else d')"
  by simp

lemma parse_tagged_same_gate: "same_gate (parse_tagged f kind v) (parse_tagged f' kind v')"
  unfolding parse_tagged_def Let_def
  by (intro same_gate_if) (simp_all only: same_gate_def gate.simps)

lemma parse_gate:
  "gate (parse f v) =
     (case as_str (v_index v ''type'') of None \<Rightarrow> GateDenied | Some kind \<Rightarrow> gate (from_kind f' kind))"
  using parse_tagged_same_gate [unfolded same_gate_def]
  by (auto simp: parse_def from_kind_def split: option.splits)

lemma from_kind_gate_fmt: "gate (from_kind f kind) = gate (from_kind f' kind)"
  using parse_tagged_same_gate [unfolded same_gate_def] by (simp add: from_kind_def parse_def)

text \<open>
  C29. Every typed server command survives the wire: parsing the JSON object a command serializes to
  gives the same command back, every payload field included.
\<close>

theorem parse_to_value:
  assumes "uuid_fmt_ok f"
  shows "parse f (to_value f c) = c"
proof -
  have "parse_tagged f (command_tag c) (to_value f c) = c"
    using assms
    by (cases c) (simp_all add: parse_tagged_def to_value_def lenient_defs json_uuid_def uuid_fmt_ok_def
        Option.bind_map_option comp_def option.case_eq_if)
  then show ?thesis by (simp add: parse_def to_value_def)
qed

theorem parse_to_value_witness:
  "uuid_fmt_ok binary_fmt \<and> parse binary_fmt (to_value binary_fmt (ClipboardWrite (ClipboardWrite_new 21 ''hi''))) =
     ClipboardWrite (ClipboardWrite_new 21 ''hi'')"
  using parse_to_value [OF binary_fmt_ok] binary_fmt_ok by simp

end
