(* ===== verification/Sessions.thy ===== *)
theory Sessions
  imports Protocol
begin

text \<open>
  Exclusive remote-input leases (\<open>server/src/control/sessions.rs\<close>): at most one lease per agent, bound
  to a viewer connection, a user and an agent connection, with a deadline, and the keys and mouse
  buttons its owner holds down, so that tearing the lease down can release them.

  Every method of \<open>ControlSessions\<close> is a definition that takes the sessions and returns its result with
  the new sessions; the token \<open>acquire\<close> draws is its argument \<open>fresh\<close>.
\<close>

unbundle bit_operations_syntax

section \<open>Constants\<close>

definition DEFAULT_LEASE_TTL :: Duration where "DEFAULT_LEASE_TTL = from_secs 15"
definition MIN_LEASE_TTL :: Duration where "MIN_LEASE_TTL = from_secs 1"
definition MAX_LEASE_TTL :: Duration where "MAX_LEASE_TTL = from_secs 30"

definition HELD_KEYS :: "string list" where
  "HELD_KEYS = [''enter'', ''backspace'', ''tab'', ''escape'', ''delete'', ''insert'', ''space'', ''home'',
     ''end'', ''pageup'', ''pagedown'', ''arrowup'', ''arrowdown'', ''arrowleft'', ''arrowright'',
     ''f1'', ''f2'', ''f3'', ''f4'', ''f5'', ''f6'', ''f7'', ''f8'', ''f9'', ''f10'', ''f11'', ''f12'',
     ''control'', ''alt'', ''shift'', ''meta'', ''capslock'']"

definition BUTTONS :: "string list" where
  "BUTTONS = [''left'', ''right'', ''middle'']"

definition tracked_key :: "string \<Rightarrow> bool" where
  "tracked_key k = (k \<in> set HELD_KEYS)"

definition is_cleanup_command :: "Value \<Rightarrow> bool" where
  "is_cleanup_command command =
     (let key_ok = is_some_and (as_str (v_index command ''key'')) tracked_key;
          button_ok = is_some_and (as_str (v_index command ''button'')) (\<lambda>b. b \<in> set BUTTONS)
      in case as_str (v_index command ''type'') of
           None \<Rightarrow> False
         | Some kind \<Rightarrow>
             if kind = ''KeyUp'' then key_ok
             else if kind = ''MouseUp'' then
               button_ok \<and> list_all (\<lambda>k. is_some_and (as_i64 (v_index command k))
                                          (\<lambda>n. i32_try_from n \<noteq> None)) [''x'', ''y'']
             else False)"

section \<open>State\<close>

record LeaseOwner =
  viewer_connection_id :: Uuid
  owner_user_id :: Uuid
  agent_connection_id :: Uuid

record LeaseGrant =
  grant_token :: Uuid
  grant_owner :: LeaseOwner
  expires_at :: Instant

definition remaining :: "LeaseGrant \<Rightarrow> Instant \<Rightarrow> Duration" where
  "remaining g now = duration_since (expires_at g) now"

datatype LeaseError = Conflict LeaseOwner | Missing | Expired | Mismatch | InvalidHeldInput

datatype TeardownReason = Released | TeardownExpired | ViewerDisconnected | AgentDisconnected

record LeaseCleanup =
  cleanup_token :: Uuid
  cleanup_agent_id :: Uuid
  cleanup_owner :: LeaseOwner
  cleanup_reason :: TeardownReason
  cleanup_commands :: "Value list"

record 'a Transition =
  result :: "('a, LeaseError) Result"
  cleanup :: "LeaseCleanup list"

record HeldInput =
  keys :: u64
  buttons :: "(int \<times> int) option list"

record Lease =
  grant :: LeaseGrant
  held :: HeldInput

record ControlSessions =
  leases :: "(Uuid, Lease) HashMap"

definition HeldInput_default :: HeldInput where
  "HeldInput_default = \<lparr> keys = 0, buttons = [None, None, None] \<rparr>"

definition ControlSessions_default :: ControlSessions where
  "ControlSessions_default = \<lparr> leases = [] \<rparr>"

section \<open>Held input\<close>

definition HeldInput_position :: "Value \<Rightarrow> (int \<times> int, LeaseError) Result" where
  "HeldInput_position cmd =
     (let parse = (\<lambda>name. Option.bind (as_i64 (v_index cmd name)) i32_try_from)
      in case (parse ''x'', parse ''y'') of
           (Some x, Some y) \<Rightarrow> Ok (x, y)
         | _ \<Rightarrow> Err InvalidHeldInput)"

definition HeldInput_button :: "Value \<Rightarrow> (nat, LeaseError) Result" where
  "HeldInput_button cmd =
     (case (case v_get cmd ''button'' of
              None \<Rightarrow> Ok ''left''
            | Some v \<Rightarrow> ok_or (as_str v) InvalidHeldInput) of
        Inl e \<Rightarrow> Err e
      | Inr button \<Rightarrow> ok_or (list_position (\<lambda>b. b = button) BUTTONS) InvalidHeldInput)"

text \<open>\<open>for held in self.buttons.iter_mut().flatten() { *held = point; }\<close>\<close>

definition move_held :: "int \<times> int \<Rightarrow> (int \<times> int) option list \<Rightarrow> (int \<times> int) option list" where
  "move_held point bs = map (map_option (\<lambda>_. point)) bs"

definition track :: "HeldInput \<Rightarrow> Value \<Rightarrow> (unit, LeaseError) Result \<times> HeldInput" where
  "track h cmd =
     (case as_str (v_index cmd ''type'') of
        None \<Rightarrow> (Ok (), h)
      | Some kind \<Rightarrow>
          if kind = ''KeyDown'' \<or> kind = ''KeyUp'' then
            (case as_str (v_index cmd ''key'') of
               None \<Rightarrow> (Err InvalidHeldInput, h)
             | Some key \<Rightarrow>
                 (case list_position (\<lambda>k. k = key) HELD_KEYS of
                    None \<Rightarrow> (Err InvalidHeldInput, h)
                  | Some index \<Rightarrow>
                      (Ok (), if kind = ''KeyDown'' then h\<lparr>keys := keys h OR push_bit index 1\<rparr>
                              else h\<lparr>keys := keys h AND NOT (push_bit index 1)\<rparr>)))
          else if kind = ''MouseDown'' \<or> kind = ''MouseUp'' then
            (case HeldInput_button cmd of
               Inl e \<Rightarrow> (Err e, h)
             | Inr button \<Rightarrow>
                 (case HeldInput_position cmd of
                    Inl e \<Rightarrow> (Err e, h)
                  | Inr point \<Rightarrow>
                      (Ok (), h\<lparr>buttons := (move_held point (buttons h))
                         [button := (if kind = ''MouseDown'' then Some point else None)]\<rparr>)))
          else if kind = ''MouseMove'' \<or> kind = ''MouseClick'' \<or> kind = ''MouseDoubleClick'' then
            (case HeldInput_position cmd of
               Inl e \<Rightarrow> (Err e, h)
             | Inr point \<Rightarrow> (Ok (), h\<lparr>buttons := move_held point (buttons h)\<rparr>))
          else (Ok (), h))"

definition key_release :: "string \<Rightarrow> Value" where
  "key_release key = json_obj [(''type'', Str ''KeyUp''), (''key'', Str key)]"

definition button_release :: "string \<Rightarrow> int \<Rightarrow> int \<Rightarrow> Value" where
  "button_release b x y =
     json_obj [(''type'', Str ''MouseUp''), (''button'', Str b), (''x'', json_int x), (''y'', json_int y)]"

definition drain :: "HeldInput \<Rightarrow> Value list" where
  "drain h =
     concat (map (\<lambda>(index, key). if keys h AND push_bit index 1 \<noteq> 0 then [key_release key] else [])
              (enumerate 0 HELD_KEYS))
     @ concat (map (\<lambda>(index, point). case point of None \<Rightarrow> []
                                  | Some (x, y) \<Rightarrow> [button_release (BUTTONS ! index) x y])
              (enumerate 0 (buttons h)))"

section \<open>Leases\<close>

definition deadline :: "Instant \<Rightarrow> Duration \<Rightarrow> Instant" where
  "deadline now requested_ttl = now + clamp requested_ttl MIN_LEASE_TTL MAX_LEASE_TTL"

definition cleanup_of :: "TeardownReason \<Rightarrow> Uuid \<Rightarrow> Lease \<Rightarrow> LeaseCleanup" where
  "cleanup_of reason agent_id lease =
     \<lparr> cleanup_token = grant_token (grant lease), cleanup_agent_id = agent_id,
       cleanup_owner = grant_owner (grant lease), cleanup_reason = reason,
       cleanup_commands = drain (held lease) \<rparr>"

definition remove_lease ::
  "ControlSessions \<Rightarrow> Uuid \<Rightarrow> TeardownReason \<Rightarrow> LeaseCleanup option \<times> ControlSessions" where
  "remove_lease s agent_id reason =
     (map_option (cleanup_of reason agent_id) (hm_get (leases s) agent_id),
      s\<lparr>leases := hm_remove agent_id (leases s)\<rparr>)"

definition option_list :: "'a option \<Rightarrow> 'a list" where
  "option_list x = (case x of None \<Rightarrow> [] | Some a \<Rightarrow> [a])"

text \<open>\<open>ids.into_iter().filter_map(|id| self.remove(id, reason)).collect()\<close>\<close>

fun remove_each ::
  "ControlSessions \<Rightarrow> Uuid list \<Rightarrow> TeardownReason \<Rightarrow> LeaseCleanup list \<times> ControlSessions" where
  "remove_each s [] reason = ([], s)"
| "remove_each s (i # ids) reason =
     (let (c, s1) = remove_lease s i reason; (cs, s2) = remove_each s1 ids reason
      in (option_list c @ cs, s2))"

definition expire_agent :: "ControlSessions \<Rightarrow> Uuid \<Rightarrow> Instant \<Rightarrow> LeaseCleanup list \<times> ControlSessions" where
  "expire_agent s agent_id now =
     (if is_some_and (hm_get (leases s) agent_id) (\<lambda>lease. now \<ge> expires_at (grant lease))
      then (let (c, s') = remove_lease s agent_id TeardownExpired in (option_list c, s'))
      else ([], s))"

definition check :: "ControlSessions \<Rightarrow> Uuid \<Rightarrow> LeaseOwner \<Rightarrow> Uuid \<Rightarrow> (unit, LeaseError) Result" where
  "check s agent_id owner token =
     (case hm_get (leases s) agent_id of
        None \<Rightarrow> Err Missing
      | Some lease \<Rightarrow>
          if grant_owner (grant lease) \<noteq> owner \<or> grant_token (grant lease) \<noteq> token then Err Mismatch
          else Ok ())"

definition acquire ::
  "ControlSessions \<Rightarrow> Uuid \<Rightarrow> LeaseOwner \<Rightarrow> Duration \<Rightarrow> Instant \<Rightarrow> Uuid
    \<Rightarrow> LeaseGrant Transition \<times> ControlSessions" where
  "acquire s agent_id owner requested_ttl now fresh =
     (let (cl, s1) = expire_agent s agent_id now
      in case hm_get (leases s1) agent_id of
           Some existing \<Rightarrow>
             (\<lparr> result = (if grant_owner (grant existing) = owner then Ok (grant existing)
                         else Err (Conflict (grant_owner (grant existing)))),
                cleanup = cl \<rparr>, s1)
         | None \<Rightarrow>
             (let g = \<lparr> grant_token = fresh, grant_owner = owner,
                        expires_at = deadline now requested_ttl \<rparr>
              in (\<lparr> result = Ok g, cleanup = cl \<rparr>,
                  s1\<lparr>leases := hm_insert agent_id \<lparr> grant = g, held = HeldInput_default \<rparr> (leases s1)\<rparr>)))"

definition http_owner :: "ControlSessions \<Rightarrow> Uuid \<Rightarrow> Uuid \<Rightarrow> Uuid \<Rightarrow> LeaseOwner option" where
  "http_owner s agent user token =
     map_option (\<lambda>l. grant_owner (grant l))
       (option_filter (\<lambda>l. grant_token (grant l) = token \<and> owner_user_id (grant_owner (grant l)) = user)
         (hm_get (leases s) agent))"

definition authorize ::
  "ControlSessions \<Rightarrow> Uuid \<Rightarrow> LeaseOwner \<Rightarrow> Uuid \<Rightarrow> Instant \<Rightarrow> unit Transition \<times> ControlSessions" where
  "authorize s agent_id owner token now =
     (let (cl, s1) = expire_agent s agent_id now
      in (\<lparr> result = (if cl = [] then check s1 agent_id owner token else Err Expired), cleanup = cl \<rparr>, s1))"

text \<open>The two \<open>expect("authorized lease")\<close> below cannot fail: a successful \<open>authorize\<close> leaves the
  lease in place (\<open>authorize_ok_lease\<close>).\<close>

definition authorize_and_track ::
  "ControlSessions \<Rightarrow> Uuid \<Rightarrow> LeaseOwner \<Rightarrow> Uuid \<Rightarrow> Value \<Rightarrow> Instant
    \<Rightarrow> unit Transition \<times> ControlSessions" where
  "authorize_and_track s agent_id owner token cmd now =
     (let (transition, s1) = authorize s agent_id owner token now
      in if is_ok (result transition) then
           (case hm_get (leases s1) agent_id of
              None \<Rightarrow> (transition, s1)
            | Some lease \<Rightarrow>
                (let (r, h) = track (held lease) cmd
                 in (transition\<lparr>result := r\<rparr>,
                     s1\<lparr>leases := hm_insert agent_id (lease\<lparr>held := h\<rparr>) (leases s1)\<rparr>)))
         else (transition, s1))"

definition heartbeat ::
  "ControlSessions \<Rightarrow> Uuid \<Rightarrow> LeaseOwner \<Rightarrow> Uuid \<Rightarrow> Duration \<Rightarrow> Instant
    \<Rightarrow> LeaseGrant Transition \<times> ControlSessions" where
  "heartbeat s agent_id owner token requested_ttl now =
     (let (auth, s1) = authorize s agent_id owner token now
      in case result auth of
           Inl e \<Rightarrow> (\<lparr> result = Err e, cleanup = cleanup auth \<rparr>, s1)
         | Inr _ \<Rightarrow>
             (case hm_get (leases s1) agent_id of
                None \<Rightarrow> (\<lparr> result = Err Missing, cleanup = cleanup auth \<rparr>, s1)
              | Some lease \<Rightarrow>
                  (let g = (grant lease)\<lparr>expires_at := deadline now requested_ttl\<rparr>
                   in (\<lparr> result = Ok g, cleanup = cleanup auth \<rparr>,
                       s1\<lparr>leases := hm_insert agent_id (lease\<lparr>grant := g\<rparr>) (leases s1)\<rparr>))))"

definition release ::
  "ControlSessions \<Rightarrow> Uuid \<Rightarrow> LeaseOwner \<Rightarrow> Uuid \<Rightarrow> Instant \<Rightarrow> unit Transition \<times> ControlSessions" where
  "release s agent_id owner token now =
     (let (transition, s1) = authorize s agent_id owner token now
      in if is_ok (result transition) then
           (let (c, s2) = remove_lease s1 agent_id Released
            in (transition\<lparr>cleanup := cleanup transition @ option_list c\<rparr>, s2))
         else (transition, s1))"

definition expire :: "ControlSessions \<Rightarrow> Instant \<Rightarrow> LeaseCleanup list \<times> ControlSessions" where
  "expire s now =
     remove_each s (hm_keys_where (\<lambda>_ lease. now \<ge> expires_at (grant lease)) (leases s)) TeardownExpired"

definition revoke_viewer :: "ControlSessions \<Rightarrow> Uuid \<Rightarrow> LeaseCleanup list \<times> ControlSessions" where
  "revoke_viewer s viewer =
     remove_each s (hm_keys_where (\<lambda>_ lease. viewer_connection_id (grant_owner (grant lease)) = viewer) (leases s))
       ViewerDisconnected"

definition revoke_agent :: "ControlSessions \<Rightarrow> Uuid \<Rightarrow> Uuid \<Rightarrow> LeaseCleanup list \<times> ControlSessions" where
  "revoke_agent s agent_id conn_id =
     (if is_some_and (hm_get (leases s) agent_id)
           (\<lambda>lease. agent_connection_id (grant_owner (grant lease)) = conn_id)
      then (let (c, s') = remove_lease s agent_id AgentDisconnected in (option_list c, s'))
      else ([], s))"

section \<open>What is held down\<close>

text \<open>
  The specification of the tracker: which keys and buttons are down on the host after a sequence of
  commands. A press puts the key or button in, a release takes it out, and every other command (a
  click, a key press, text, a move) leaves nothing down.
\<close>

record Host =
  down_keys :: "string set"
  down_buttons :: "string set"

definition host_idle :: Host where
  "host_idle = \<lparr> down_keys = {}, down_buttons = {} \<rparr>"

definition command_button :: "Value \<Rightarrow> string" where
  "command_button cmd = unwrap_or (Option.bind (v_get cmd ''button'') as_str) ''left''"

definition host_apply :: "Host \<Rightarrow> Value \<Rightarrow> Host" where
  "host_apply w cmd =
     (let kind = as_str (v_index cmd ''type''); key = unwrap_or (as_str (v_index cmd ''key'')) []
      in if kind = Some ''KeyDown'' then w\<lparr>down_keys := insert key (down_keys w)\<rparr>
         else if kind = Some ''KeyUp'' then w\<lparr>down_keys := down_keys w - {key}\<rparr>
         else if kind = Some ''MouseDown'' then w\<lparr>down_buttons := insert (command_button cmd) (down_buttons w)\<rparr>
         else if kind = Some ''MouseUp'' then w\<lparr>down_buttons := down_buttons w - {command_button cmd}\<rparr>
         else w)"

definition held_wf :: "HeldInput \<Rightarrow> bool" where
  "held_wf h \<longleftrightarrow>
     length (buttons h) = length BUTTONS
     \<and> (\<forall>i. bit (keys h) i \<longrightarrow> i < length HELD_KEYS)
     \<and> (\<forall>x y. Some (x, y) \<in> set (buttons h) \<longrightarrow>
          i32_min \<le> x \<and> x \<le> i32_max \<and> i32_min \<le> y \<and> y \<le> i32_max)"

text \<open>What a tracker stands for: the keys whose bit is set and the buttons with a position.\<close>

definition held_host :: "HeldInput \<Rightarrow> Host" where
  "held_host h =
     \<lparr> down_keys = {HELD_KEYS ! i | i. i < length HELD_KEYS \<and> bit (keys h) i},
       down_buttons = {BUTTONS ! i | i. i < length (buttons h) \<and> buttons h ! i \<noteq> None} \<rparr>"

lemma length_HELD_KEYS [simp]: "length HELD_KEYS = 32"
  by (simp add: HELD_KEYS_def)

lemma length_BUTTONS [simp]: "length BUTTONS = 3"
  by (simp add: BUTTONS_def)

lemma distinct_HELD_KEYS: "distinct HELD_KEYS"
  by (simp add: HELD_KEYS_def)

lemma distinct_BUTTONS: "distinct BUTTONS"
  by (simp add: BUTTONS_def)

lemma nth_HELD_KEYS_inject: "i < 32 \<Longrightarrow> j < 32 \<Longrightarrow> HELD_KEYS ! i = HELD_KEYS ! j \<longleftrightarrow> i = j"
  using distinct_HELD_KEYS by (simp add: nth_eq_iff_index_eq)

lemma nth_BUTTONS_inject: "i < 3 \<Longrightarrow> j < 3 \<Longrightarrow> BUTTONS ! i = BUTTONS ! j \<longleftrightarrow> i = j"
  using distinct_BUTTONS by (simp add: nth_eq_iff_index_eq)

lemma key_bit_test: "(k :: u64) AND push_bit i 1 \<noteq> 0 \<longleftrightarrow> bit k i"
  by (simp add: push_bit_of_1 and_exp_eq_0_iff_not_bit)

lemma bit_key_set: "i < 64 \<Longrightarrow> bit ((k :: u64) OR 2 ^ i) j \<longleftrightarrow> j = i \<or> bit k j"
  by (auto simp: bit_or_iff bit_exp_iff)

lemma bit_key_clear: "bit ((k :: u64) AND NOT (2 ^ i)) j \<longleftrightarrow> bit k j \<and> j \<noteq> i"
  by (auto simp: bit_and_iff bit_not_iff bit_exp_iff dest: bit_imp_le_length)

lemma HeldInput_position_OkD:
  "HeldInput_position cmd = Ok (x, y) \<Longrightarrow>
     i32_min \<le> x \<and> x \<le> i32_max \<and> i32_min \<le> y \<and> y \<le> i32_max"
  by (auto simp: HeldInput_position_def Let_def bind_eq_Some_conv split: option.splits
      dest!: i32_try_from_SomeD)

lemma HeldInput_button_OkD:
  "HeldInput_button cmd = Ok b \<Longrightarrow> b < 3 \<and> BUTTONS ! b = command_button cmd"
  by (auto simp: HeldInput_button_def command_button_def ok_or_def split: option.splits sum.splits
      dest!: list_position_SomeD)

lemma held_wf_default [simp]: "held_wf HeldInput_default"
  by (simp add: held_wf_def HeldInput_default_def)

lemma held_host_default [simp]: "held_host HeldInput_default = host_idle"
  by (auto simp: held_host_def HeldInput_default_def host_idle_def nth_Cons split: nat.splits)

lemma length_move_held [simp]: "length (move_held p bs) = length bs"
  by (simp add: move_held_def)

lemma nth_move_held [simp]: "i < length bs \<Longrightarrow> move_held p bs ! i = map_option (\<lambda>_. p) (bs ! i)"
  by (simp add: move_held_def)

lemma set_move_held: "Some q \<in> set (move_held p bs) \<Longrightarrow> q = p"
  by (auto simp: move_held_def map_option_case split: option.splits)

lemma set_move_held_update: "Some q \<in> set ((move_held p bs)[i := x]) \<Longrightarrow> q = p \<or> x = Some q"
  by (metis insertE set_move_held set_update_subset_insert subsetD)

text \<open>The ways a command is tracked.\<close>

lemma track_cases:
  assumes "track h cmd = (r, h')"
  obtains
    (err) e where "r = Err e" "h' = h"
  | (press_key) k i where "as_str (v_index cmd ''type'') = Some ''KeyDown''"
      "as_str (v_index cmd ''key'') = Some k" "i < 32" "HELD_KEYS ! i = k"
      "r = Ok ()" "h' = h\<lparr>keys := keys h OR push_bit i 1\<rparr>"
  | (release_key) k i where "as_str (v_index cmd ''type'') = Some ''KeyUp''"
      "as_str (v_index cmd ''key'') = Some k" "i < 32" "HELD_KEYS ! i = k"
      "r = Ok ()" "h' = h\<lparr>keys := keys h AND NOT (push_bit i 1)\<rparr>"
  | (press_button) b p where "as_str (v_index cmd ''type'') = Some ''MouseDown''"
      "b < 3" "BUTTONS ! b = command_button cmd" "HeldInput_position cmd = Ok p"
      "r = Ok ()" "h' = h\<lparr>buttons := (move_held p (buttons h))[b := Some p]\<rparr>"
  | (release_button) b p where "as_str (v_index cmd ''type'') = Some ''MouseUp''"
      "b < 3" "BUTTONS ! b = command_button cmd" "HeldInput_position cmd = Ok p"
      "r = Ok ()" "h' = h\<lparr>buttons := (move_held p (buttons h))[b := None]\<rparr>"
  | (move) p where "as_str (v_index cmd ''type'') \<notin> Some ` {''KeyDown'', ''KeyUp'', ''MouseDown'', ''MouseUp''}"
      "HeldInput_position cmd = Ok p" "r = Ok ()" "h' = h\<lparr>buttons := move_held p (buttons h)\<rparr>"
  | (other) "as_str (v_index cmd ''type'') \<notin> Some ` {''KeyDown'', ''KeyUp'', ''MouseDown'', ''MouseUp''}"
      "r = Ok ()" "h' = h"
proof (cases "as_str (v_index cmd ''type'')")
  case None
  with assms show ?thesis by (intro other) (auto simp: track_def)
next
  case (Some kind)
  consider "kind = ''KeyDown''" | "kind = ''KeyUp''" | "kind = ''MouseDown''" | "kind = ''MouseUp''"
    | "kind \<notin> {''KeyDown'', ''KeyUp'', ''MouseDown'', ''MouseUp''}" by blast
  then show ?thesis
  proof cases
    case 1
    with Some assms show ?thesis
      by (auto simp: track_def split: option.splits intro: err press_key dest!: list_position_SomeD)
  next
    case 2
    with Some assms show ?thesis
      by (auto simp: track_def split: option.splits intro: err release_key dest!: list_position_SomeD)
  next
    case 3
    with Some assms show ?thesis
      by (auto simp: track_def split: sum.splits intro: err press_button dest: HeldInput_button_OkD)
  next
    case 4
    with Some assms show ?thesis
      by (auto simp: track_def split: sum.splits intro: err release_button dest: HeldInput_button_OkD)
  next
    case 5
    then have k: "kind \<noteq> ''KeyDown''" "kind \<noteq> ''KeyUp''" "kind \<noteq> ''MouseDown''" "kind \<noteq> ''MouseUp''"
      by auto
    have ty: "as_str (v_index cmd ''type'') \<notin> Some ` {''KeyDown'', ''KeyUp'', ''MouseDown'', ''MouseUp''}"
      using Some k by simp
    have eq: "track h cmd =
        (if kind = ''MouseMove'' \<or> kind = ''MouseClick'' \<or> kind = ''MouseDoubleClick'' then
           (case HeldInput_position cmd of Inl e \<Rightarrow> (Err e, h)
            | Inr p \<Rightarrow> (Ok (), h\<lparr>buttons := move_held p (buttons h)\<rparr>))
         else (Ok (), h))"
      unfolding track_def Some using k by (simp only: option.case if_False simp_thms)
    with assms show ?thesis
      by (auto simp only: split: if_splits sum.splits intro: err move [OF ty] other [OF ty])
  qed
qed

lemma track_error_unchanged: "track h cmd = (Err e, h') \<Longrightarrow> h' = h"
  by (erule track_cases) simp_all

lemma held_wf_len: "held_wf h \<Longrightarrow> length (buttons h) = 3"
  by (simp add: held_wf_def)

lemma held_wf_keys:
  "held_wf h \<Longrightarrow> (\<And>j. bit k j \<Longrightarrow> j < 32) \<Longrightarrow> held_wf (h\<lparr>keys := k\<rparr>)"
  by (simp add: held_wf_def)

lemma held_wf_buttons:
  assumes "held_wf h" and "length bs = 3" and "\<And>q. Some q \<in> set bs \<Longrightarrow> q = p"
    and "HeldInput_position cmd = Ok p"
  shows "held_wf (h\<lparr>buttons := bs\<rparr>)"
proof -
  have "Some (x, y) \<in> set bs \<Longrightarrow> HeldInput_position cmd = Ok (x, y)" for x y
    using assms(3) [of "(x, y)"] assms(4) by simp
  with assms(1,2) show ?thesis
    by (simp add: held_wf_def) (blast dest: HeldInput_position_OkD)
qed

lemma track_wf [inv_intros]:
  assumes "held_wf h" and "track h cmd = (r, h')"
  shows "held_wf h'"
  using assms(2)
proof (cases rule: track_cases)
  case (press_key k i)
  with assms(1) show ?thesis
    by (auto intro!: held_wf_keys simp: bit_key_set held_wf_def)
next
  case (release_key k i)
  with assms(1) show ?thesis
    by (auto intro!: held_wf_keys simp: bit_key_clear held_wf_def)
next
  case (press_button b p)
  with held_wf_len [OF assms(1)] show ?thesis
    by (auto intro!: held_wf_buttons [OF assms(1) _ _ press_button(4)] dest: set_move_held_update)
next
  case (release_button b p)
  with held_wf_len [OF assms(1)] show ?thesis
    by (auto intro!: held_wf_buttons [OF assms(1) _ _ release_button(4)] dest: set_move_held_update)
next
  case (move p)
  with held_wf_len [OF assms(1)] show ?thesis
    by (auto intro!: held_wf_buttons [OF assms(1) _ _ move(2)] dest: set_move_held)
qed (use assms(1) in simp_all)

text \<open>The tracker refines the host: it follows every accepted command.\<close>

lemma held_host_press_key:
  assumes "i < 32"
  shows "held_host (h\<lparr>keys := keys h OR 2 ^ i\<rparr>) =
    (held_host h)\<lparr>down_keys := insert (HELD_KEYS ! i) (down_keys (held_host h))\<rparr>"
  using assms by (auto simp: held_host_def bit_key_set)

lemma held_host_release_key:
  assumes "i < 32"
  shows "held_host (h\<lparr>keys := keys h AND NOT (2 ^ i)\<rparr>) =
    (held_host h)\<lparr>down_keys := down_keys (held_host h) - {HELD_KEYS ! i}\<rparr>"
  using assms by (auto simp: held_host_def bit_key_clear nth_HELD_KEYS_inject)

lemma held_host_press_button:
  assumes "b < 3" and "length (buttons h) = 3"
  shows "held_host (h\<lparr>buttons := (move_held p (buttons h))[b := Some p]\<rparr>) =
    (held_host h)\<lparr>down_buttons := insert (BUTTONS ! b) (down_buttons (held_host h))\<rparr>"
  using assms by (auto simp: held_host_def nth_list_update split: if_splits)

lemma held_host_release_button:
  assumes "b < 3" and "length (buttons h) = 3"
  shows "held_host (h\<lparr>buttons := (move_held p (buttons h))[b := None]\<rparr>) =
    (held_host h)\<lparr>down_buttons := down_buttons (held_host h) - {BUTTONS ! b}\<rparr>"
  using assms by (auto simp: held_host_def nth_list_update nth_BUTTONS_inject split: if_splits)

lemma held_host_move:
  "held_host (h\<lparr>buttons := move_held p (buttons h)\<rparr>) = held_host h"
  by (auto simp: held_host_def)

lemma track_refines_host:
  assumes "held_wf h" and "track h cmd = (Ok (), h')"
  shows "held_host h' = host_apply (held_host h) cmd"
  using assms(2)
proof (cases rule: track_cases)
  case (press_key k i)
  then show ?thesis by (simp add: held_host_press_key host_apply_def)
next
  case (release_key k i)
  then show ?thesis by (simp add: held_host_release_key host_apply_def)
next
  case (press_button b p)
  with held_wf_len [OF assms(1)] show ?thesis by (simp add: held_host_press_button host_apply_def)
next
  case (release_button b p)
  with held_wf_len [OF assms(1)] show ?thesis by (simp add: held_host_release_button host_apply_def)
next
  case (move p)
  then show ?thesis by (simp add: held_host_move host_apply_def)
next
  case other
  then show ?thesis by (simp add: host_apply_def)
qed simp

text \<open>Draining releases everything the tracker holds.\<close>

definition held_key_list :: "HeldInput \<Rightarrow> string list" where
  "held_key_list h = map snd (filter (\<lambda>(i, _). bit (keys h) i) (enumerate 0 HELD_KEYS))"

definition held_button_list :: "HeldInput \<Rightarrow> (string \<times> int \<times> int) list" where
  "held_button_list h =
     map (\<lambda>(i, p). (BUTTONS ! i, the p)) (filter (\<lambda>(_, p). p \<noteq> None) (enumerate 0 (buttons h)))"

lemma drain_eq:
  "drain h = map key_release (held_key_list h)
     @ map (\<lambda>(b, x, y). button_release b x y) (held_button_list h)"
proof -
  have "concat (map (\<lambda>(i, k). if keys h AND push_bit i 1 \<noteq> 0 then [key_release k] else []) xs) =
      map key_release (map snd (filter (\<lambda>(i, _). bit (keys h) i) xs))" for xs
    unfolding key_bit_test by (induction xs) auto
  moreover have "concat (map (\<lambda>(i, p). case p of None \<Rightarrow> [] | Some (x, y) \<Rightarrow> [button_release (BUTTONS ! i) x y]) ys) =
      map (\<lambda>(b, x, y). button_release b x y)
        (map (\<lambda>(i, p). (BUTTONS ! i, the p)) (filter (\<lambda>(_, p). p \<noteq> None) ys))"
    for ys :: "(nat \<times> (int \<times> int) option) list"
    by (induction ys) (auto split: option.splits)
  ultimately show ?thesis
    by (simp add: drain_def held_key_list_def held_button_list_def)
qed

lemma set_held_key_list: "set (held_key_list h) = down_keys (held_host h)"
  by (auto simp: held_key_list_def held_host_def in_set_enumerate_eq image_iff)

lemma set_held_button_list: "fst ` set (held_button_list h) = down_buttons (held_host h)"
proof -
  have "fst ` set (held_button_list h) =
      (\<lambda>(i, p). BUTTONS ! i) ` {(i, p) \<in> set (enumerate 0 (buttons h)). p \<noteq> None}"
    by (simp add: held_button_list_def image_image case_prod_unfold)
  also have "\<dots> = {BUTTONS ! i | i. i < length (buttons h) \<and> buttons h ! i \<noteq> None}"
    by (auto simp: in_set_enumerate_eq image_def)
  finally show ?thesis by (simp add: held_host_def)
qed

lemma host_apply_releases:
  "foldl host_apply w (map key_release ks) = w\<lparr>down_keys := down_keys w - set ks\<rparr>"
  "foldl host_apply w (map (\<lambda>(b, x, y). button_release b x y) bs) =
     w\<lparr>down_buttons := down_buttons w - fst ` set bs\<rparr>"
proof -
  have key: "host_apply w (key_release k) = w\<lparr>down_keys := down_keys w - {k}\<rparr>" for w k
    by (simp add: host_apply_def key_release_def)
  have button: "host_apply w (button_release b x y) = w\<lparr>down_buttons := down_buttons w - {b}\<rparr>" for w b x y
    by (simp add: host_apply_def button_release_def command_button_def)
  show "foldl host_apply w (map key_release ks) = w\<lparr>down_keys := down_keys w - set ks\<rparr>"
    by (induction ks arbitrary: w) (auto simp: key Diff_insert2 [symmetric])
  show "foldl host_apply w (map (\<lambda>(b, x, y). button_release b x y) bs) =
     w\<lparr>down_buttons := down_buttons w - fst ` set bs\<rparr>"
    by (induction bs arbitrary: w) (auto simp: button Diff_insert2 [symmetric])
qed

lemma drain_idle: "foldl host_apply (held_host h) (drain h) = host_idle"
  by (simp add: drain_eq host_apply_releases set_held_key_list set_held_button_list host_idle_def)

lemma drain_is_cleanup:
  assumes "held_wf h" and "c \<in> set (drain h)"
  shows "is_cleanup_command c"
proof -
  consider k where "k \<in> set (held_key_list h)" "c = key_release k"
    | b x y where "(b, x, y) \<in> set (held_button_list h)" "c = button_release b x y"
    using assms(2) by (auto simp: drain_eq)
  then show ?thesis
  proof cases
    case (1 k)
    then have "k \<in> set HELD_KEYS"
      unfolding set_held_key_list by (auto simp: held_host_def)
    with 1 show ?thesis
      by (simp add: is_cleanup_command_def key_release_def tracked_key_def)
  next
    case (2 b x y)
    then obtain i where i: "i < length (buttons h)" "buttons h ! i = Some (x, y)" "b = BUTTONS ! i"
      by (auto simp: held_button_list_def in_set_enumerate_eq)
    then have "Some (x, y) \<in> set (buttons h)"
      by (metis nth_mem)
    with assms(1) have "i32_min \<le> x" "x \<le> i32_max" "i32_min \<le> y" "y \<le> i32_max"
      by (auto simp: held_wf_def)
    moreover have "b \<in> set BUTTONS"
      using i held_wf_len [OF assms(1)] by simp
    ultimately show ?thesis
      unfolding 2(2) by (simp add: is_cleanup_command_def button_release_def i32_try_from_def)
  qed
qed

section \<open>Leases: invariant and lookup\<close>

abbreviation lease_of :: "ControlSessions \<Rightarrow> Uuid \<Rightarrow> Lease option" where
  "lease_of s a \<equiv> hm_get (leases s) a"

definition sessions_wf :: "ControlSessions \<Rightarrow> bool" where
  "sessions_wf s \<longleftrightarrow> hm_wf (leases s) \<and> (\<forall>a l. lease_of s a = Some l \<longrightarrow> held_wf (held l))"

lemma sessions_wfD:
  "sessions_wf s \<Longrightarrow> hm_wf (leases s)"
  "sessions_wf s \<Longrightarrow> lease_of s a = Some l \<Longrightarrow> held_wf (held l)"
  by (auto simp: sessions_wf_def)

lemma sessions_wf_default [simp]: "sessions_wf ControlSessions_default"
  by (simp add: sessions_wf_def ControlSessions_default_def)

lemma option_list_simps [simp]:
  "option_list None = []" "option_list (Some x) = [x]"
  by (simp_all add: option_list_def)

lemma sessions_wf_remove [inv_intros]:
  "sessions_wf s \<Longrightarrow> sessions_wf (s\<lparr>leases := hm_remove a (leases s)\<rparr>)"
  by (auto simp: sessions_wf_def split: if_splits)

lemma sessions_wf_insert [inv_intros]:
  "sessions_wf s \<Longrightarrow> held_wf (held l) \<Longrightarrow> sessions_wf (s\<lparr>leases := hm_insert a l (leases s)\<rparr>)"
  by (auto simp: sessions_wf_def split: if_splits)

section \<open>Teardown\<close>

text \<open>
  What every operation that tears leases down promises: it removes exactly the leases it is meant to
  hit, leaves every other lease as it was, and reports each removed lease exactly once, with its
  token, its owner, the reason, and the releases of everything it held.
\<close>

locale teardown =
  fixes op :: "ControlSessions \<Rightarrow> LeaseCleanup list \<times> ControlSessions"
    and hit :: "Uuid \<Rightarrow> Lease \<Rightarrow> bool"
    and reason :: TeardownReason
  assumes op_leases: "sessions_wf s \<Longrightarrow> op s = (cs, s') \<Longrightarrow>
      lease_of s' a = option_filter (\<lambda>l. \<not> hit a l) (lease_of s a)"
    and op_wf: "sessions_wf s \<Longrightarrow> op s = (cs, s') \<Longrightarrow> sessions_wf s'"
    and op_cleanups: "sessions_wf s \<Longrightarrow> op s = (cs, s') \<Longrightarrow>
      set cs = {cleanup_of reason a l | a l. lease_of s a = Some l \<and> hit a l}"
    and op_distinct: "sessions_wf s \<Longrightarrow> op s = (cs, s') \<Longrightarrow> distinct (map cleanup_agent_id cs)"
begin

lemma hit_gone: "sessions_wf s \<Longrightarrow> op s = (cs, s') \<Longrightarrow> lease_of s' a = Some l \<Longrightarrow> \<not> hit a l"
  by (simp add: op_leases option_filter_eq_Some)

lemma cleanup_gone:
  assumes "sessions_wf s" "op s = (cs, s')" "c \<in> set cs"
  shows "lease_of s' (cleanup_agent_id c) = None"
proof -
  from assms obtain a l where "c = cleanup_of reason a l" "lease_of s a = Some l" "hit a l"
    by (auto simp: op_cleanups)
  with assms show ?thesis by (simp add: op_leases cleanup_of_def)
qed

lemma removed_reported:
  assumes "sessions_wf s" "op s = (cs, s')" "lease_of s a = Some l" "lease_of s' a = None"
  shows "cleanup_of reason a l \<in> set cs"
proof -
  from assms have "hit a l" by (simp add: op_leases split: if_splits)
  with assms show ?thesis unfolding op_cleanups [OF assms(1,2)] by blast
qed

lemma kept_unchanged: "sessions_wf s \<Longrightarrow> op s = (cs, s') \<Longrightarrow> lease_of s' a = Some l \<Longrightarrow> lease_of s a = Some l"
  by (simp add: op_leases option_filter_eq_Some)

text \<open>A second teardown finds nothing: cleanup is returned exactly once.\<close>

lemma op_twice:
  assumes "sessions_wf s" "op s = (cs, s')" "op s' = (cs', s'')"
  shows "cs' = []"
proof -
  have wf': "sessions_wf s'" using assms by (blast intro: op_wf)
  have "set cs' = {}"
    unfolding op_cleanups [OF wf' assms(3)] using hit_gone [OF assms(1,2)] by auto
  then show ?thesis by simp
qed

end

lemma remove_lease_fst [simp]:
  "fst (remove_lease s a r) = map_option (cleanup_of r a) (lease_of s a)"
  by (simp add: remove_lease_def)

lemma remove_lease_snd [simp]:
  "snd (remove_lease s a r) = s\<lparr>leases := hm_remove a (leases s)\<rparr>"
  by (simp add: remove_lease_def)

lemma remove_each_Cons [simp]:
  "remove_each s (i # ids) r =
     (let s1 = s\<lparr>leases := hm_remove i (leases s)\<rparr>
      in (option_list (map_option (cleanup_of r i) (lease_of s i)) @ fst (remove_each s1 ids r),
          snd (remove_each s1 ids r)))"
  by (simp add: remove_lease_def Let_def case_prod_unfold)

declare remove_each.simps(2) [simp del]

lemma remove_each_snd:
  "lease_of (snd (remove_each s ids r)) a = (if a \<in> set ids then None else lease_of s a)"
  by (induction ids arbitrary: s) (auto simp: Let_def)

lemma remove_each_wf: "sessions_wf s \<Longrightarrow> sessions_wf (snd (remove_each s ids r))"
  by (induction ids arbitrary: s) (auto simp: Let_def intro: sessions_wf_remove)

lemma remove_each_fst:
  "set (fst (remove_each s ids r)) = {cleanup_of r a l | a l. a \<in> set ids \<and> lease_of s a = Some l}"
proof (induction ids arbitrary: s)
  case Nil
  then show ?case by simp
next
  case (Cons i ids)
  let ?s1 = "s\<lparr>leases := hm_remove i (leases s)\<rparr>"
  have "set (fst (remove_each s (i # ids) r)) =
      set (option_list (map_option (cleanup_of r i) (lease_of s i)))
      \<union> {cleanup_of r a l | a l. a \<in> set ids \<and> lease_of ?s1 a = Some l}"
    by (simp add: Let_def Cons.IH del: hm.get_remove)
  also have "\<dots> = {cleanup_of r a l | a l. a \<in> set (i # ids) \<and> lease_of s a = Some l}"
    by (cases "lease_of s i") (fastforce split: if_splits)+
  finally show ?case .
qed

lemma remove_each_agents:
  "set (map cleanup_agent_id (fst (remove_each s ids r))) \<subseteq> set ids"
  by (auto simp: remove_each_fst cleanup_of_def)

lemma remove_each_distinct:
  "distinct ids \<Longrightarrow> distinct (map cleanup_agent_id (fst (remove_each s ids r)))"
proof (induction ids arbitrary: s)
  case Nil
  then show ?case by simp
next
  case (Cons i ids)
  then show ?case
    using remove_each_agents [of "s\<lparr>leases := hm_remove i (leases s)\<rparr>" ids r]
    by (cases "lease_of s i") (auto simp: Let_def cleanup_of_def)
qed

lemma remove_each_teardown:
  "teardown (\<lambda>s. remove_each s (hm_keys_where hit (leases s)) r) hit r"
proof
  fix s cs s' a
  assume wf: "sessions_wf s" and op: "remove_each s (hm_keys_where hit (leases s)) r = (cs, s')"
  note keys = hm_keys_where_set [OF sessions_wfD(1) [OF wf], of hit]
  have fs: "cs = fst (remove_each s (hm_keys_where hit (leases s)) r)"
    "s' = snd (remove_each s (hm_keys_where hit (leases s)) r)" using op by simp_all
  show "lease_of s' a = option_filter (\<lambda>l. \<not> hit a l) (lease_of s a)"
    unfolding fs remove_each_snd keys by (cases "lease_of s a") auto
  show "sessions_wf s'" unfolding fs by (rule remove_each_wf [OF wf])
  show "set cs = {cleanup_of r a l | a l. lease_of s a = Some l \<and> hit a l}"
    unfolding fs remove_each_fst keys by fastforce
  show "distinct (map cleanup_agent_id cs)"
    unfolding fs by (rule remove_each_distinct [OF hm_keys_where_distinct [OF sessions_wfD(1) [OF wf]]])
qed

lemma remove_one_teardown:
  "teardown (\<lambda>s. if is_some_and (lease_of s b) p
                 then (let (c, s') = remove_lease s b r in (option_list c, s')) else ([], s))
     (\<lambda>a l. a = b \<and> p l) r"
  by unfold_locales
    (auto simp: is_some_and_iff option_filter_def cleanup_of_def Let_def case_prod_unfold
      intro: sessions_wf_remove split: if_splits option.splits)

interpretation expiry: teardown "\<lambda>s. expire s now" "\<lambda>_ l. now \<ge> expires_at (grant l)" TeardownExpired
  for now
  unfolding expire_def by (rule remove_each_teardown)

interpretation viewer_revocation: teardown "\<lambda>s. revoke_viewer s viewer"
    "\<lambda>_ l. viewer_connection_id (grant_owner (grant l)) = viewer" ViewerDisconnected
  for viewer
  unfolding revoke_viewer_def by (rule remove_each_teardown)

interpretation agent_expiry: teardown "\<lambda>s. expire_agent s agent now"
    "\<lambda>a l. a = agent \<and> now \<ge> expires_at (grant l)" TeardownExpired
  for agent now
  unfolding expire_agent_def by (rule remove_one_teardown)

interpretation agent_revocation: teardown "\<lambda>s. revoke_agent s agent conn"
    "\<lambda>a l. a = agent \<and> agent_connection_id (grant_owner (grant l)) = conn" AgentDisconnected
  for agent conn
  unfolding revoke_agent_def by (rule remove_one_teardown)

section \<open>Authorization, acquisition, renewal, release\<close>

definition live :: "Lease \<Rightarrow> Instant \<Rightarrow> bool" where
  "live l now \<longleftrightarrow> now < expires_at (grant l)"

definition holds :: "ControlSessions \<Rightarrow> Uuid \<Rightarrow> LeaseOwner \<Rightarrow> Uuid \<Rightarrow> Instant \<Rightarrow> bool" where
  "holds s agent owner token now \<longleftrightarrow>
     (\<exists>l. lease_of s agent = Some l \<and> live l now \<and> grant_owner (grant l) = owner
        \<and> grant_token (grant l) = token)"

lemma expire_agent_live: "lease_of s a = Some l \<Longrightarrow> live l now \<Longrightarrow> expire_agent s a now = ([], s)"
  by (simp add: expire_agent_def live_def)

lemma expire_agent_none: "lease_of s a = None \<Longrightarrow> expire_agent s a now = ([], s)"
  by (simp add: expire_agent_def)

lemma expire_agent_expired:
  "lease_of s a = Some l \<Longrightarrow> \<not> live l now \<Longrightarrow>
     expire_agent s a now = ([cleanup_of TeardownExpired a l], s\<lparr>leases := hm_remove a (leases s)\<rparr>)"
  by (simp add: expire_agent_def live_def remove_lease_def)

lemma authorize_cases:
  obtains (missing) "lease_of s a = None"
      "authorize s a owner token now = (\<lparr> result = Err Missing, cleanup = [] \<rparr>, s)"
  | (expired) l where "lease_of s a = Some l" "\<not> live l now"
      "authorize s a owner token now =
         (\<lparr> result = Err Expired, cleanup = [cleanup_of TeardownExpired a l] \<rparr>,
          s\<lparr>leases := hm_remove a (leases s)\<rparr>)"
  | (mismatch) l where "lease_of s a = Some l" "live l now"
      "grant_owner (grant l) \<noteq> owner \<or> grant_token (grant l) \<noteq> token"
      "authorize s a owner token now = (\<lparr> result = Err Mismatch, cleanup = [] \<rparr>, s)"
  | (ok) l where "lease_of s a = Some l" "live l now"
      "grant_owner (grant l) = owner" "grant_token (grant l) = token"
      "authorize s a owner token now = (\<lparr> result = Ok (), cleanup = [] \<rparr>, s)"
proof (cases "lease_of s a")
  case None
  then show ?thesis
    by (intro missing) (simp_all add: authorize_def expire_agent_none check_def)
next
  case (Some l)
  show ?thesis
  proof (cases "live l now")
    case False
    with Some show ?thesis
      by (intro expired) (simp_all add: authorize_def expire_agent_expired)
  next
    case True
    with Some show ?thesis
      using mismatch [of l] ok [of l]
      by (simp add: authorize_def expire_agent_live check_def) blast
  qed
qed

lemma authorize_ok_iff: "result (fst (authorize s a owner token now)) = Ok () \<longleftrightarrow> holds s a owner token now"
  by (rule authorize_cases [of s a owner token now]) (auto simp: holds_def)

lemma authorize_ok_lease:
  "result (fst (authorize s a owner token now)) = Ok () \<Longrightarrow>
     snd (authorize s a owner token now) = s \<and> cleanup (fst (authorize s a owner token now)) = []
     \<and> lease_of s a \<noteq> None"
  by (rule authorize_cases [of s a owner token now]) auto

lemma authorize_wf [inv_intros]: "sessions_wf s \<Longrightarrow> sessions_wf (snd (authorize s a owner token now))"
  by (rule authorize_cases [of s a owner token now]) (auto intro: sessions_wf_remove)

lemma acquire_cases:
  obtains (same) l where "lease_of s a = Some l" "live l now" "grant_owner (grant l) = owner"
      "acquire s a owner ttl now fresh = (\<lparr> result = Ok (grant l), cleanup = [] \<rparr>, s)"
  | (conflict) l where "lease_of s a = Some l" "live l now" "grant_owner (grant l) \<noteq> owner"
      "acquire s a owner ttl now fresh = (\<lparr> result = Err (Conflict (grant_owner (grant l))), cleanup = [] \<rparr>, s)"
  | (fresh) cs s1 where "expire_agent s a now = (cs, s1)" "lease_of s1 a = None"
      "\<And>l. lease_of s a = Some l \<Longrightarrow> \<not> live l now"
      "acquire s a owner ttl now fresh =
         (\<lparr> result = Ok \<lparr> grant_token = fresh, grant_owner = owner, expires_at = deadline now ttl \<rparr>,
            cleanup = cs \<rparr>,
          s1\<lparr>leases := hm_insert a \<lparr> grant = \<lparr> grant_token = fresh, grant_owner = owner,
                                              expires_at = deadline now ttl \<rparr>,
                                     held = HeldInput_default \<rparr> (leases s1)\<rparr>)"
proof (cases "lease_of s a")
  case None
  then show ?thesis
    by (intro fresh) (simp_all add: acquire_def expire_agent_none Let_def)
next
  case (Some l)
  show ?thesis
  proof (cases "live l now")
    case False
    with Some show ?thesis
      by (intro fresh [OF expire_agent_expired [OF Some False]])
        (simp_all add: acquire_def expire_agent_expired Let_def)
  next
    case True
    with Some show ?thesis
      using same [of l] conflict [of l]
      by (cases "grant_owner (grant l) = owner") (simp_all add: acquire_def expire_agent_live)
  qed
qed

lemma expire_agent_wf [inv_intros]: "sessions_wf s \<Longrightarrow> sessions_wf (snd (expire_agent s a now))"
  by (rule agent_expiry.op_wf [OF _ prod.collapse [symmetric]])

lemma acquire_wf [inv_intros]: "sessions_wf s \<Longrightarrow> sessions_wf (snd (acquire s a owner ttl now fresh))"
proof (rule acquire_cases [of s a now owner ttl fresh])
  fix cs s1
  assume "sessions_wf s" "expire_agent s a now = (cs, s1)"
  then have "sessions_wf s1" using expire_agent_wf [of s a now] by simp
  moreover assume "acquire s a owner ttl now fresh = (\<lparr> result = Ok \<lparr> grant_token = fresh, grant_owner = owner,
      expires_at = deadline now ttl \<rparr>, cleanup = cs \<rparr>,
      s1\<lparr>leases := hm_insert a \<lparr> grant = \<lparr> grant_token = fresh, grant_owner = owner,
        expires_at = deadline now ttl \<rparr>, held = HeldInput_default \<rparr> (leases s1)\<rparr>)"
  ultimately show ?thesis by (auto intro: sessions_wf_insert)
qed simp_all

lemma heartbeat_ok:
  assumes "holds s a owner token now"
  obtains l where "lease_of s a = Some l" "grant_owner (grant l) = owner" "grant_token (grant l) = token"
    "heartbeat s a owner token ttl now =
       (\<lparr> result = Ok ((grant l)\<lparr>expires_at := deadline now ttl\<rparr>), cleanup = [] \<rparr>,
        s\<lparr>leases := hm_insert a (l\<lparr>grant := (grant l)\<lparr>expires_at := deadline now ttl\<rparr>\<rparr>) (leases s)\<rparr>)"
  using assms
  by (cases rule: authorize_cases [of s a owner token now])
    (auto simp: holds_def heartbeat_def Let_def)

lemma heartbeat_err:
  assumes "\<not> holds s a owner token now"
  shows "is_err (result (fst (heartbeat s a owner token ttl now)))"
    "snd (heartbeat s a owner token ttl now) = snd (authorize s a owner token now)"
    "cleanup (fst (heartbeat s a owner token ttl now)) = cleanup (fst (authorize s a owner token now))"
  using assms
  by (cases rule: authorize_cases [of s a owner token now]; auto simp: holds_def heartbeat_def Let_def)+

lemma heartbeat_wf [inv_intros]: "sessions_wf s \<Longrightarrow> sessions_wf (snd (heartbeat s a owner token ttl now))"
proof (cases "holds s a owner token now")
  case True
  assume wf: "sessions_wf s"
  from heartbeat_ok [OF True, of ttl] obtain l where "lease_of s a = Some l"
    "snd (heartbeat s a owner token ttl now) =
      s\<lparr>leases := hm_insert a (l\<lparr>grant := (grant l)\<lparr>expires_at := deadline now ttl\<rparr>\<rparr>) (leases s)\<rparr>"
    by (metis snd_conv)
  with wf show ?thesis by (simp add: sessions_wf_insert sessions_wfD(2))
next
  case False
  assume "sessions_wf s"
  with heartbeat_err(2) [OF False] show ?thesis by (simp add: authorize_wf)
qed

lemma release_eq:
  "release s a owner token now =
     (if holds s a owner token now then
        (\<lparr> result = Ok (), cleanup = option_list (map_option (cleanup_of Released a) (lease_of s a)) \<rparr>,
         s\<lparr>leases := hm_remove a (leases s)\<rparr>)
      else authorize s a owner token now)"
  by (cases rule: authorize_cases [of s a owner token now])
    (auto simp: release_def holds_def remove_lease_def)

lemma release_wf [inv_intros]: "sessions_wf s \<Longrightarrow> sessions_wf (snd (release s a owner token now))"
  by (auto simp: release_eq intro: sessions_wf_remove authorize_wf)

lemma authorize_and_track_eq:
  "authorize_and_track s a owner token cmd now =
     (if holds s a owner token now then
        (case lease_of s a of None \<Rightarrow> authorize s a owner token now
         | Some l \<Rightarrow> (\<lparr> result = fst (track (held l) cmd), cleanup = [] \<rparr>,
                     s\<lparr>leases := hm_insert a (l\<lparr>held := snd (track (held l) cmd)\<rparr>) (leases s)\<rparr>))
      else authorize s a owner token now)"
  by (cases rule: authorize_cases [of s a owner token now])
    (auto simp: authorize_and_track_def holds_def case_prod_unfold Let_def)

lemma authorize_and_track_wf [inv_intros]:
  assumes "sessions_wf s"
  shows "sessions_wf (snd (authorize_and_track s a owner token cmd now))"
proof (cases "holds s a owner token now")
  case True
  then obtain l where l: "lease_of s a = Some l" by (auto simp: holds_def)
  have "held_wf (snd (track (held l) cmd))"
    by (rule track_wf [OF sessions_wfD(2) [OF assms l] prod.collapse [symmetric]])
  with True l assms show ?thesis
    by (auto simp: authorize_and_track_eq intro: sessions_wf_insert)
next
  case False
  with assms show ?thesis by (simp add: authorize_and_track_eq authorize_wf)
qed

lemma deadline_bounds:
  "now + from_secs 1 \<le> deadline now ttl" "deadline now ttl \<le> now + from_secs 30"
  using clamp_bounds [of MIN_LEASE_TTL MAX_LEASE_TTL ttl]
  by (simp_all add: deadline_def MIN_LEASE_TTL_def MAX_LEASE_TTL_def from_secs_def)

section \<open>Sequences of operations\<close>

text \<open>
  The sessions with the hosts behind them: an accepted input command and every cleanup command reach
  the agent's host in the order the operations return them.
\<close>

datatype SessionOp =
    OpAcquire Uuid LeaseOwner Duration Instant Uuid
  | OpInput Uuid LeaseOwner Uuid Value Instant
  | OpHeartbeat Uuid LeaseOwner Uuid Duration Instant
  | OpRelease Uuid LeaseOwner Uuid Instant
  | OpExpire Instant
  | OpRevokeViewer Uuid
  | OpRevokeAgent Uuid Uuid

definition cleanup_sent :: "LeaseCleanup list \<Rightarrow> (Uuid \<times> Value) list" where
  "cleanup_sent cs = concat (map (\<lambda>c. map (Pair (cleanup_agent_id c)) (cleanup_commands c)) cs)"

fun session_step :: "ControlSessions \<Rightarrow> SessionOp \<Rightarrow> (Uuid \<times> Value) list \<times> ControlSessions" where
  "session_step s (OpAcquire a owner ttl now fresh) =
     (let (t, s') = acquire s a owner ttl now fresh in (cleanup_sent (cleanup t), s'))"
| "session_step s (OpInput a owner token cmd now) =
     (let (t, s') = authorize_and_track s a owner token cmd now
      in (cleanup_sent (cleanup t) @ (if is_ok (result t) then [(a, cmd)] else []), s'))"
| "session_step s (OpHeartbeat a owner token ttl now) =
     (let (t, s') = heartbeat s a owner token ttl now in (cleanup_sent (cleanup t), s'))"
| "session_step s (OpRelease a owner token now) =
     (let (t, s') = release s a owner token now in (cleanup_sent (cleanup t), s'))"
| "session_step s (OpExpire now) = (let (cs, s') = expire s now in (cleanup_sent cs, s'))"
| "session_step s (OpRevokeViewer v) = (let (cs, s') = revoke_viewer s v in (cleanup_sent cs, s'))"
| "session_step s (OpRevokeAgent a c) = (let (cs, s') = revoke_agent s a c in (cleanup_sent cs, s'))"

definition sent_to :: "Uuid \<Rightarrow> (Uuid \<times> Value) list \<Rightarrow> Value list" where
  "sent_to a xs = map snd (filter (\<lambda>p. fst p = a) xs)"

inductive session_reach :: "ControlSessions \<Rightarrow> (Uuid \<Rightarrow> Host) \<Rightarrow> bool" where
  session_init: "session_reach ControlSessions_default (\<lambda>_. host_idle)"
| session_next: "session_reach s w \<Longrightarrow> session_step s op = (out, s') \<Longrightarrow>
    session_reach s' (\<lambda>a. foldl host_apply (w a) (sent_to a out))"

text \<open>What the sessions say is down on an agent's host.\<close>

definition lease_host :: "ControlSessions \<Rightarrow> Uuid \<Rightarrow> Host" where
  "lease_host s a = (case lease_of s a of None \<Rightarrow> host_idle | Some l \<Rightarrow> held_host (held l))"

lemma sent_to_simps [simp]:
  "sent_to a [] = []"
  "sent_to a ((b, v) # xs) = (if b = a then v # sent_to a xs else sent_to a xs)"
  "sent_to a (xs @ ys) = sent_to a xs @ sent_to a ys"
  by (simp_all add: sent_to_def)

lemma sent_to_cleanup_other:
  "a \<notin> cleanup_agent_id ` set cs \<Longrightarrow> sent_to a (cleanup_sent cs) = []"
  by (induction cs) (auto simp: cleanup_sent_def sent_to_def filter_empty_conv)

lemma sent_to_cleanup_one:
  "sent_to a (cleanup_sent [c]) = (if cleanup_agent_id c = a then cleanup_commands c else [])"
proof -
  have "sent_to a (map (Pair b) vs) = (if b = a then vs else [])" for b vs
    by (induction vs) auto
  then show ?thesis by (simp add: cleanup_sent_def)
qed

lemma cleanup_sent_Cons: "cleanup_sent (c # cs) = cleanup_sent [c] @ cleanup_sent cs"
  by (simp add: cleanup_sent_def)

lemma sent_to_cleanup:
  assumes "distinct (map cleanup_agent_id cs)" "c \<in> set cs" "cleanup_agent_id c = a"
  shows "sent_to a (cleanup_sent cs) = cleanup_commands c"
  using assms
proof (induction cs)
  case Nil
  then show ?case by simp
next
  case (Cons d cs)
  show ?case
  proof (cases "d = c")
    case True
    with Cons.prems have "sent_to a (cleanup_sent cs) = []"
      by (auto intro!: sent_to_cleanup_other)
    with True Cons.prems show ?thesis
      by (subst cleanup_sent_Cons) (simp add: sent_to_cleanup_one)
  next
    case False
    with Cons.prems have "cleanup_agent_id d \<noteq> a" by auto
    with False Cons show ?thesis
      by (subst cleanup_sent_Cons) (simp add: sent_to_cleanup_one)
  qed
qed

context teardown
begin

text \<open>The releases a teardown reports bring every host to what the remaining leases say.\<close>

lemma teardown_host:
  assumes "sessions_wf s" "op s = (cs, s')"
  shows "foldl host_apply (lease_host s a) (sent_to a (cleanup_sent cs)) = lease_host s' a"
proof (cases "\<exists>l. lease_of s a = Some l \<and> hit a l")
  case True
  then obtain l where l: "lease_of s a = Some l" "hit a l" by blast
  then have "cleanup_of reason a l \<in> set cs"
    unfolding op_cleanups [OF assms] by blast
  then have "sent_to a (cleanup_sent cs) = drain (held l)"
    using sent_to_cleanup [OF op_distinct [OF assms]] by (simp add: cleanup_of_def)
  with l show ?thesis
    by (simp add: lease_host_def drain_idle op_leases [OF assms])
next
  case False
  then have "a \<notin> cleanup_agent_id ` set cs"
    unfolding op_cleanups [OF assms] by (auto simp: cleanup_of_def)
  moreover from False have "lease_of s' a = lease_of s a"
    unfolding op_leases [OF assms] by (cases "lease_of s a") auto
  ultimately show ?thesis by (simp add: lease_host_def sent_to_cleanup_other)
qed

end

lemma lease_host_insert:
  "lease_host (s\<lparr>leases := hm_insert a l (leases s)\<rparr>) b = (if b = a then held_host (held l) else lease_host s b)"
  by (simp add: lease_host_def)

lemma cleanup_sent_Nil [simp]: "cleanup_sent [] = []"
  by (simp add: cleanup_sent_def)

lemma authorize_host:
  assumes "sessions_wf s" "authorize s b owner token now = (t, s')"
  shows "foldl host_apply (lease_host s a) (sent_to a (cleanup_sent (cleanup t))) = lease_host s' a"
  using agent_expiry.teardown_host [OF assms(1) prod.collapse [symmetric], where now = now and agent = b and a = a] assms(2)
  by (auto simp: authorize_def case_prod_unfold Let_def)

lemma acquire_host:
  assumes "sessions_wf s" "acquire s b owner ttl now fresh = (t, s')"
  shows "foldl host_apply (lease_host s a) (sent_to a (cleanup_sent (cleanup t))) = lease_host s' a"
proof (rule acquire_cases [of s b now owner ttl fresh])
  fix cs s1
  assume ex: "expire_agent s b now = (cs, s1)" and none: "lease_of s1 b = None"
    and eq: "acquire s b owner ttl now fresh = (\<lparr> result = Ok \<lparr> grant_token = fresh, grant_owner = owner,
      expires_at = deadline now ttl \<rparr>, cleanup = cs \<rparr>,
      s1\<lparr>leases := hm_insert b \<lparr> grant = \<lparr> grant_token = fresh, grant_owner = owner,
        expires_at = deadline now ttl \<rparr>, held = HeldInput_default \<rparr> (leases s1)\<rparr>)"
  have "lease_host s' a = lease_host s1 a"
    using assms(2) eq none by (auto simp: lease_host_def)
  with agent_expiry.teardown_host [OF assms(1) ex, where a = a] eq assms(2) show ?thesis by simp
qed (use assms(2) in auto)

lemma heartbeat_host:
  assumes "sessions_wf s" "heartbeat s b owner token ttl now = (t, s')"
  shows "foldl host_apply (lease_host s a) (sent_to a (cleanup_sent (cleanup t))) = lease_host s' a"
proof (cases "holds s b owner token now")
  case True
  obtain l where "lease_of s b = Some l" "cleanup t = []"
    "s' = s\<lparr>leases := hm_insert b (l\<lparr>grant := (grant l)\<lparr>expires_at := deadline now ttl\<rparr>\<rparr>) (leases s)\<rparr>"
    by (rule heartbeat_ok [OF True, of ttl]) (use assms(2) in auto)
  then show ?thesis by (simp add: lease_host_insert) (simp add: lease_host_def)
next
  case False
  from heartbeat_err(2,3) [OF False, of ttl] assms(2)
    authorize_host [OF assms(1) prod.collapse [symmetric], of a b owner token now]
  show ?thesis by simp
qed

lemma release_host:
  assumes "sessions_wf s" "release s b owner token now = (t, s')"
  shows "foldl host_apply (lease_host s a) (sent_to a (cleanup_sent (cleanup t))) = lease_host s' a"
proof (cases "holds s b owner token now")
  case True
  then obtain l where "lease_of s b = Some l" by (auto simp: holds_def)
  with True assms(2) have "cleanup t = [cleanup_of Released b l]"
    "s' = s\<lparr>leases := hm_remove b (leases s)\<rparr>" "lease_of s b = Some l"
    by (auto simp: release_eq)
  then show ?thesis
    by (cases "b = a") (simp_all add: sent_to_cleanup_one lease_host_def cleanup_of_def drain_idle)
next
  case False
  with assms authorize_host [OF assms(1), of b owner token now t s' a] show ?thesis
    by (simp add: release_eq)
qed

lemma input_host:
  assumes "sessions_wf s" "authorize_and_track s b owner token cmd now = (t, s')"
  shows "foldl host_apply (lease_host s a)
      (sent_to a (cleanup_sent (cleanup t) @ (if is_ok (result t) then [(b, cmd)] else []))) = lease_host s' a"
proof (cases "holds s b owner token now")
  case True
  then obtain l where l: "lease_of s b = Some l" by (auto simp: holds_def)
  obtain r h where rh: "track (held l) cmd = (r, h)" by force
  with True l assms(2) have eq: "cleanup t = []" "result t = r"
    "s' = s\<lparr>leases := hm_insert b (l\<lparr>held := h\<rparr>) (leases s)\<rparr>"
    by (auto simp: authorize_and_track_eq)
  show ?thesis
  proof (cases r)
    case (Inl e)
    with rh have "h = held l" by (auto dest: track_error_unchanged)
    with eq l Inl show ?thesis by (simp add: lease_host_insert) (simp add: lease_host_def)
  next
    case (Inr u)
    with rh have "held_host h = host_apply (held_host (held l)) cmd"
      using track_refines_host [OF sessions_wfD(2) [OF assms(1) l]] by simp
    with eq l Inr show ?thesis by (simp add: lease_host_insert) (simp add: lease_host_def)
  qed
next
  case False
  then have "is_err (result (fst (authorize s b owner token now)))"
    using authorize_ok_iff [of s b owner token now] by (cases "result (fst (authorize s b owner token now))") auto
  with False assms authorize_host [OF assms(1), of b owner token now t s' a] show ?thesis
    by (simp add: authorize_and_track_eq)
qed

lemma session_step_wf: "sessions_wf s \<Longrightarrow> session_step s op = (out, s') \<Longrightarrow> sessions_wf s'"
proof (cases op)
  case (OpExpire now)
  assume "sessions_wf s" "session_step s op = (out, s')"
  with OpExpire show ?thesis by (auto simp: case_prod_unfold Let_def intro: expiry.op_wf [OF _ prod.collapse [symmetric]])
next
  case (OpRevokeViewer v)
  assume "sessions_wf s" "session_step s op = (out, s')"
  with OpRevokeViewer show ?thesis
    by (auto simp: case_prod_unfold Let_def intro: viewer_revocation.op_wf [OF _ prod.collapse [symmetric]])
next
  case (OpRevokeAgent a c)
  assume "sessions_wf s" "session_step s op = (out, s')"
  with OpRevokeAgent show ?thesis
    by (auto simp: case_prod_unfold Let_def intro: agent_revocation.op_wf [OF _ prod.collapse [symmetric]])
qed (auto simp: case_prod_unfold Let_def intro: inv_intros)

lemma session_step_host:
  assumes "sessions_wf s" "session_step s op = (out, s')"
  shows "foldl host_apply (lease_host s a) (sent_to a out) = lease_host s' a"
  using assms(2)
proof (cases op)
  case (OpExpire now)
  with assms(2) expiry.teardown_host [OF assms(1) prod.collapse [symmetric], where now = now and a = a] show ?thesis
    by (auto simp: case_prod_unfold Let_def)
next
  case (OpRevokeViewer v)
  with assms(2) viewer_revocation.teardown_host [OF assms(1) prod.collapse [symmetric], where viewer = v and a = a] show ?thesis
    by (auto simp: case_prod_unfold Let_def)
next
  case (OpRevokeAgent b c)
  with assms(2) agent_revocation.teardown_host [OF assms(1) prod.collapse [symmetric], where agent = b and conn = c and a = a] show ?thesis
    by (auto simp: case_prod_unfold Let_def)
next
  case (OpInput b owner token cmd now)
  with assms(2) input_host [OF assms(1) prod.collapse [symmetric], of a b owner token cmd now] show ?thesis
    by (auto simp: case_prod_unfold Let_def)
qed (use assms in \<open>auto simp: case_prod_unfold Let_def
       intro!: acquire_host [OF _ prod.collapse [symmetric]] heartbeat_host [OF _ prod.collapse [symmetric]]
         release_host [OF _ prod.collapse [symmetric]]\<close>)

lemma session_reach_host: "session_reach s w \<Longrightarrow> sessions_wf s \<and> w = lease_host s"
proof (induction rule: session_reach.induct)
  case session_init
  have "lease_host ControlSessions_default a = host_idle" for a
    by (simp add: lease_host_def ControlSessions_default_def)
  then show ?case by auto
next
  case (session_next s w op out s')
  then show ?case using session_step_host [of s op out s'] by (auto intro: session_step_wf)
qed

section \<open>Properties\<close>


definition example_owner :: LeaseOwner where
  "example_owner = \<lparr> viewer_connection_id = 1, owner_user_id = 2, agent_connection_id = 3 \<rparr>"

definition example_press :: Value where
  "example_press = json_obj [(''type'', Str ''KeyDown''), (''key'', Str ''shift'')]"

definition example_acquired :: ControlSessions where
  "example_acquired = snd (session_step ControlSessions_default (OpAcquire 9 example_owner 0 0 7))"

definition example_pressed :: ControlSessions where
  "example_pressed = snd (session_step example_acquired (OpInput 9 example_owner 7 example_press 5))"

lemma example_reach:
  "session_reach example_pressed (\<lambda>a. foldl host_apply host_idle (sent_to a [(9, example_press)]))"
proof -
  have "session_step ControlSessions_default (OpAcquire 9 example_owner 0 0 7) = ([], example_acquired)"
    by (simp add: example_acquired_def acquire_def expire_agent_def ControlSessions_default_def Let_def)
  from session_next [OF session_init this] have one: "session_reach example_acquired (\<lambda>_. host_idle)"
    by simp
  have "session_step example_acquired (OpInput 9 example_owner 7 example_press 5) =
      ([(9, example_press)], example_pressed)"
    by (simp add: example_pressed_def example_acquired_def acquire_def expire_agent_def
        ControlSessions_default_def Let_def authorize_and_track_def case_prod_unfold
        authorize_def check_def deadline_def MIN_LEASE_TTL_def MAX_LEASE_TTL_def from_secs_def clamp_def
        track_def example_press_def HELD_KEYS_def)
  from session_next [OF one this] show ?thesis by simp
qed

lemma host_matches_example: "host_apply host_idle example_press = lease_host example_pressed 9"
  using session_reach_host [OF example_reach] by (auto simp: fun_eq_iff dest: spec [of _ 9])


text \<open>
  Only the holder acts: input, renewal and release are authorized exactly when the agent has a
  lease that has not expired, held by the same viewer connection, user and agent connection, under the
  same token; a lease found expired is torn down on the spot and the call fails.
\<close>

theorem authorize_iff_holder:
  "result (fst (authorize s a owner token now)) = Ok () \<longleftrightarrow>
     (\<exists>l. hm_get (leases s) a = Some l \<and> now < expires_at (grant l)
        \<and> grant_owner (grant l) = owner \<and> grant_token (grant l) = token)"
  using authorize_ok_iff by (simp add: holds_def live_def)

text \<open>
  Control is exclusive and not renewed by asking again: while a lease is live, another owner's
  request is refused with the holder's identity, the holder's own request returns the grant it has,
  and both leave the sessions as they are; otherwise the request gets the fresh token, a lifetime
  between 1 and 30 seconds, and nothing held down.
\<close>

theorem acquire_exclusive:
  "case hm_get (leases s) a of
     Some l \<Rightarrow>
       (if now < expires_at (grant l) then
          acquire s a owner ttl now fresh =
            (\<lparr> result = (if grant_owner (grant l) = owner then Ok (grant l)
                        else Err (Conflict (grant_owner (grant l)))), cleanup = [] \<rparr>, s)
        else \<exists>g s'. acquire s a owner ttl now fresh =
               (\<lparr> result = Ok g, cleanup = [cleanup_of TeardownExpired a l] \<rparr>, s')
             \<and> hm_get (leases s') a = Some \<lparr> grant = g, held = HeldInput_default \<rparr>
             \<and> grant_token g = fresh \<and> grant_owner g = owner
             \<and> now + from_secs 1 \<le> expires_at g \<and> expires_at g \<le> now + from_secs 30)
   | None \<Rightarrow> \<exists>g s'. acquire s a owner ttl now fresh = (\<lparr> result = Ok g, cleanup = [] \<rparr>, s')
       \<and> hm_get (leases s') a = Some \<lparr> grant = g, held = HeldInput_default \<rparr>
       \<and> grant_token g = fresh \<and> grant_owner g = owner
       \<and> now + from_secs 1 \<le> expires_at g \<and> expires_at g \<le> now + from_secs 30"
  by (rule acquire_cases [of s a now owner ttl fresh])
    (auto simp: live_def expire_agent_none expire_agent_expired deadline_bounds [simplified] split: option.splits)

text \<open>
  A heartbeat by the holder keeps the token, the owner and what is held down, and moves the
  deadline to between 1 and 30 seconds from now, whatever lifetime was asked for; anybody else's
  heartbeat fails and renews nothing.
\<close>

theorem heartbeat_renews:
  "if (\<exists>l. hm_get (leases s) a = Some l \<and> now < expires_at (grant l)
         \<and> grant_owner (grant l) = owner \<and> grant_token (grant l) = token)
   then \<exists>l g. hm_get (leases s) a = Some l
       \<and> heartbeat s a owner token ttl now =
           (\<lparr> result = Ok g, cleanup = [] \<rparr>, s\<lparr>leases := hm_insert a (l\<lparr>grant := g\<rparr>) (leases s)\<rparr>)
       \<and> grant_token g = token \<and> grant_owner g = owner
       \<and> now + from_secs 1 \<le> expires_at g \<and> expires_at g \<le> now + from_secs 30
   else is_err (result (fst (heartbeat s a owner token ttl now)))
      \<and> (\<forall>b. hm_get (leases (snd (heartbeat s a owner token ttl now))) b
              \<in> {None, hm_get (leases s) b})"
proof (cases "holds s a owner token now")
  case True
  obtain l where "lease_of s a = Some l" "grant_owner (grant l) = owner" "grant_token (grant l) = token"
    "heartbeat s a owner token ttl now =
       (\<lparr> result = Ok ((grant l)\<lparr>expires_at := deadline now ttl\<rparr>), cleanup = [] \<rparr>,
        s\<lparr>leases := hm_insert a (l\<lparr>grant := (grant l)\<lparr>expires_at := deadline now ttl\<rparr>\<rparr>) (leases s)\<rparr>)"
    by (rule heartbeat_ok [OF True, of ttl])
  then show ?thesis
    using True deadline_bounds [of now ttl] unfolding holds_def live_def
    by simp
next
  case False
  have "lease_of (snd (authorize s a owner token now)) b \<in> {None, lease_of s b}" for b
    by (rule authorize_cases [of s a owner token now]) auto
  with heartbeat_err [OF False, of ttl] have "is_err (result (fst (heartbeat s a owner token ttl now)))
      \<and> (\<forall>b. lease_of (snd (heartbeat s a owner token ttl now)) b \<in> {None, lease_of s b})" by simp
  with False show ?thesis unfolding holds_def live_def by (simp only: if_False simp_thms)
qed

text \<open>
  A disconnecting viewer loses every lease it has and only those: each is reported once with its
  token, owner and the releases of what it held, all other leases stay as they are, and tearing down
  again reports nothing.
\<close>

theorem revoke_viewer_exactly_once:
  assumes "sessions_wf s" and "revoke_viewer s viewer = (cs, s')"
  shows "hm_get (leases s') a = option_filter (\<lambda>l. viewer_connection_id (grant_owner (grant l)) \<noteq> viewer)
           (hm_get (leases s) a)
    \<and> set cs = {cleanup_of ViewerDisconnected b l | b l. hm_get (leases s) b = Some l
           \<and> viewer_connection_id (grant_owner (grant l)) = viewer}
    \<and> distinct (map cleanup_agent_id cs)
    \<and> fst (revoke_viewer s' viewer) = []"
  using viewer_revocation.op_leases [OF assms] viewer_revocation.op_cleanups [OF assms]
    viewer_revocation.op_distinct [OF assms] viewer_revocation.op_twice [OF assms prod.collapse [symmetric]]
  by auto

definition example_sessions :: ControlSessions where
  "example_sessions = \<lparr> leases = [(9, \<lparr> grant = \<lparr> grant_token = 7, grant_owner = example_owner, expires_at = 40 \<rparr>,
     held = \<lparr> keys = 1, buttons = [None, Some (3, 4), None] \<rparr> \<rparr>)] \<rparr>"

lemma example_sessions_wf: "sessions_wf example_sessions"
  by (auto simp: sessions_wf_def example_sessions_def hm_wf_def held_wf_def i32_min_def i32_max_def
      bit_1_iff split: if_splits)

theorem revoke_viewer_exactly_once_witness:
  "length (fst (revoke_viewer example_sessions 1)) = 1
   \<and> fst (revoke_viewer (snd (revoke_viewer example_sessions 1)) 1) = []"
  using revoke_viewer_exactly_once [OF example_sessions_wf prod.collapse [symmetric], of 1]
  by (simp add: revoke_viewer_def hm_keys_where_def example_sessions_def example_owner_def)

text \<open>
  Cleanup can only let go: every command a teardown produces is a key-up of a tracked key or a
  mouse-up of a known button at a 32-bit position, the only commands the transport lets pass without
  a lease.
\<close>

theorem cleanup_only_releases:
  assumes "session_reach s w" and "hm_get (leases s) a = Some l"
    and "c \<in> set (cleanup_commands (cleanup_of reason a l))"
  shows "is_cleanup_command c"
proof -
  have "held_wf (held l)"
    using session_reach_host [OF assms(1)] assms(2) by (auto dest: sessions_wfD)
  with assms(3) show ?thesis by (auto simp: cleanup_of_def intro: drain_is_cleanup)
qed

theorem cleanup_only_releases_witness:
  "list_all is_cleanup_command (cleanup_commands (cleanup_of Released 9 (the (hm_get (leases example_pressed) 9))))
   \<and> hm_get (leases example_pressed) 9 \<noteq> None"
proof -
  have some: "hm_get (leases example_pressed) 9 \<noteq> None"
    using host_matches_example by (auto simp: lease_host_def host_apply_def example_press_def host_idle_def split: option.splits)
  then obtain l where l: "hm_get (leases example_pressed) 9 = Some l" by blast
  have "\<And>c. c \<in> set (cleanup_commands (cleanup_of Released 9 l)) \<Longrightarrow> is_cleanup_command c"
    by (rule cleanup_only_releases [OF example_reach l])
  with l some show ?thesis by (auto simp: list_all_iff)
qed

end
