(* ===== verification/ModuleReports.thy ===== *)
theory ModuleReports
  imports Sessions
begin

text \<open>
  The device-owned module grants as the server validates and stores them
  (\<open>server/src/agents/modules/mod.rs\<close>, first part, and the rows of \<open>db.rs\<close>): a module report, its
  strict parser, the order between the reports of one connection, the grants of a connection with its
  pending disable requests, and the denials commands are refused with.

  \<open>serde_json::from_value\<close> on a struct reads an object or an array of the fields in order;
  \<open>deny_unknown_fields\<close> is the check on the keys.
\<close>

section \<open>Reading structs\<close>

fun struct_fields :: "string list \<Rightarrow> Value \<Rightarrow> (string \<times> Value) list option" where
  "struct_fields names (Obj kvs) = (if list_all (\<lambda>(k, _). k \<in> set names) kvs then Some kvs else None)"
| "struct_fields names (Arr vs) = (if length vs = length names then Some (zip names vs) else None)"
| "struct_fields names _ = None"

fun decode_all :: "('a \<Rightarrow> 'b option) \<Rightarrow> 'a list \<Rightarrow> 'b list option" where
  "decode_all f [] = Some []"
| "decode_all f (x # xs) =
     (case f x of None \<Rightarrow> None | Some y \<Rightarrow> map_option (\<lambda>ys. y # ys) (decode_all f xs))"

definition as_u32 :: "Value \<Rightarrow> u32 option" where
  "as_u32 v = (case as_u64 v of None \<Rightarrow> None | Some n \<Rightarrow> if unat n < 2 ^ 32 then Some (ucast n) else None)"

section \<open>Reports\<close>

record ModuleState =
  ms_module :: Module
  available :: bool
  enabled :: bool
  ms_revision :: u64
  authorization_required :: bool

record ModuleReport =
  report_kind :: string
  schema_version :: u32
  report_revision :: u64
  report_modules :: "ModuleState list"

definition module_state_of_value :: "Value \<Rightarrow> ModuleState option" where
  "module_state_of_value v =
     Option.bind (struct_fields [''module'', ''available'', ''enabled'', ''revision'', ''authorization_required''] v)
       (\<lambda>kvs. case (Option.bind (map_of kvs ''module'') module_of_value,
                    Option.bind (map_of kvs ''available'') as_bool,
                    Option.bind (map_of kvs ''enabled'') as_bool,
                    Option.bind (map_of kvs ''revision'') as_u64,
                    Option.bind (map_of kvs ''authorization_required'') as_bool) of
          (Some m, Some a, Some e, Some r, Some q) \<Rightarrow>
            Some \<lparr> ms_module = m, available = a, enabled = e, ms_revision = r, authorization_required = q \<rparr>
        | _ \<Rightarrow> None)"

definition report_of_value :: "Value \<Rightarrow> ModuleReport option" where
  "report_of_value v =
     Option.bind (struct_fields [''type'', ''schema_version'', ''revision'', ''modules''] v)
       (\<lambda>kvs. case (Option.bind (map_of kvs ''type'') as_str,
                    Option.bind (map_of kvs ''schema_version'') as_u32,
                    Option.bind (map_of kvs ''revision'') as_u64,
                    Option.bind (Option.bind (map_of kvs ''modules'') as_array) (decode_all module_state_of_value)) of
          (Some k, Some s, Some r, Some ms) \<Rightarrow>
            Some \<lparr> report_kind = k, schema_version = s, report_revision = r, report_modules = ms \<rparr>
        | _ \<Rightarrow> None)"

definition json_module_state :: "ModuleState \<Rightarrow> Value" where
  "json_module_state s =
     json_obj [(''module'', json_module (ms_module s)), (''available'', Bool (available s)),
       (''enabled'', Bool (enabled s)), (''revision'', json_u64 (ms_revision s)),
       (''authorization_required'', Bool (authorization_required s))]"

definition json_report :: "ModuleReport \<Rightarrow> Value" where
  "json_report r =
     json_obj [(''type'', Str (report_kind r)), (''schema_version'', json_u64 (ucast (schema_version r))),
       (''revision'', json_u64 (report_revision r)),
       (''modules'', Arr (map json_module_state (report_modules r)))]"

text \<open>The errors of \<open>ModuleReport::parse\<close>, one per \<open>ensure!\<close>.\<close>

datatype ReportError =
    MalformedReport
  | UnsupportedSchema
  | IncompleteReport
  | DuplicateModule
  | RevisionExceedsReport
  | InconsistentGrant
  | InconsistentAuthorization

definition clipboard_unavailable :: ModuleState where
  "clipboard_unavailable =
     \<lparr> ms_module = Clipboard, available = False, enabled = False, ms_revision = 0,
       authorization_required = True \<rparr>"

fun validate_modules :: "u64 \<Rightarrow> Module set \<Rightarrow> ModuleState list \<Rightarrow> (unit, ReportError) Result" where
  "validate_modules revision seen [] = Ok ()"
| "validate_modules revision seen (m # ms) =
     (if ms_module m \<in> seen then Err DuplicateModule
      else if \<not> ms_revision m \<le> revision then Err RevisionExceedsReport
      else if \<not> (\<not> enabled m \<or> (available m \<and> \<not> authorization_required m)) then Err InconsistentGrant
      else if \<not> (\<not> available m \<or> authorization_required m = (\<not> enabled m)) then Err InconsistentAuthorization
      else validate_modules revision (insert (ms_module m) seen) ms)"

definition ModuleReport_parse :: "Value \<Rightarrow> (ModuleReport, ReportError) Result" where
  "ModuleReport_parse value =
     (case report_of_value value of
        None \<Rightarrow> Err MalformedReport
      | Some report0 \<Rightarrow>
          if \<not> (report_kind report0 = ''module_states'' \<and> schema_version report0 = 1) then Err UnsupportedSchema
          else
            (let report =
               (if length (report_modules report0) = length MODULES - 1
                   \<and> \<not> list_ex (\<lambda>m. ms_module m = Clipboard) (report_modules report0)
                then report0\<lparr>report_modules := report_modules report0 @ [clipboard_unavailable]\<rparr>
                else report0)
             in if length (report_modules report) \<noteq> length MODULES then Err IncompleteReport
                else case validate_modules (report_revision report) {} (report_modules report) of
                       Inl e \<Rightarrow> Err e
                     | Inr _ \<Rightarrow> Ok report))"

text \<open>\<open>get\<close> expects a validated report, where every module is found (\<open>report_get_found\<close>).\<close>

definition module_state_missing :: "Module \<Rightarrow> ModuleState" where
  "module_state_missing m =
     \<lparr> ms_module = m, available = False, enabled = False, ms_revision = 0, authorization_required = True \<rparr>"

definition report_get :: "ModuleReport \<Rightarrow> Module \<Rightarrow> ModuleState" where
  "report_get report m =
     unwrap_or (find (\<lambda>state. ms_module state = m) (report_modules report)) (module_state_missing m)"

definition follows :: "ModuleReport \<Rightarrow> ModuleReport \<Rightarrow> bool" where
  "follows self previous =
     (report_revision self \<ge> report_revision previous
      \<and> list_all (\<lambda>current.
           let old = report_get previous (ms_module current)
           in ms_revision current \<ge> ms_revision old
              \<and> (ms_revision current \<noteq> ms_revision old
                 \<or> authorization_required current = authorization_required old)
              \<and> (report_revision self \<noteq> report_revision previous \<or> ms_revision current = ms_revision old))
         (report_modules self))"

section \<open>Disable requests and the grants of a connection\<close>

record ModuleDisableRequest =
  req_command_id :: Uuid
  req_agent_id :: Uuid
  req_module :: Module
  req_expected_revision :: u64
  req_status :: string
  req_error :: "string option"
  req_persisted :: bool
  req_stopped :: bool
  req_stop_status :: string
  req_pending :: bool

record RuntimeModules =
  rm_conn_id :: Uuid
  rm_report :: ModuleReport
  rm_pending :: "(Uuid, ModuleDisableRequest) HashMap"
  rm_sent :: "Uuid set"
  rm_last_sent :: "(Uuid, Instant) HashMap"

definition grants :: "RuntimeModules \<Rightarrow> Module \<Rightarrow> bool" where
  "grants rt m =
     (let g = report_get (rm_report rt) m
      in available g \<and> enabled g \<and> \<not> authorization_required g)"

definition disable_pending :: "RuntimeModules \<Rightarrow> Module \<Rightarrow> bool" where
  "disable_pending rt m = list_ex (\<lambda>request. req_module request = m) (hm_values (rm_pending rt))"

section \<open>Denials\<close>

record CommandDenied =
  code :: string
  error :: string
  denied_module :: "Module option"

definition CommandDenied_new :: "string \<Rightarrow> string \<Rightarrow> Module option \<Rightarrow> CommandDenied" where
  "CommandDenied_new c e m = \<lparr> code = c, error = e, denied_module = m \<rparr>"

definition starts_with :: "string \<Rightarrow> string \<Rightarrow> bool" where
  "starts_with s p = (take (length p) s = p)"

text \<open>The status of \<open>CommandDenied::response\<close>.\<close>

definition response_status :: "CommandDenied \<Rightarrow> nat" where
  "response_status d =
     (if code d = ''agent_offline'' \<or> starts_with (code d) ''capture_'' \<or> code d = ''invalid_monitor'' then 409
      else if code d = ''command_queue_full'' then 503
      else 403)"

section \<open>Validated reports\<close>

definition grant_consistent :: "ModuleState \<Rightarrow> bool" where
  "grant_consistent m \<longleftrightarrow>
     (enabled m \<longrightarrow> available m) \<and> (available m \<longrightarrow> authorization_required m = (\<not> enabled m))"

definition validated :: "ModuleReport \<Rightarrow> bool" where
  "validated r \<longleftrightarrow>
     report_kind r = ''module_states'' \<and> schema_version r = 1
     \<and> distinct (map ms_module (report_modules r)) \<and> length (report_modules r) = length MODULES
     \<and> (\<forall>m \<in> set (report_modules r). ms_revision m \<le> report_revision r \<and> grant_consistent m)"

lemma validate_modules_iff:
  "validate_modules revision seen ms = Ok () \<longleftrightarrow>
     distinct (map ms_module ms) \<and> ms_module ` set ms \<inter> seen = {}
     \<and> (\<forall>m \<in> set ms. ms_revision m \<le> revision \<and> grant_consistent m)"
  by (induction revision seen ms rule: validate_modules.induct) (auto simp: grant_consistent_def)

lemma ModuleReport_parse_validated: "ModuleReport_parse v = Ok r \<Longrightarrow> validated r"
  unfolding ModuleReport_parse_def validated_def
  by (auto simp: Let_def validate_modules_iff split: option.splits if_splits sum.splits)

lemma validated_modules:
  assumes "validated r"
  shows "set (map ms_module (report_modules r)) = UNIV"
proof -
  have "card (set (map ms_module (report_modules r))) = length MODULES"
    using assms by (simp only: validated_def distinct_card length_map)
  moreover have "card (UNIV :: Module set) = length MODULES"
    using distinct_card [OF distinct_MODULES] by (simp add: set_MODULES)
  moreover have "finite (UNIV :: Module set)"
    using set_MODULES by (metis List.finite_set)
  ultimately show ?thesis by (metis card_subset_eq subset_UNIV)
qed

lemma report_get_found:
  assumes "validated r"
  shows "find (\<lambda>state. ms_module state = m) (report_modules r) = Some (report_get r m)"
proof -
  have "m \<in> set (map ms_module (report_modules r))"
    unfolding validated_modules [OF assms] by simp
  then have "find (\<lambda>state. ms_module state = m) (report_modules r) \<noteq> None"
    by (auto simp: find_None_iff)
  then show ?thesis by (auto simp: report_get_def)
qed

lemma report_get_mem: "validated r \<Longrightarrow> report_get r m \<in> set (report_modules r)"
  using report_get_found [of r m] by (auto simp: find_Some_iff)

lemma report_get_module [simp]: "ms_module (report_get r m) = m"
proof (cases "find (\<lambda>state. ms_module state = m) (report_modules r)")
  case None
  then show ?thesis by (simp add: report_get_def module_state_missing_def)
next
  case (Some s)
  then have "ms_module s = m" by (auto simp: find_Some_iff)
  with Some show ?thesis by (simp add: report_get_def)
qed

lemma report_get_consistent:
  "validated r \<Longrightarrow> grant_consistent (report_get r m) \<and> ms_revision (report_get r m) \<le> report_revision r"
  using report_get_mem [of r m] by (auto simp: validated_def)

lemma report_get_eq:
  assumes "validated r" "s \<in> set (report_modules r)"
  shows "report_get r (ms_module s) = s"
proof -
  have "inj_on ms_module (set (report_modules r))"
    using assms(1) by (simp add: validated_def distinct_map)
  with assms report_get_mem [OF assms(1)] show ?thesis
    by (meson inj_onD report_get_module)
qed

lemma validated_all:
  assumes "validated r"
  shows "(\<forall>s \<in> set (report_modules r). Q (ms_module s)) \<longleftrightarrow> (\<forall>m. Q m)"
proof safe
  fix m
  assume "\<forall>s \<in> set (report_modules r). Q (ms_module s)"
  with report_get_mem [OF assms, of m] have "Q (ms_module (report_get r m))" by blast
  then show "Q m" by simp
qed simp

lemma follows_get:
  assumes "validated r"
  shows "follows r p \<longleftrightarrow> report_revision p \<le> report_revision r \<and>
    (\<forall>m. ms_revision (report_get p m) \<le> ms_revision (report_get r m)
       \<and> (ms_revision (report_get r m) = ms_revision (report_get p m) \<longrightarrow>
            authorization_required (report_get r m) = authorization_required (report_get p m))
       \<and> (report_revision r = report_revision p \<longrightarrow>
            ms_revision (report_get r m) = ms_revision (report_get p m)))"
    (is "_ \<longleftrightarrow> _ \<and> (\<forall>m. ?Q m)")
proof -
  have "(\<forall>s \<in> set (report_modules r). ?Q (ms_module s)) \<longleftrightarrow> (\<forall>m. ?Q m)"
    by (rule validated_all [OF assms])
  moreover have "follows r p \<longleftrightarrow> report_revision p \<le> report_revision r \<and> (\<forall>s \<in> set (report_modules r). ?Q (ms_module s))"
    using report_get_eq [OF assms] by (auto simp: follows_def list_all_iff Let_def)
  ultimately show ?thesis by simp
qed

lemma follows_refl: "validated r \<Longrightarrow> follows r r"
  by (simp add: follows_get)

lemma follows_trans:
  assumes "validated r" "validated q" "follows r q" "follows q p"
  shows "follows r p"
proof -
  note r = assms(3) [unfolded follows_get [OF assms(1)]] and q = assms(4) [unfolded follows_get [OF assms(2)]]
  have "ms_revision (report_get p m) \<le> ms_revision (report_get r m)" for m
    using r q order_trans by blast
  moreover have "authorization_required (report_get r m) = authorization_required (report_get p m)"
    if "ms_revision (report_get r m) = ms_revision (report_get p m)" for m
    using r q that by (metis order_antisym)
  moreover have "ms_revision (report_get r m) = ms_revision (report_get p m)"
    if "report_revision r = report_revision p" for m
    using r q that by (metis order_antisym)
  moreover have "report_revision p \<le> report_revision r"
    using r q order_trans by blast
  ultimately show ?thesis by (simp add: follows_get [OF assms(1)])
qed

section \<open>The wire form of a report\<close>

lemma decode_all_map: "(\<And>x. x \<in> set xs \<Longrightarrow> f (g x) = Some x) \<Longrightarrow> decode_all f (map g xs) = Some xs"
  by (induction xs) auto

lemma struct_fields_json_obj:
  "list_all (\<lambda>(k, _). k \<in> set names) kvs \<Longrightarrow>
     struct_fields names (json_obj kvs) = Some (foldr (\<lambda>(k, v). obj_insert k v) kvs [])"
proof -
  assume "list_all (\<lambda>(k, _). k \<in> set names) kvs"
  then have "fst ` set kvs \<subseteq> set names" by (auto simp: list_all_iff)
  moreover have "fst ` set (foldr (\<lambda>(k, v). obj_insert k v) kvs []) = fst ` set kvs"
    by (induction kvs) (simp_all add: case_prod_unfold)
  ultimately have sub: "fst ` set (foldr (\<lambda>(k, v). obj_insert k v) kvs []) \<subseteq> set names" by simp
  have "list_all (\<lambda>(k, _). k \<in> set names) (foldr (\<lambda>(k, v). obj_insert k v) kvs [])"
    unfolding list_all_iff
  proof (intro ballI)
    fix p assume "p \<in> set (foldr (\<lambda>(k, v). obj_insert k v) kvs [])"
    then have "fst p \<in> set names" by (rule subsetD [OF sub imageI])
    then show "case p of (k, _) \<Rightarrow> k \<in> set names" by (simp add: case_prod_unfold)
  qed
  then show ?thesis by (simp add: json_obj_def)
qed

lemma module_state_of_json [simp]: "module_state_of_value (json_module_state s) = Some s"
  by (simp add: module_state_of_value_def json_module_state_def struct_fields_json_obj)

lemma as_u32_json [simp]: "as_u32 (json_u64 (ucast (n :: u32))) = Some n"
proof -
  have "unat (ucast n :: u64) < 2 ^ 32"
    using unsigned_less [of n, where 'a = nat] 
    by (simp add: unsigned_ucast_eq) (rule le_less_trans [OF take_bit_nat_less_eq_self])
  moreover have "ucast (ucast n :: u64) = n"
    by (rule bit_word_eqI) (auto simp: bit_unsigned_iff dest: bit_imp_le_length)
  ultimately show ?thesis by (simp add: as_u32_def)
qed

lemma report_of_json [simp]: "report_of_value (json_report r) = Some r"
  by (simp add: report_of_value_def json_report_def struct_fields_json_obj decode_all_map)

lemma validated_validate: "validated r \<Longrightarrow> validate_modules (report_revision r) {} (report_modules r) = Ok ()"
  by (simp add: validate_modules_iff validated_def)

section \<open>Properties\<close>

text \<open>
  The server stores only sound reports: whatever JSON an agent sends, a report that
  \<open>ModuleReport::parse\<close> accepts has schema version 1 and names every one of the 19 modules exactly
  once, no module is newer than the report, an enabled module is available and needs no further
  authorization, and an available module that is off does need it.
\<close>

theorem parse_only_sound_reports:
  assumes "ModuleReport_parse v = Ok r"
  shows "schema_version r = 1 \<and> (\<forall>m. \<exists>!s. s \<in> set (report_modules r) \<and> ms_module s = m)
    \<and> length (report_modules r) = 19
    \<and> (\<forall>s \<in> set (report_modules r). ms_revision s \<le> report_revision r
        \<and> (enabled s \<longrightarrow> available s \<and> \<not> authorization_required s)
        \<and> (available s \<and> \<not> enabled s \<longrightarrow> authorization_required s))"
proof -
  have v: "validated r" by (rule ModuleReport_parse_validated [OF assms])
  have "\<exists>!s. s \<in> set (report_modules r) \<and> ms_module s = m" for m
    using report_get_mem [OF v, of m] report_get_eq [OF v] by (intro ex1I [of _ "report_get r m"]) auto
  with v show ?thesis by (auto simp: validated_def grant_consistent_def)
qed

definition example_state :: "Module \<Rightarrow> ModuleState" where
  "example_state m = \<lparr> ms_module = m, available = True, enabled = (m \<in> {RemoteInput, LiveScreen, Clipboard}),
     ms_revision = 3, authorization_required = (m \<notin> {RemoteInput, LiveScreen, Clipboard}) \<rparr>"

definition example_report :: ModuleReport where
  "example_report = \<lparr> report_kind = ''module_states'', schema_version = 1, report_revision = 5,
     report_modules = map example_state MODULES \<rparr>"

lemma example_report_validated: "validated example_report"
proof -
  have "map ms_module (map example_state MODULES) = MODULES"
    by (simp add: example_state_def comp_def)
  moreover have "ms_revision (example_state m) \<le> 5 \<and> grant_consistent (example_state m)" for m
    by (simp add: example_state_def grant_consistent_def word_le_nat_alt)
  ultimately show ?thesis
    by (simp add: validated_def example_report_def distinct_MODULES del: map_map)
qed

theorem parse_only_sound_reports_witness:
  "\<exists>r. ModuleReport_parse (json_report example_report) = Ok r \<and> schema_version r = 1
     \<and> length (report_modules r) = 19"
proof -
  have "ModuleReport_parse (json_report example_report) = Ok example_report"
    using example_report_validated validated_validate [OF example_report_validated]
    by (simp add: ModuleReport_parse_def validated_def)
  from parse_only_sound_reports [OF this] this show ?thesis by blast
qed

definition without_clipboard :: "ModuleReport \<Rightarrow> ModuleReport" where
  "without_clipboard r = r\<lparr>report_modules := filter (\<lambda>s. ms_module s \<noteq> Clipboard) (report_modules r)\<rparr>"

lemma length_without_clipboard:
  assumes "validated r"
  shows "length (report_modules (without_clipboard r)) = length MODULES - 1"
proof -
  let ?ms = "filter (\<lambda>s. ms_module s \<noteq> Clipboard) (report_modules r)"
  have "distinct (map ms_module ?ms)"
    using assms by (simp add: validated_def distinct_map_filter)
  moreover have "set (map ms_module ?ms) = set (map ms_module (report_modules r)) - {Clipboard}"
    by auto
  ultimately have "length ?ms = card (UNIV - {Clipboard} :: Module set)"
    using distinct_card [of "map ms_module ?ms"] validated_modules [OF assms] by simp
  also have "\<dots> = card (set MODULES) - 1"
    unfolding set_MODULES by (rule card_Diff_singleton) simp
  also have "\<dots> = length MODULES - 1"
    by (simp only: distinct_card [OF distinct_MODULES])
  finally show ?thesis by (simp add: without_clipboard_def)
qed

lemma parse_without_clipboard:
  assumes "validated r"
  shows "ModuleReport_parse (json_report (without_clipboard r)) =
    Ok (r\<lparr>report_modules := report_modules (without_clipboard r) @ [clipboard_unavailable]\<rparr>)"
proof -
  have "validate_modules (report_revision r) {} (report_modules (without_clipboard r) @ [clipboard_unavailable]) = Ok ()"
    using assms unfolding validate_modules_iff
    by (auto simp: without_clipboard_def validated_def distinct_map_filter clipboard_unavailable_def grant_consistent_def)
  moreover have "\<not> list_ex (\<lambda>m. ms_module m = Clipboard) (report_modules (without_clipboard r))"
    by (auto simp: without_clipboard_def list_ex_iff)
  moreover have "report_revision (without_clipboard r) = report_revision r"
    "report_kind (without_clipboard r) = ''module_states''" "schema_version (without_clipboard r) = 1"
    using assms by (simp_all add: without_clipboard_def validated_def)
  moreover have "(without_clipboard r)\<lparr>report_modules := ms\<rparr> = r\<lparr>report_modules := ms\<rparr>" for ms
    by (simp add: without_clipboard_def)
  ultimately show ?thesis
    using length_without_clipboard [OF assms] by (simp add: ModuleReport_parse_def Let_def)
qed

text \<open>
  The report format is lossless both ways: a sound report parses back to itself from the JSON it
  serializes to, and a report of an older agent, complete but for the clipboard module, is read as
  the same report with the clipboard unavailable and never authorized.
\<close>

theorem report_roundtrip:
  assumes "validated r"
  shows "ModuleReport_parse (json_report r) = Ok r
    \<and> ModuleReport_parse (json_report (without_clipboard r)) =
        Ok (r\<lparr>report_modules := report_modules (without_clipboard r) @ [clipboard_unavailable]\<rparr>)"
  using parse_without_clipboard [OF assms] validated_validate [OF assms] assms
  by (simp add: ModuleReport_parse_def validated_def)

theorem report_roundtrip_witness:
  "ModuleReport_parse (json_report example_report) = Ok example_report"
  using report_roundtrip [OF example_report_validated] by blast

text \<open>
  The reports of one connection form an order: accepting reports only when each follows the last
  means that, over any number of them, no module's revision and no report revision ever goes back,
  that a module changes its authorization only with a new revision, and that a repeated report
  revision changes no module's revision.
\<close>

theorem follows_is_transitive_order:
  assumes "validated r" "validated q" "follows r q" "follows q p"
  shows "follows r p \<and> report_revision p \<le> report_revision r
    \<and> (\<forall>m. ms_revision (report_get p m) \<le> ms_revision (report_get r m)
        \<and> (authorization_required (report_get r m) \<noteq> authorization_required (report_get p m) \<longrightarrow>
             ms_revision (report_get p m) < ms_revision (report_get r m)))"
  using follows_trans [OF assms] by (auto simp: follows_get [OF assms(1)] order_less_le)

theorem follows_is_transitive_order_witness:
  "follows (example_report\<lparr>report_revision := 7\<rparr>) example_report"
proof -
  have v: "validated (example_report\<lparr>report_revision := 7\<rparr>)" "validated (example_report\<lparr>report_revision := 6\<rparr>)"
    using example_report_validated
    by (auto simp: validated_def example_report_def example_state_def word_le_nat_alt grant_consistent_def)
  have get: "report_get (example_report\<lparr>report_revision := n\<rparr>) m = report_get example_report m" for n m
    by (simp add: report_get_def)
  have "follows (example_report\<lparr>report_revision := 7\<rparr>) (example_report\<lparr>report_revision := 6\<rparr>)"
    "follows (example_report\<lparr>report_revision := 6\<rparr>) example_report"
    by (simp_all add: follows_get [OF v(1)] follows_get [OF v(2)] get word_le_nat_alt)
      (simp_all add: example_report_def)
  from follows_is_transitive_order [OF v this] show ?thesis by blast
qed

end
