(* ===== verification/AppState.thy ===== *)
theory AppState
  imports ModuleReports
begin

text \<open>
  The shared state of the server (\<open>server/src/state/mod.rs\<close>, \<open>agent_registry.rs\<close>, \<open>live_media.rs\<close>, the
  structs of \<open>control/runtime.rs\<close>, \<open>capture_arbitration.rs\<close> and \<open>clipboard.rs\<close>): the registry of connected
  agents, the control runtime, live media, and what has been sent to the viewers.

  The mutexes are not modelled: every modelled operation holds \<open>control\<close> (or a single lock) from its
  first read to its last write, so it is one step on the state. A command line queued for an agent is
  the JSON value it is the text of. A connection's \<open>shutdown\<close> watch cell is the field of its registry
  entry; once the entry is replaced or removed, \<open>detached\<close> records what its socket was told.
\<close>

section \<open>Connected agents\<close>

definition AGENT_CMD_CHANNEL_CAPACITY :: nat where "AGENT_CMD_CHANNEL_CAPACITY = 512"

datatype AgentControl = Text Value | InputCleanup Uuid Value | Close

record CmdChannel =
  queue :: "AgentControl list"
  receiver_closed :: bool

definition channel_new :: CmdChannel where
  "channel_new = \<lparr> queue = [], receiver_closed = False \<rparr>"

text \<open>\<open>mpsc::Sender::try_send\<close>: fails when the channel is full or its receiver is gone.\<close>

definition try_send :: "CmdChannel \<Rightarrow> AgentControl \<Rightarrow> CmdChannel option" where
  "try_send ch msg =
     (if receiver_closed ch \<or> AGENT_CMD_CHANNEL_CAPACITY \<le> length (queue ch) then None
      else Some (ch\<lparr>queue := queue ch @ [msg]\<rparr>))"

record AgentConn =
  conn_id :: Uuid
  connected_at :: Instant
  session_id :: int
  shutdown :: "string option"
  legacy_policy_delivery :: bool

record AgentLiveSnapshot =
  window_title :: "string option"
  window_app :: "string option"
  url :: "string option"
  activity :: "string option"
  idle_secs :: "int option"
  updated_at :: "Instant option"

definition AgentLiveSnapshot_default :: AgentLiveSnapshot where
  "AgentLiveSnapshot_default = \<lparr> window_title = None, window_app = None, url = None, activity = None,
     idle_secs = None, updated_at = None \<rparr>"

record PendingEnrollmentToken =
  pet_agent_id :: Uuid
  pet_agent_name :: string
  pet_agent_token :: string

record AgentRegistry =
  connections :: "(Uuid, AgentConn) HashMap"
  cmds :: "(Uuid, CmdChannel) HashMap"
  modules :: "(Uuid, RuntimeModules) HashMap"
  live_snapshots :: "(Uuid, AgentLiveSnapshot) HashMap"
  pending_enrollment_tokens :: "(Uuid, PendingEnrollmentToken) HashMap"

definition AgentRegistry_default :: AgentRegistry where
  "AgentRegistry_default = \<lparr> connections = [], cmds = [], modules = [], live_snapshots = [],
     pending_enrollment_tokens = [] \<rparr>"

definition update_live_from_event ::
  "AgentRegistry \<Rightarrow> Uuid \<Rightarrow> string \<Rightarrow> Value \<Rightarrow> Instant \<Rightarrow> AgentRegistry" where
  "update_live_from_event reg agent_id kind val now =
     (let snap = unwrap_or (hm_get (live_snapshots reg) agent_id) AgentLiveSnapshot_default;
          or_keep = (\<lambda>new old. case new of Some t \<Rightarrow> Some t | None \<Rightarrow> old);
          snap' =
            (if kind = ''window_focus'' then
               snap\<lparr> window_title := or_keep (as_str (v_index val ''title'')) (window_title snap),
                      window_app := or_keep (as_str (v_index val ''app'')) (window_app snap),
                      updated_at := Some now \<rparr>
             else if kind = ''url'' then
               snap\<lparr> url := or_keep (as_str (v_index val ''url'')) (url snap), updated_at := Some now \<rparr>
             else if kind = ''afk'' then
               snap\<lparr> activity := Some ''afk'',
                      idle_secs := Some (max 0 (i64_wrap_or_zero (v_index val ''idle_secs''))),
                      updated_at := Some now \<rparr>
             else if kind = ''active'' then
               snap\<lparr> activity := Some ''active'', idle_secs := Some 0, updated_at := Some now \<rparr>
             else snap)
      in reg\<lparr>live_snapshots := hm_insert agent_id snap' (live_snapshots reg)\<rparr>)"

definition clear_live :: "AgentRegistry \<Rightarrow> Uuid \<Rightarrow> AgentRegistry" where
  "clear_live reg agent_id = reg\<lparr>live_snapshots := hm_remove agent_id (live_snapshots reg)\<rparr>"

definition try_disconnect :: "AgentRegistry \<Rightarrow> Uuid \<Rightarrow> bool \<times> AgentRegistry" where
  "try_disconnect reg agent_id =
     (case Option.bind (hm_get (cmds reg) agent_id) (\<lambda>ch. try_send ch Close) of
        None \<Rightarrow> (False, reg)
      | Some ch \<Rightarrow> (True, reg\<lparr>cmds := hm_insert agent_id ch (cmds reg)\<rparr>))"

section \<open>Live media\<close>

record MjpegViewerPrefs =
  jpeg_quality :: u8
  interval_ms :: u32
  monitor :: "u32 option"

record MjpegSession =
  requested_monitor :: "u32 option"
  mj_agent_id :: Uuid
  mj_user_id :: Uuid
  mj_conn_id :: Uuid
  mj_prefs :: MjpegViewerPrefs

record Frame =
  seq :: u64
  jpeg :: "u8 list"
  last_update :: Instant

type_synonym RetiredCaptures = "Uuid \<times> Uuid option list"

record ActiveCapture =
  wire_monitor :: "u32 option"
  generation :: Uuid
  retired_capture_ids :: "Uuid option list"
  ac_conn_id :: Uuid
  ac_prefs :: MjpegViewerPrefs

record FrozenCapture =
  fc_owner :: LeaseOwner
  fc_session_id :: Uuid
  fc_active :: ActiveCapture

definition MAX_CACHED_FRAMES :: nat where "MAX_CACHED_FRAMES = 16"

record LiveMedia =
  frames :: "(Uuid, Frame) HashMap"
  frame_seq :: u64
  mjpeg_retired_captures :: "(Uuid, RetiredCaptures) HashMap"
  capture_viewers :: "(Uuid, u32) HashMap"
  mjpeg_sessions :: "(Uuid, MjpegSession) HashMap"
  mjpeg_active_capture :: "(Uuid, ActiveCapture) HashMap"

definition LiveMedia_default :: LiveMedia where
  "LiveMedia_default = \<lparr> frames = [], frame_seq = 1, mjpeg_retired_captures = [], capture_viewers = [],
     mjpeg_sessions = [], mjpeg_active_capture = [] \<rparr>"

text \<open>\<open>iter().min_by_key(|(_, f)| f.last_update).map(|(k, _)| *k)\<close>: the first of the least.\<close>

fun oldest_frame :: "(Uuid, Frame) HashMap \<Rightarrow> Uuid option" where
  "oldest_frame [] = None"
| "oldest_frame ((k, fr) # rest) =
     (case oldest_frame rest of
        None \<Rightarrow> Some k
      | Some k' \<Rightarrow> (case hm_get rest k' of
                      None \<Rightarrow> Some k
                    | Some fr' \<Rightarrow> if last_update fr \<le> last_update fr' then Some k else Some k'))"

definition store_frame :: "LiveMedia \<Rightarrow> Uuid \<Rightarrow> u8 list \<Rightarrow> Instant \<Rightarrow> LiveMedia" where
  "store_frame md agent_id bytes now =
     (let next_seq = frame_seq md;
          fs = (if \<not> hm_contains (frames md) agent_id \<and> length (frames md) \<ge> MAX_CACHED_FRAMES
                then (case oldest_frame (frames md) of
                        Some oldest \<Rightarrow> hm_remove oldest (frames md)
                      | None \<Rightarrow> frames md)
                else frames md)
      in md\<lparr>frame_seq := next_seq + 1,
            frames := hm_insert agent_id \<lparr> seq = next_seq, jpeg = bytes, last_update = now \<rparr> fs\<rparr>)"

section \<open>The control runtime\<close>

text \<open>A clipboard request that waits for its agent. \<open>pc_sender\<close> is whether its one-shot sender has not
  been used.\<close>

record PendingClipboard =
  pc_agent :: Uuid
  pc_owner :: LeaseOwner
  pc_token :: Uuid
  pc_deadline :: Instant
  pc_fence :: Value
  pc_sender :: bool

record ControlRuntime =
  sessions :: ControlSessions
  clipboard :: "(Uuid, PendingClipboard) HashMap"
  capture :: "(Uuid, FrozenCapture) HashMap"
  audit_seen :: "(Uuid \<times> Uuid \<times> string \<times> bool, Instant) HashMap"
  audit_inflight :: nat

definition ControlRuntime_default :: ControlRuntime where
  "ControlRuntime_default = \<lparr> sessions = ControlSessions_default, clipboard = [], capture = [],
     audit_seen = [], audit_inflight = 64 \<rparr>"

section \<open>The application state\<close>

datatype Broadcast = BroadcastText Value | PrivateText Uuid Value

record AppState =
  agents :: AgentRegistry
  control :: ControlRuntime
  media :: LiveMedia
  tx :: "Broadcast list"
  detached :: "(Uuid \<times> string) list"
  oneshots :: "(Uuid \<times> Value) list"

definition AppState_new :: AppState where
  "AppState_new = \<lparr> agents = AgentRegistry_default, control = ControlRuntime_default,
     media = LiveMedia_default, tx = [], detached = [], oneshots = [] \<rparr>"

definition broadcast :: "AppState \<Rightarrow> Value \<Rightarrow> AppState" where
  "broadcast st msg = st\<lparr>tx := tx st @ [BroadcastText msg]\<rparr>"

text \<open>The signed-in user, without the display fields and the CSRF secret the dashboard gets.\<close>

record AuthUser =
  user_id :: Uuid
  username :: string
  role :: string

definition is_admin :: "AuthUser \<Rightarrow> bool" where
  "is_admin u = (role u = ''admin'')"

definition is_operator :: "AuthUser \<Rightarrow> bool" where
  "is_operator u = (role u = ''operator'' \<or> role u = ''admin'')"

text \<open>What the code takes from outside: UUID text, the JSON parser on bytes, SHA-256 digests, the serialized form of a
  time stamp, and \<open>chrono\<close>'s addition of hours, which panics outside its range (\<open>None\<close>). A \<open>Time\<close> counts
  microseconds.\<close>

type_synonym Time = int

record Env =
  fmt :: Uuid_fmt
  from_slice :: "u8 list \<Rightarrow> Value option"
  sha256_hex :: "string \<Rightarrow> string"
  json_time :: "Time \<Rightarrow> Value"
  plus_hours :: "Time \<Rightarrow> int \<Rightarrow> Time option"

section \<open>Views\<close>

abbreviation conn_of :: "AgentRegistry \<Rightarrow> Uuid \<Rightarrow> AgentConn option" where
  "conn_of reg a \<equiv> hm_get (connections reg) a"

definition current_conn :: "AgentRegistry \<Rightarrow> Uuid \<Rightarrow> Uuid option" where
  "current_conn reg a = map_option conn_id (conn_of reg a)"

definition open_conn :: "AgentRegistry \<Rightarrow> Uuid \<Rightarrow> Uuid option" where
  "open_conn reg a = map_option conn_id (option_filter (\<lambda>c. shutdown c = None) (conn_of reg a))"

text \<open>\<open>connection.shutdown.send_replace(Some(reason))\<close> on the current connection when it is \<open>conn\<close>.\<close>

definition close_conn :: "AgentRegistry \<Rightarrow> Uuid \<Rightarrow> Uuid \<Rightarrow> string \<Rightarrow> AgentRegistry" where
  "close_conn reg a conn reason =
     (if current_conn reg a = Some conn
      then reg\<lparr>connections := hm_modify a (\<lambda>c. c\<lparr>shutdown := Some reason\<rparr>) (connections reg)\<rparr>
      else reg)"

lemma conn_frame [simp, frame_simps]:
  "current_conn (reg\<lparr>cmds := x\<rparr>) a = current_conn reg a"
  "current_conn (reg\<lparr>modules := y\<rparr>) a = current_conn reg a"
  "current_conn (reg\<lparr>live_snapshots := z\<rparr>) a = current_conn reg a"
  "open_conn (reg\<lparr>cmds := x\<rparr>) a = open_conn reg a"
  "open_conn (reg\<lparr>modules := y\<rparr>) a = open_conn reg a"
  "open_conn (reg\<lparr>live_snapshots := z\<rparr>) a = open_conn reg a"
  by (simp_all add: current_conn_def open_conn_def)

lemma current_conn_None: "current_conn reg a = None \<longleftrightarrow> conn_of reg a = None"
  by (simp add: current_conn_def)

lemma open_conn_SomeD: "open_conn reg a = Some c \<Longrightarrow> current_conn reg a = Some c"
  by (auto simp: open_conn_def current_conn_def option_filter_eq_Some)

lemma current_conn_close [simp]: "current_conn (close_conn reg a conn r) b = current_conn reg b"
  by (auto simp: close_conn_def current_conn_def map_option.compositionality comp_def)

lemma open_conn_close:
  "open_conn (close_conn reg a conn r) b =
     (if b = a \<and> current_conn reg a = Some conn then None else open_conn reg b)"
  by (auto simp: close_conn_def open_conn_def current_conn_def option_filter_def split: option.splits)

lemma close_conn_frame [simp, frame_simps]:
  "cmds (close_conn reg a conn r) = cmds reg"
  "modules (close_conn reg a conn r) = modules reg"
  "live_snapshots (close_conn reg a conn r) = live_snapshots reg"
  "pending_enrollment_tokens (close_conn reg a conn r) = pending_enrollment_tokens reg"
  by (simp_all add: close_conn_def)

lemma conn_of_close:
  "conn_of (close_conn reg a conn r) b =
     (if b = a \<and> current_conn reg a = Some conn then map_option (\<lambda>c. c\<lparr>shutdown := Some r\<rparr>) (conn_of reg b)
      else conn_of reg b)"
  by (simp add: close_conn_def)

lemma hm_wf_close [inv_intros]: "hm_wf (connections reg) \<Longrightarrow> hm_wf (connections (close_conn reg a conn r))"
  by (auto simp: close_conn_def)

lemma try_send_SomeD:
  "try_send ch msg = Some ch' \<Longrightarrow> queue ch' = queue ch @ [msg] \<and> length (queue ch') \<le> AGENT_CMD_CHANNEL_CAPACITY"
  by (auto simp: try_send_def split: if_splits)

end
