(* ===== verification/Authorization.thy ===== *)
theory Authorization
  imports AppState
begin

text \<open>
  Centralized command authorization (\<open>server/src/agents/modules/mod.rs\<close>, \<open>impl AgentRegistry\<close>): whether a
  connection's current, validated report grants the module a command needs, the generation stamp an
  authorized command carries, and the bounded queue it is put on.
\<close>

section \<open>The command table\<close>

definition command_module :: "Uuid_fmt \<Rightarrow> string \<Rightarrow> Module option" where
  "command_module f kind = module_of_command (from_kind f kind)"

definition protocol_command :: "Uuid_fmt \<Rightarrow> string \<Rightarrow> bool" where
  "protocol_command f kind = (gate (from_kind f kind) = GateProtocol)"

definition is_remote_input :: "string \<Rightarrow> bool" where
  "is_remote_input kind =
     (kind \<in> {''MouseMove'', ''MouseClick'', ''MouseDoubleClick'', ''MouseDown'', ''MouseUp'', ''MouseScroll'',
       ''Scroll'', ''KeyPress'', ''KeyDown'', ''KeyUp'', ''KeyChar'', ''TypeText'', ''Notify''})"

section \<open>Grants\<close>

definition module_authorized :: "AgentRegistry \<Rightarrow> Uuid \<Rightarrow> Module \<Rightarrow> bool" where
  "module_authorized reg agent_id m =
     (case (hm_get (connections reg) agent_id, hm_get (modules reg) agent_id) of
        (Some conn, Some runtime) \<Rightarrow>
          conn_id conn = rm_conn_id runtime \<and> grants runtime m \<and> \<not> disable_pending runtime m
      | _ \<Rightarrow> False)"

definition recall_context_grants ::
  "AgentRegistry \<Rightarrow> Uuid \<Rightarrow> Uuid \<Rightarrow> (u64 option \<times> u64 option) option" where
  "recall_context_grants reg agent_id cid =
     (case (hm_get (connections reg) agent_id, hm_get (modules reg) agent_id) of
        (Some connection, Some runtime) \<Rightarrow>
          if conn_id connection \<noteq> cid \<or> rm_conn_id runtime \<noteq> cid then None
          else (let rev_of = (\<lambda>m. if grants runtime m \<and> \<not> disable_pending runtime m
                                  then Some (ms_revision (report_get (rm_report runtime) m)) else None)
                in case rev_of Recall of
                     None \<Rightarrow> None
                   | Some _ \<Rightarrow> Some (rev_of WindowActivity, rev_of BrowserUrls))
      | _ \<Rightarrow> None)"

definition module_generation :: "Module \<Rightarrow> u64 \<Rightarrow> Value" where
  "module_generation m revision = json_obj [(''module'', json_module m), (''revision'', json_u64 revision)]"

definition authorize_disable ::
  "Uuid_fmt \<Rightarrow> RuntimeModules option \<Rightarrow> Value \<Rightarrow> (Value, CommandDenied) Result" where
  "authorize_disable f rt cmd =
     (case rt of
        None \<Rightarrow> Err (CommandDenied_new ''module_report_required''
          ''Update the agent and authorize modules on the device; a current report is required.'' None)
      | Some runtime \<Rightarrow>
          (case Option.bind (uuid_field f cmd ''command_id'') (hm_get (rm_pending runtime)) of
             None \<Rightarrow> Err (CommandDenied_new ''invalid_disable_request''
               ''Disable commands must come from a persisted request.'' None)
           | Some request \<Rightarrow>
               if v_index cmd ''module'' \<noteq> json_module (req_module request)
                  \<or> as_u64 (v_index cmd ''expected_revision'') \<noteq> Some (req_expected_revision request)
               then Err (CommandDenied_new ''invalid_disable_request''
                 ''Disable request binding differs from its persisted command.'' None)
               else Ok cmd))"

definition authorize_agent_command ::
  "Uuid_fmt \<Rightarrow> AgentRegistry \<Rightarrow> Uuid \<Rightarrow> Value \<Rightarrow> (Value, CommandDenied) Result" where
  "authorize_agent_command f reg agent_id cmd =
     (case hm_get (connections reg) agent_id of
        None \<Rightarrow> Err (CommandDenied_new ''agent_offline'' ''Agent is not connected.'' None)
      | Some connection \<Rightarrow>
          (let kind = unwrap_or (as_str (v_index cmd ''type'')) [] in
           if v_get cmd ''__module_generation'' \<noteq> None \<or> v_get cmd ''__capture_generation'' \<noteq> None then
             Err (CommandDenied_new ''invalid_command''
               ''Server-owned generation field is not accepted from callers.'' None)
           else if protocol_command f kind then Ok cmd
           else
             (let runtime = option_filter (\<lambda>rt. rm_conn_id rt = conn_id connection)
                              (hm_get (modules reg) agent_id) in
              if kind = ''disable_module'' then authorize_disable f runtime cmd
              else
                (case command_module f kind of
                   None \<Rightarrow> Err (CommandDenied_new ''unsupported_command''
                     ''This command is not supported. Configure device-owned settings on the device.'' None)
                 | Some m \<Rightarrow>
                     (case runtime of
                        None \<Rightarrow>
                          if legacy_policy_delivery connection \<and> (m = AppPolicy \<or> m = NetworkPolicy) then Ok cmd
                          else Err (CommandDenied_new ''module_report_required''
                            ''Update the agent and authorize this module on the device; no current module report is available.''
                            (Some m))
                      | Some rt \<Rightarrow>
                          if \<not> grants rt m then
                            Err (CommandDenied_new ''module_not_authorized''
                              (''This module is off on the device. Turn it on in the Vantyr app there (Settings ''
                                @ [CHR 0xE2, CHR 0x86, CHR 0x92] @ '' Modules).'') (Some m))
                          else if disable_pending rt m then
                            Err (CommandDenied_new ''module_disable_pending''
                              ''A persisted disable request is awaiting acknowledgment; commands are blocked.''
                              (Some m))
                          else Ok (v_set cmd ''__module_generation''
                                     (module_generation m (ms_revision (report_get (rm_report rt) m)))))))))"

section \<open>Queueing\<close>

definition enqueue_authorized_command ::
  "AgentRegistry \<Rightarrow> Uuid \<Rightarrow> Uuid \<Rightarrow> Value \<Rightarrow> (unit, CommandDenied) Result \<times> AgentRegistry" where
  "enqueue_authorized_command reg agent_id cid command =
     (if \<not> is_some_and (hm_get (connections reg) agent_id)
            (\<lambda>conn. conn_id conn = cid \<and> shutdown conn = None)
      then (Err (CommandDenied_new ''agent_offline'' ''Connection changed or is closing.'' None), reg)
      else case hm_get (cmds reg) agent_id of
             None \<Rightarrow> (Err (CommandDenied_new ''agent_offline'' ''Agent is not connected.'' None), reg)
           | Some ch \<Rightarrow>
               (case try_send ch (Text command) of
                  None \<Rightarrow> (Err (CommandDenied_new ''command_queue_full''
                            ''Agent command queue is full; retry shortly.'' None), reg)
                | Some ch' \<Rightarrow> (Ok (), reg\<lparr>cmds := hm_insert agent_id ch' (cmds reg)\<rparr>)))"

definition send_agent_command_json ::
  "Uuid_fmt \<Rightarrow> AgentRegistry \<Rightarrow> Uuid \<Rightarrow> Value \<Rightarrow> (unit, CommandDenied) Result \<times> AgentRegistry" where
  "send_agent_command_json f reg agent_id cmd =
     (let cid = current_conn reg agent_id; kind = as_str (v_index cmd ''type'') in
      case authorize_agent_command f reg agent_id cmd of
        Inl e \<Rightarrow> (Err e, reg)
      | Inr command \<Rightarrow>
          if kind \<in> {Some ''start_capture'', Some ''stop_capture''} then
            (Err (CommandDenied_new ''capture_session_required''
               ''Capture selection is managed by live stream sessions.'' (Some LiveScreen)), reg)
          else if is_remote_input (unwrap_or kind []) \<or> kind \<in> {Some ''ClipboardRead'', Some ''ClipboardWrite''} then
            (Err (CommandDenied_new ''control_lease_required''
               ''Remote input requires a viewer control lease.'' (Some RemoteInput)), reg)
          else
            (case cid of
               None \<Rightarrow> (Err (CommandDenied_new ''agent_offline'' ''Agent is not connected.'' None), reg)
             | Some c \<Rightarrow> enqueue_authorized_command reg agent_id c command))"

definition send_command ::
  "Uuid_fmt \<Rightarrow> AgentRegistry \<Rightarrow> Uuid \<Rightarrow> ServerCommand \<Rightarrow> (unit, CommandDenied) Result \<times> AgentRegistry" where
  "send_command f reg agent_id command = send_agent_command_json f reg agent_id (to_value f command)"

definition try_send_command :: "Uuid_fmt \<Rightarrow> AgentRegistry \<Rightarrow> Uuid \<Rightarrow> ServerCommand \<Rightarrow> bool \<times> AgentRegistry" where
  "try_send_command f reg agent_id command =
     (let (r, reg') = send_command f reg agent_id command in (is_ok r, reg'))"

section \<open>What authorization establishes\<close>

text \<open>The kind of a command, as \<open>cmd["type"].as_str().unwrap_or("")\<close>.\<close>

abbreviation kind_of :: "Value \<Rightarrow> string" where
  "kind_of cmd \<equiv> unwrap_or (as_str (v_index cmd ''type'')) []"

lemma from_kind_empty: "from_kind f [] = Unknown"
  by (simp add: from_kind_def parse_def parse_tagged_def Let_def)

lemma gate_parse_kind: "gate (parse f cmd) = gate (from_kind f (kind_of cmd))"
  by (cases "as_str (v_index cmd ''type'')") (simp_all add: parse_gate [of f cmd f] from_kind_empty)

lemma module_of_command_eq: "module_of_command c = Some m \<longleftrightarrow> gate c = GateModule m"
  by (cases "gate c") (auto simp: module_of_command_def)

lemma gated_is_obj: "gate (parse f cmd) \<noteq> GateDenied \<Longrightarrow> is_obj cmd"
  by (cases "as_str (v_index cmd ''type'')") (auto simp: parse_def intro: as_str_index_is_obj)

lemma runtime_of_current:
  "hm_get (connections reg) a = Some conn \<Longrightarrow>
     module_authorized reg a m \<longleftrightarrow>
       (\<exists>rt. option_filter (\<lambda>rt. rm_conn_id rt = conn_id conn) (hm_get (modules reg) a) = Some rt
          \<and> grants rt m \<and> \<not> disable_pending rt m)"
  by (auto simp: module_authorized_def option_filter_eq_Some split: option.splits)

lemma disable_module_gate: "gate (from_kind f ''disable_module'') = GateDisableModule"
  by (simp add: from_kind_def parse_def parse_tagged_def Let_def)

lemma authorize_ok_cases:
  assumes "authorize_agent_command f reg a cmd = Ok c"
  obtains
    (protocol) conn where "hm_get (connections reg) a = Some conn" "gate (parse f cmd) = GateProtocol" "c = cmd"
      "v_get cmd ''__module_generation'' = None" "v_get cmd ''__capture_generation'' = None"
  | (disable) conn rt i request where "hm_get (connections reg) a = Some conn"
      "gate (parse f cmd) = GateDisableModule" "c = cmd"
      "hm_get (modules reg) a = Some rt" "rm_conn_id rt = conn_id conn"
      "uuid_field f cmd ''command_id'' = Some i" "hm_get (rm_pending rt) i = Some request"
      "v_index cmd ''module'' = json_module (req_module request)"
      "as_u64 (v_index cmd ''expected_revision'') = Some (req_expected_revision request)"
      "v_get cmd ''__module_generation'' = None" "v_get cmd ''__capture_generation'' = None"
  | (legacy) conn m where "hm_get (connections reg) a = Some conn" "gate (parse f cmd) = GateModule m"
      "m = AppPolicy \<or> m = NetworkPolicy" "legacy_policy_delivery conn"
      "option_filter (\<lambda>rt. rm_conn_id rt = conn_id conn) (hm_get (modules reg) a) = None" "c = cmd"
      "v_get cmd ''__module_generation'' = None" "v_get cmd ''__capture_generation'' = None"
  | (granted) conn rt m where "hm_get (connections reg) a = Some conn" "gate (parse f cmd) = GateModule m"
      "hm_get (modules reg) a = Some rt" "rm_conn_id rt = conn_id conn" "grants rt m" "\<not> disable_pending rt m"
      "c = v_set cmd ''__module_generation'' (module_generation m (ms_revision (report_get (rm_report rt) m)))"
      "v_get cmd ''__module_generation'' = None" "v_get cmd ''__capture_generation'' = None"
proof -
  from assms obtain conn where conn: "hm_get (connections reg) a = Some conn"
    by (auto simp: authorize_agent_command_def split: option.splits)
  have tags: "v_get cmd ''__module_generation'' = None" "v_get cmd ''__capture_generation'' = None"
    by (rule ccontr; use assms conn in \<open>simp add: authorize_agent_command_def Let_def\<close>)+
  let ?rt = "option_filter (\<lambda>rt. rm_conn_id rt = conn_id conn) (hm_get (modules reg) a)"
  note eq = assms [unfolded authorize_agent_command_def, simplified conn tags Let_def option.case]
  show ?thesis
  proof (cases "protocol_command f (kind_of cmd)")
    case True
    with eq conn tags show ?thesis
      by (intro protocol) (auto simp: protocol_command_def gate_parse_kind)
  next
    case np: False
    show ?thesis
    proof (cases "kind_of cmd = ''disable_module''")
      case True
      with eq np have "authorize_disable f ?rt cmd = Ok c" by simp
      with True conn tags show ?thesis
        by (auto simp: authorize_disable_def bind_eq_Some_conv option_filter_eq_Some gate_parse_kind
            disable_module_gate split: option.splits if_splits intro: disable)
    next
      case False
      with eq np obtain m where m: "command_module f (kind_of cmd) = Some m"
        by (auto split: option.splits)
      then have gm: "gate (parse f cmd) = GateModule m"
        by (simp add: command_module_def module_of_command_eq gate_parse_kind)
      show ?thesis
      proof (cases ?rt)
        case None
        with eq np False m conn tags gm show ?thesis
          by (intro legacy) (auto split: if_splits)
      next
        case (Some rt)
        with eq np False m conn tags gm show ?thesis
          by (intro granted) (auto simp: option_filter_eq_Some split: if_splits)
      qed
    qed
  qed
qed

lemma authorize_granted:
  assumes "gate (parse f cmd) = GateModule m" "module_authorized reg a m"
    "v_get cmd ''__module_generation'' = None" "v_get cmd ''__capture_generation'' = None"
  obtains rt where "hm_get (modules reg) a = Some rt"
    "authorize_agent_command f reg a cmd =
       Ok (v_set cmd ''__module_generation'' (module_generation m (ms_revision (report_get (rm_report rt) m))))"
proof -
  obtain conn where conn: "hm_get (connections reg) a = Some conn"
    using assms(2) by (auto simp: module_authorized_def split: option.splits)
  obtain rt where rt: "option_filter (\<lambda>rt. rm_conn_id rt = conn_id conn) (hm_get (modules reg) a) = Some rt"
    "grants rt m" "\<not> disable_pending rt m"
    using assms(2) unfolding runtime_of_current [OF conn] by blast
  have g: "gate (from_kind f (kind_of cmd)) = GateModule m"
    using assms(1) by (simp add: gate_parse_kind)
  then have "kind_of cmd \<noteq> ''disable_module''" using disable_module_gate [of f] by auto
  moreover have "command_module f (kind_of cmd) = Some m" "\<not> protocol_command f (kind_of cmd)"
    using g by (simp_all add: command_module_def module_of_command_eq protocol_command_def)
  ultimately have "authorize_agent_command f reg a cmd =
      Ok (v_set cmd ''__module_generation'' (module_generation m (ms_revision (report_get (rm_report rt) m))))"
    using conn rt assms(3,4) by (simp add: authorize_agent_command_def Let_def)
  with rt(1) show ?thesis by (auto simp: option_filter_eq_Some intro: that)
qed

lemma authorize_module_iff:
  assumes "gate (parse f cmd) = GateModule m" "m \<noteq> AppPolicy" "m \<noteq> NetworkPolicy"
  shows "is_ok (authorize_agent_command f reg a cmd) \<longleftrightarrow>
    module_authorized reg a m \<and> v_get cmd ''__module_generation'' = None \<and> v_get cmd ''__capture_generation'' = None"
proof
  assume "is_ok (authorize_agent_command f reg a cmd)"
  then obtain c where "authorize_agent_command f reg a cmd = Ok c"
    by (cases "authorize_agent_command f reg a cmd") auto
  then show "module_authorized reg a m \<and> v_get cmd ''__module_generation'' = None \<and> v_get cmd ''__capture_generation'' = None"
    by (cases rule: authorize_ok_cases) (use assms in \<open>auto simp: module_authorized_def\<close>)
next
  assume "module_authorized reg a m \<and> v_get cmd ''__module_generation'' = None \<and> v_get cmd ''__capture_generation'' = None"
  then show "is_ok (authorize_agent_command f reg a cmd)"
    using authorize_granted [OF assms(1), of reg a] by (metis sum.disc(2))
qed

text \<open>An authorized command is the caller's command with at most the server's stamp added.\<close>

lemma authorize_fields:
  assumes "authorize_agent_command f reg a cmd = Ok c" "k \<noteq> ''__module_generation''"
  shows "v_index c k = v_index cmd k" "v_get c k = v_get cmd k"
proof -
  have "is_obj cmd \<Longrightarrow> v_get (v_set cmd ''__module_generation'' x) k = v_get cmd k" for x
    using assms(2) by simp
  moreover have "c = cmd \<or> (is_obj cmd \<and> (\<exists>x. c = v_set cmd ''__module_generation'' x))"
    using assms(1) by (cases rule: authorize_ok_cases) (auto intro!: gated_is_obj [of f cmd])
  ultimately show "v_get c k = v_get cmd k" by auto
  then show "v_index c k = v_index cmd k" by (simp add: v_index_def)
qed

section \<open>The queue\<close>

lemma enqueue_cases:
  obtains (err) e where "enqueue_authorized_command reg a cid c = (Err e, reg)"
  | (ok) ch ch' where "hm_get (cmds reg) a = Some ch" "try_send ch (Text c) = Some ch'" "open_conn reg a = Some cid"
      "enqueue_authorized_command reg a cid c = (Ok (), reg\<lparr>cmds := hm_insert a ch' (cmds reg)\<rparr>)"
proof (cases "is_some_and (hm_get (connections reg) a) (\<lambda>conn. conn_id conn = cid \<and> shutdown conn = None)")
  case False
  then show ?thesis by (intro err) (simp add: enqueue_authorized_command_def)
next
  case True
  then have oc: "open_conn reg a = Some cid" by (auto simp: is_some_and_iff open_conn_def)
  show ?thesis
  proof (cases "Option.bind (hm_get (cmds reg) a) (\<lambda>ch. try_send ch (Text c))")
    case None
    with True show ?thesis
      by (cases "hm_get (cmds reg) a") (auto simp: enqueue_authorized_command_def intro: err)
  next
    case (Some ch')
    then obtain ch where "hm_get (cmds reg) a = Some ch" "try_send ch (Text c) = Some ch'"
      by (auto simp: bind_eq_Some_conv)
    with True oc show ?thesis by (intro ok [of ch ch']) (simp_all add: enqueue_authorized_command_def)
  qed
qed

lemma enqueue_frame [simp, frame_simps]:
  "connections (snd (enqueue_authorized_command reg a cid c)) = connections reg"
  "modules (snd (enqueue_authorized_command reg a cid c)) = modules reg"
  "live_snapshots (snd (enqueue_authorized_command reg a cid c)) = live_snapshots reg"
  "pending_enrollment_tokens (snd (enqueue_authorized_command reg a cid c)) = pending_enrollment_tokens reg"
  by (rule enqueue_cases [of reg a cid c]; simp)+

lemma send_agent_command_json_cases:
  obtains (err) e where "send_agent_command_json f reg a cmd = (Err e, reg)"
  | (ok) c cid where "authorize_agent_command f reg a cmd = Ok c" "current_conn reg a = Some cid"
      "as_str (v_index cmd ''type'') \<notin> {Some ''start_capture'', Some ''stop_capture'',
         Some ''ClipboardRead'', Some ''ClipboardWrite''}"
      "\<not> is_remote_input (kind_of cmd)"
      "send_agent_command_json f reg a cmd = enqueue_authorized_command reg a cid c"
proof (cases "authorize_agent_command f reg a cmd")
  case (Inl e)
  then show ?thesis by (intro err) (simp add: send_agent_command_json_def)
next
  case (Inr c)
  show ?thesis
  proof (cases "as_str (v_index cmd ''type'') \<in> {Some ''start_capture'', Some ''stop_capture'',
      Some ''ClipboardRead'', Some ''ClipboardWrite''} \<or> is_remote_input (kind_of cmd)")
    case True
    with Inr have "\<exists>e. send_agent_command_json f reg a cmd = (Err e, reg)"
      by (auto simp: send_agent_command_json_def Let_def)
    then show ?thesis using err by blast
  next
    case False
    with Inr show ?thesis
      by (cases "current_conn reg a") (auto simp: send_agent_command_json_def Let_def intro: err ok)
  qed
qed

lemma send_frame [simp, frame_simps]:
  "connections (snd (send_agent_command_json f reg a cmd)) = connections reg"
  "modules (snd (send_agent_command_json f reg a cmd)) = modules reg"
  "live_snapshots (snd (send_agent_command_json f reg a cmd)) = live_snapshots reg"
  "pending_enrollment_tokens (snd (send_agent_command_json f reg a cmd)) = pending_enrollment_tokens reg"
  by (rule send_agent_command_json_cases [of f reg a cmd]; simp)+

text \<open>A bounded queue: no operation of the registry lets a command queue grow past its capacity.\<close>

definition queues_bounded :: "AgentRegistry \<Rightarrow> bool" where
  "queues_bounded reg \<longleftrightarrow>
     (\<forall>a ch. hm_get (cmds reg) a = Some ch \<longrightarrow> length (queue ch) \<le> AGENT_CMD_CHANNEL_CAPACITY)"

lemma queues_bounded_insert [inv_intros]:
  "queues_bounded reg \<Longrightarrow> length (queue ch) \<le> AGENT_CMD_CHANNEL_CAPACITY \<Longrightarrow>
     queues_bounded (reg\<lparr>cmds := hm_insert a ch (cmds reg)\<rparr>)"
  by (auto simp: queues_bounded_def)

lemma queues_bounded_remove [inv_intros]:
  "queues_bounded reg \<Longrightarrow> queues_bounded (reg\<lparr>cmds := hm_remove a (cmds reg)\<rparr>)"
  by (auto simp: queues_bounded_def split: if_splits)

lemma enqueue_bounded [inv_intros]:
  "queues_bounded reg \<Longrightarrow> queues_bounded (snd (enqueue_authorized_command reg a cid c))"
  by (rule enqueue_cases [of reg a cid c]) (auto intro!: queues_bounded_insert dest: try_send_SomeD)

section \<open>Properties\<close>


definition example_conn :: AgentConn where
  "example_conn = \<lparr> conn_id = 3, connected_at = 0, session_id = 1, shutdown = None, legacy_policy_delivery = False \<rparr>"

definition example_runtime :: RuntimeModules where
  "example_runtime = \<lparr> rm_conn_id = 3, rm_report = example_report, rm_pending = [], rm_sent = {}, rm_last_sent = [] \<rparr>"

definition example_registry :: AgentRegistry where
  "example_registry = AgentRegistry_default
     \<lparr> connections := [(9, example_conn)], cmds := [(9, channel_new)], modules := [(9, example_runtime)] \<rparr>"

definition example_move :: Value where
  "example_move = json_obj [(''type'', Str ''MouseMove''), (''x'', json_int 0), (''y'', json_int 0)]"

lemma example_move_gate: "gate (parse f example_move) = GateModule RemoteInput"
  by (simp add: example_move_def parse_def parse_tagged_def Let_def)

lemma report_get_example: "report_get example_report m = example_state m"
proof -
  have "example_state m \<in> set (report_modules example_report)"
    by (simp add: example_report_def)
  from report_get_eq [OF example_report_validated this] show ?thesis
    by (simp add: example_state_def)
qed


text \<open>
  The plain send path cannot be used to get around a lease or a stream session: what it queues is
  never remote input, never a clipboard access and never a capture selection; it is the caller's
  command authorized on the connection that is current and open, appended to that agent's queue,
  which stays within its 512 entries, and no other queue changes.
\<close>

theorem direct_send_excludes_control:
  assumes "send_agent_command_json f reg a cmd = (Ok (), reg')"
  shows "\<not> is_remote_input (kind_of cmd)
    \<and> kind_of cmd \<notin> {''start_capture'', ''stop_capture'', ''ClipboardRead'', ''ClipboardWrite''}
    \<and> (\<exists>c ch cid. authorize_agent_command f reg a cmd = Ok c \<and> open_conn reg a = Some cid
        \<and> hm_get (cmds reg) a = Some ch
        \<and> reg' = reg\<lparr>cmds := hm_insert a (ch\<lparr>queue := queue ch @ [Text c]\<rparr>) (cmds reg)\<rparr>
        \<and> length (queue ch) < AGENT_CMD_CHANNEL_CAPACITY)"
proof (rule send_agent_command_json_cases [of f reg a cmd])
  fix c cid
  assume c: "authorize_agent_command f reg a cmd = Ok c"
    and eq: "send_agent_command_json f reg a cmd = enqueue_authorized_command reg a cid c"
    and kind: "as_str (v_index cmd ''type'') \<notin> {Some ''start_capture'', Some ''stop_capture'',
         Some ''ClipboardRead'', Some ''ClipboardWrite''}" "\<not> is_remote_input (kind_of cmd)"
  have kinds: "kind_of cmd \<notin> {''start_capture'', ''stop_capture'', ''ClipboardRead'', ''ClipboardWrite''}"
    using kind(1) by (cases "as_str (v_index cmd ''type'')") auto
  show ?thesis
  proof (rule enqueue_cases [of reg a cid c])
    fix ch ch'
    assume "hm_get (cmds reg) a = Some ch" "try_send ch (Text c) = Some ch'" "open_conn reg a = Some cid"
      "enqueue_authorized_command reg a cid c = (Ok (), reg\<lparr>cmds := hm_insert a ch' (cmds reg)\<rparr>)"
    with assms eq c kind(2) kinds show ?thesis
      by (auto simp: try_send_def split: if_splits)
  qed (use assms eq in auto)
qed (use assms in auto)

definition example_info :: Value where
  "example_info = json_obj [(''type'', Str ''stop_audio'')]"

theorem direct_send_excludes_control_witness:
  "fst (send_agent_command_json binary_fmt example_registry 9 example_info) = Ok ()
   \<and> \<not> is_remote_input (kind_of example_info)"
proof -
  have "fst (send_agent_command_json binary_fmt example_registry 9 example_info) = Ok ()"
    by (simp add: send_agent_command_json_def example_info_def authorize_agent_command_def protocol_command_def
        from_kind_def parse_def parse_tagged_def Let_def example_registry_def example_conn_def
        is_remote_input_def current_conn_def enqueue_authorized_command_def channel_new_def try_send_def
        AGENT_CMD_CHANNEL_CAPACITY_def AgentRegistry_default_def)
  with direct_send_excludes_control [of binary_fmt example_registry 9 example_info] show ?thesis
    by (metis prod.collapse)
qed

text \<open>
  The two hand-written tables agree: the command kinds the control runtime treats as remote input
  (which need a lease) are exactly the kinds the shared protocol table puts behind the remote-input
  module.
\<close>

theorem remote_input_tables_agree:
  "is_remote_input kind \<longleftrightarrow> gate (from_kind f kind) = GateModule RemoteInput"
proof
  assume "is_remote_input kind"
  then show "gate (from_kind f kind) = GateModule RemoteInput"
    unfolding is_remote_input_def
    by (elim insertE emptyE) (simp_all add: from_kind_def parse_def parse_tagged_def Let_def)
next
  assume g: "gate (from_kind f kind) = GateModule RemoteInput"
  then have "from_kind f kind \<noteq> Unknown" by auto
  from from_kind_tag [OF this] g show "is_remote_input kind"
    by (cases "from_kind f kind") (auto simp: is_remote_input_def)
qed

end
