(* ===== verification/ControlCore.thy ===== *)
theory ControlCore
  imports Authorization
begin

text \<open>
  The integration of leases with the registry (\<open>server/src/control/runtime.rs\<close>): how the cleanup of a
  torn-down lease reaches the socket it belongs to, who may own a lease, and the paths that revoke
  leases when a viewer or an agent goes away or a deadline passes.
\<close>

section \<open>Operations\<close>

definition lease_error :: "LeaseError \<Rightarrow> CommandDenied" where
  "lease_error e =
     (let (c, message) =
        (case e of
           Conflict _ \<Rightarrow> (''control_conflict'', ''Another viewer owns remote control.'')
         | Missing \<Rightarrow> (''control_lease_required'', ''Acquire remote control before sending input.'')
         | Expired \<Rightarrow> (''control_lease_expired'', ''Remote control expired; acquire it again.'')
         | Mismatch \<Rightarrow> (''control_lease_mismatch'', ''Lease does not match this viewer or device connection.'')
         | InvalidHeldInput \<Rightarrow> (''invalid_command'', ''Invalid held input command.''))
      in CommandDenied_new c message (Some RemoteInput))"

text \<open>The inner loop of \<open>deliver_control_cleanup\<close>: it stops at the first command that cannot be queued,
  closing the connection.\<close>

fun send_cleanup :: "AgentRegistry \<Rightarrow> Uuid \<Rightarrow> Uuid \<Rightarrow> Value list \<Rightarrow> bool \<times> AgentRegistry" where
  "send_cleanup reg agent_id cid [] = (True, reg)"
| "send_cleanup reg agent_id cid (command # rest) =
     (case Option.bind (hm_get (cmds reg) agent_id) (\<lambda>sender. try_send sender (InputCleanup cid command)) of
        None \<Rightarrow> (False, close_conn reg agent_id cid [])
      | Some ch \<Rightarrow> send_cleanup (reg\<lparr>cmds := hm_insert agent_id ch (cmds reg)\<rparr>) agent_id cid rest)"

definition revoked_event :: "Uuid_fmt \<Rightarrow> LeaseCleanup \<Rightarrow> Value" where
  "revoked_event f batch =
     json_obj [(''event'', Str ''control_lease''), (''agent_id'', json_uuid f (cleanup_agent_id batch)),
       (''status'', Str ''revoked''), (''lease_token'', json_uuid f (cleanup_token batch)),
       (''expires_in_ms'', json_nat 0),
       (''code'', Str (if cleanup_reason batch = TeardownExpired then ''control_lease_expired''
                      else ''control_lease_revoked''))]"

definition deliver_batch :: "Uuid_fmt \<Rightarrow> AppState \<Rightarrow> LeaseCleanup \<Rightarrow> bool \<times> AppState" where
  "deliver_batch f st batch =
     (let a = cleanup_agent_id batch; cid = agent_connection_id (cleanup_owner batch);
          st1 = st\<lparr>control := (control st)\<lparr>capture := hm_remove a (capture (control st))\<rparr>\<rparr>;
          (safe, reg) = (if current_conn (agents st1) a = Some cid
                         then send_cleanup (agents st1) a cid (cleanup_commands batch)
                         else (True, agents st1));
          st2 = st1\<lparr>agents := reg\<rparr>
      in (safe,
          if cleanup_reason batch = Released then st2
          else st2\<lparr>tx := tx st2 @ [PrivateText (viewer_connection_id (cleanup_owner batch)) (revoked_event f batch)]\<rparr>))"

fun deliver_control_cleanup :: "Uuid_fmt \<Rightarrow> AppState \<Rightarrow> LeaseCleanup list \<Rightarrow> bool \<times> AppState" where
  "deliver_control_cleanup f st [] = (True, st)"
| "deliver_control_cleanup f st (batch # batches) =
     (let (safe, st1) = deliver_batch f st batch; (safe', st2) = deliver_control_cleanup f st1 batches
      in (safe \<and> safe', st2))"

definition control_cleanup_deliverable :: "AppState \<Rightarrow> Uuid \<Rightarrow> Uuid \<Rightarrow> Uuid \<Rightarrow> Value \<Rightarrow> bool" where
  "control_cleanup_deliverable st agent_id socket cleanup_socket command =
     (if socket \<noteq> cleanup_socket
         \<or> \<not> is_some_and (hm_get (connections (agents st)) agent_id)
               (\<lambda>c. conn_id c = socket \<and> shutdown c = None)
      then False
      else is_cleanup_command command)"

definition current_control_owner ::
  "AppState \<Rightarrow> Uuid \<Rightarrow> Uuid \<Rightarrow> AuthUser \<Rightarrow> (LeaseOwner, CommandDenied) Result" where
  "current_control_owner st agent_id viewer user =
     (if \<not> is_operator user then
        Err (CommandDenied_new ''permission_denied'' ''Operator permission is required.'' (Some RemoteInput))
      else case option_filter (\<lambda>c. shutdown c = None) (hm_get (connections (agents st)) agent_id) of
             None \<Rightarrow> Err (CommandDenied_new ''agent_offline'' ''Agent is not connected or is closing.'' None)
           | Some connection \<Rightarrow>
               Ok \<lparr> viewer_connection_id = viewer, owner_user_id = user_id user,
                    agent_connection_id = conn_id connection \<rparr>)"

text \<open>\<open>let cleanup = control.sessions.op(..); self.deliver_control_cleanup(&mut control, cleanup)\<close>\<close>

definition set_sessions :: "AppState \<Rightarrow> ControlSessions \<Rightarrow> AppState" where
  "set_sessions st s = st\<lparr>control := (control st)\<lparr>sessions := s\<rparr>\<rparr>"

definition teardown_deliver ::
  "Uuid_fmt \<Rightarrow> AppState \<Rightarrow> (ControlSessions \<Rightarrow> LeaseCleanup list \<times> ControlSessions) \<Rightarrow> bool \<times> AppState" where
  "teardown_deliver f st op =
     (let (cs, s') = op (sessions (control st)) in deliver_control_cleanup f (set_sessions st s') cs)"

definition revoke_viewer_control :: "Uuid_fmt \<Rightarrow> AppState \<Rightarrow> Uuid \<Rightarrow> AppState" where
  "revoke_viewer_control f st viewer = snd (teardown_deliver f st (\<lambda>s. revoke_viewer s viewer))"

definition revoke_agent_control_locked :: "Uuid_fmt \<Rightarrow> AppState \<Rightarrow> Uuid \<Rightarrow> Uuid \<Rightarrow> AppState" where
  "revoke_agent_control_locked f st agent_id conn = snd (teardown_deliver f st (\<lambda>s. revoke_agent s agent_id conn))"

definition expire_control :: "Uuid_fmt \<Rightarrow> AppState \<Rightarrow> Instant \<Rightarrow> AppState" where
  "expire_control f st now = snd (teardown_deliver f st (\<lambda>s. expire s now))"

text \<open>\<open>audit_control_event\<close>: whether an audit row is to be written (a permit is taken until it is), at
  most one per user, agent, action and outcome within two seconds, with a bounded table of recent ones.\<close>

definition audit_control_event ::
  "AppState \<Rightarrow> AuthUser \<Rightarrow> Uuid \<Rightarrow> string \<Rightarrow> bool \<Rightarrow> Instant \<Rightarrow> bool \<times> AppState" where
  "audit_control_event st user agent action rejected now =
     (let ctl = control st in
      if audit_inflight ctl = 0 then (False, st)
      else
        (let recent = (\<lambda>at. as_secs (duration_since now at) < 2);
             seen1 = (if length (audit_seen ctl) \<ge> 4096
                      then hm_retain (\<lambda>_ at. recent at) (audit_seen ctl) else audit_seen ctl);
             st1 = st\<lparr>control := ctl\<lparr>audit_seen := seen1\<rparr>\<rparr>;
             key = (user_id user, agent, action, rejected)
         in if length (audit_seen ctl) \<ge> 4096 \<and> length seen1 \<ge> 4096 then (False, st1)
            else if is_some_and (hm_get seen1 key) recent then (False, st1)
            else (True, st\<lparr>control := ctl\<lparr>audit_seen := hm_insert key now seen1,
                                          audit_inflight := audit_inflight ctl - 1\<rparr>\<rparr>)))"

section \<open>The registry invariant\<close>

text \<open>
  A queue belongs to the agent's current connection and is bounded; what it holds for input cleanup is
  fenced to that connection and can only release; a stored report is sound and belongs to the current
  connection.
\<close>

definition queue_ok :: "Uuid \<Rightarrow> CmdChannel \<Rightarrow> bool" where
  "queue_ok cid ch \<longleftrightarrow> length (queue ch) \<le> AGENT_CMD_CHANNEL_CAPACITY
     \<and> (\<forall>c v. InputCleanup c v \<in> set (queue ch) \<longrightarrow> c = cid \<and> is_cleanup_command v)"

definition runtime_ok :: "RuntimeModules \<Rightarrow> bool" where
  "runtime_ok rt \<longleftrightarrow> validated (rm_report rt) \<and> hm_wf (rm_pending rt)"

definition registry_inv :: "AgentRegistry \<Rightarrow> bool" where
  "registry_inv reg \<longleftrightarrow>
     hm_wf (connections reg) \<and> hm_wf (cmds reg) \<and> hm_wf (modules reg)
     \<and> (\<forall>a. hm_get (cmds reg) a = None \<longleftrightarrow> current_conn reg a = None)
     \<and> (\<forall>a ch cid. hm_get (cmds reg) a = Some ch \<longrightarrow> current_conn reg a = Some cid \<longrightarrow> queue_ok cid ch)
     \<and> (\<forall>a rt. hm_get (modules reg) a = Some rt \<longrightarrow> current_conn reg a = Some (rm_conn_id rt) \<and> runtime_ok rt)"

lemma registry_invD:
  assumes "registry_inv reg"
  shows "hm_wf (connections reg)" "hm_wf (cmds reg)" "hm_wf (modules reg)"
    "hm_get (cmds reg) a = None \<longleftrightarrow> current_conn reg a = None"
    "hm_get (cmds reg) a = Some ch \<Longrightarrow> current_conn reg a = Some cid \<Longrightarrow> queue_ok cid ch"
    "hm_get (modules reg) a = Some rt \<Longrightarrow> current_conn reg a = Some (rm_conn_id rt)"
    "hm_get (modules reg) a = Some rt \<Longrightarrow> runtime_ok rt"
  using assms by (simp_all add: registry_inv_def)

lemma queue_ok_try_send:
  assumes "queue_ok cid ch" "try_send ch m = Some ch'"
    "\<And>c v. m = InputCleanup c v \<Longrightarrow> c = cid \<and> is_cleanup_command v"
  shows "queue_ok cid ch'"
  using assms by (auto simp: queue_ok_def try_send_def split: if_splits)

lemma registry_inv_cmds [inv_intros]:
  assumes "registry_inv reg" "current_conn reg a = Some cid" "queue_ok cid ch"
  shows "registry_inv (reg\<lparr>cmds := hm_insert a ch (cmds reg)\<rparr>)"
  using assms by (auto simp: registry_inv_def)

lemma registry_inv_try_send:
  assumes "registry_inv reg" "current_conn reg a = Some cid" "hm_get (cmds reg) a = Some ch"
    "try_send ch m = Some ch'" "\<And>c v. m = InputCleanup c v \<Longrightarrow> c = cid \<and> is_cleanup_command v"
  shows "registry_inv (reg\<lparr>cmds := hm_insert a ch' (cmds reg)\<rparr>)"
  by (rule registry_inv_cmds [OF assms(1,2)])
    (rule queue_ok_try_send [OF registry_invD(5) [OF assms(1,3,2)] assms(4,5)])

lemma registry_inv_close [inv_intros]: "registry_inv reg \<Longrightarrow> registry_inv (close_conn reg a cid r)"
  by (auto simp: registry_inv_def intro: hm_wf_close)

lemma registry_inv_default [simp]: "registry_inv AgentRegistry_default"
  by (simp add: registry_inv_def AgentRegistry_default_def current_conn_def)

lemma enqueue_registry_inv [inv_intros]:
  assumes "registry_inv reg"
  shows "registry_inv (snd (enqueue_authorized_command reg a cid c))"
proof (rule enqueue_cases [of reg a cid c])
  fix ch ch'
  assume ch: "hm_get (cmds reg) a = Some ch" "try_send ch (Text c) = Some ch'" and oc: "open_conn reg a = Some cid"
    and eq: "enqueue_authorized_command reg a cid c = (Ok (), reg\<lparr>cmds := hm_insert a ch' (cmds reg)\<rparr>)"
  have "registry_inv (reg\<lparr>cmds := hm_insert a ch' (cmds reg)\<rparr>)"
    by (rule registry_inv_try_send [OF assms open_conn_SomeD [OF oc] ch]) simp
  with eq show ?thesis by simp
qed (use assms in simp)

lemma enqueue_conns [simp, frame_simps]:
  "current_conn (snd (enqueue_authorized_command reg a cid c)) b = current_conn reg b"
  "open_conn (snd (enqueue_authorized_command reg a cid c)) b = open_conn reg b"
  by (simp_all add: current_conn_def open_conn_def)

lemma send_registry_inv [inv_intros]:
  "registry_inv reg \<Longrightarrow> registry_inv (snd (send_agent_command_json f reg a cmd))"
  by (rule send_agent_command_json_cases [of f reg a cmd]) (auto intro: enqueue_registry_inv)

lemma authorize_frame:
  assumes "connections reg' = connections reg" "modules reg' = modules reg"
  shows "authorize_agent_command f reg' a cmd = authorize_agent_command f reg a cmd"
  unfolding authorize_agent_command_def assms ..

section \<open>What delivery changes\<close>

lemma send_cleanup_frame [simp, frame_simps]:
  "modules (snd (send_cleanup reg a cid cs)) = modules reg"
  "live_snapshots (snd (send_cleanup reg a cid cs)) = live_snapshots reg"
  "pending_enrollment_tokens (snd (send_cleanup reg a cid cs)) = pending_enrollment_tokens reg"
  "current_conn (snd (send_cleanup reg a cid cs)) b = current_conn reg b"
  by (induction cs arbitrary: reg) (auto split: option.splits)

lemma send_cleanup_open:
  "open_conn (snd (send_cleanup reg a cid cs)) b = open_conn reg b \<or> open_conn (snd (send_cleanup reg a cid cs)) b = None"
proof (induction cs arbitrary: reg)
  case Nil
  then show ?case by simp
next
  case (Cons c cs)
  show ?case
  proof (cases "Option.bind (hm_get (cmds reg) a) (\<lambda>sender. try_send sender (InputCleanup cid c))")
    case None
    then show ?thesis by (auto simp: open_conn_close)
  next
    case (Some ch)
    with Cons.IH [of "reg\<lparr>cmds := hm_insert a ch (cmds reg)\<rparr>"] show ?thesis by simp
  qed
qed

lemma send_cleanup_registry_inv [inv_intros]:
  assumes "registry_inv reg" "current_conn reg a = Some cid" "\<forall>c \<in> set cs. is_cleanup_command c"
  shows "registry_inv (snd (send_cleanup reg a cid cs))"
  using assms
proof (induction cs arbitrary: reg)
  case Nil
  then show ?case by simp
next
  case (Cons c cs)
  show ?case
  proof (cases "Option.bind (hm_get (cmds reg) a) (\<lambda>sender. try_send sender (InputCleanup cid c))")
    case None
    with Cons.prems show ?thesis by (simp add: registry_inv_close)
  next
    case (Some ch')
    then obtain ch where ch: "hm_get (cmds reg) a = Some ch" "try_send ch (InputCleanup cid c) = Some ch'"
      by (auto simp: bind_eq_Some_conv)
    have "registry_inv (reg\<lparr>cmds := hm_insert a ch' (cmds reg)\<rparr>)"
      by (rule registry_inv_try_send [OF Cons.prems(1,2) ch]) (use Cons.prems(3) in simp)
    with Cons.prems Some show ?thesis by (simp add: Cons.IH)
  qed
qed

text \<open>If every release was queued, they stand at the end of the queue in order; if one was not, the
  connection is closing.\<close>

lemma send_cleanup_result:
  assumes "current_conn reg a = Some cid" "send_cleanup reg a cid cs = (safe, reg')"
  shows "if safe then (cs = [] \<and> reg' = reg) \<or> (\<exists>ch ch'. hm_get (cmds reg) a = Some ch
             \<and> hm_get (cmds reg') a = Some ch' \<and> queue ch' = queue ch @ map (InputCleanup cid) cs
             \<and> open_conn reg' = open_conn reg)
         else open_conn reg' a = None"
  using assms
proof (induction cs arbitrary: reg)
  case Nil
  then show ?case by simp
next
  case (Cons c cs)
  show ?case
  proof (cases "Option.bind (hm_get (cmds reg) a) (\<lambda>sender. try_send sender (InputCleanup cid c))")
    case None
    with Cons.prems show ?thesis by (auto simp: open_conn_close)
  next
    case (Some ch1)
    then obtain ch where ch: "hm_get (cmds reg) a = Some ch" "try_send ch (InputCleanup cid c) = Some ch1"
      by (auto simp: bind_eq_Some_conv)
    let ?r = "reg\<lparr>cmds := hm_insert a ch1 (cmds reg)\<rparr>"
    have ext: "open_conn ?r = open_conn reg" by (simp add: fun_eq_iff)
    have "send_cleanup ?r a cid cs = (safe, reg')" using Cons.prems(2) Some by simp
    with Cons.IH [of ?r] Cons.prems(1) have IH: "if safe then (cs = [] \<and> reg' = ?r)
          \<or> (\<exists>ch ch'. hm_get (cmds ?r) a = Some ch \<and> hm_get (cmds reg') a = Some ch'
              \<and> queue ch' = queue ch @ map (InputCleanup cid) cs \<and> open_conn reg' = open_conn ?r)
        else open_conn reg' a = None"
      by simp
    show ?thesis
      using IH ch try_send_SomeD [OF ch(2)] ext by (auto split: if_splits)
  qed
qed

lemma deliver_batch_frame [simp, frame_simps]:
  "sessions (control (snd (deliver_batch f st b))) = sessions (control st)"
  "clipboard (control (snd (deliver_batch f st b))) = clipboard (control st)"
  "audit_seen (control (snd (deliver_batch f st b))) = audit_seen (control st)"
  "audit_inflight (control (snd (deliver_batch f st b))) = audit_inflight (control st)"
  "capture (control (snd (deliver_batch f st b))) = hm_remove (cleanup_agent_id b) (capture (control st))"
  "media (snd (deliver_batch f st b)) = media st"
  "detached (snd (deliver_batch f st b)) = detached st"
  "oneshots (snd (deliver_batch f st b)) = oneshots st"
  "modules (agents (snd (deliver_batch f st b))) = modules (agents st)"
  "live_snapshots (agents (snd (deliver_batch f st b))) = live_snapshots (agents st)"
  "pending_enrollment_tokens (agents (snd (deliver_batch f st b))) = pending_enrollment_tokens (agents st)"
  "current_conn (agents (snd (deliver_batch f st b))) a = current_conn (agents st) a"
  by (simp_all add: deliver_batch_def Let_def case_prod_unfold)

lemma deliver_batch_open:
  "open_conn (agents (snd (deliver_batch f st b))) a = open_conn (agents st) a
   \<or> open_conn (agents (snd (deliver_batch f st b))) a = None"
  using send_cleanup_open by (simp add: deliver_batch_def Let_def case_prod_unfold)

lemma deliver_frame [simp, frame_simps]:
  "sessions (control (snd (deliver_control_cleanup f st bs))) = sessions (control st)"
  "clipboard (control (snd (deliver_control_cleanup f st bs))) = clipboard (control st)"
  "audit_seen (control (snd (deliver_control_cleanup f st bs))) = audit_seen (control st)"
  "audit_inflight (control (snd (deliver_control_cleanup f st bs))) = audit_inflight (control st)"
  "media (snd (deliver_control_cleanup f st bs)) = media st"
  "detached (snd (deliver_control_cleanup f st bs)) = detached st"
  "oneshots (snd (deliver_control_cleanup f st bs)) = oneshots st"
  "modules (agents (snd (deliver_control_cleanup f st bs))) = modules (agents st)"
  "live_snapshots (agents (snd (deliver_control_cleanup f st bs))) = live_snapshots (agents st)"
  "pending_enrollment_tokens (agents (snd (deliver_control_cleanup f st bs))) = pending_enrollment_tokens (agents st)"
  "current_conn (agents (snd (deliver_control_cleanup f st bs))) a = current_conn (agents st) a"
  by (induction bs arbitrary: st) (simp_all add: case_prod_unfold Let_def)

lemma deliver_open:
  "open_conn (agents (snd (deliver_control_cleanup f st bs))) a = open_conn (agents st) a
   \<or> open_conn (agents (snd (deliver_control_cleanup f st bs))) a = None"
proof (induction bs arbitrary: st)
  case Nil
  then show ?case by simp
next
  case (Cons b bs)
  from Cons.IH [of "snd (deliver_batch f st b)"] deliver_batch_open [of f st b a] show ?case
    by (auto simp: case_prod_unfold Let_def)
qed

lemma deliver_capture:
  "hm_get (capture (control (snd (deliver_control_cleanup f st bs)))) a =
     (if a \<in> cleanup_agent_id ` set bs then None else hm_get (capture (control st)) a)"
  by (induction bs arbitrary: st) (auto simp: case_prod_unfold Let_def)

lemma deliver_capture_wf:
  "hm_wf (capture (control st)) \<Longrightarrow> hm_wf (capture (control (snd (deliver_control_cleanup f st bs))))"
  by (induction bs arbitrary: st) (simp_all add: case_prod_unfold Let_def hm.invar_remove)

lemma deliver_registry_inv [inv_intros]:
  assumes "registry_inv (agents st)" "\<forall>b \<in> set bs. \<forall>c \<in> set (cleanup_commands b). is_cleanup_command c"
  shows "registry_inv (agents (snd (deliver_control_cleanup f st bs)))"
  using assms
proof (induction bs arbitrary: st)
  case Nil
  then show ?case by simp
next
  case (Cons b bs)
  have "registry_inv (agents (snd (deliver_batch f st b)))"
    using Cons.prems by (auto simp: deliver_batch_def Let_def case_prod_unfold intro: send_cleanup_registry_inv)
  with Cons show ?case by (simp add: case_prod_unfold Let_def)
qed

section \<open>Leases, captures and connections\<close>

definition lease_owner_of :: "ControlSessions \<Rightarrow> Uuid \<Rightarrow> LeaseOwner option" where
  "lease_owner_of s a = map_option (\<lambda>l. grant_owner (grant l)) (lease_of s a)"

text \<open>
  Every lease belongs to the agent's current connection, and an agent has a frozen capture exactly
  while it has a lease, under the same owner.
\<close>

definition control_inv :: "AppState \<Rightarrow> bool" where
  "control_inv st \<longleftrightarrow>
     sessions_wf (sessions (control st)) \<and> hm_wf (capture (control st))
     \<and> (\<forall>a. map_option fc_owner (hm_get (capture (control st)) a) = lease_owner_of (sessions (control st)) a)
     \<and> (\<forall>a owner. lease_owner_of (sessions (control st)) a = Some owner \<longrightarrow>
          current_conn (agents st) a = Some (agent_connection_id owner))"

lemma control_invD:
  assumes "control_inv st"
  shows "sessions_wf (sessions (control st))" "hm_wf (capture (control st))"
    "map_option fc_owner (hm_get (capture (control st)) a) = lease_owner_of (sessions (control st)) a"
    "lease_owner_of (sessions (control st)) a = Some owner \<Longrightarrow>
       current_conn (agents st) a = Some (agent_connection_id owner)"
  using assms by (simp_all add: control_inv_def)

text \<open>A change of the sessions and what it reports: the leases of the reported agents are gone, the
  owners of all others are as before, and the reported commands only release.\<close>

definition cleans :: "ControlSessions \<Rightarrow> LeaseCleanup list \<Rightarrow> ControlSessions \<Rightarrow> bool" where
  "cleans s cs s' \<longleftrightarrow>
     sessions_wf s'
     \<and> (\<forall>a. lease_owner_of s' a = (if a \<in> cleanup_agent_id ` set cs then None else lease_owner_of s a))
     \<and> (\<forall>c \<in> set cs. \<forall>v \<in> set (cleanup_commands c). is_cleanup_command v)"

lemma cleans_refl: "sessions_wf s \<Longrightarrow> cleans s [] s"
  by (simp add: cleans_def)

lemma cleanup_of_commands:
  "sessions_wf s \<Longrightarrow> lease_of s a = Some l \<Longrightarrow> v \<in> set (cleanup_commands (cleanup_of r a l)) \<Longrightarrow> is_cleanup_command v"
  by (auto simp: cleanup_of_def intro: drain_is_cleanup sessions_wfD)

context teardown
begin

lemma op_cleans:
  assumes "sessions_wf s" "op s = (cs, s')"
  shows "cleans s cs s'"
  unfolding cleans_def
proof (intro conjI allI ballI)
  show "sessions_wf s'" by (rule op_wf [OF assms])
  show "lease_owner_of s' a = (if a \<in> cleanup_agent_id ` set cs then None else lease_owner_of s a)" for a
  proof (cases "\<exists>l. lease_of s a = Some l \<and> hit a l")
    case True
    then obtain l where l: "lease_of s a = Some l" "hit a l" by blast
    then have "cleanup_of reason a l \<in> set cs"
      unfolding op_cleanups [OF assms] by blast
    then have "a \<in> cleanup_agent_id ` set cs"
      by (force simp: cleanup_of_def)
    with l show ?thesis by (simp add: lease_owner_of_def op_leases [OF assms])
  next
    case False
    then have "a \<notin> cleanup_agent_id ` set cs"
      unfolding op_cleanups [OF assms] by (auto simp: cleanup_of_def)
    moreover from False have "lease_of s' a = lease_of s a"
      unfolding op_leases [OF assms] by (cases "lease_of s a") auto
    ultimately show ?thesis by (simp add: lease_owner_of_def)
  qed
  show "is_cleanup_command v" if "c \<in> set cs" "v \<in> set (cleanup_commands c)" for c v
    using that assms(1) unfolding op_cleanups [OF assms] by (auto intro: cleanup_of_commands)
qed

end

lemma authorize_cleans:
  assumes "sessions_wf s" "authorize s a owner token now = (t, s')"
  shows "cleans s (cleanup t) s'"
  using agent_expiry.op_cleans [OF assms(1) prod.collapse [symmetric], where now = now and agent = a] assms(2)
  by (auto simp: authorize_def case_prod_unfold Let_def)

lemma heartbeat_cleans:
  assumes "sessions_wf s" "heartbeat s a owner token ttl now = (t, s')"
  shows "cleans s (cleanup t) s'"
proof (cases "holds s a owner token now")
  case True
  obtain l where "lease_of s a = Some l" "cleanup t = []"
    "s' = s\<lparr>leases := hm_insert a (l\<lparr>grant := (grant l)\<lparr>expires_at := deadline now ttl\<rparr>\<rparr>) (leases s)\<rparr>"
    by (rule heartbeat_ok [OF True, of ttl]) (use assms(2) in auto)
  with heartbeat_wf [OF assms(1), of a owner token ttl now] assms(2) show ?thesis
    by (simp add: cleans_def lease_owner_of_def)
next
  case False
  from heartbeat_err(2,3) [OF False, of ttl] assms(2)
    authorize_cleans [OF assms(1) prod.collapse [symmetric], of a owner token now]
  show ?thesis by simp
qed

lemma release_cleans:
  assumes "sessions_wf s" "release s a owner token now = (t, s')"
  shows "cleans s (cleanup t) s'"
proof (cases "holds s a owner token now")
  case True
  then obtain l where l: "lease_of s a = Some l" by (auto simp: holds_def)
  with True assms(2) have "cleanup t = [cleanup_of Released a l]" "s' = s\<lparr>leases := hm_remove a (leases s)\<rparr>"
    by (auto simp: release_eq)
  moreover have "cleanup_agent_id (cleanup_of Released a l) = a" by (simp add: cleanup_of_def)
  ultimately show ?thesis
    using l assms(1) by (auto simp: cleans_def lease_owner_of_def intro: sessions_wf_remove cleanup_of_commands)
next
  case False
  with assms show ?thesis by (auto simp: release_eq intro: authorize_cleans)
qed

lemma authorize_and_track_cleans:
  assumes "sessions_wf s" "authorize_and_track s a owner token cmd now = (t, s')"
  shows "cleans s (cleanup t) s'"
proof (cases "holds s a owner token now")
  case True
  then obtain l where "lease_of s a = Some l" by (auto simp: holds_def)
  with True assms(2) authorize_and_track_wf [OF assms(1), of a owner token cmd now] show ?thesis
    by (auto simp: authorize_and_track_eq cleans_def lease_owner_of_def)
next
  case False
  with assms show ?thesis by (auto simp: authorize_and_track_eq intro: authorize_cleans)
qed

lemma set_sessions_simps [simp]:
  "control (set_sessions st s) = (control st)\<lparr>sessions := s\<rparr>"
  "agents (set_sessions st s) = agents st"
  "media (set_sessions st s) = media st"
  "tx (set_sessions st s) = tx st"
  "detached (set_sessions st s) = detached st"
  "oneshots (set_sessions st s) = oneshots st"
  by (simp_all add: set_sessions_def)

lemma cleans_deliver_control_inv:
  assumes "control_inv st" "cleans (sessions (control st)) cs s'"
  shows "control_inv (snd (deliver_control_cleanup f (set_sessions st s') cs))"
  using assms by (auto simp: control_inv_def cleans_def deliver_capture intro: deliver_capture_wf)

lemma cleans_deliver_registry_inv:
  assumes "registry_inv (agents st)" "cleans s cs s'"
  shows "registry_inv (agents (snd (deliver_control_cleanup f (set_sessions st s') cs)))"
  using assms by (auto simp: cleans_def intro!: deliver_registry_inv)

section \<open>Every release is queued, or the socket closes\<close>

lemma send_cleanup_other:
  assumes "b \<noteq> a"
  shows "hm_get (cmds (snd (send_cleanup reg a cid cs))) b = hm_get (cmds reg) b"
    and "open_conn (snd (send_cleanup reg a cid cs)) b = open_conn reg b"
  using assms by (induction cs arbitrary: reg) (auto simp: open_conn_close split: option.splits)

lemma deliver_batch_other:
  assumes "a \<noteq> cleanup_agent_id b"
  shows "hm_get (cmds (agents (snd (deliver_batch f st b)))) a = hm_get (cmds (agents st)) a"
    and "open_conn (agents (snd (deliver_batch f st b))) a = open_conn (agents st) a"
  using send_cleanup_other [OF assms] by (simp_all add: deliver_batch_def Let_def case_prod_unfold)

lemma deliver_other:
  assumes "a \<notin> cleanup_agent_id ` set bs"
  shows "hm_get (cmds (agents (snd (deliver_control_cleanup f st bs)))) a = hm_get (cmds (agents st)) a"
    and "open_conn (agents (snd (deliver_control_cleanup f st bs))) a = open_conn (agents st) a"
  using assms by (induction bs arbitrary: st) (simp_all add: case_prod_unfold Let_def deliver_batch_other)

text \<open>What the queue of an agent holds after the releases of a lease were delivered.\<close>

definition released :: "AgentRegistry \<Rightarrow> AgentRegistry \<Rightarrow> Uuid \<Rightarrow> Uuid \<Rightarrow> Value list \<Rightarrow> bool" where
  "released reg reg' a cid cs \<longleftrightarrow>
     open_conn reg' a = None \<or> cs = []
     \<or> (\<exists>ch ch'. hm_get (cmds reg) a = Some ch \<and> hm_get (cmds reg') a = Some ch'
          \<and> queue ch' = queue ch @ map (InputCleanup cid) cs)"

lemma deliver_batch_released:
  assumes "current_conn (agents st) (cleanup_agent_id b) = Some (agent_connection_id (cleanup_owner b))"
  shows "released (agents st) (agents (snd (deliver_batch f st b))) (cleanup_agent_id b)
    (agent_connection_id (cleanup_owner b)) (cleanup_commands b)"
  using send_cleanup_result [OF assms prod.collapse [symmetric], of "cleanup_commands b"] assms
  by (auto simp: released_def deliver_batch_def Let_def case_prod_unfold split: if_splits)

lemma deliver_released:
  assumes "distinct (map cleanup_agent_id bs)" "b \<in> set bs"
    "current_conn (agents st) (cleanup_agent_id b) = Some (agent_connection_id (cleanup_owner b))"
  shows "released (agents st) (agents (snd (deliver_control_cleanup f st bs))) (cleanup_agent_id b)
    (agent_connection_id (cleanup_owner b)) (cleanup_commands b)"
  using assms
proof (induction bs arbitrary: st)
  case Nil
  then show ?case by simp
next
  case (Cons d bs)
  show ?case
  proof (cases "d = b")
    case True
    with Cons.prems have "cleanup_agent_id b \<notin> cleanup_agent_id ` set bs" by auto
    with deliver_batch_released [OF Cons.prems(3), of f] True show ?thesis
      by (simp add: released_def case_prod_unfold Let_def deliver_other)
  next
    case False
    with Cons.prems(1,2) have ne: "cleanup_agent_id b \<noteq> cleanup_agent_id d"
      by (metis distinct.simps(2) imageI image_set list.simps(9) set_ConsD)
    from Cons.IH [of "snd (deliver_batch f st d)"] Cons.prems False show ?thesis
      by (simp add: released_def case_prod_unfold Let_def deliver_batch_other [OF ne])
  qed
qed

context teardown
begin

lemma teardown_deliver_releases:
  assumes "control_inv st" "lease_of (sessions (control st)) a = Some l" "hit a l"
  shows "lease_of (sessions (control (snd (teardown_deliver f st op)))) a = None"
    and "hm_get (capture (control (snd (teardown_deliver f st op)))) a = None"
    and "released (agents st) (agents (snd (teardown_deliver f st op))) a
      (agent_connection_id (grant_owner (grant l))) (drain (held l))"
proof -
  let ?s = "sessions (control st)"
  have wf: "sessions_wf ?s" by (rule control_invD(1) [OF assms(1)])
  obtain cs s' where op: "op ?s = (cs, s')" by force
  have mem: "cleanup_of reason a l \<in> set cs"
    unfolding op_cleanups [OF wf op] using assms(2,3) by blast
  have ids: "cleanup_agent_id (cleanup_of reason a l) = a"
    "cleanup_owner (cleanup_of reason a l) = grant_owner (grant l)"
    "cleanup_commands (cleanup_of reason a l) = drain (held l)"
    by (simp_all add: cleanup_of_def)
  have conn: "current_conn (agents st) a = Some (agent_connection_id (grant_owner (grant l)))"
    using control_invD(4) [OF assms(1), of a "grant_owner (grant l)"] assms(2) by (simp add: lease_owner_of_def)
  have in_cs: "a \<in> cleanup_agent_id ` set cs" using mem ids(1) by force
  show "lease_of (sessions (control (snd (teardown_deliver f st op)))) a = None"
    using assms(2,3) by (simp add: teardown_deliver_def op op_leases [OF wf op])
  show "hm_get (capture (control (snd (teardown_deliver f st op)))) a = None"
    using in_cs by (simp add: teardown_deliver_def op deliver_capture)
  show "released (agents st) (agents (snd (teardown_deliver f st op))) a
      (agent_connection_id (grant_owner (grant l))) (drain (held l))"
    using deliver_released [OF op_distinct [OF wf op] mem, of "set_sessions st s'" f] conn
    by (simp add: ids teardown_deliver_def op)
qed

lemma teardown_deliver_inv:
  assumes "control_inv st" "registry_inv (agents st)"
  shows "control_inv (snd (teardown_deliver f st op))" "registry_inv (agents (snd (teardown_deliver f st op)))"
proof -
  have cl: "cleans (sessions (control st)) (fst (op (sessions (control st)))) (snd (op (sessions (control st))))"
    by (rule op_cleans [OF control_invD(1) [OF assms(1)] prod.collapse [symmetric]])
  show "control_inv (snd (teardown_deliver f st op))"
    using cleans_deliver_control_inv [OF assms(1) cl] by (simp add: teardown_deliver_def case_prod_unfold Let_def)
  show "registry_inv (agents (snd (teardown_deliver f st op)))"
    using cleans_deliver_registry_inv [OF assms(2) cl] by (simp add: teardown_deliver_def case_prod_unfold Let_def)
qed

end

lemma teardown_deliver_frame [simp, frame_simps]:
  "clipboard (control (snd (teardown_deliver f st op))) = clipboard (control st)"
  "audit_seen (control (snd (teardown_deliver f st op))) = audit_seen (control st)"
  "audit_inflight (control (snd (teardown_deliver f st op))) = audit_inflight (control st)"
  "media (snd (teardown_deliver f st op)) = media st"
  "detached (snd (teardown_deliver f st op)) = detached st"
  "oneshots (snd (teardown_deliver f st op)) = oneshots st"
  "modules (agents (snd (teardown_deliver f st op))) = modules (agents st)"
  "live_snapshots (agents (snd (teardown_deliver f st op))) = live_snapshots (agents st)"
  "pending_enrollment_tokens (agents (snd (teardown_deliver f st op))) = pending_enrollment_tokens (agents st)"
  "current_conn (agents (snd (teardown_deliver f st op))) a = current_conn (agents st) a"
  by (simp_all add: teardown_deliver_def case_prod_unfold Let_def)

lemma teardown_deliver_sessions:
  "sessions (control (snd (teardown_deliver f st op))) = snd (op (sessions (control st)))"
  by (simp add: teardown_deliver_def case_prod_unfold Let_def)

text \<open>Captures only go away.\<close>

lemma teardown_deliver_capture_sub:
  "hm_get (capture (control (snd (teardown_deliver f st op)))) a = Some c \<Longrightarrow> hm_get (capture (control st)) a = Some c"
  by (auto simp: teardown_deliver_def case_prod_unfold Let_def deliver_capture split: if_splits)

section \<open>Properties\<close>

text \<open>
  C22. Expiry leaves nothing pressed: when the expiry task runs on a consistent state, the lease of
  every agent whose deadline has passed is gone together with its frozen capture, and the releases of
  everything that lease held are at the end of that agent's command queue, fenced to the connection
  the lease was granted on, unless that connection is closing (closing resets the host).
\<close>

theorem expiry_releases_or_closes:
  assumes "control_inv st" and "hm_get (leases (sessions (control st))) a = Some l"
    and "expires_at (grant l) \<le> now"
  shows "let st' = expire_control f st now; cid = agent_connection_id (grant_owner (grant l)) in
    hm_get (leases (sessions (control st'))) a = None \<and> hm_get (capture (control st')) a = None
    \<and> (open_conn (agents st') a = None \<or> drain (held l) = []
       \<or> (\<exists>ch ch'. hm_get (cmds (agents st)) a = Some ch \<and> hm_get (cmds (agents st')) a = Some ch'
            \<and> queue ch' = queue ch @ map (InputCleanup cid) (drain (held l))))"
  using expiry.teardown_deliver_releases [OF assms, of f]
  by (simp add: expire_control_def released_def Let_def)

definition example_frozen :: FrozenCapture where
  "example_frozen = \<lparr> fc_owner = example_owner, fc_session_id = 5,
     fc_active = \<lparr> wire_monitor = None, generation = 6, retired_capture_ids = replicate 32 None,
       ac_conn_id = 3, ac_prefs = \<lparr> jpeg_quality = 40, interval_ms = 200, monitor = Some 0 \<rparr> \<rparr> \<rparr>"

definition example_app :: AppState where
  "example_app = AppState_new\<lparr> agents := example_registry,
     control := ControlRuntime_default\<lparr> sessions := example_sessions, capture := [(9, example_frozen)] \<rparr> \<rparr>"

lemma example_app_control_inv: "control_inv example_app"
  using example_sessions_wf
  by (simp add: control_inv_def example_app_def example_frozen_def hm_wf_def lease_owner_of_def example_owner_def
      example_sessions_def current_conn_def example_registry_def example_conn_def)

theorem expiry_releases_or_closes_witness:
  "hm_get (leases (sessions (control (expire_control binary_fmt example_app 41)))) 9 = None"
proof -
  have "hm_get (leases (sessions (control example_app))) 9 =
      Some \<lparr> grant = \<lparr> grant_token = 7, grant_owner = example_owner, expires_at = 40 \<rparr>,
        held = \<lparr> keys = 1, buttons = [None, Some (3, 4), None] \<rparr> \<rparr>"
    by (simp add: example_app_def example_sessions_def)
  from expiry_releases_or_closes [OF example_app_control_inv this, of 41 binary_fmt] show ?thesis
    by (simp add: Let_def)
qed

text \<open>
  The audit trail of control events is bounded and rate limited: at most 64 rows are being written
  and at most 4,096 recent events are remembered, and an event is written at most once per user,
  agent, action and outcome within two seconds.
\<close>

theorem audit_bounded_and_deduplicated:
  assumes "length (audit_seen (control st)) \<le> 4096"
    and "audit_control_event st user agent action rejected now = (written, st')"
  shows "length (audit_seen (control st')) \<le> 4096
    \<and> audit_inflight (control st') = audit_inflight (control st) - (if written then 1 else 0)
    \<and> (written \<longrightarrow> 0 < audit_inflight (control st)
        \<and> hm_get (audit_seen (control st')) (user_id user, agent, action, rejected) = Some now
        \<and> (\<forall>later. as_secs (duration_since later now) < 2 \<longrightarrow> audit_inflight (control st') \<noteq> 0 \<longrightarrow>
             length (audit_seen (control st')) < 4096 \<longrightarrow>
             fst (audit_control_event st' user agent action rejected later) = False))"
proof -
  let ?key = "(user_id user, agent, action, rejected)"
  let ?recent = "\<lambda>at. as_secs (duration_since now at) < 2"
  let ?seen = "if length (audit_seen (control st)) \<ge> 4096
     then hm_retain (\<lambda>_ at. ?recent at) (audit_seen (control st)) else audit_seen (control st)"
  have le: "length ?seen \<le> 4096"
    using assms(1) hm_length_retain_le [of "\<lambda>_ at. ?recent at" "audit_seen (control st)"]
    by (simp split: if_split)
  show ?thesis
  proof (cases written)
    case False
    with assms(2) le assms(1) show ?thesis
      by (auto simp: audit_control_event_def Let_def split: if_splits)
  next
    case True
    with assms(2) have st': "st' = st\<lparr>control := (control st)\<lparr>audit_seen := hm_insert ?key now ?seen,
          audit_inflight := audit_inflight (control st) - 1\<rparr>\<rparr>"
      and "audit_inflight (control st) \<noteq> 0" "length ?seen < 4096"
      by (auto simp: audit_control_event_def Let_def split: if_splits)
    moreover have "length (hm_insert ?key now ?seen) \<le> 4096"
      using hm_length_insert_le [of ?key now ?seen] \<open>length ?seen < 4096\<close> by linarith
    ultimately show ?thesis
      using True by (auto simp: audit_control_event_def Let_def)
  qed
qed

theorem audit_bounded_and_deduplicated_witness:
  "fst (audit_control_event AppState_new \<lparr> user_id = 2, username = ''op'', role = ''operator'' \<rparr>
      9 ''control_acquire'' False 0)
   \<and> audit_inflight (control (snd (audit_control_event AppState_new
      \<lparr> user_id = 2, username = ''op'', role = ''operator'' \<rparr> 9 ''control_acquire'' False 0))) = 63"
proof -
  let ?u = "\<lparr> user_id = 2, username = ''op'', role = ''operator'' \<rparr>"
  have w: "fst (audit_control_event AppState_new ?u 9 ''control_acquire'' False 0)"
    by (simp add: audit_control_event_def AppState_new_def ControlRuntime_default_def)
  have "length (audit_seen (control AppState_new)) \<le> 4096"
    by (simp add: AppState_new_def ControlRuntime_default_def)
  from audit_bounded_and_deduplicated [OF this prod.collapse [symmetric], of ?u 9 "''control_acquire''" False 0] w
  show ?thesis by (simp add: AppState_new_def ControlRuntime_default_def)
qed

end
