(* ===== verification/CaptureArbitration.thy ===== *)
theory CaptureArbitration
  imports ControlCore
begin

text \<open>
  Live screen capture (\<open>server/src/control/capture_arbitration.rs\<close>): which display a stream shows, the
  geometry a JPEG frame carries, what a lease freezes, admission and removal of stream sessions, and
  the one \<open>start_capture\<close> or \<open>stop_capture\<close> that follows from them.

  The \<open>unwrap\<close>s of the code are \<open>case\<close>s here whose other branch cannot be reached: \<open>frame_geometry\<close>
  returns only geometries with a capture id and a monitor index (\<open>frame_geometry_fields\<close>), and a stream
  session exists only on a connected agent.
\<close>

section \<open>Display selection\<close>

definition capture_denied :: "string \<Rightarrow> string \<Rightarrow> CommandDenied" where
  "capture_denied c message = CommandDenied_new c message (Some LiveScreen)"

definition resolve_monitor :: "u32 option \<Rightarrow> Value option \<Rightarrow> (u32 option, CommandDenied) Result" where
  "resolve_monitor request info =
     (if is_some_and request (\<lambda>i. i \<ge> 64) then
        Err (capture_denied ''invalid_monitor'' ''Monitor index must be below 64.'')
      else
        (let monitors = option_filter (\<lambda>m. m \<noteq> []) (Option.bind info (\<lambda>i. as_array (v_index i ''monitors'')))
         in case monitors of
              Some ms \<Rightarrow>
                (let primary = of_nat (unwrap_or (list_position (\<lambda>m. as_bool (v_index m ''primary'') = Some True) ms) 0);
                     index = unwrap_or request primary
                 in if unat index \<ge> length ms then
                      Err (capture_denied ''invalid_monitor''
                        ''Monitor is absent from the recorded device inventory; refresh device information.'')
                    else Ok (Some index))
            | None \<Rightarrow> Ok request))"

section \<open>Frame geometry\<close>

definition byte_at :: "u8 list \<Rightarrow> nat \<Rightarrow> u8 option" where
  "byte_at bytes i = (if i < length bytes then Some (bytes ! i) else None)"

text \<open>\<open>while jpeg.get(at) == Some(&0xff) { at += 1; }\<close>\<close>

definition skip_fill :: "u8 list \<Rightarrow> nat \<Rightarrow> nat" where
  "skip_fill bytes i = i + length (takeWhile (\<lambda>b. b = 0xff) (drop i bytes))"

definition GEOMETRY_TAG :: "u8 list" where
  "GEOMETRY_TAG = map (\<lambda>c. of_char c) ''VantyrGeometry'' @ [0]"

definition in_u16_range :: "Value \<Rightarrow> bool" where
  "in_u16_range v = is_some_and (as_u64 v) (\<lambda>n. 1 \<le> n \<and> n \<le> 65535)"

definition span_ok :: "Value \<Rightarrow> Value \<Rightarrow> bool" where
  "span_ok origin extent =
     (case (Option.bind (as_i64 origin) i32_try_from, as_u64 extent) of
        (Some x, Some n) \<Rightarrow> \<not> (x + sint n - 1 > i32_max)
      | _ \<Rightarrow> False)"

definition check_geometry :: "Uuid_fmt \<Rightarrow> Value \<Rightarrow> Value option" where
  "check_geometry f value =
     (let g = v_index value ''geometry''; desktop = v_index g ''desktop'' in
      if v_index value ''type'' \<noteq> Str ''capture_geometry'' \<or> as_i64 (v_index value ''schema_version'') \<noteq> Some 1 then None
      else if uuid_field f g ''capture_id'' = None then None
      else if \<not> is_some_and (as_u64 (v_index g ''geometry_revision'')) (\<lambda>n. n \<noteq> 0) then None
      else if \<not> (in_u16_range (v_index g ''frame_width'') \<and> in_u16_range (v_index g ''frame_height'')) then None
      else if \<not> (in_u16_range (v_index desktop ''physical_width'') \<and> in_u16_range (v_index desktop ''physical_height''))
        then None
      else if \<not> (span_ok (v_index desktop ''x'') (v_index desktop ''physical_width'')
                \<and> span_ok (v_index desktop ''y'') (v_index desktop ''physical_height'')) then None
      else if \<not> is_some_and (as_u64 (v_index g ''monitor_index'')) (\<lambda>n. n < 64) then None
      else Some g)"

text \<open>The scan over at most 128 header segments; the number is the count of the \<open>for\<close> loop.\<close>

fun geometry_scan :: "Env \<Rightarrow> u8 list \<Rightarrow> nat \<Rightarrow> nat \<Rightarrow> Value option" where
  "geometry_scan env bytes 0 i = None"
| "geometry_scan env bytes (Suc n) i =
     (if byte_at bytes i \<noteq> Some 0xff then None
      else
        (let i1 = skip_fill bytes i in
         case byte_at bytes i1 of
           None \<Rightarrow> None
         | Some marker \<Rightarrow>
             (let i2 = i1 + 1 in
              if marker = 0xda \<or> marker = 0xd9 then None
              else if (0xd0 \<le> marker \<and> marker \<le> 0xd7) \<or> marker = 0x01 then geometry_scan env bytes n i2
              else
                (case (byte_at bytes i2, byte_at bytes (i2 + 1)) of
                   (Some hi, Some lo) \<Rightarrow>
                     (let len = unat hi * 256 + unat lo in
                      if len < 2 then None
                      else if length bytes < i2 + len then None
                      else
                        (let data = take (len - 2) (drop (i2 + 2) bytes); i3 = i2 + len in
                         if marker = 0xef \<and> take (length GEOMETRY_TAG) data = GEOMETRY_TAG then
                           (if length data > 16384 then None
                            else Option.bind (from_slice env (drop 15 data)) (check_geometry (fmt env)))
                         else geometry_scan env bytes n i3))
                 | _ \<Rightarrow> None))))"

definition frame_geometry :: "Env \<Rightarrow> u8 list \<Rightarrow> Value option" where
  "frame_geometry env bytes =
     (if take 2 bytes \<noteq> [0xff, 0xd8] then None else geometry_scan env bytes 128 2)"

section \<open>Freezing a capture\<close>

definition start_capture_default :: "Uuid_fmt \<Rightarrow> Value" where
  "start_capture_default f = to_value f (StartCapture StartCapture_default)"

definition validate_control_capture ::
  "Env \<Rightarrow> AppState \<Rightarrow> Uuid \<Rightarrow> LeaseOwner \<Rightarrow> Value \<Rightarrow> Instant \<Rightarrow> (FrozenCapture, CommandDenied) Result" where
  "validate_control_capture env st agent owner value now =
     (case authorize_agent_command (fmt env) (agents st) agent (start_capture_default (fmt env)) of
        Inl e \<Rightarrow> Err e
      | Inr _ \<Rightarrow>
     (case uuid_field (fmt env) value ''capture_session'' of
        None \<Rightarrow> Err (capture_denied ''capture_session_required''
          ''Open a live stream and supply its session UUID as capture_session.'')
      | Some session \<Rightarrow>
     (case option_filter (\<lambda>s. mj_agent_id s = agent \<and> mj_user_id s = owner_user_id owner
                            \<and> mj_conn_id s = agent_connection_id owner)
             (hm_get (mjpeg_sessions (media st)) session) of
        None \<Rightarrow> Err (capture_denied ''capture_session_stale''
          ''Live stream is missing, belongs to another user, or uses an old connection; reopen it.'')
      | Some mapped \<Rightarrow>
     (case option_filter (\<lambda>a. ac_conn_id a = agent_connection_id owner
                            \<and> monitor (ac_prefs a) = monitor (mj_prefs mapped))
             (hm_get (mjpeg_active_capture (media st)) agent) of
        None \<Rightarrow> Err (capture_denied ''capture_selection_stale''
          ''Live display selection changed; reopen the requested stream before acquiring control.'')
      | Some active \<Rightarrow>
     (case option_filter (\<lambda>fr. duration_since now (last_update fr) \<le> from_secs 10)
             (hm_get (frames (media st)) agent) of
        None \<Rightarrow> Err (capture_denied ''capture_frame_required''
          ''Wait for a fresh live frame before acquiring control.'')
      | Some frame \<Rightarrow>
     (case frame_geometry env (jpeg frame) of
        None \<Rightarrow> Err (capture_denied ''capture_geometry_required''
          ''Live frame has no verified physical desktop geometry. This capture is view-only until the agent provides valid geometry.'')
      | Some geometry \<Rightarrow>
          if (v_get value ''capture_id'' \<noteq> None \<or> v_get value ''geometry_revision'' \<noteq> None)
             \<and> (v_index value ''capture_id'' \<noteq> v_index geometry ''capture_id''
                \<or> v_index value ''geometry_revision'' \<noteq> v_index geometry ''geometry_revision'')
          then Err (capture_denied ''capture_geometry_stale''
            ''Displayed frame geometry changed; wait for the current frame before acquiring control.'')
          else
     (case (uuid_field (fmt env) geometry ''capture_id'', as_u64 (v_index geometry ''monitor_index'')) of
        (Some observed, Some mi) \<Rightarrow>
          if Some observed \<in> set (retired_capture_ids active) then
            Err (capture_denied ''capture_frame_pending''
              ''Wait for a frame from the new capture session before acquiring control.'')
          else
            (let index = ucast mi in
             if is_some_and (monitor (ac_prefs active)) (\<lambda>m. m \<noteq> index) then
               Err (capture_denied ''capture_selection_stale''
                 ''Agent frame does not match the requested display; wait for its new frame.'')
             else Ok \<lparr> fc_owner = owner, fc_session_id = session,
                       fc_active = active\<lparr>ac_prefs := (ac_prefs active)\<lparr>monitor := Some index\<rparr>\<rparr> \<rparr>)
      | _ \<Rightarrow> Err (capture_denied ''capture_geometry_required'' []))))))))"

definition commit_control_capture :: "AppState \<Rightarrow> Uuid \<Rightarrow> FrozenCapture \<Rightarrow> AppState" where
  "commit_control_capture st agent frozen =
     (let md = media st; m = monitor (ac_prefs (fc_active frozen)); cid = ac_conn_id (fc_active frozen) in
      case option_filter (\<lambda>a. ac_conn_id a = cid \<and> monitor (ac_prefs a) = None)
             (hm_get (mjpeg_active_capture md) agent) of
        None \<Rightarrow> st
      | Some active \<Rightarrow>
          st\<lparr>media := md
             \<lparr>mjpeg_active_capture := hm_insert agent (active\<lparr>ac_prefs := (ac_prefs active)\<lparr>monitor := m\<rparr>\<rparr>)
                (mjpeg_active_capture md),
              mjpeg_sessions := hm_map_values
                (\<lambda>s. if mj_agent_id s = agent \<and> mj_conn_id s = cid \<and> requested_monitor s = None
                     then s\<lparr>mj_prefs := (mj_prefs s)\<lparr>monitor := m\<rparr>\<rparr> else s) (mjpeg_sessions md)\<rparr>\<rparr>)"

section \<open>Starting and stopping capture\<close>

definition enqueue_capture ::
  "Uuid_fmt \<Rightarrow> AgentRegistry \<Rightarrow> Uuid \<Rightarrow> Uuid \<Rightarrow> ServerCommand \<Rightarrow> Uuid option
    \<Rightarrow> (unit, CommandDenied) Result \<times> AgentRegistry" where
  "enqueue_capture f reg agent conn cmd gen =
     (case authorize_agent_command f reg agent (to_value f cmd) of
        Inl e \<Rightarrow> (Err e, reg)
      | Inr command0 \<Rightarrow>
          (let command = v_set command0 ''__capture_generation''
                           (case gen of Some g \<Rightarrow> json_uuid f g | None \<Rightarrow> Str ''stopped'');
               (result, reg1) = enqueue_authorized_command reg agent conn command
           in (result, if is_err result then close_conn reg1 agent conn [] else reg1)))"

definition max_list :: "'a::linorder list \<Rightarrow> 'a" where
  "max_list xs = fold max (tl xs) (hd xs)"

definition min_list :: "'a::linorder list \<Rightarrow> 'a" where
  "min_list xs = fold min (tl xs) (hd xs)"

text \<open>The retired capture ids of an agent's connection, with the id of the frame still cached.\<close>

definition retire_capture ::
  "RetiredCaptures option \<Rightarrow> Uuid \<Rightarrow> Uuid option \<Rightarrow> RetiredCaptures" where
  "retire_capture entry0 conn observed =
     (let entry1 = unwrap_or entry0 (conn, replicate 32 None);
          entry2 = (if fst entry1 \<noteq> conn then (conn, replicate 32 None) else entry1)
      in case option_filter (\<lambda>i. Some i \<notin> set (snd entry2)) observed of
           None \<Rightarrow> entry2
         | Some i \<Rightarrow> (fst entry2, Some i # butlast (snd entry2)))"

definition sessions_of :: "LiveMedia \<Rightarrow> Uuid \<Rightarrow> Uuid option \<Rightarrow> MjpegSession list" where
  "sessions_of md agent conn =
     filter (\<lambda>s. mj_agent_id s = agent \<and> Some (mj_conn_id s) = conn) (hm_values (mjpeg_sessions md))"

definition capture_prefs ::
  "FrozenCapture option \<Rightarrow> Uuid \<Rightarrow> u32 option \<Rightarrow> MjpegSession list \<Rightarrow> MjpegViewerPrefs" where
  "capture_prefs frozen conn selection ss =
     (case option_filter (\<lambda>c. ac_conn_id (fc_active c) = conn) frozen of
        Some c \<Rightarrow> ac_prefs (fc_active c)
      | None \<Rightarrow> \<lparr> jpeg_quality = max_list (map (\<lambda>s. jpeg_quality (mj_prefs s)) ss),
                   interval_ms = min_list (map (\<lambda>s. interval_ms (mj_prefs s)) ss),
                   monitor = selection \<rparr>)"

definition wire_selection ::
  "ActiveCapture option \<Rightarrow> Uuid \<Rightarrow> MjpegViewerPrefs \<Rightarrow> MjpegSession list \<Rightarrow> u32 option" where
  "wire_selection old conn prefs ss =
     unwrap_or
       (map_option wire_monitor
          (option_filter (\<lambda>a. ac_conn_id a = conn \<and> monitor (ac_prefs a) = monitor prefs) old))
       (unwrap_or (map_option requested_monitor (find (\<lambda>s. monitor (mj_prefs s) = monitor prefs) ss))
          (monitor prefs))"

text \<open>The three ways \<open>sync_capture_locked\<close> ends: no session is left, the capture runs as it should, or a
  new capture is started.\<close>

definition stop_capture_locked :: "Env \<Rightarrow> AppState \<Rightarrow> Uuid \<Rightarrow> (unit, CommandDenied) Result \<times> AppState" where
  "stop_capture_locked env st agent =
     (let md = media st;
          stop = (case option_filter (\<lambda>a. Some (ac_conn_id a) = open_conn (agents st) agent)
                         (hm_get (mjpeg_active_capture md) agent) of
                    Some a \<Rightarrow> enqueue_capture (fmt env) (agents st) agent (ac_conn_id a) StopCapture None
                  | None \<Rightarrow> (Ok (), agents st))
      in case fst stop of
           Inl e \<Rightarrow> (Err e, st\<lparr>agents := snd stop\<rparr>)
         | Inr _ \<Rightarrow> (Ok (), st\<lparr>agents := snd stop,
                      media := md\<lparr>mjpeg_active_capture := hm_remove agent (mjpeg_active_capture md)\<rparr>\<rparr>))"

definition start_capture_locked ::
  "Env \<Rightarrow> AppState \<Rightarrow> Uuid \<Rightarrow> Uuid \<Rightarrow> MjpegViewerPrefs \<Rightarrow> u32 option \<Rightarrow> Uuid
    \<Rightarrow> (unit, CommandDenied) Result \<times> AppState" where
  "start_capture_locked env st agent conn prefs wire fresh =
     (let f = fmt env; md = media st;
          observed = Option.bind (Option.bind (hm_get (frames md) agent)
            (\<lambda>fr. frame_geometry env (jpeg fr))) (\<lambda>g. uuid_field f g ''capture_id'');
          entry = retire_capture (hm_get (mjpeg_retired_captures md) agent) conn observed;
          md1 = md\<lparr>mjpeg_retired_captures := hm_insert agent entry (mjpeg_retired_captures md)\<rparr>;
          active = \<lparr> wire_monitor = wire, generation = fresh, retired_capture_ids = snd entry,
                     ac_conn_id = conn, ac_prefs = prefs \<rparr>;
          start = enqueue_capture f (agents st) agent conn
            (StartCapture (StartCapture_new wire (jpeg_quality prefs) (interval_ms prefs))) (Some fresh)
      in case fst start of
           Inl e \<Rightarrow> (Err e, st\<lparr>agents := snd start, media := md1\<rparr>)
         | Inr _ \<Rightarrow>
             (Ok (), st\<lparr>agents := snd start,
                media := md1\<lparr>mjpeg_active_capture := hm_insert agent active (mjpeg_active_capture md1),
                             frames := hm_remove agent (frames md1)\<rparr>\<rparr>))"

definition sync_capture_locked ::
  "Env \<Rightarrow> AppState \<Rightarrow> Uuid \<Rightarrow> u32 option option \<Rightarrow> Uuid \<Rightarrow> (unit, CommandDenied) Result \<times> AppState" where
  "sync_capture_locked env st agent requested fresh =
     (let conn0 = open_conn (agents st) agent;
          ss = sessions_of (media st) agent conn0;
          old = hm_get (mjpeg_active_capture (media st)) agent in
      if ss = [] then stop_capture_locked env st agent
      else
        (case conn0 of
           None \<Rightarrow> (Ok (), st)
         | Some conn \<Rightarrow>
             (let selection = unwrap_or requested
                    (unwrap_or (map_option (\<lambda>a. monitor (ac_prefs a)) (option_filter (\<lambda>a. ac_conn_id a = conn) old))
                       (monitor (mj_prefs (hd ss))));
                  prefs = capture_prefs (hm_get (capture (control st)) agent) conn selection ss;
                  wire = wire_selection old conn prefs ss
              in if is_some_and old (\<lambda>a. ac_conn_id a = conn \<and> ac_prefs a = prefs \<and> wire_monitor a = wire
                                       \<and> generation a \<noteq> uuid_nil)
                 then (Ok (), st)
                 else start_capture_locked env st agent conn prefs wire fresh)))"

definition sync_mjpeg_capture :: "Env \<Rightarrow> AppState \<Rightarrow> Uuid \<Rightarrow> Uuid \<Rightarrow> AppState" where
  "sync_mjpeg_capture env st agent fresh = snd (sync_capture_locked env st agent None fresh)"

section \<open>Stream sessions\<close>

definition count_sessions :: "LiveMedia \<Rightarrow> Uuid \<Rightarrow> nat" where
  "count_sessions md agent = length (filter (\<lambda>s. mj_agent_id s = agent) (hm_values (mjpeg_sessions md)))"

text \<open>\<open>if n == 0 { remove } else { insert(n) }\<close> on the viewer counts.\<close>

definition set_viewers :: "LiveMedia \<Rightarrow> Uuid \<Rightarrow> u32 \<Rightarrow> LiveMedia" where
  "set_viewers md agent n =
     md\<lparr>capture_viewers := (if n = 0 then hm_remove agent (capture_viewers md)
                             else hm_insert agent n (capture_viewers md))\<rparr>"

text \<open>A stream that asks for no display joins the display of a running capture that asked for none.\<close>

definition effective_prefs ::
  "LiveMedia \<Rightarrow> Uuid \<Rightarrow> Uuid \<Rightarrow> MjpegViewerPrefs \<Rightarrow> u32 option \<Rightarrow> MjpegViewerPrefs" where
  "effective_prefs md agent conn prefs requested =
     (if monitor prefs = None \<and> requested = None then
        (case option_filter (\<lambda>a. ac_conn_id a = conn \<and> wire_monitor a = None)
                (hm_get (mjpeg_active_capture md) agent) of
           Some active \<Rightarrow> prefs\<lparr>monitor := monitor (ac_prefs active)\<rparr>
         | None \<Rightarrow> prefs)
      else prefs)"

text \<open>The end of \<open>begin_mjpeg_session\<close>: the session is entered and counted, and both are undone when
  the capture cannot be started.\<close>

definition admit_session ::
  "Env \<Rightarrow> AppState \<Rightarrow> Uuid \<Rightarrow> Uuid \<Rightarrow> MjpegSession \<Rightarrow> u32 \<Rightarrow> Uuid \<Rightarrow> (unit, CommandDenied) Result \<times> AppState" where
  "admit_session env st agent session s count fresh =
     (let md = media st;
          md1 = md\<lparr>mjpeg_sessions := hm_insert session s (mjpeg_sessions md),
                   capture_viewers := hm_insert agent (count + 1) (capture_viewers md)\<rparr>;
          (r, st1) = sync_capture_locked env (st\<lparr>media := md1\<rparr>) agent (Some (monitor (mj_prefs s))) fresh
      in if is_err r
         then (r, st1\<lparr>media := set_viewers ((media st1)
                   \<lparr>mjpeg_sessions := hm_remove session (mjpeg_sessions (media st1))\<rparr>) agent count\<rparr>)
         else (r, st1))"

definition begin_mjpeg_session ::
  "Env \<Rightarrow> AppState \<Rightarrow> Uuid \<Rightarrow> Uuid \<Rightarrow> Uuid \<Rightarrow> MjpegViewerPrefs \<Rightarrow> u32 option \<Rightarrow> Instant \<Rightarrow> Uuid
    \<Rightarrow> (unit, CommandDenied) Result \<times> AppState" where
  "begin_mjpeg_session env st0 agent session user prefs0 requested now fresh =
     (let f = fmt env; st = snd (teardown_deliver f st0 (\<lambda>s. expire s now)); md = media st in
      case open_conn (agents st) agent of
        None \<Rightarrow> (Err (capture_denied ''agent_offline'' ''Agent is offline or closing.''), st)
      | Some conn \<Rightarrow>
     (case authorize_agent_command f (agents st) agent (start_capture_default f) of
        Inl e \<Rightarrow> (Err e, st)
      | Inr _ \<Rightarrow>
          if hm_contains (mjpeg_sessions md) session then
            (Err (capture_denied ''duplicate_capture_session''
               ''Use a fresh session UUID for each live stream.''), st)
          else
            (let prefs = effective_prefs md agent conn prefs0 requested;
                 count = unwrap_or (hm_get (capture_viewers md) agent) 0 in
             if is_some_and (hm_get (capture (control st)) agent)
                  (\<lambda>frozen. ac_conn_id (fc_active frozen) \<noteq> conn
                          \<or> monitor (ac_prefs (fc_active frozen)) \<noteq> monitor prefs)
             then (Err (capture_denied ''capture_selection_locked''
                     ''Another live control lease freezes the display. Release control, change the stream monitor, then reacquire.''), st)
             else if count \<ge> 256 \<or> length (mjpeg_sessions md) \<ge> 4096 then
               (Err (capture_denied ''capture_viewer_limit''
                  ''Too many live stream sessions; close an existing stream first.''), st)
             else admit_session env st agent session
                    \<lparr> requested_monitor = requested, mj_agent_id = agent, mj_user_id = user,
                      mj_conn_id = conn, mj_prefs = prefs \<rparr> count fresh)))"

definition end_mjpeg_session ::
  "Env \<Rightarrow> AppState \<Rightarrow> Uuid \<Rightarrow> Uuid \<Rightarrow> Uuid option \<Rightarrow> Uuid \<Rightarrow> bool \<times> AppState" where
  "end_mjpeg_session env st agent session user fresh =
     (case option_filter (\<lambda>s. mj_agent_id s = agent \<and> is_none_or user (\<lambda>u. u = mj_user_id s))
             (hm_get (mjpeg_sessions (media st)) session) of
        None \<Rightarrow> (False, st)
      | Some mapped \<Rightarrow>
          (let st1 = st\<lparr>media := (media st)\<lparr>mjpeg_sessions := hm_remove session (mjpeg_sessions (media st))\<rparr>\<rparr>;
               st2 = (if is_some_and (hm_get (capture (control st1)) agent) (\<lambda>c. fc_session_id c = session)
                      then revoke_agent_control_locked (fmt env) st1 agent (mj_conn_id mapped) else st1);
               remaining = of_nat (count_sessions (media st2) agent);
               st3 = st2\<lparr>media := set_viewers (media st2) agent remaining\<rparr>
           in (True, snd (sync_capture_locked env st3 agent None fresh))))"

definition clear_capture_connection_locked :: "AppState \<Rightarrow> Uuid \<Rightarrow> Uuid \<Rightarrow> AppState" where
  "clear_capture_connection_locked st agent conn =
     (let md = media st;
          md1 = (if is_some_and (hm_get (mjpeg_retired_captures md) agent) (\<lambda>e. fst e = conn)
                 then md\<lparr>mjpeg_retired_captures := hm_remove agent (mjpeg_retired_captures md)\<rparr> else md);
          md2 = md1\<lparr>mjpeg_sessions :=
                  hm_retain (\<lambda>_ s. mj_agent_id s \<noteq> agent \<or> mj_conn_id s \<noteq> conn) (mjpeg_sessions md1)\<rparr>;
          md3 = set_viewers md2 agent (of_nat (count_sessions md2 agent));
          md4 = (if is_some_and (hm_get (mjpeg_active_capture md3) agent) (\<lambda>a. ac_conn_id a = conn)
                 then md3\<lparr>mjpeg_active_capture := hm_remove agent (mjpeg_active_capture md3),
                          frames := hm_remove agent (frames md3)\<rparr>
                 else md3)
      in st\<lparr>media := md4\<rparr>)"

text \<open>\<open>clamp_mjpeg_viewer_prefs\<close> of \<open>control/live_media.rs\<close>: the tuning a query asks for, within bounds.\<close>

record MjpegQuery =
  q_session :: Uuid
  q_jpeg_q :: "u8 option"
  q_interval_ms :: "u32 option"
  q_monitor :: "u32 option"

definition clamp_mjpeg_viewer_prefs :: "MjpegQuery \<Rightarrow> MjpegViewerPrefs" where
  "clamp_mjpeg_viewer_prefs q =
     \<lparr> jpeg_quality = clamp (unwrap_or (q_jpeg_q q) 40) 20 85,
       interval_ms = clamp (unwrap_or (q_interval_ms q) 200) 33 1000,
       monitor = q_monitor q \<rparr>"

section \<open>What synchronisation changes\<close>

lemma enqueue_capture_frame [simp, frame_simps]:
  "modules (snd (enqueue_capture f reg a c cmd g)) = modules reg"
  "live_snapshots (snd (enqueue_capture f reg a c cmd g)) = live_snapshots reg"
  "pending_enrollment_tokens (snd (enqueue_capture f reg a c cmd g)) = pending_enrollment_tokens reg"
  "current_conn (snd (enqueue_capture f reg a c cmd g)) b = current_conn reg b"
  by (simp_all add: enqueue_capture_def Let_def case_prod_unfold split: sum.split)

lemma enqueue_capture_registry_inv [inv_intros]:
  "registry_inv reg \<Longrightarrow> registry_inv (snd (enqueue_capture f reg a c cmd g))"
  by (simp add: enqueue_capture_def Let_def case_prod_unfold registry_inv_close enqueue_registry_inv split: sum.split)

lemma enqueue_capture_open:
  "open_conn (snd (enqueue_capture f reg a c cmd g)) b = open_conn reg b
   \<or> open_conn (snd (enqueue_capture f reg a c cmd g)) b = None"
  by (simp add: enqueue_capture_def Let_def case_prod_unfold open_conn_close split: sum.split)

text \<open>The shape of every outcome of \<open>sync_capture_locked\<close>: at most one capture command is queued, and of
  the media only the active capture, the retired ids and the cached frame of the agent change.\<close>

definition sync_shape :: "Uuid_fmt \<Rightarrow> Uuid \<Rightarrow> AppState \<Rightarrow> AppState \<Rightarrow> bool" where
  "sync_shape f a st st' \<longleftrightarrow>
     (\<exists>reg md. st' = st\<lparr>agents := reg, media := md\<rparr>
       \<and> (reg = agents st \<or> (\<exists>c cmd g. reg = snd (enqueue_capture f (agents st) a c cmd g)))
       \<and> mjpeg_sessions md = mjpeg_sessions (media st) \<and> capture_viewers md = capture_viewers (media st)
       \<and> frame_seq md = frame_seq (media st)
       \<and> (frames md = frames (media st) \<or> frames md = hm_remove a (frames (media st)))
       \<and> (mjpeg_active_capture md \<in> {mjpeg_active_capture (media st), hm_remove a (mjpeg_active_capture (media st))}
          \<or> (\<exists>ac. mjpeg_active_capture md = hm_insert a ac (mjpeg_active_capture (media st))
                \<and> current_conn (agents st) a = Some (ac_conn_id ac)))
       \<and> (mjpeg_retired_captures md = mjpeg_retired_captures (media st)
          \<or> (\<exists>e. mjpeg_retired_captures md = hm_insert a e (mjpeg_retired_captures (media st)))))"

lemma sync_shape_refl: "sync_shape f a st st"
  unfolding sync_shape_def by (intro exI [of _ "agents st"] exI [of _ "media st"]) simp

lemma sync_shapeI:
  assumes "st' = st\<lparr>agents := reg, media := md\<rparr>"
    "reg = agents st \<or> (\<exists>c cmd g. reg = snd (enqueue_capture f (agents st) a c cmd g))"
    "mjpeg_sessions md = mjpeg_sessions (media st)" "capture_viewers md = capture_viewers (media st)"
    "frame_seq md = frame_seq (media st)"
    "frames md = frames (media st) \<or> frames md = hm_remove a (frames (media st))"
    "mjpeg_active_capture md \<in> {mjpeg_active_capture (media st), hm_remove a (mjpeg_active_capture (media st))}
     \<or> (\<exists>ac. mjpeg_active_capture md = hm_insert a ac (mjpeg_active_capture (media st))
           \<and> current_conn (agents st) a = Some (ac_conn_id ac))"
    "mjpeg_retired_captures md = mjpeg_retired_captures (media st)
     \<or> (\<exists>e. mjpeg_retired_captures md = hm_insert a e (mjpeg_retired_captures (media st)))"
  shows "sync_shape f a st st'"
  using assms unfolding sync_shape_def by blast

lemma stop_capture_shape: "sync_shape (fmt env) a st (snd (stop_capture_locked env st a))"
proof (cases "option_filter (\<lambda>ac. Some (ac_conn_id ac) = open_conn (agents st) a) (hm_get (mjpeg_active_capture (media st)) a)")
  case None
  then show ?thesis
    by (intro sync_shapeI [where reg = "agents st" and md = "(media st)\<lparr>mjpeg_active_capture := hm_remove a (mjpeg_active_capture (media st))\<rparr>"])
      (simp_all add: stop_capture_locked_def Let_def)
next
  case (Some ac)
  let ?q = "enqueue_capture (fmt env) (agents st) a (ac_conn_id ac) StopCapture None"
  show ?thesis
  proof (cases "fst ?q")
    case (Inl e)
    with Some show ?thesis
      by (intro sync_shapeI [where reg = "snd ?q" and md = "media st"]) (auto simp: stop_capture_locked_def Let_def)
  next
    case (Inr u)
    with Some show ?thesis
      by (intro sync_shapeI [where reg = "snd ?q" and md = "(media st)\<lparr>mjpeg_active_capture := hm_remove a (mjpeg_active_capture (media st))\<rparr>"])
        (auto simp: stop_capture_locked_def Let_def)
  qed
qed

lemma start_capture_shape:
  assumes "current_conn (agents st) a = Some conn"
  shows "sync_shape (fmt env) a st (snd (start_capture_locked env st a conn prefs wire fresh))"
proof -
  let ?q = "enqueue_capture (fmt env) (agents st) a conn
      (StartCapture (StartCapture_new wire (jpeg_quality prefs) (interval_ms prefs))) (Some fresh)"
  show ?thesis
    using assms
    by (cases "fst ?q"; intro sync_shapeI [where reg = "snd ?q" and md = "media (snd (start_capture_locked env st a conn prefs wire fresh))"])
      (auto simp: start_capture_locked_def Let_def simp del: split_paired_Ex intro!: exI)
qed

lemma sync_capture_shape: "sync_shape (fmt env) a st (snd (sync_capture_locked env st a req fresh))"
proof (cases "open_conn (agents st) a")
  case None
  then show ?thesis
    by (simp add: sync_capture_locked_def Let_def sync_shape_refl stop_capture_shape)
next
  case (Some conn)
  then show ?thesis
    by (simp add: sync_capture_locked_def Let_def sync_shape_refl stop_capture_shape start_capture_shape open_conn_SomeD)
qed

section \<open>Counting sessions\<close>

lemma hm_remove_values_count:
  assumes "hm_wf m" "hm_get m k = Some v"
  shows "length (filter P (hm_values m)) = length (filter P (hm_values (hm_remove k m))) + (if P v then 1 else 0)"
  using assms
proof (induction m)
  case Nil
  then show ?case by simp
next
  case (Cons p m)
  obtain k' v' where p: "p = (k', v')" by force
  show ?case
  proof (cases "k' = k")
    case True
    with Cons.prems p have "v' = v" "k \<notin> fst ` set m" by (auto simp: hm_wf_def)
    then have "hm_remove k (p # m) = m"
      using True p by (simp add: hm_remove_def delete_idem)
    with \<open>v' = v\<close> p show ?thesis by (simp add: hm_values_def)
  next
    case False
    with Cons p show ?thesis by (simp add: hm_wf_def hm_values_def hm_remove_def)
  qed
qed

lemma hm_length_remove_old: "hm_wf m \<Longrightarrow> hm_get m k = Some v \<Longrightarrow> length m = Suc (length (hm_remove k m))"
  using hm_remove_values_count [of m k v "\<lambda>_. True"] by (simp add: hm_values_def)

lemma hm_retain_values_count:
  "(\<And>k v. P v \<Longrightarrow> Q k v) \<Longrightarrow> filter P (hm_values (hm_retain Q m)) = filter P (hm_values m)"
  by (induction m) (auto simp: hm_values_def hm_retain_def)

lemma count_insert_fresh:
  "hm_get (mjpeg_sessions md) k = None \<Longrightarrow>
     count_sessions (md\<lparr>mjpeg_sessions := hm_insert k s (mjpeg_sessions md)\<rparr>) a =
       count_sessions md a + (if mj_agent_id s = a then 1 else 0)"
  by (simp add: count_sessions_def hm_values_insert_fresh)

lemma count_remove:
  "hm_wf (mjpeg_sessions md) \<Longrightarrow> hm_get (mjpeg_sessions md) k = Some s \<Longrightarrow>
     count_sessions md a = count_sessions (md\<lparr>mjpeg_sessions := hm_remove k (mjpeg_sessions md)\<rparr>) a
       + (if mj_agent_id s = a then 1 else 0)"
  by (simp add: count_sessions_def hm_remove_values_count)

lemma count_retain_other:
  "b \<noteq> a \<Longrightarrow> count_sessions (md\<lparr>mjpeg_sessions := hm_retain (\<lambda>_ s. mj_agent_id s \<noteq> a \<or> Q s) (mjpeg_sessions md)\<rparr>) b
     = count_sessions md b"
  by (simp add: count_sessions_def) (subst hm_retain_values_count; simp)

lemma count_map_values:
  "(\<And>s. mj_agent_id (g s) = mj_agent_id s) \<Longrightarrow>
     count_sessions (md\<lparr>mjpeg_sessions := hm_map_values g (mjpeg_sessions md)\<rparr>) a = count_sessions md a"
  unfolding count_sessions_def hm_values_def hm_map_values_def
  by (simp add: comp_def case_prod_unfold filter_map)

lemma count_cong: "mjpeg_sessions md' = mjpeg_sessions md \<Longrightarrow> count_sessions md' a = count_sessions md a"
  by (simp add: count_sessions_def)

lemma count_le_length: "count_sessions md a \<le> length (mjpeg_sessions md)"
  using length_filter_le [of _ "hm_values (mjpeg_sessions md)"] by (simp add: count_sessions_def hm_values_def)

section \<open>The media invariant\<close>

text \<open>
  Every stream session and every active capture belongs to its agent's current connection; the viewer
  count of an agent is the number of its sessions, at most 256, and there are at most 4,096 sessions;
  a frozen capture names a session of the same agent and user, and the connection of its lease.
\<close>

definition media_inv :: "AppState \<Rightarrow> bool" where
  "media_inv st \<longleftrightarrow>
     hm_wf (mjpeg_sessions (media st)) \<and> hm_wf (mjpeg_active_capture (media st))
     \<and> (\<forall>k s. hm_get (mjpeg_sessions (media st)) k = Some s \<longrightarrow>
          current_conn (agents st) (mj_agent_id s) = Some (mj_conn_id s))
     \<and> (\<forall>a ac. hm_get (mjpeg_active_capture (media st)) a = Some ac \<longrightarrow>
          current_conn (agents st) a = Some (ac_conn_id ac))
     \<and> (\<forall>a. hm_get (capture_viewers (media st)) a =
          (if count_sessions (media st) a = 0 then None else Some (of_nat (count_sessions (media st) a))))
     \<and> (\<forall>a. count_sessions (media st) a \<le> 256) \<and> length (mjpeg_sessions (media st)) \<le> 4096
     \<and> (\<forall>a c. hm_get (capture (control st)) a = Some c \<longrightarrow>
          ac_conn_id (fc_active c) = agent_connection_id (fc_owner c)
          \<and> (\<exists>s. hm_get (mjpeg_sessions (media st)) (fc_session_id c) = Some s \<and> mj_agent_id s = a
               \<and> mj_user_id s = owner_user_id (fc_owner c)))"

lemma media_invD:
  assumes "media_inv st"
  shows "hm_wf (mjpeg_sessions (media st))" "hm_wf (mjpeg_active_capture (media st))"
    "hm_get (mjpeg_sessions (media st)) k = Some s \<Longrightarrow> current_conn (agents st) (mj_agent_id s) = Some (mj_conn_id s)"
    "hm_get (mjpeg_active_capture (media st)) a = Some ac \<Longrightarrow> current_conn (agents st) a = Some (ac_conn_id ac)"
    "hm_get (capture_viewers (media st)) a =
       (if count_sessions (media st) a = 0 then None else Some (of_nat (count_sessions (media st) a)))"
    "count_sessions (media st) a \<le> 256" "length (mjpeg_sessions (media st)) \<le> 4096"
    "hm_get (capture (control st)) a = Some c \<Longrightarrow>
       ac_conn_id (fc_active c) = agent_connection_id (fc_owner c)
       \<and> (\<exists>s. hm_get (mjpeg_sessions (media st)) (fc_session_id c) = Some s \<and> mj_agent_id s = a
            \<and> mj_user_id s = owner_user_id (fc_owner c))"
  using assms by (simp_all add: media_inv_def)

lemma media_invI:
  assumes "hm_wf (mjpeg_sessions (media st))" "hm_wf (mjpeg_active_capture (media st))"
    "\<And>k s. hm_get (mjpeg_sessions (media st)) k = Some s \<Longrightarrow> current_conn (agents st) (mj_agent_id s) = Some (mj_conn_id s)"
    "\<And>a ac. hm_get (mjpeg_active_capture (media st)) a = Some ac \<Longrightarrow> current_conn (agents st) a = Some (ac_conn_id ac)"
    "\<And>a. hm_get (capture_viewers (media st)) a =
       (if count_sessions (media st) a = 0 then None else Some (of_nat (count_sessions (media st) a)))"
    "\<And>a. count_sessions (media st) a \<le> 256" "length (mjpeg_sessions (media st)) \<le> 4096"
    "\<And>a c. hm_get (capture (control st)) a = Some c \<Longrightarrow>
       ac_conn_id (fc_active c) = agent_connection_id (fc_owner c)
       \<and> (\<exists>s. hm_get (mjpeg_sessions (media st)) (fc_session_id c) = Some s \<and> mj_agent_id s = a
            \<and> mj_user_id s = owner_user_id (fc_owner c))"
  shows "media_inv st"
  unfolding media_inv_def using assms by blast

definition app_inv :: "AppState \<Rightarrow> bool" where
  "app_inv st \<longleftrightarrow> registry_inv (agents st) \<and> control_inv st \<and> media_inv st"

lemma app_invD: "app_inv st \<Longrightarrow> registry_inv (agents st)" "app_inv st \<Longrightarrow> control_inv st" "app_inv st \<Longrightarrow> media_inv st"
  by (simp_all add: app_inv_def)

lemma app_inv_new [simp]: "app_inv AppState_new"
  by (simp add: app_inv_def AppState_new_def control_inv_def media_inv_def ControlRuntime_default_def
      LiveMedia_default_def lease_owner_of_def ControlSessions_default_def sessions_wf_def count_sessions_def
      hm_values_def)

text \<open>An operation that leaves the media alone, keeps the connections and only drops frozen captures.\<close>

lemma media_inv_mono:
  assumes "media_inv st" "media st' = media st"
    "\<And>a. current_conn (agents st') a = current_conn (agents st) a"
    "\<And>a c. hm_get (capture (control st')) a = Some c \<Longrightarrow> hm_get (capture (control st)) a = Some c"
  shows "media_inv st'"
proof -
  have "ac_conn_id (fc_active c) = agent_connection_id (fc_owner c)
      \<and> (\<exists>s. hm_get (mjpeg_sessions (media st)) (fc_session_id c) = Some s \<and> mj_agent_id s = a
           \<and> mj_user_id s = owner_user_id (fc_owner c))"
    if "hm_get (capture (control st')) a = Some c" for a c
    by (rule media_invD(8) [OF assms(1) assms(4) [OF that]])
  with assms(1-3) show ?thesis by (simp add: media_inv_def)
qed

context teardown
begin

lemma teardown_deliver_app_inv:
  assumes "app_inv st"
  shows "app_inv (snd (teardown_deliver f st op))"
proof -
  have "media_inv (snd (teardown_deliver f st op))"
    by (rule media_inv_mono [OF app_invD(3) [OF assms]]) (auto dest: teardown_deliver_capture_sub)
  with teardown_deliver_inv [OF app_invD(2) [OF assms] app_invD(1) [OF assms], of f] show ?thesis by (simp add: app_inv_def)
qed

end

lemma cleans_deliver_app_inv [inv_intros]:
  assumes "app_inv st" "cleans (sessions (control st)) cs s'"
  shows "app_inv (snd (deliver_control_cleanup f (set_sessions st s') cs))"
proof -
  have "media_inv (snd (deliver_control_cleanup f (set_sessions st s') cs))"
    by (rule media_inv_mono [OF app_invD(3) [OF assms(1)]]) (auto simp: deliver_capture split: if_splits)
  with cleans_deliver_control_inv [OF app_invD(2) [OF assms(1)] assms(2), of f]
    cleans_deliver_registry_inv [OF app_invD(1) [OF assms(1)] assms(2), of f]
  show ?thesis by (simp add: app_inv_def)
qed

lemmas expire_control_app_inv [inv_intros] = expiry.teardown_deliver_app_inv [folded expire_control_def]
lemmas revoke_viewer_app_inv [inv_intros] = viewer_revocation.teardown_deliver_app_inv [folded revoke_viewer_control_def]
lemmas revoke_agent_app_inv [inv_intros] = agent_revocation.teardown_deliver_app_inv [folded revoke_agent_control_locked_def]

section \<open>Capture operations keep the invariant\<close>

lemma sync_shape_frame:
  assumes "sync_shape f a st st'"
  shows "control st' = control st" "tx st' = tx st" "detached st' = detached st" "oneshots st' = oneshots st"
    "modules (agents st') = modules (agents st)" "live_snapshots (agents st') = live_snapshots (agents st)"
    "pending_enrollment_tokens (agents st') = pending_enrollment_tokens (agents st)"
    "current_conn (agents st') b = current_conn (agents st) b"
    "mjpeg_sessions (media st') = mjpeg_sessions (media st)"
    "capture_viewers (media st') = capture_viewers (media st)"
  using assms by (auto simp: sync_shape_def)

lemma sync_shape_app_inv:
  assumes "app_inv st" "sync_shape f a st st'"
  shows "app_inv st'"
proof -
  note fr = sync_shape_frame [OF assms(2)]
  obtain reg md where st': "st' = st\<lparr>agents := reg, media := md\<rparr>"
    and reg: "reg = agents st \<or> (\<exists>c cmd g. reg = snd (enqueue_capture f (agents st) a c cmd g))"
    and act: "mjpeg_active_capture md \<in> {mjpeg_active_capture (media st), hm_remove a (mjpeg_active_capture (media st))}
       \<or> (\<exists>ac. mjpeg_active_capture md = hm_insert a ac (mjpeg_active_capture (media st))
             \<and> current_conn (agents st) a = Some (ac_conn_id ac))"
    using assms(2) unfolding sync_shape_def by blast
  have "registry_inv (agents st')"
    using reg app_invD(1) [OF assms(1)] by (auto simp: st' intro: enqueue_capture_registry_inv)
  moreover have "control_inv st'"
    using app_invD(2) [OF assms(1)] fr by (simp add: control_inv_def)
  moreover have "media_inv st'"
  proof -
    note m = app_invD(3) [OF assms(1)]
    have wf: "hm_wf (mjpeg_active_capture md)"
      using act media_invD(2) [OF m] by auto
    have ac: "current_conn (agents st) b = Some (ac_conn_id c)" if "hm_get (mjpeg_active_capture md) b = Some c" for b c
      using act that media_invD(4) [OF m, of b c] by (auto split: if_splits)
    have "count_sessions (media st') b = count_sessions (media st) b" for b
      by (rule count_cong [OF fr(9)])
    with m wf ac fr show ?thesis
      by (simp add: media_inv_def) (simp add: st')
  qed
  ultimately show ?thesis by (simp add: app_inv_def)
qed

lemma sync_capture_app_inv [inv_intros]:
  "app_inv st \<Longrightarrow> app_inv (snd (sync_capture_locked env st a req fresh))"
  by (rule sync_shape_app_inv [OF _ sync_capture_shape])

lemma sync_mjpeg_app_inv [inv_intros]: "app_inv st \<Longrightarrow> app_inv (sync_mjpeg_capture env st a fresh)"
  by (simp add: sync_mjpeg_capture_def sync_capture_app_inv)

lemma set_viewers_simps [simp]:
  "mjpeg_sessions (set_viewers md a n) = mjpeg_sessions md"
  "mjpeg_active_capture (set_viewers md a n) = mjpeg_active_capture md"
  "mjpeg_retired_captures (set_viewers md a n) = mjpeg_retired_captures md"
  "frames (set_viewers md a n) = frames md"
  "frame_seq (set_viewers md a n) = frame_seq md"
  "hm_get (capture_viewers (set_viewers md a n)) b =
     (if b = a then (if n = 0 then None else Some n) else hm_get (capture_viewers md) b)"
  "count_sessions (set_viewers md a n) b = count_sessions md b"
  by (simp_all add: set_viewers_def count_sessions_def)

lemma of_nat_u32_zero: "n \<le> 256 \<Longrightarrow> (of_nat n :: u32) = 0 \<longleftrightarrow> n = 0"
  by (simp add: word_of_nat_eq_0_iff) (auto dest: dvd_imp_le)

lemma viewers_count:
  "media_inv st \<Longrightarrow> unwrap_or (hm_get (capture_viewers (media st)) a) 0 = of_nat (count_sessions (media st) a)"
  by (simp add: media_invD(5))

lemma count_below_limit:
  assumes "media_inv st" "\<not> (256::u32) \<le> of_nat (count_sessions (media st) a)"
  shows "count_sessions (media st) a < 256"
proof -
  have "unat (of_nat (count_sessions (media st) a) :: u32) = count_sessions (media st) a"
    using media_invD(6) [OF assms(1), of a] by (simp add: unat_of_nat take_bit_nat_eq_self)
  with assms(2) show ?thesis by (simp add: word_le_nat_alt)
qed

text \<open>Admitting a session under a fresh id on the agent's current connection.\<close>

lemma admit_media_inv:
  assumes "media_inv st" "current_conn (agents st) (mj_agent_id s) = Some (mj_conn_id s)"
    "hm_get (mjpeg_sessions (media st)) k = None"
    "count_sessions (media st) (mj_agent_id s) < 256" "length (mjpeg_sessions (media st)) < 4096"
  shows "media_inv (st\<lparr>media := (media st)
    \<lparr>mjpeg_sessions := hm_insert k s (mjpeg_sessions (media st)),
     capture_viewers := hm_insert (mj_agent_id s) (of_nat (count_sessions (media st) (mj_agent_id s)) + 1)
       (capture_viewers (media st))\<rparr>\<rparr>)"
proof -
  let ?a = "mj_agent_id s"
  let ?md = "(media st)\<lparr>mjpeg_sessions := hm_insert k s (mjpeg_sessions (media st)),
     capture_viewers := hm_insert ?a (of_nat (count_sessions (media st) ?a) + 1) (capture_viewers (media st))\<rparr>"
  have count: "count_sessions ?md b = count_sessions (media st) b + (if ?a = b then 1 else 0)" for b
    using count_insert_fresh [OF assms(3), of s b] by (simp add: count_sessions_def)
  have "hm_get (capture_viewers ?md) b =
      (if count_sessions ?md b = 0 then None else Some (of_nat (count_sessions ?md b)))" for b
    using media_invD(5) [OF assms(1), of b] by (simp add: count)
  moreover have "count_sessions ?md b \<le> 256" for b
    using media_invD(6) [OF assms(1), of b] assms(4) by (auto simp: count)
  moreover have "length (mjpeg_sessions ?md) \<le> 4096"
    using assms(5) hm_length_insert_le [of k s "mjpeg_sessions (media st)"] by simp
  moreover have "\<exists>t. hm_get (mjpeg_sessions ?md) (fc_session_id c) = Some t \<and> mj_agent_id t = b
      \<and> mj_user_id t = owner_user_id (fc_owner c)"
    if "hm_get (capture (control st)) b = Some c" for b c
    using media_invD(8) [OF assms(1) that] assms(3) by auto
  ultimately show ?thesis
    using assms(1,2) by (simp add: media_inv_def hm.invar_insert)
qed

text \<open>Dropping a session no frozen capture names, and counting again.\<close>

lemma drop_media_inv:
  assumes wf: "hm_wf (mjpeg_sessions (media st))" "hm_wf (mjpeg_active_capture (media st))"
    and sess: "\<And>k s. hm_get (mjpeg_sessions (media st)) k = Some s \<Longrightarrow>
      current_conn (agents st) (mj_agent_id s) = Some (mj_conn_id s)"
    and act: "\<And>b ac. hm_get (mjpeg_active_capture (media st)) b = Some ac \<Longrightarrow>
      current_conn (agents st) b = Some (ac_conn_id ac)"
    and viewers: "\<And>b. b \<noteq> a \<Longrightarrow> hm_get (capture_viewers (media st)) b =
      (if count_sessions (media st) b = 0 then None else Some (of_nat (count_sessions (media st) b)))"
    and bounds: "\<And>b. count_sessions (media st) b \<le> 256" "length (mjpeg_sessions (media st)) \<le> 4096"
    and frozen: "\<And>b c. hm_get (capture (control st)) b = Some c \<Longrightarrow>
      ac_conn_id (fc_active c) = agent_connection_id (fc_owner c)
      \<and> (\<exists>s. hm_get (mjpeg_sessions (media st)) (fc_session_id c) = Some s \<and> mj_agent_id s = b
           \<and> mj_user_id s = owner_user_id (fc_owner c))"
  shows "media_inv (st\<lparr>media := set_viewers (media st) a (of_nat (count_sessions (media st) a))\<rparr>)"
  using assms of_nat_u32_zero [OF bounds(1), of a] by (auto simp: media_inv_def)

lemma removed_session_bounds:
  assumes "media_inv st" "hm_get (mjpeg_sessions (media st)) k = Some s"
  defines "md \<equiv> (media st)\<lparr>mjpeg_sessions := hm_remove k (mjpeg_sessions (media st))\<rparr>"
  shows "count_sessions md b \<le> 256" "length (mjpeg_sessions md) \<le> 4096"
    "b \<noteq> mj_agent_id s \<Longrightarrow> count_sessions md b = count_sessions (media st) b"
    "count_sessions (media st) (mj_agent_id s) = Suc (count_sessions md (mj_agent_id s))"
  using count_remove [OF media_invD(1) [OF assms(1)] assms(2), of b] media_invD(6) [OF assms(1), of b]
    count_remove [OF media_invD(1) [OF assms(1)] assms(2), of "mj_agent_id s"]
    hm_length_remove_le [of k "mjpeg_sessions (media st)"] media_invD(7) [OF assms(1)]
  by (auto simp: md_def split: if_splits)

lemma frozen_lease:
  assumes "control_inv st" "hm_get (capture (control st)) a = Some c"
  obtains l where "lease_of (sessions (control st)) a = Some l" "grant_owner (grant l) = fc_owner c"
    "current_conn (agents st) a = Some (agent_connection_id (fc_owner c))"
proof -
  from control_invD(3) [OF assms(1), of a] assms(2)
  have "lease_owner_of (sessions (control st)) a = Some (fc_owner c)" by simp
  with control_invD(4) [OF assms(1) this] show ?thesis
    by (auto simp: lease_owner_of_def intro: that)
qed

text \<open>Revoking an agent's current connection leaves it without lease and without frozen capture.\<close>

lemma revoke_current:
  assumes "control_inv st" "current_conn (agents st) a = Some cid"
  shows "lease_of (sessions (control (revoke_agent_control_locked f st a cid))) a = None"
    and "hm_get (capture (control (revoke_agent_control_locked f st a cid))) a = None"
proof -
  let ?st' = "revoke_agent_control_locked f st a cid"
  have inv: "control_inv ?st'"
    using cleans_deliver_control_inv [OF assms(1)]
      agent_revocation.op_cleans [OF control_invD(1) [OF assms(1)] prod.collapse [symmetric]]
    by (simp add: revoke_agent_control_locked_def teardown_deliver_def case_prod_unfold Let_def)
  show lease: "lease_of (sessions (control ?st')) a = None"
  proof (cases "lease_of (sessions (control st)) a")
    case None
    then show ?thesis
      using agent_revocation.op_leases [OF control_invD(1) [OF assms(1)] prod.collapse [symmetric], where a = a and agent = a and conn = cid]
      by (simp add: revoke_agent_control_locked_def teardown_deliver_sessions)
  next
    case (Some l)
    with control_invD(4) [OF assms(1), of a "grant_owner (grant l)"] assms(2)
    have "agent_connection_id (grant_owner (grant l)) = cid" by (simp add: lease_owner_of_def)
    with agent_revocation.teardown_deliver_releases(1) [OF assms(1) Some, of a cid f] show ?thesis
      by (simp add: revoke_agent_control_locked_def)
  qed
  with control_invD(3) [OF inv, of a] show "hm_get (capture (control ?st')) a = None"
    by (simp add: lease_owner_of_def)
qed

lemma revoke_agent_frame [simp, frame_simps]:
  "media (revoke_agent_control_locked f st a cid) = media st"
  "detached (revoke_agent_control_locked f st a cid) = detached st"
  "oneshots (revoke_agent_control_locked f st a cid) = oneshots st"
  "clipboard (control (revoke_agent_control_locked f st a cid)) = clipboard (control st)"
  "modules (agents (revoke_agent_control_locked f st a cid)) = modules (agents st)"
  "live_snapshots (agents (revoke_agent_control_locked f st a cid)) = live_snapshots (agents st)"
  "current_conn (agents (revoke_agent_control_locked f st a cid)) b = current_conn (agents st) b"
  by (simp_all add: revoke_agent_control_locked_def)

lemma revoke_agent_inv:
  assumes "control_inv st" "registry_inv (agents st)"
  shows "control_inv (revoke_agent_control_locked f st a cid)"
    "registry_inv (agents (revoke_agent_control_locked f st a cid))"
  unfolding revoke_agent_control_locked_def
  by (rule agent_revocation.teardown_deliver_inv [OF assms])+

lemma revoke_agent_capture_sub:
  "hm_get (capture (control (revoke_agent_control_locked f st a cid))) b = Some c \<Longrightarrow>
     hm_get (capture (control st)) b = Some c"
  unfolding revoke_agent_control_locked_def by (rule teardown_deliver_capture_sub)

lemma end_mjpeg_app_inv [inv_intros]:
  assumes "app_inv st"
  shows "app_inv (snd (end_mjpeg_session env st a k user fresh))"
proof (cases "option_filter (\<lambda>s. mj_agent_id s = a \<and> is_none_or user (\<lambda>u. u = mj_user_id s))
    (hm_get (mjpeg_sessions (media st)) k)")
  case None
  with assms show ?thesis by (simp add: end_mjpeg_session_def)
next
  case (Some s)
  then have s: "hm_get (mjpeg_sessions (media st)) k = Some s" "mj_agent_id s = a"
    by (auto simp: option_filter_eq_Some)
  note m = app_invD(3) [OF assms]
  let ?md = "(media st)\<lparr>mjpeg_sessions := hm_remove k (mjpeg_sessions (media st))\<rparr>"
  let ?st1 = "st\<lparr>media := ?md\<rparr>"
  let ?hit = "is_some_and (hm_get (capture (control st)) a) (\<lambda>c. fc_session_id c = k)"
  define st2 where "st2 = (if ?hit then revoke_agent_control_locked (fmt env) ?st1 a (mj_conn_id s) else ?st1)"
  have md2: "media st2 = ?md" by (simp add: st2_def)
  have conn2: "current_conn (agents st2) b = current_conn (agents st) b" for b
    by (simp add: st2_def)
  have inv1: "control_inv ?st1" "registry_inv (agents ?st1)"
    using app_invD(1,2) [OF assms] by (simp_all add: control_inv_def)
  have inv2: "control_inv st2" "registry_inv (agents st2)"
    using inv1 by (auto simp: st2_def intro: revoke_agent_inv)
  have cap2: "hm_get (capture (control st)) b = Some c \<and> fc_session_id c \<noteq> k"
    if c: "hm_get (capture (control st2)) b = Some c" for b c
  proof -
    have cap: "hm_get (capture (control st)) b = Some c"
      using c by (auto simp: st2_def dest!: revoke_agent_capture_sub split: if_splits)
    have "\<not> ?hit \<or> b \<noteq> a"
      using c revoke_current(2) [OF inv1(1), of a "mj_conn_id s" "fmt env"] media_invD(3) [OF m s(1)] s(2)
      by (auto simp: st2_def)
    with cap media_invD(8) [OF m cap] s show ?thesis by auto
  qed
  let ?st3 = "st2\<lparr>media := set_viewers (media st2) a (of_nat (count_sessions (media st2) a))\<rparr>"
  have "media_inv ?st3"
  proof (rule drop_media_inv)
    show "hm_wf (mjpeg_sessions (media st2))" "hm_wf (mjpeg_active_capture (media st2))"
      using media_invD(1,2) [OF m] by (auto simp: md2)
    show "current_conn (agents st2) (mj_agent_id t) = Some (mj_conn_id t)"
      if "hm_get (mjpeg_sessions (media st2)) j = Some t" for j t
      using that media_invD(3) [OF m, of j t] by (auto simp: md2 conn2 split: if_splits)
    show "current_conn (agents st2) b = Some (ac_conn_id ac)"
      if "hm_get (mjpeg_active_capture (media st2)) b = Some ac" for b ac
      using that media_invD(4) [OF m, of b ac] by (simp add: md2 conn2)
    show "hm_get (capture_viewers (media st2)) b =
        (if count_sessions (media st2) b = 0 then None else Some (of_nat (count_sessions (media st2) b)))"
      if "b \<noteq> a" for b
      using media_invD(5) [OF m, of b] removed_session_bounds(3) [OF m s(1), of b] that s(2) by (simp add: md2)
    show "count_sessions (media st2) b \<le> 256" "length (mjpeg_sessions (media st2)) \<le> 4096" for b
      using removed_session_bounds(1,2) [OF m s(1)] by (simp_all add: md2)
    show "ac_conn_id (fc_active c) = agent_connection_id (fc_owner c)
        \<and> (\<exists>t. hm_get (mjpeg_sessions (media st2)) (fc_session_id c) = Some t \<and> mj_agent_id t = b
             \<and> mj_user_id t = owner_user_id (fc_owner c))"
      if "hm_get (capture (control st2)) b = Some c" for b c
      using cap2 [OF that] media_invD(8) [OF m, of b c] by (auto simp: md2)
  qed
  with inv2 have "app_inv ?st3" by (simp add: app_inv_def control_inv_def)
  from sync_capture_app_inv [OF this, of env a None fresh] Some show ?thesis
    by (simp add: end_mjpeg_session_def Let_def st2_def [symmetric])
qed

lemma begin_mjpeg_cases:
  fixes env st0 now
  defines "st \<equiv> snd (teardown_deliver (fmt env) st0 (\<lambda>s. expire s now))"
  obtains (denied) e where "begin_mjpeg_session env st0 a k user prefs0 req now fresh = (Err e, st)"
  | (admitted) s :: MjpegSession where
      "open_conn (agents st) a = Some (mj_conn_id s)"
      "mj_agent_id s = a" "mj_user_id s = user" "requested_monitor s = req"
      "is_ok (authorize_agent_command (fmt env) (agents st) a (start_capture_default (fmt env)))"
      "hm_get (mjpeg_sessions (media st)) k = None"
      "\<And>c. hm_get (capture (control st)) a = Some c \<Longrightarrow>
         ac_conn_id (fc_active c) = mj_conn_id s \<and> monitor (ac_prefs (fc_active c)) = monitor (mj_prefs s)"
      "\<not> (256::u32) \<le> unwrap_or (hm_get (capture_viewers (media st)) a) 0"
      "length (mjpeg_sessions (media st)) < 4096"
      "begin_mjpeg_session env st0 a k user prefs0 req now fresh =
        admit_session env st a k s (unwrap_or (hm_get (capture_viewers (media st)) a) 0) fresh"
proof (cases "open_conn (agents st) a")
  case None
  then show ?thesis by (intro denied) (simp add: begin_mjpeg_session_def st_def Let_def)
next
  case (Some conn)
  show ?thesis
  proof (cases "authorize_agent_command (fmt env) (agents st) a (start_capture_default (fmt env))")
    case (Inl e)
    with Some show ?thesis by (intro denied) (simp add: begin_mjpeg_session_def st_def Let_def)
  next
    case (Inr c)
    let ?prefs = "effective_prefs (media st) a conn prefs0 req"
    let ?locked = "is_some_and (hm_get (capture (control st)) a)
      (\<lambda>frozen. ac_conn_id (fc_active frozen) \<noteq> conn \<or> monitor (ac_prefs (fc_active frozen)) \<noteq> monitor ?prefs)"
    let ?full = "256 \<le> unwrap_or (hm_get (capture_viewers (media st)) a) 0 \<or> 4096 \<le> length (mjpeg_sessions (media st))"
    note eq = begin_mjpeg_session_def [of env st0 a k user prefs0 req now fresh, unfolded Let_def, folded st_def]
    consider "hm_contains (mjpeg_sessions (media st)) k"
      | "\<not> hm_contains (mjpeg_sessions (media st)) k" "?locked"
      | "\<not> hm_contains (mjpeg_sessions (media st)) k" "\<not> ?locked" "?full"
      | "\<not> hm_contains (mjpeg_sessions (media st)) k" "\<not> ?locked" "\<not> ?full" by blast
    then show ?thesis
    proof cases
      case 4
      then have "\<And>c. hm_get (capture (control st)) a = Some c \<Longrightarrow>
          ac_conn_id (fc_active c) = conn \<and> monitor (ac_prefs (fc_active c)) = monitor ?prefs" by auto
      with 4 Some Inr show ?thesis
        by (intro admitted [of "\<lparr> requested_monitor = req, mj_agent_id = a, mj_user_id = user, mj_conn_id = conn,
              mj_prefs = ?prefs \<rparr>"]) (simp_all add: eq hm_contains_def)
    qed (use Some Inr in \<open>auto simp add: eq intro: denied\<close>)
  qed
qed

lemma admit_session_app_inv:
  assumes inv: "app_inv st" and conn: "current_conn (agents st) a = Some (mj_conn_id s)" and a: "mj_agent_id s = a"
    and new: "hm_get (mjpeg_sessions (media st)) k = None"
    and lim: "\<not> (256::u32) \<le> of_nat (count_sessions (media st) a)" "length (mjpeg_sessions (media st)) < 4096"
  shows "app_inv (snd (admit_session env st a k s (of_nat (count_sessions (media st) a)) fresh))"
proof -
    note m = app_invD(3) [OF inv]
    let ?count = "of_nat (count_sessions (media st) a) :: u32"
    let ?st' = "st\<lparr>media := (media st)\<lparr>mjpeg_sessions := hm_insert k s (mjpeg_sessions (media st)),
                     capture_viewers := hm_insert a (?count + 1) (capture_viewers (media st))\<rparr>\<rparr>"
    have "media_inv ?st'"
      using admit_media_inv [OF m, of s k] conn new lim
        count_below_limit [OF m, of a] by (simp add: a)
    then have "app_inv ?st'" using app_invD(1,2) [OF inv] by (simp add: app_inv_def control_inv_def)
    define st1 where "st1 = snd (sync_capture_locked env ?st' a (Some (monitor (mj_prefs s))) fresh)"
    have inv1: "app_inv st1" unfolding st1_def by (rule sync_capture_app_inv) fact
    note m1 = app_invD(3) [OF inv1]
    note fr = sync_shape_frame [OF sync_capture_shape [of env a ?st' "Some (monitor (mj_prefs s))" fresh], folded st1_def]
    have s1: "hm_get (mjpeg_sessions (media st1)) k = Some s" by (simp add: fr)
    let ?md = "(media st1)\<lparr>mjpeg_sessions := hm_remove k (mjpeg_sessions (media st1))\<rparr>"
    have same: "count_sessions ?md a = count_sessions (media st) a"
      using removed_session_bounds(4) [OF m1 s1] a count_cong [OF fr(9), of a] count_insert_fresh [OF new, of s a]
      by (simp add: count_sessions_def)
    have frozen: "fc_session_id c \<noteq> k" if "hm_get (capture (control st1)) b = Some c" for b c
      using that media_invD(8) [OF m, of b c] new by (auto simp: fr)
    have "media_inv ((st1\<lparr>media := ?md\<rparr>)\<lparr>media := set_viewers (media (st1\<lparr>media := ?md\<rparr>)) a
        (of_nat (count_sessions (media (st1\<lparr>media := ?md\<rparr>)) a))\<rparr>)"
    proof (rule drop_media_inv)
      show "hm_wf (mjpeg_sessions (media (st1\<lparr>media := ?md\<rparr>)))" "hm_wf (mjpeg_active_capture (media (st1\<lparr>media := ?md\<rparr>)))"
        using media_invD(1,2) [OF m1] by auto
      show "current_conn (agents (st1\<lparr>media := ?md\<rparr>)) (mj_agent_id t) = Some (mj_conn_id t)"
        if "hm_get (mjpeg_sessions (media (st1\<lparr>media := ?md\<rparr>))) j = Some t" for j t
        using that media_invD(3) [OF m1, of j t] by (auto split: if_splits)
      show "hm_get (capture_viewers (media (st1\<lparr>media := ?md\<rparr>))) b =
          (if count_sessions (media (st1\<lparr>media := ?md\<rparr>)) b = 0 then None
           else Some (of_nat (count_sessions (media (st1\<lparr>media := ?md\<rparr>)) b)))" if "b \<noteq> a" for b
        using media_invD(5) [OF m1, of b] removed_session_bounds(3) [OF m1 s1, of b] that a by simp
    qed (use media_invD(4) [OF m1] removed_session_bounds(1,2) [OF m1 s1] media_invD(8) [OF m1] frozen in auto)
    with app_invD(1,2) [OF inv1] have "app_inv (st1\<lparr>media := set_viewers ?md a ?count\<rparr>)"
      by (simp add: app_inv_def control_inv_def same)
    with inv1 show ?thesis
      by (simp add: admit_session_def Let_def case_prod_unfold st1_def [symmetric])
qed

lemma begin_mjpeg_app_inv [inv_intros]:
  assumes "app_inv st0"
  shows "app_inv (snd (begin_mjpeg_session env st0 a k user prefs0 req now fresh))"
proof -
  define st where "st = snd (teardown_deliver (fmt env) st0 (\<lambda>s. expire s now))"
  have inv: "app_inv st" unfolding st_def by (rule expiry.teardown_deliver_app_inv [OF assms])
  show ?thesis
    by (rule begin_mjpeg_cases [of env st0 a k user prefs0 req now fresh, folded st_def])
      (auto simp: viewers_count [OF app_invD(3) [OF inv]] inv intro!: admit_session_app_inv dest: open_conn_SomeD)
qed

text \<open>Clearing the capture state of a connection that no frozen capture names.\<close>

definition clear_media :: "LiveMedia \<Rightarrow> Uuid \<Rightarrow> Uuid \<Rightarrow> LiveMedia" where
  "clear_media md a conn = md\<lparr>mjpeg_sessions :=
     hm_retain (\<lambda>_ s. mj_agent_id s \<noteq> a \<or> mj_conn_id s \<noteq> conn) (mjpeg_sessions md)\<rparr>"

lemma clear_frame [simp, frame_simps]:
  "agents (clear_capture_connection_locked st a conn) = agents st"
  "control (clear_capture_connection_locked st a conn) = control st"
  "tx (clear_capture_connection_locked st a conn) = tx st"
  "detached (clear_capture_connection_locked st a conn) = detached st"
  "oneshots (clear_capture_connection_locked st a conn) = oneshots st"
  by (simp_all add: clear_capture_connection_locked_def Let_def)

lemma clear_media_parts:
  "mjpeg_sessions (media (clear_capture_connection_locked st a conn)) = mjpeg_sessions (clear_media (media st) a conn)"
  "capture_viewers (media (clear_capture_connection_locked st a conn)) =
     capture_viewers (set_viewers (media st) a (of_nat (count_sessions (clear_media (media st) a conn) a)))"
  "mjpeg_active_capture (media (clear_capture_connection_locked st a conn)) =
     (if is_some_and (hm_get (mjpeg_active_capture (media st)) a) (\<lambda>ac. ac_conn_id ac = conn)
      then hm_remove a (mjpeg_active_capture (media st)) else mjpeg_active_capture (media st))"
  by (auto simp: clear_capture_connection_locked_def clear_media_def Let_def set_viewers_def count_sessions_def)

lemma count_retain_le: "count_sessions (md\<lparr>mjpeg_sessions := hm_retain Q (mjpeg_sessions md)\<rparr>) b \<le> count_sessions md b"
proof -
  have "length (filter P (hm_values (hm_retain Q m))) \<le> length (filter P (hm_values m))" for P and m :: "(Uuid, MjpegSession) HashMap"
    by (induction m) (auto simp: hm_values_def hm_retain_def)
  then show ?thesis by (simp add: count_sessions_def)
qed

lemma clear_app_inv:
  assumes "app_inv st" "current_conn (agents st) a = Some conn \<Longrightarrow> hm_get (capture (control st)) a = None"
  shows "app_inv (clear_capture_connection_locked st a conn)"
proof -
  note m = app_invD(3) [OF assms(1)]
  let ?st' = "clear_capture_connection_locked st a conn"
  let ?md = "clear_media (media st) a conn"
  have get: "hm_get (mjpeg_sessions ?md) k =
      option_filter (\<lambda>s. mj_agent_id s \<noteq> a \<or> mj_conn_id s \<noteq> conn) (hm_get (mjpeg_sessions (media st)) k)" for k
    by (simp add: clear_media_def hm_get_retain [OF media_invD(1) [OF m]])
  have count: "count_sessions (media ?st') b = count_sessions ?md b" for b
    by (rule count_cong [OF clear_media_parts(1)])
  have le: "count_sessions ?md b \<le> 256" for b
    unfolding clear_media_def by (rule order_trans [OF count_retain_le media_invD(6) [OF m]])
  have other: "b \<noteq> a \<Longrightarrow> count_sessions ?md b = count_sessions (media st) b" for b
    unfolding clear_media_def by (rule count_retain_other)
  have "media_inv ?st'"
  proof (rule media_invI)
    show "hm_wf (mjpeg_sessions (media ?st'))" "hm_wf (mjpeg_active_capture (media ?st'))"
      using media_invD(1,2) [OF m] by (auto simp: clear_media_parts(1,3) clear_media_def)
    show "current_conn (agents ?st') (mj_agent_id s) = Some (mj_conn_id s)"
      if "hm_get (mjpeg_sessions (media ?st')) k = Some s" for k s
      using that media_invD(3) [OF m, of k s] by (simp add: clear_media_parts(1) get option_filter_eq_Some)
    show "current_conn (agents ?st') b = Some (ac_conn_id ac)"
      if "hm_get (mjpeg_active_capture (media ?st')) b = Some ac" for b ac
      using that media_invD(4) [OF m] by (simp add: clear_media_parts(3) split: if_splits)
    show "hm_get (capture_viewers (media ?st')) b =
        (if count_sessions (media ?st') b = 0 then None else Some (of_nat (count_sessions (media ?st') b)))" for b
      using media_invD(5) [OF m, of b] of_nat_u32_zero [OF le, of a] other [of b]
      by (simp add: clear_media_parts(2) count)
    show "count_sessions (media ?st') b \<le> 256" for b by (simp add: count le)
    show "length (mjpeg_sessions (media ?st')) \<le> 4096"
      using order_trans [OF hm_length_retain_le media_invD(7) [OF m]] by (simp add: clear_media_parts(1) clear_media_def)
    show "ac_conn_id (fc_active c) = agent_connection_id (fc_owner c)
        \<and> (\<exists>t. hm_get (mjpeg_sessions (media ?st')) (fc_session_id c) = Some t \<and> mj_agent_id t = b
             \<and> mj_user_id t = owner_user_id (fc_owner c))"
      if "hm_get (capture (control ?st')) b = Some c" for b c
    proof -
      have c: "hm_get (capture (control st)) b = Some c" using that by simp
      obtain t where t: "hm_get (mjpeg_sessions (media st)) (fc_session_id c) = Some t" "mj_agent_id t = b"
        "mj_user_id t = owner_user_id (fc_owner c)" using media_invD(8) [OF m c] by blast
      have "b \<noteq> a \<or> mj_conn_id t \<noteq> conn"
        using media_invD(3) [OF m t(1)] t(2) assms(2) c by auto
      with t media_invD(8) [OF m c] show ?thesis by (auto simp: clear_media_parts(1) get)
    qed
  qed
  with assms(1) show ?thesis by (simp add: app_inv_def control_inv_def)
qed

lemma clear_gone:
  assumes "app_inv st" "current_conn (agents st) a = Some conn"
  shows "hm_get (mjpeg_sessions (media (clear_capture_connection_locked st a conn))) k = Some s \<Longrightarrow> mj_agent_id s \<noteq> a"
    and "hm_get (mjpeg_active_capture (media (clear_capture_connection_locked st a conn))) a = None"
proof -
  note m = app_invD(3) [OF assms(1)]
  assume "hm_get (mjpeg_sessions (media (clear_capture_connection_locked st a conn))) k = Some s"
  then have "hm_get (mjpeg_sessions (media st)) k = Some s" "mj_agent_id s \<noteq> a \<or> mj_conn_id s \<noteq> conn"
    by (simp_all add: clear_media_parts(1) clear_media_def hm_get_retain [OF media_invD(1) [OF m]] option_filter_eq_Some)
  with media_invD(3) [OF m] assms(2) show "mj_agent_id s \<noteq> a" by auto
next
  show "hm_get (mjpeg_active_capture (media (clear_capture_connection_locked st a conn))) a = None"
    using media_invD(4) [OF app_invD(3) [OF assms(1)], of a] assms(2)
    by (cases "hm_get (mjpeg_active_capture (media st)) a") (auto simp: clear_media_parts(3))
qed

lemma commit_app_inv:
  assumes "app_inv st"
  shows "app_inv (commit_control_capture st a frozen)"
proof (cases "option_filter (\<lambda>ac. ac_conn_id ac = ac_conn_id (fc_active frozen) \<and> monitor (ac_prefs ac) = None)
    (hm_get (mjpeg_active_capture (media st)) a)")
  case None
  with assms show ?thesis by (simp add: commit_control_capture_def Let_def)
next
  case (Some ac)
  note m = app_invD(3) [OF assms]
  let ?m = "monitor (ac_prefs (fc_active frozen))"
  define g :: "MjpegSession \<Rightarrow> MjpegSession" where "g = (\<lambda>s. if mj_agent_id s = a \<and> mj_conn_id s = ac_conn_id (fc_active frozen) \<and> requested_monitor s = None
    then s\<lparr>mj_prefs := (mj_prefs s)\<lparr>monitor := ?m\<rparr>\<rparr> else s)"
  let ?st' = "commit_control_capture st a frozen"
  have md: "media ?st' = (media st)\<lparr>mjpeg_active_capture := hm_insert a (ac\<lparr>ac_prefs := (ac_prefs ac)\<lparr>monitor := ?m\<rparr>\<rparr>)
      (mjpeg_active_capture (media st)), mjpeg_sessions := hm_map_values g (mjpeg_sessions (media st))\<rparr>"
    and fr: "agents ?st' = agents st" "control ?st' = control st"
    using Some by (simp_all add: commit_control_capture_def Let_def g_def)
  have g: "mj_agent_id (g s) = mj_agent_id s" "mj_conn_id (g s) = mj_conn_id s" "mj_user_id (g s) = mj_user_id s" for s
    by (simp_all add: g_def)
  have count: "count_sessions (media ?st') b = count_sessions (media st) b" for b
    unfolding md using count_map_values [of g "media st" b] g(1) by (simp add: count_sessions_def)
  have "hm_get (mjpeg_active_capture (media st)) a = Some ac" using Some by (simp add: option_filter_eq_Some)
  moreover have "\<exists>s. hm_get (mjpeg_sessions (media ?st')) (fc_session_id c) = Some s \<and> mj_agent_id s = b
      \<and> mj_user_id s = owner_user_id (fc_owner c)" if "hm_get (capture (control st)) b = Some c" for b c
    using media_invD(8) [OF m that] by (auto simp: md g)
  ultimately have "media_inv ?st'"
    using m unfolding media_inv_def count fr by (auto simp: md hm_wf_map_values g)
  with assms show ?thesis by (simp add: app_inv_def control_inv_def fr)
qed

section \<open>Geometry\<close>

lemma check_geometry_fields:
  assumes "check_geometry f value = Some g"
  shows "\<exists>i mi. uuid_field f g ''capture_id'' = Some i \<and> as_u64 (v_index g ''monitor_index'') = Some mi \<and> mi < 64"
proof (cases "uuid_field f (v_index value ''geometry'') ''capture_id''")
  case None
  with assms show ?thesis by (simp add: check_geometry_def Let_def split: if_splits)
next
  case (Some i)
  then show ?thesis using assms by (auto simp: check_geometry_def Let_def is_some_and_iff split: if_splits)
qed

lemma geometry_scan_checked:
  "geometry_scan env bytes n i = Some g \<Longrightarrow> \<exists>v. check_geometry (fmt env) v = Some g"
proof (induction env bytes n i rule: geometry_scan.induct)
  case (1 env bytes i)
  then show ?case by simp
next
  case (2 env bytes n i)
  then show ?case
    by (auto simp: Let_def bind_eq_Some_conv split: if_splits option.splits)
qed

lemma frame_geometry_fields:
  assumes "frame_geometry env bytes = Some g"
  shows "\<exists>i mi. uuid_field (fmt env) g ''capture_id'' = Some i \<and> as_u64 (v_index g ''monitor_index'') = Some mi \<and> mi < 64"
  using assms geometry_scan_checked check_geometry_fields
  by (fastforce simp: frame_geometry_def split: if_splits)

lemma retire_capture_length:
  "(\<And>e. entry = Some e \<Longrightarrow> length (snd e) = 32) \<Longrightarrow> length (snd (retire_capture entry conn observed)) = 32"
  by (cases entry) (auto simp: retire_capture_def Let_def split: option.splits)

lemma retire_capture_conn: "fst (retire_capture entry conn observed) = conn"
  by (cases entry) (auto simp: retire_capture_def Let_def split: option.splits)

lemma validate_control_capture_ok:
  assumes "validate_control_capture env st agent owner value now = Ok frozen"
  shows "\<exists>s ac fr g i mi.
      hm_get (mjpeg_sessions (media st)) (fc_session_id frozen) = Some s
      \<and> mj_agent_id s = agent \<and> mj_user_id s = owner_user_id owner \<and> mj_conn_id s = agent_connection_id owner
      \<and> hm_get (mjpeg_active_capture (media st)) agent = Some ac \<and> ac_conn_id ac = agent_connection_id owner
      \<and> monitor (ac_prefs ac) = monitor (mj_prefs s)
      \<and> hm_get (frames (media st)) agent = Some fr \<and> duration_since now (last_update fr) \<le> from_secs 10
      \<and> frame_geometry env (jpeg fr) = Some g \<and> uuid_field (fmt env) g ''capture_id'' = Some i
      \<and> Some i \<notin> set (retired_capture_ids ac) \<and> as_u64 (v_index g ''monitor_index'') = Some mi \<and> mi < 64
      \<and> monitor (ac_prefs ac) \<in> {None, Some (ucast mi)}
      \<and> fc_owner frozen = owner
      \<and> fc_active frozen = ac\<lparr>ac_prefs := (ac_prefs ac)\<lparr>monitor := Some (ucast mi)\<rparr>\<rparr>"
proof -
  let ?sess = "\<lambda>k. option_filter (\<lambda>s. mj_agent_id s = agent \<and> mj_user_id s = owner_user_id owner
      \<and> mj_conn_id s = agent_connection_id owner) (hm_get (mjpeg_sessions (media st)) k)"
  obtain k s ac fr g where
    k: "uuid_field (fmt env) value ''capture_session'' = Some k" and s: "?sess k = Some s"
    and ac: "option_filter (\<lambda>a. ac_conn_id a = agent_connection_id owner \<and> monitor (ac_prefs a) = monitor (mj_prefs s))
        (hm_get (mjpeg_active_capture (media st)) agent) = Some ac"
    and fr: "option_filter (\<lambda>fr. duration_since now (last_update fr) \<le> from_secs 10) (hm_get (frames (media st)) agent) = Some fr"
    and g: "frame_geometry env (jpeg fr) = Some g"
    using assms by (auto simp: validate_control_capture_def split: sum.splits option.splits)
  obtain i mi where i: "uuid_field (fmt env) g ''capture_id'' = Some i" "as_u64 (v_index g ''monitor_index'') = Some mi" "mi < 64"
    using frame_geometry_fields [OF g] by blast
  have "Some i \<notin> set (retired_capture_ids ac) \<and> \<not> is_some_and (monitor (ac_prefs ac)) (\<lambda>m. m \<noteq> ucast mi)
      \<and> frozen = \<lparr> fc_owner = owner, fc_session_id = k, fc_active = ac\<lparr>ac_prefs := (ac_prefs ac)\<lparr>monitor := Some (ucast mi)\<rparr>\<rparr> \<rparr>"
    using assms by (simp add: validate_control_capture_def k s ac fr g i Let_def split: sum.splits if_splits)
  moreover from this have "monitor (ac_prefs ac) \<in> {None, Some (ucast mi)}"
    by (cases "monitor (ac_prefs ac)") auto
  ultimately show ?thesis
    using s ac fr g i unfolding option_filter_eq_Some
    by (intro exI [of _ s] exI [of _ ac] exI [of _ fr] exI [of _ g] exI [of _ i] exI [of _ mi]) simp
qed

section \<open>Properties\<close>

text \<open>
  A lease can only be taken over a display that is really being looked at: when control of an agent
  is validated, the named stream session exists, belongs to the same user, agent and connection, the
  capture that runs shows that session's display, a frame at most ten seconds old carries verified
  geometry whose capture id is none of the retired ones, and the frozen display is the one of that
  frame, an index below 64.
\<close>

theorem validated_capture_is_live:
  assumes "validate_control_capture env st agent owner value now = Ok frozen"
  shows "\<exists>s ac fr g i mi.
      hm_get (mjpeg_sessions (media st)) (fc_session_id frozen) = Some s
      \<and> mj_agent_id s = agent \<and> mj_user_id s = owner_user_id owner \<and> mj_conn_id s = agent_connection_id owner
      \<and> hm_get (mjpeg_active_capture (media st)) agent = Some ac \<and> ac_conn_id ac = agent_connection_id owner
      \<and> monitor (ac_prefs ac) = monitor (mj_prefs s)
      \<and> hm_get (frames (media st)) agent = Some fr \<and> duration_since now (last_update fr) \<le> from_secs 10
      \<and> frame_geometry env (jpeg fr) = Some g \<and> uuid_field (fmt env) g ''capture_id'' = Some i
      \<and> Some i \<notin> set (retired_capture_ids ac) \<and> as_u64 (v_index g ''monitor_index'') = Some mi \<and> mi < 64
      \<and> monitor (ac_prefs ac) \<in> {None, Some (ucast mi)}
      \<and> fc_owner frozen = owner
      \<and> fc_active frozen = ac\<lparr>ac_prefs := (ac_prefs ac)\<lparr>monitor := Some (ucast mi)\<rparr>\<rparr>"
  by (rule validate_control_capture_ok [OF assms])

definition example_geometry :: Value where
  "example_geometry = json_obj [(''capture_id'', json_uuid binary_fmt 11), (''geometry_revision'', json_nat 1),
     (''frame_width'', json_nat 800), (''frame_height'', json_nat 600), (''monitor_index'', json_nat 0),
     (''desktop'', json_obj [(''x'', json_int 0), (''y'', json_int 0),
        (''physical_width'', json_nat 800), (''physical_height'', json_nat 600)])]"

definition example_env :: Env where
  "example_env = \<lparr> fmt = binary_fmt, from_slice = (\<lambda>_. Some (json_obj [(''type'', Str ''capture_geometry''),
     (''schema_version'', json_nat 1), (''geometry'', example_geometry)])),
     sha256_hex = (\<lambda>s. s), json_time = (\<lambda>_. Null), plus_hours = (\<lambda>t h. Some (t + h * 3600000000)) \<rparr>"

definition example_jpeg :: "u8 list" where
  "example_jpeg = [0xff, 0xd8, 0xff, 0xef, 0, 17] @ GEOMETRY_TAG"

definition example_live_media :: LiveMedia where
  "example_live_media = LiveMedia_default
     \<lparr> mjpeg_sessions := [(5, \<lparr> requested_monitor = None, mj_agent_id = 9, mj_user_id = 2, mj_conn_id = 3,
         mj_prefs = \<lparr> jpeg_quality = 40, interval_ms = 200, monitor = None \<rparr> \<rparr>)],
       capture_viewers := [(9, 1)],
       mjpeg_active_capture := [(9, \<lparr> wire_monitor = None, generation = 6, retired_capture_ids = replicate 32 None,
         ac_conn_id = 3, ac_prefs = \<lparr> jpeg_quality = 40, interval_ms = 200, monitor = None \<rparr> \<rparr>)],
       frames := [(9, \<lparr> seq = 1, jpeg = example_jpeg, last_update = 0 \<rparr>)] \<rparr>"

definition example_live :: AppState where
  "example_live = AppState_new\<lparr> agents := example_registry, media := example_live_media \<rparr>"

definition example_acquire :: Value where
  "example_acquire = json_obj [(''type'', Str ''control_acquire''), (''agent_id'', json_uuid binary_fmt 9),
     (''request_id'', json_uuid binary_fmt 8), (''capture_session'', json_uuid binary_fmt 5)]"

lemma binary_uuid_field: "map_of kvs k = Some (json_uuid binary_fmt u) \<Longrightarrow> uuid_field binary_fmt (json_obj kvs) k = Some u"
  by (rule uuid_field_json_obj [OF _ binary_fmt_ok])

text \<open>The examples need of the JSON parser only what it makes of the frame's comment, which is empty here.\<close>

definition reads_example :: "Env \<Rightarrow> bool" where
  "reads_example env \<longleftrightarrow> fmt env = binary_fmt \<and> from_slice env [] = from_slice example_env []"

lemma reads_example_env [simp]: "reads_example example_env"
  by (simp add: reads_example_def example_env_def)

lemma example_frame_geometry:
  assumes "reads_example env"
  shows "frame_geometry env example_jpeg = Some example_geometry"
proof -
  have env: "fmt env = binary_fmt" "from_slice env [] = from_slice example_env []" using assms by (simp_all add: reads_example_def)
  have "geometry_scan env example_jpeg (Suc 127) 2 = Option.bind (from_slice env []) (check_geometry binary_fmt)"
    by (subst geometry_scan.simps(2)) (simp add: example_jpeg_def byte_at_def skip_fill_def GEOMETRY_TAG_def Let_def env)
  moreover have "uuid_field binary_fmt example_geometry ''capture_id'' = Some 11"
    unfolding example_geometry_def by (rule binary_uuid_field) simp
  then have "Option.bind (from_slice env []) (check_geometry binary_fmt) = Some example_geometry"
    by (simp add: env example_env_def check_geometry_def Let_def)
      (simp add: example_geometry_def in_u16_range_def span_ok_def json_nat_def json_int_def i64_max_def
        i32_try_from_def i32_min_def i32_max_def)
  moreover have "take 2 example_jpeg = [0xff, 0xd8]" by (simp add: example_jpeg_def)
  ultimately show ?thesis by (simp add: frame_geometry_def)
qed

lemma example_live_authorized: "module_authorized (agents example_live) 9 LiveScreen" "module_authorized (agents example_live) 9 RemoteInput"
  by (simp_all add: module_authorized_def example_live_def example_registry_def example_conn_def example_runtime_def
      grants_def disable_pending_def report_get_example example_state_def hm_values_def)

lemma start_capture_gate: "gate (parse f (start_capture_default f)) = GateModule LiveScreen"
  by (simp add: start_capture_default_def parse_def to_value_def parse_tagged_def Let_def)

lemma start_capture_untagged:
  "v_get (start_capture_default f) ''__module_generation'' = None" "v_get (start_capture_default f) ''__capture_generation'' = None"
  by (simp_all add: start_capture_default_def to_value_def StartCapture_default_def)

lemma start_capture_authorized:
  "is_ok (authorize_agent_command f reg a (start_capture_default f)) \<longleftrightarrow> module_authorized reg a LiveScreen"
  by (simp add: authorize_module_iff [OF start_capture_gate] start_capture_untagged)

lemma example_validated:
  assumes "reads_example env"
  shows "\<exists>frozen. validate_control_capture env example_live 9 example_owner example_acquire 7 = Ok frozen"
proof -
  have "uuid_field binary_fmt example_acquire ''capture_session'' = Some 5"
    unfolding example_acquire_def by (rule binary_uuid_field) simp
  moreover have "uuid_field binary_fmt example_geometry ''capture_id'' = Some 11"
    unfolding example_geometry_def by (rule binary_uuid_field) simp
  moreover obtain c where "authorize_agent_command binary_fmt (agents example_live) 9 (start_capture_default binary_fmt) = Ok c"
    using start_capture_authorized [of binary_fmt "agents example_live" 9] example_live_authorized(1)
    by (cases "authorize_agent_command binary_fmt (agents example_live) 9 (start_capture_default binary_fmt)") auto
  moreover have "fmt env = binary_fmt" using assms by (simp add: reads_example_def)
  ultimately show ?thesis
    using example_frame_geometry [OF assms]
    by (simp add: validate_control_capture_def example_live_def example_live_media_def example_owner_def)
      (simp add: example_acquire_def example_geometry_def json_nat_def duration_since_def from_secs_def)
qed

theorem validated_capture_is_live_witness:
  "\<exists>frozen. validate_control_capture example_env example_live 9 example_owner example_acquire 7 = Ok frozen
     \<and> monitor (ac_prefs (fc_active frozen)) = Some 0"
proof -
  obtain frozen where fr: "validate_control_capture example_env example_live 9 example_owner example_acquire 7 = Ok frozen"
    using example_validated [OF reads_example_env] ..
  have "hm_get (frames (media example_live)) 9 = Some \<lparr> seq = 1, jpeg = example_jpeg, last_update = 0 \<rparr>"
    "as_u64 (v_index example_geometry ''monitor_index'') = Some 0"
    by (simp_all add: example_live_def example_live_media_def example_geometry_def json_nat_def)
  with validated_capture_is_live [OF fr] example_frame_geometry [OF reads_example_env] have "monitor (ac_prefs (fc_active frozen)) = Some 0"
    by fastforce
  with fr show ?thesis by blast
qed

text \<open>
  Admission is transactional: when a stream is refused, for whatever reason, down to a full command
  queue, the sessions, the viewer counts, the leases and the frozen captures are what they were after
  expired leases were dropped.
\<close>

theorem refused_stream_changes_nothing:
  assumes "app_inv st0" and "begin_mjpeg_session env st0 a k user prefs req now fresh = (Err e, st')"
  shows "let st = expire_control (fmt env) st0 now in
    control st' = control st
    \<and> (\<forall>j. hm_get (mjpeg_sessions (media st')) j = hm_get (mjpeg_sessions (media st)) j)
    \<and> (\<forall>b. hm_get (capture_viewers (media st')) b = hm_get (capture_viewers (media st)) b)"
proof -
  define st where "st = snd (teardown_deliver (fmt env) st0 (\<lambda>s. expire s now))"
  have m: "media_inv st"
    unfolding st_def by (rule app_invD(3) [OF expiry.teardown_deliver_app_inv [OF assms(1)]])
  have "control st' = control st
    \<and> (\<forall>j. hm_get (mjpeg_sessions (media st')) j = hm_get (mjpeg_sessions (media st)) j)
    \<and> (\<forall>b. hm_get (capture_viewers (media st')) b = hm_get (capture_viewers (media st)) b)"
  proof (rule begin_mjpeg_cases [of env st0 a k user prefs req now fresh, folded st_def])
    fix s :: MjpegSession
    let ?count = "unwrap_or (hm_get (capture_viewers (media st)) a) 0"
    let ?st' = "st\<lparr>media := (media st)\<lparr>mjpeg_sessions := hm_insert k s (mjpeg_sessions (media st)),
                   capture_viewers := hm_insert a (?count + 1) (capture_viewers (media st))\<rparr>\<rparr>"
    define st1 where "st1 = snd (sync_capture_locked env ?st' a (Some (monitor (mj_prefs s))) fresh)"
    note fr = sync_shape_frame [OF sync_capture_shape [of env a ?st' "Some (monitor (mj_prefs s))" fresh], folded st1_def]
    assume new: "hm_get (mjpeg_sessions (media st)) k = None"
      and "begin_mjpeg_session env st0 a k user prefs req now fresh = admit_session env st a k s ?count fresh"
    with assms(2) have st': "st' = st1\<lparr>media := set_viewers ((media st1)
        \<lparr>mjpeg_sessions := hm_remove k (mjpeg_sessions (media st1))\<rparr>) a ?count\<rparr>"
      by (auto simp: admit_session_def Let_def case_prod_unfold st1_def split: if_splits)
    have "(if b = a then (if ?count = 0 then None else Some ?count) else hm_get (capture_viewers (media st)) b) =
        hm_get (capture_viewers (media st)) b" for b
      using media_invD(5) [OF m, of b] of_nat_u32_zero [OF media_invD(6) [OF m], of b] by auto
    moreover have "hm_get (capture_viewers (media st')) b =
        (if b = a then (if ?count = 0 then None else Some ?count) else hm_get (capture_viewers (media st)) b)" for b
      by (simp add: st' fr)
    ultimately show ?thesis using new by (simp add: st' fr)
  qed (use assms(2) in auto)
  then show ?thesis by (simp add: st_def expire_control_def)
qed

theorem refused_stream_changes_nothing_witness:
  "control (snd (begin_mjpeg_session example_env AppState_new 9 5 2
      \<lparr> jpeg_quality = 40, interval_ms = 200, monitor = None \<rparr> None 0 6)) =
   control (expire_control binary_fmt AppState_new 0)"
proof -
  let ?b = "begin_mjpeg_session example_env AppState_new 9 5 2 \<lparr> jpeg_quality = 40, interval_ms = 200, monitor = None \<rparr> None 0 6"
  have "open_conn (agents (snd (teardown_deliver binary_fmt AppState_new (\<lambda>s. expire s 0)))) 9 = None"
  proof (rule ccontr)
    assume "\<not> ?thesis"
    then have "current_conn (agents AppState_new) 9 \<noteq> None"
      using open_conn_SomeD teardown_deliver_frame(10) by (metis option.exhaust option.distinct(1))
    then show False by (simp add: AppState_new_def AgentRegistry_default_def current_conn_def)
  qed
  then have "\<exists>e st'. ?b = (Err e, st')"
    by (simp add: begin_mjpeg_session_def example_env_def Let_def)
  then obtain e st' where b: "?b = (Err e, st')" by blast
  from refused_stream_changes_nothing [OF app_inv_new b] b show ?thesis
    by (simp add: Let_def example_env_def)
qed

text \<open>
  A lease freezes the display: while an agent has a frozen capture on its open connection, whatever
  streams come and go, synchronising the capture keeps the running capture, stops it, or starts one
  with exactly the frozen display, quality and interval.
\<close>

theorem lease_freezes_display:
  assumes "hm_get (capture (control st)) a = Some c"
    and "open_conn (agents st) a = Some (ac_conn_id (fc_active c))"
    and "hm_get (mjpeg_active_capture (media (snd (sync_capture_locked env st a req fresh)))) a = Some ac"
  shows "hm_get (mjpeg_active_capture (media st)) a = Some ac \<or> ac_prefs ac = ac_prefs (fc_active c)"
proof (cases "sessions_of (media st) a (open_conn (agents st) a) = []")
  case True
  with assms show ?thesis
    by (auto simp: sync_capture_locked_def stop_capture_locked_def Let_def split: option.splits sum.splits)
next
  case False
  let ?ss = "sessions_of (media st) a (open_conn (agents st) a)"
  have prefs: "capture_prefs (Some c) (ac_conn_id (fc_active c)) sel ?ss = ac_prefs (fc_active c)" for sel
    by (simp add: capture_prefs_def)
  with False assms show ?thesis
    by (auto simp: sync_capture_locked_def start_capture_locked_def Let_def split: sum.splits if_splits)
qed

text \<open>A lease on the running stream of the example, and a second stream that joins it.\<close>

definition example_leased :: AppState where
  "example_leased = example_live\<lparr>control := (control example_live)\<lparr>capture := [(9, example_frozen)]\<rparr>\<rparr>"

theorem lease_freezes_display_witness:
  "\<exists>ac. hm_get (mjpeg_active_capture (media (snd (sync_capture_locked example_env example_leased 9 (Some (Some 1)) 12)))) 9 = Some ac
     \<and> ac_prefs ac = ac_prefs (fc_active example_frozen)"
proof -
  have cap: "hm_get (capture (control example_leased)) 9 = Some example_frozen"
    "open_conn (agents example_leased) 9 = Some (ac_conn_id (fc_active example_frozen))"
    by (simp_all add: example_leased_def example_live_def AppState_new_def example_registry_def open_conn_def
        example_conn_def example_frozen_def)
  have "module_authorized (agents example_leased) 9 LiveScreen"
    using example_live_authorized(1) by (simp add: example_leased_def)
  then have auth: "is_ok (authorize_agent_command f (agents example_leased) 9 (to_value f (StartCapture p)))" for f p
    by (subst authorize_module_iff [where m = LiveScreen])
      (auto simp: to_value_def parse_def parse_tagged_def Let_def)
  define q where "q = enqueue_capture binary_fmt (agents example_leased) 9 3
      (StartCapture (StartCapture_new (Some 0) 40 200)) (Some 12)"
  have "is_ok (fst q)"
    using auth [of binary_fmt "StartCapture_new (Some 0) 40 200"]
    by (auto simp: q_def enqueue_capture_def Let_def case_prod_unfold enqueue_authorized_command_def
        example_leased_def example_live_def example_registry_def example_conn_def channel_new_def try_send_def
        AGENT_CMD_CHANNEL_CAPACITY_def split: sum.splits)
  moreover have ss: "sessions_of (media example_leased) 9 (Some 3) =
      [\<lparr> requested_monitor = None, mj_agent_id = 9, mj_user_id = 2, mj_conn_id = 3,
         mj_prefs = \<lparr> jpeg_quality = 40, interval_ms = 200, monitor = None \<rparr> \<rparr>]"
    and old: "hm_get (mjpeg_active_capture (media example_leased)) 9 =
      Some \<lparr> wire_monitor = None, generation = 6, retired_capture_ids = replicate 32 None,
         ac_conn_id = 3, ac_prefs = \<lparr> jpeg_quality = 40, interval_ms = 200, monitor = None \<rparr> \<rparr>"
    by (simp_all add: sessions_of_def example_leased_def example_live_def example_live_media_def hm_values_def)
  ultimately have "\<exists>ac. hm_get (mjpeg_active_capture (media (snd (sync_capture_locked example_env example_leased 9 (Some (Some 1)) 12)))) 9 = Some ac
      \<and> hm_get (mjpeg_active_capture (media example_leased)) 9 \<noteq> Some ac"
    using cap
    by (cases "fst q") (simp_all add: sync_capture_locked_def start_capture_locked_def Let_def capture_prefs_def
        ss old wire_selection_def example_env_def example_frozen_def q_def [symmetric])
  with lease_freezes_display [OF cap] show ?thesis by blast
qed

end
