(* ===== verification/ControlMessages.thy ===== *)
theory ControlMessages
  imports CaptureArbitration
begin

text \<open>
  The control protocol of a viewer socket (\<open>control_lease_message\<close> and \<open>send_viewer_input\<close> of
  \<open>server/src/control/runtime.rs\<close>): acquiring, renewing and releasing a lease, and sending input under it.

  The token \<open>acquire\<close> draws is the argument \<open>fresh\<close>; \<open>clock\<close> is the later clock reading with which the age
  of the cached frame is judged, and the one audit rows are deduplicated by.
\<close>

section \<open>Operations\<close>

definition probe_move :: Value where
  "probe_move = json_obj [(''type'', Str ''MouseMove''), (''x'', json_int 0), (''y'', json_int 0)]"

definition cleanup_failed :: CommandDenied where
  "cleanup_failed = CommandDenied_new ''control_cleanup_failed''
     ''Device connection is closing after failed input cleanup.'' (Some RemoteInput)"

text \<open>\<open>control.capture.entry(agent_id).or_insert(frozen)\<close>\<close>

definition freeze_capture :: "AppState \<Rightarrow> Uuid \<Rightarrow> FrozenCapture \<Rightarrow> AppState" where
  "freeze_capture st agent_id frozen =
     (if hm_contains (capture (control st)) agent_id then st
      else st\<lparr>control := (control st)\<lparr>capture := hm_insert agent_id frozen (capture (control st))\<rparr>\<rparr>)"

text \<open>The end of the acquire branch, once the display is validated.\<close>

definition grant_control ::
  "Uuid_fmt \<Rightarrow> AppState \<Rightarrow> Uuid \<Rightarrow> LeaseOwner \<Rightarrow> FrozenCapture \<Rightarrow> Instant \<Rightarrow> Uuid
    \<Rightarrow> (LeaseGrant option, CommandDenied) Result \<times> AppState" where
  "grant_control f st agent_id owner frozen now fresh =
     (let (t, s') = acquire (sessions (control st)) agent_id owner DEFAULT_LEASE_TTL now fresh;
          (safe, st1) = deliver_control_cleanup f (set_sessions st s') (cleanup t) in
      if \<not> safe then
        (Err cleanup_failed,
         snd (teardown_deliver f st1 (\<lambda>s. revoke_agent s agent_id (agent_connection_id owner))))
      else
        (case result t of
           Inl e \<Rightarrow> (Err (lease_error e), st1)
         | Inr g \<Rightarrow> (Ok (Some g), freeze_capture (commit_control_capture st1 agent_id frozen) agent_id frozen)))"

definition control_acquire ::
  "Env \<Rightarrow> AppState \<Rightarrow> Uuid \<Rightarrow> LeaseOwner \<Rightarrow> Value \<Rightarrow> Instant \<Rightarrow> Instant \<Rightarrow> Uuid
    \<Rightarrow> (LeaseGrant option, CommandDenied) Result \<times> AppState" where
  "control_acquire env st agent_id owner value now clock fresh =
     (let f = fmt env; (safe, st1) = teardown_deliver f st (\<lambda>s. expire_agent s agent_id now) in
      if \<not> safe then (Err cleanup_failed, st1)
      else
        (case validate_control_capture env st1 agent_id owner value clock of
           Inl e \<Rightarrow> (Err e, st1)
         | Inr frozen \<Rightarrow>
             if is_some_and (hm_get (capture (control st1)) agent_id)
                  (\<lambda>c. fc_owner c = owner \<and> fc_session_id c \<noteq> fc_session_id frozen)
             then (Err (CommandDenied_new ''capture_session_locked''
                     ''Release the existing lease before binding a different live stream session.''
                     (Some LiveScreen)), st1)
             else grant_control f st1 agent_id owner frozen now fresh))"

text \<open>The closure of \<open>control_lease_message\<close>.\<close>

definition control_lease_op ::
  "Env \<Rightarrow> AppState \<Rightarrow> Uuid \<Rightarrow> Uuid \<Rightarrow> AuthUser \<Rightarrow> string \<Rightarrow> Value \<Rightarrow> Instant \<Rightarrow> Instant \<Rightarrow> Uuid
    \<Rightarrow> (LeaseGrant option, CommandDenied) Result \<times> AppState" where
  "control_lease_op env st agent_id viewer user kind value now clock fresh =
     (let f = fmt env in
      case current_control_owner st agent_id viewer user of
        Inl e \<Rightarrow> (Err e, st)
      | Inr owner \<Rightarrow>
          (case (if kind \<noteq> ''control_release'' then authorize_agent_command f (agents st) agent_id probe_move
                 else Ok probe_move) of
             Inl e \<Rightarrow> (Err e, st)
           | Inr _ \<Rightarrow>
               if kind = ''control_acquire'' then control_acquire env st agent_id owner value now clock fresh
               else
                 (case uuid_field f value ''lease_token'' of
                    None \<Rightarrow> (Err (lease_error Missing), st)
                  | Some token \<Rightarrow>
                      if kind = ''control_heartbeat'' then
                        (let (t, s') = heartbeat (sessions (control st)) agent_id owner token DEFAULT_LEASE_TTL now;
                             st1 = snd (deliver_control_cleanup f (set_sessions st s') (cleanup t))
                         in (case result t of Inl e \<Rightarrow> Err (lease_error e) | Inr g \<Rightarrow> Ok (Some g), st1))
                      else if kind = ''control_release'' then
                        (let (t, s') = release (sessions (control st)) agent_id owner token now;
                             st1 = snd (deliver_control_cleanup f (set_sessions st s') (cleanup t))
                         in (case result t of Inl e \<Rightarrow> Err (lease_error e) | Inr _ \<Rightarrow> Ok None, st1))
                      else (Err (CommandDenied_new ''invalid_request'' ''Unknown control lease operation.'' None), st))))"

definition lease_reply ::
  "Uuid_fmt \<Rightarrow> AppState \<Rightarrow> Uuid \<Rightarrow> Value \<Rightarrow> (LeaseGrant option, CommandDenied) Result \<Rightarrow> Instant \<Rightarrow> Value" where
  "lease_reply f st agent_id reply r now =
     (case r of
        Inr (Some g) \<Rightarrow>
          (let reply1 = v_set (v_set reply ''status'' (Str ''granted'')) ''lease_token'' (json_uuid f (grant_token g));
               reply2 = (case hm_get (capture (control st)) agent_id of
                           None \<Rightarrow> reply1
                         | Some c \<Rightarrow> v_set (v_set reply1 ''capture_session'' (json_uuid f (fc_session_id c)))
                             ''monitor'' (json_opt (\<lambda>m. json_u64 (ucast m)) (monitor (ac_prefs (fc_active c)))))
           in v_set reply2 ''expires_in_ms'' (json_nat (as_millis (remaining g now))))
      | Inr None \<Rightarrow> v_set reply ''status'' (Str ''released'')
      | Inl e \<Rightarrow> v_set (v_set reply ''code'' (Str (code e))) ''error'' (Str (error e)))"

definition control_lease_message ::
  "Env \<Rightarrow> AppState \<Rightarrow> Uuid \<Rightarrow> AuthUser \<Rightarrow> Value \<Rightarrow> Instant \<Rightarrow> Instant \<Rightarrow> Uuid \<Rightarrow> Value \<times> AppState" where
  "control_lease_message env st viewer user value now clock fresh =
     (let f = fmt env;
          agent = uuid_field f value ''agent_id''; request = uuid_field f value ''request_id'';
          reply = json_obj [(''event'', Str ''control_lease''), (''agent_id'', json_opt (json_uuid f) agent),
                    (''request_id'', json_opt (json_uuid f) request), (''status'', Str ''denied''),
                    (''expires_in_ms'', json_nat 0)] in
      case (agent, request) of
        (Some agent_id, Some _) \<Rightarrow>
          (let kind = unwrap_or (as_str (v_index value ''type'')) [];
               (r, st1) = control_lease_op env st agent_id viewer user kind value now clock fresh;
               st2 = (if kind \<noteq> ''control_heartbeat'' \<or> is_err r
                      then snd (audit_control_event st1 user agent_id
                             (if kind = ''control_release'' then ''control_release'' else ''control_acquire'') (is_err r) clock)
                      else st1)
           in (lease_reply f st1 agent_id reply r now, st2))
      | _ \<Rightarrow> (v_set (v_set reply ''code'' (Str ''invalid_request'')) ''error''
                (Str ''agent_id and request_id must be UUIDs.''), st))"

definition send_viewer_input ::
  "Env \<Rightarrow> AppState \<Rightarrow> Uuid \<Rightarrow> Uuid \<Rightarrow> AuthUser \<Rightarrow> Uuid option \<Rightarrow> Value \<Rightarrow> Instant
    \<Rightarrow> (unit, CommandDenied) Result \<times> AppState" where
  "send_viewer_input env st agent_id viewer user token cmd now =
     (let f = fmt env in
      case current_control_owner st agent_id viewer user of
        Inl e \<Rightarrow> (Err e, st)
      | Inr owner \<Rightarrow>
     (case token of
        None \<Rightarrow> (Err (lease_error Missing), st)
      | Some tok \<Rightarrow>
     (case authorize_agent_command f (agents st) agent_id cmd of
        Inl e \<Rightarrow> (Err e, st)
      | Inr authorized \<Rightarrow>
          (let (t, s') = authorize_and_track (sessions (control st)) agent_id owner tok cmd now;
               st1 = snd (deliver_control_cleanup f (set_sessions st s') (cleanup t))
           in case result t of
                Inl e \<Rightarrow> (Err (lease_error e), st1)
              | Inr _ \<Rightarrow>
                  (let (r, reg) = enqueue_authorized_command (agents st1) agent_id (agent_connection_id owner) authorized;
                       st2 = st1\<lparr>agents := reg\<rparr>
                   in if is_err r
                      then (r, snd (teardown_deliver f
                                 (st2\<lparr>agents := close_conn reg agent_id (agent_connection_id owner) []\<rparr>)
                                 (\<lambda>s. revoke_agent s agent_id (agent_connection_id owner))))
                      else (r, st2))))))"

section \<open>The operations keep the invariant\<close>

lemma current_control_owner_ok:
  assumes "current_control_owner st a viewer user = Ok owner"
  shows "open_conn (agents st) a = Some (agent_connection_id owner)" "is_operator user"
    "viewer_connection_id owner = viewer" "owner_user_id owner = user_id user"
  using assms
  by (auto simp: current_control_owner_def open_conn_def option_filter_eq_Some split: if_splits option.splits)

lemma freeze_app_inv:
  assumes "app_inv st" "current_conn (agents st) a = Some (agent_connection_id owner)"
    "lease_of (sessions (control st)) a = None" "held_wf (held l)" "grant_owner (grant l) = owner"
    "fc_owner c = owner" "ac_conn_id (fc_active c) = agent_connection_id owner"
    "hm_get (mjpeg_sessions (media st)) (fc_session_id c) = Some s" "mj_agent_id s = a"
    "mj_user_id s = owner_user_id owner"
  shows "app_inv (freeze_capture (set_sessions st ((sessions (control st))
    \<lparr>leases := hm_insert a l (leases (sessions (control st)))\<rparr>)) a c)"
proof -
  note cinv = app_invD(2) [OF assms(1)] and m = app_invD(3) [OF assms(1)]
  have "lease_owner_of (sessions (control st)) a = None"
    using assms(3) by (simp add: lease_owner_of_def)
  with control_invD(3) [OF cinv, of a] have none: "hm_get (capture (control st)) a = None" by simp
  let ?s' = "(sessions (control st))\<lparr>leases := hm_insert a l (leases (sessions (control st)))\<rparr>"
  let ?st' = "set_sessions st ?s'\<lparr>control := (control st)\<lparr>sessions := ?s', capture := hm_insert a c (capture (control st))\<rparr>\<rparr>"
  have eq: "freeze_capture (set_sessions st ?s') a c = ?st'"
    using none by (simp add: freeze_capture_def hm_contains_def)
  have "control_inv ?st'"
    using cinv assms(2,4,5,6) sessions_wf_insert [OF control_invD(1) [OF cinv] assms(4), of a]
    by (auto simp: control_inv_def lease_owner_of_def)
  moreover have "media_inv ?st'"
    using m assms(6-10) by (auto simp: media_inv_def)
  moreover have "registry_inv (agents ?st')" using app_invD(1) [OF assms(1)] by simp
  ultimately show ?thesis by (simp add: eq app_inv_def)
qed

lemma commit_commutes:
  "freeze_capture (commit_control_capture st a c) a c = commit_control_capture (freeze_capture st a c) a c"
  by (simp add: freeze_capture_def commit_control_capture_def Let_def split: option.splits)

lemma expire_agent_none_left:
  assumes "sessions_wf s" "lease_of (snd (expire_agent s a now)) a = Some l"
  shows "live l now"
proof -
  have "\<not> expires_at (grant l) \<le> now"
    using agent_expiry.hit_gone [OF assms(1) prod.collapse [symmetric], of a now a l] assms(2) by simp
  then show ?thesis by (simp add: live_def)
qed

lemma set_sessions_id [simp]: "set_sessions st (sessions (control st)) = st"
  by (simp add: set_sessions_def)

definition fresh_grant :: "LeaseOwner \<Rightarrow> Instant \<Rightarrow> Uuid \<Rightarrow> LeaseGrant" where
  "fresh_grant owner now fresh =
     \<lparr> grant_token = fresh, grant_owner = owner, expires_at = deadline now DEFAULT_LEASE_TTL \<rparr>"

lemma grant_control_free:
  assumes "lease_of (sessions (control st)) a = None"
  shows "grant_control f st a owner c now fresh =
    (Ok (Some (fresh_grant owner now fresh)),
     commit_control_capture (freeze_capture (set_sessions st ((sessions (control st))
       \<lparr>leases := hm_insert a \<lparr> grant = fresh_grant owner now fresh, held = HeldInput_default \<rparr>
          (leases (sessions (control st)))\<rparr>)) a c) a c)"
  using assms
  by (simp add: grant_control_def acquire_def expire_agent_none Let_def commit_commutes fresh_grant_def)

lemma grant_control_live:
  assumes "lease_of (sessions (control st)) a = Some l" "live l now" "hm_contains (capture (control st)) a"
  shows "grant_control f st a owner c now fresh =
    (if grant_owner (grant l) = owner then (Ok (Some (grant l)), commit_control_capture st a c)
     else (Err (lease_error (Conflict (grant_owner (grant l)))), st))"
proof -
  have "freeze_capture (commit_control_capture st a c) a c = commit_control_capture st a c"
    unfolding commit_commutes using assms(3) by (simp add: freeze_capture_def)
  with assms(1,2) show ?thesis
    by (simp add: grant_control_def acquire_def expire_agent_live Let_def)
qed

lemma lease_iff_capture:
  assumes "control_inv st"
  shows "hm_contains (capture (control st)) a \<longleftrightarrow> lease_of (sessions (control st)) a \<noteq> None"
  using control_invD(3) [OF assms, of a]
  by (cases "hm_get (capture (control st)) a"; cases "lease_of (sessions (control st)) a")
    (auto simp: hm_contains_def lease_owner_of_def)

lemma grant_control_app_inv:
  assumes "app_inv st" "current_conn (agents st) a = Some (agent_connection_id owner)"
    "\<And>l. lease_of (sessions (control st)) a = Some l \<Longrightarrow> live l now"
    "validate_control_capture env st a owner value clock = Ok frozen"
  shows "app_inv (snd (grant_control f st a owner frozen now fresh))"
proof (cases "lease_of (sessions (control st)) a")
  case None
  obtain s where "hm_get (mjpeg_sessions (media st)) (fc_session_id frozen) = Some s"
    "mj_agent_id s = a" "mj_user_id s = owner_user_id owner" "fc_owner frozen = owner"
    "ac_conn_id (fc_active frozen) = agent_connection_id owner"
    using validate_control_capture_ok [OF assms(4)] by fastforce
  with freeze_app_inv [OF assms(1,2) None, of "\<lparr> grant = fresh_grant owner now fresh, held = HeldInput_default \<rparr>" frozen s]
  show ?thesis
    unfolding grant_control_free [OF None] by (auto simp: fresh_grant_def intro: commit_app_inv)
next
  case (Some l)
  moreover have "hm_contains (capture (control st)) a"
    using lease_iff_capture [OF app_invD(2) [OF assms(1)], of a] Some by simp
  ultimately show ?thesis
    using grant_control_live [of st a l now] assms(1,3) commit_app_inv [OF assms(1)] by auto
qed

lemma control_acquire_cases:
  fixes env st a now
  defines "st1 \<equiv> snd (teardown_deliver (fmt env) st (\<lambda>s. expire_agent s a now))"
  obtains (denied) e where "control_acquire env st a owner value now clock fresh = (Err e, st1)"
  | (validated) frozen where "validate_control_capture env st1 a owner value clock = Ok frozen"
      "\<not> is_some_and (hm_get (capture (control st1)) a)
         (\<lambda>c. fc_owner c = owner \<and> fc_session_id c \<noteq> fc_session_id frozen)"
      "control_acquire env st a owner value now clock fresh = grant_control (fmt env) st1 a owner frozen now fresh"
proof (cases "fst (teardown_deliver (fmt env) st (\<lambda>s. expire_agent s a now))")
  case False
  then show ?thesis by (intro denied) (simp add: control_acquire_def case_prod_unfold Let_def st1_def)
next
  case True
  note eq = control_acquire_def [of env st a owner "value" now clock fresh, unfolded Let_def case_prod_unfold, folded st1_def]
  show ?thesis
  proof (cases "validate_control_capture env st1 a owner value clock")
    case (Inl e)
    with True show ?thesis by (intro denied) (simp add: eq)
  next
    case (Inr frozen)
    with True show ?thesis
      by (cases "is_some_and (hm_get (capture (control st1)) a)
         (\<lambda>c. fc_owner c = owner \<and> fc_session_id c \<noteq> fc_session_id frozen)")
        (auto simp add: eq intro: denied validated)
  qed
qed

lemma control_acquire_app_inv:
  assumes "app_inv st" "open_conn (agents st) a = Some (agent_connection_id owner)"
  shows "app_inv (snd (control_acquire env st a owner value now clock fresh))"
proof -
  define st1 where "st1 = snd (teardown_deliver (fmt env) st (\<lambda>s. expire_agent s a now))"
  have inv1: "app_inv st1" unfolding st1_def by (rule agent_expiry.teardown_deliver_app_inv [OF assms(1)])
  have conn1: "current_conn (agents st1) a = Some (agent_connection_id owner)"
    using open_conn_SomeD [OF assms(2)] by (simp add: st1_def)
  have live1: "live l now" if "lease_of (sessions (control st1)) a = Some l" for l
    using expire_agent_none_left [OF control_invD(1) [OF app_invD(2) [OF assms(1)]], of a now l] that
    by (simp add: st1_def teardown_deliver_sessions)
  show ?thesis
    by (rule control_acquire_cases [of env st a owner "value" now clock fresh, folded st1_def])
      (auto simp: inv1 intro: grant_control_app_inv [OF inv1 conn1 live1])
qed

lemma app_inv_audit:
  "app_inv st \<Longrightarrow> app_inv (st\<lparr>control := (control st)\<lparr>audit_seen := x\<rparr>\<rparr>)"
  "app_inv st \<Longrightarrow> app_inv (st\<lparr>control := (control st)\<lparr>audit_seen := x, audit_inflight := n\<rparr>\<rparr>)"
  by (simp_all add: app_inv_def control_inv_def media_inv_def)

lemma audit_app_inv [inv_intros]: "app_inv st \<Longrightarrow> app_inv (snd (audit_control_event st user a action rej now))"
  by (simp add: audit_control_event_def Let_def app_inv_audit)

lemma control_lease_op_app_inv [inv_intros]:
  assumes "app_inv st"
  shows "app_inv (snd (control_lease_op env st a viewer user kind val now clock fresh))"
proof (cases "current_control_owner st a viewer user")
  case (Inl e)
  with assms show ?thesis by (simp add: control_lease_op_def)
next
  case (Inr owner)
  let ?s = "sessions (control st)"
  have wf: "sessions_wf ?s" by (rule control_invD(1) [OF app_invD(2) [OF assms]])
  have hb: "app_inv (snd (deliver_control_cleanup f (set_sessions st (snd (heartbeat ?s a owner token ttl now)))
      (cleanup (fst (heartbeat ?s a owner token ttl now)))))" for f token ttl
    by (rule cleans_deliver_app_inv [OF assms heartbeat_cleans [OF wf prod.collapse [symmetric]]])
  have rl: "app_inv (snd (deliver_control_cleanup f (set_sessions st (snd (release ?s a owner token now)))
      (cleanup (fst (release ?s a owner token now)))))" for f token
    by (rule cleans_deliver_app_inv [OF assms release_cleans [OF wf prod.collapse [symmetric]]])
  have ac: "app_inv (snd (control_acquire env st a owner val now clock fresh))"
    by (rule control_acquire_app_inv [OF assms current_control_owner_ok(1) [OF Inr]])
  show ?thesis
    using assms Inr hb rl ac
    by (simp add: control_lease_op_def Let_def case_prod_unfold split: sum.split option.split)
qed

lemma control_lease_message_app_inv [inv_intros]:
  "app_inv st \<Longrightarrow> app_inv (snd (control_lease_message env st viewer user val now clock fresh))"
  by (simp add: control_lease_message_def Let_def case_prod_unfold control_lease_op_app_inv audit_app_inv
      split: option.split)

text \<open>The three outcomes of sending input.\<close>

lemma send_viewer_input_cases:
  obtains (denied) e where "send_viewer_input env st a viewer user token cmd now = (Err e, st)"
  | (refused) e owner tok where "token = Some tok" "current_control_owner st a viewer user = Ok owner"
      "is_err (result (fst (authorize_and_track (sessions (control st)) a owner tok cmd now)))"
      "send_viewer_input env st a viewer user token cmd now =
        (Err e, snd (deliver_control_cleanup (fmt env)
           (set_sessions st (snd (authorize_and_track (sessions (control st)) a owner tok cmd now)))
           (cleanup (fst (authorize_and_track (sessions (control st)) a owner tok cmd now)))))"
  | (accepted) owner tok c l r reg where "token = Some tok" "current_control_owner st a viewer user = Ok owner"
      "authorize_agent_command (fmt env) (agents st) a cmd = Ok c"
      "holds (sessions (control st)) a owner tok now" "lease_of (sessions (control st)) a = Some l"
      "fst (track (held l) cmd) = Ok ()"
      "enqueue_authorized_command (agents st) a (agent_connection_id owner) c = (r, reg)"
      "send_viewer_input env st a viewer user token cmd now =
        (let st1 = set_sessions st ((sessions (control st))
               \<lparr>leases := hm_insert a (l\<lparr>held := snd (track (held l) cmd)\<rparr>) (leases (sessions (control st)))\<rparr>)
         in if is_err r
            then (r, snd (teardown_deliver (fmt env)
                       (st1\<lparr>agents := close_conn reg a (agent_connection_id owner) []\<rparr>)
                       (\<lambda>s. revoke_agent s a (agent_connection_id owner))))
            else (r, st1\<lparr>agents := reg\<rparr>))"
proof (cases "current_control_owner st a viewer user")
  case (Inl e)
  then show ?thesis by (intro denied) (simp add: send_viewer_input_def)
next
  case owner: (Inr owner)
  show ?thesis
  proof (cases token)
    case None
    with owner show ?thesis by (intro denied) (simp add: send_viewer_input_def)
  next
    case (Some tok)
    show ?thesis
    proof (cases "authorize_agent_command (fmt env) (agents st) a cmd")
      case (Inl e)
      with owner Some show ?thesis by (intro denied) (simp add: send_viewer_input_def)
    next
      case (Inr c)
      let ?at = "authorize_and_track (sessions (control st)) a owner tok cmd now"
      note eq = send_viewer_input_def [unfolded Let_def case_prod_unfold]
      show ?thesis
      proof (cases "result (fst ?at)")
        case (Inl e)
        with owner Some Inr show ?thesis by (intro refused [of tok owner]) (simp_all add: eq)
      next
        case ok: (Inr u)
        then have h: "holds (sessions (control st)) a owner tok now"
          using authorize_ok_iff [of "sessions (control st)" a owner tok now]
          by (simp add: authorize_and_track_eq split: if_splits)
        then obtain l where l: "lease_of (sessions (control st)) a = Some l" by (auto simp: holds_def)
        have at: "?at = (\<lparr> result = fst (track (held l) cmd), cleanup = [] \<rparr>, (sessions (control st))
            \<lparr>leases := hm_insert a (l\<lparr>held := snd (track (held l) cmd)\<rparr>) (leases (sessions (control st)))\<rparr>)"
          using h l by (simp add: authorize_and_track_eq)
        obtain r reg where q: "enqueue_authorized_command (agents st) a (agent_connection_id owner) c = (r, reg)" by force
        from ok at have "fst (track (held l) cmd) = Ok ()" by simp
        with owner Some Inr h l q show ?thesis
          by (intro accepted [OF Some owner Inr h l _ q]) (simp_all add: eq at Let_def)
      qed
    qed
  qed
qed

lemma app_inv_track:
  assumes "app_inv st" "lease_of (sessions (control st)) a = Some l" "registry_inv reg"
    "\<And>b. current_conn reg b = current_conn (agents st) b"
  shows "app_inv ((set_sessions st ((sessions (control st))
     \<lparr>leases := hm_insert a (l\<lparr>held := snd (track (held l) cmd)\<rparr>) (leases (sessions (control st)))\<rparr>))\<lparr>agents := reg\<rparr>)"
proof -
  have wf: "sessions_wf (sessions (control st))" by (rule control_invD(1) [OF app_invD(2) [OF assms(1)]])
  have "held_wf (snd (track (held l) cmd))"
    by (rule track_wf [OF sessions_wfD(2) [OF wf assms(2)] prod.collapse [symmetric]])
  from sessions_wf_insert [OF wf, of "l\<lparr>held := snd (track (held l) cmd)\<rparr>" a] this assms show ?thesis
    by (auto simp: app_inv_def control_inv_def media_inv_def lease_owner_of_def)
qed

lemma send_viewer_input_app_inv [inv_intros]:
  assumes "app_inv st"
  shows "app_inv (snd (send_viewer_input env st a viewer user token cmd now))"
proof (rule send_viewer_input_cases [of env st a viewer user token cmd now])
  fix e owner tok
  assume "send_viewer_input env st a viewer user token cmd now =
        (Err e, snd (deliver_control_cleanup (fmt env)
           (set_sessions st (snd (authorize_and_track (sessions (control st)) a owner tok cmd now)))
           (cleanup (fst (authorize_and_track (sessions (control st)) a owner tok cmd now)))))"
  moreover have "sessions_wf (sessions (control st))" by (rule control_invD(1) [OF app_invD(2) [OF assms]])
  from authorize_and_track_cleans [OF this prod.collapse [symmetric]]
  have "cleans (sessions (control st)) (cleanup (fst (authorize_and_track (sessions (control st)) a owner tok cmd now)))
      (snd (authorize_and_track (sessions (control st)) a owner tok cmd now))" .
  ultimately show ?thesis using cleans_deliver_app_inv [OF assms] by simp
next
  fix owner tok c l r reg
  assume l: "lease_of (sessions (control st)) a = Some l"
    and q: "enqueue_authorized_command (agents st) a (agent_connection_id owner) c = (r, reg)"
    and eq: "send_viewer_input env st a viewer user token cmd now =
        (let st1 = set_sessions st ((sessions (control st))
               \<lparr>leases := hm_insert a (l\<lparr>held := snd (track (held l) cmd)\<rparr>) (leases (sessions (control st)))\<rparr>)
         in if is_err r
            then (r, snd (teardown_deliver (fmt env)
                       (st1\<lparr>agents := close_conn reg a (agent_connection_id owner) []\<rparr>)
                       (\<lambda>s. revoke_agent s a (agent_connection_id owner))))
            else (r, st1\<lparr>agents := reg\<rparr>))"
  have reg: "registry_inv reg" "\<And>b. current_conn reg b = current_conn (agents st) b"
    using enqueue_registry_inv [OF app_invD(1) [OF assms], of a "agent_connection_id owner" c] q
      enqueue_conns(1) [of "agents st" a "agent_connection_id owner" c] by simp_all
  from app_inv_track [OF assms l reg] app_inv_track [OF assms l registry_inv_close [OF reg(1)]] reg(2)
  show ?thesis
    by (auto simp: eq Let_def intro: agent_revocation.teardown_deliver_app_inv)
qed (use assms in simp)

section \<open>Properties\<close>

text \<open>
  C19. Input passes only under the sender's own live lease: when a viewer's input is accepted, the user is
  an operator, the agent's connection is open, and its unexpired lease is held under the given token
  by exactly this viewer socket, user and connection; the command was authorized against the current
  grants, is now the last entry of that agent's queue, and the lease tracks what it presses or
  releases.
\<close>

theorem accepted_input_under_own_lease:
  assumes "send_viewer_input env st a viewer user token cmd now = (Ok (), st')"
  shows "\<exists>tok l c ch. token = Some tok \<and> is_operator user
    \<and> hm_get (leases (sessions (control st))) a = Some l \<and> now < expires_at (grant l) \<and> grant_token (grant l) = tok
    \<and> viewer_connection_id (grant_owner (grant l)) = viewer \<and> owner_user_id (grant_owner (grant l)) = user_id user
    \<and> open_conn (agents st) a = Some (agent_connection_id (grant_owner (grant l)))
    \<and> authorize_agent_command (fmt env) (agents st) a cmd = Ok c
    \<and> hm_get (cmds (agents st)) a = Some ch
    \<and> hm_get (cmds (agents st')) a = Some (ch\<lparr>queue := queue ch @ [Text c]\<rparr>)
    \<and> fst (track (held l) cmd) = Ok ()
    \<and> hm_get (leases (sessions (control st'))) a = Some (l\<lparr>held := snd (track (held l) cmd)\<rparr>)"
proof (rule send_viewer_input_cases [of env st a viewer user token cmd now])
  fix owner tok c l r reg
  assume tok: "token = Some tok" and owner: "current_control_owner st a viewer user = Ok owner"
    and c: "authorize_agent_command (fmt env) (agents st) a cmd = Ok c"
    and h: "holds (sessions (control st)) a owner tok now" and l: "lease_of (sessions (control st)) a = Some l"
    and tr: "fst (track (held l) cmd) = Ok ()"
    and q: "enqueue_authorized_command (agents st) a (agent_connection_id owner) c = (r, reg)"
    and eq: "send_viewer_input env st a viewer user token cmd now =
        (let st1 = set_sessions st ((sessions (control st))
               \<lparr>leases := hm_insert a (l\<lparr>held := snd (track (held l) cmd)\<rparr>) (leases (sessions (control st)))\<rparr>)
         in if is_err r
            then (r, snd (teardown_deliver (fmt env)
                       (st1\<lparr>agents := close_conn reg a (agent_connection_id owner) []\<rparr>)
                       (\<lambda>s. revoke_agent s a (agent_connection_id owner))))
            else (r, st1\<lparr>agents := reg\<rparr>))"
  have r: "r = Ok ()" using assms eq by (auto simp: Let_def split: if_splits)
  with assms eq have st': "st' = (set_sessions st ((sessions (control st))
      \<lparr>leases := hm_insert a (l\<lparr>held := snd (track (held l) cmd)\<rparr>) (leases (sessions (control st)))\<rparr>))\<lparr>agents := reg\<rparr>"
    by (simp add: Let_def)
  have own: "grant_owner (grant l) = owner" "grant_token (grant l) = tok" "now < expires_at (grant l)"
    using h l by (auto simp: holds_def live_def)
  show ?thesis
  proof (rule enqueue_cases [of "agents st" a "agent_connection_id owner" c])
    fix ch ch'
    assume "hm_get (cmds (agents st)) a = Some ch" "try_send ch (Text c) = Some ch'"
      "enqueue_authorized_command (agents st) a (agent_connection_id owner) c =
        (Ok (), (agents st)\<lparr>cmds := hm_insert a ch' (cmds (agents st))\<rparr>)"
    with q have "hm_get (cmds reg) a = Some (ch\<lparr>queue := queue ch @ [Text c]\<rparr>)" "hm_get (cmds (agents st)) a = Some ch"
      by (auto simp: try_send_def split: if_splits)
    with tok current_control_owner_ok [OF owner] l own c tr show ?thesis by (simp add: st')
  qed (use q r in auto)
qed (use assms in auto)

definition example_user :: AuthUser where
  "example_user = \<lparr> user_id = 2, username = ''op'', role = ''operator'' \<rparr>"

lemma example_input_accepted:
  "fst (send_viewer_input example_env example_app 9 1 example_user (Some 7) example_move 5) = Ok ()"
proof -
  have "module_authorized (agents example_app) 9 RemoteInput"
    using example_live_authorized(2) by (simp add: example_app_def example_live_def)
  moreover have "v_get example_move ''__module_generation'' = None" "v_get example_move ''__capture_generation'' = None"
    by (simp_all add: example_move_def)
  ultimately obtain c where "authorize_agent_command binary_fmt (agents example_app) 9 example_move = Ok c"
    using authorize_granted [OF example_move_gate] by metis
  moreover have "track \<lparr> keys = 1, buttons = [None, Some (3, 4), None] \<rparr> example_move =
      (Ok (), \<lparr> keys = 1, buttons = [None, Some (0, 0), None] \<rparr>)"
    by (simp add: track_def example_move_def HeldInput_position_def move_held_def i32_try_from_def
        json_int_def i64_max_def i32_min_def i32_max_def)
  ultimately show ?thesis
    by (simp add: send_viewer_input_def example_env_def current_control_owner_def is_operator_def example_user_def example_app_def
        example_registry_def example_conn_def authorize_and_track_def authorize_def expire_agent_def check_def
        example_sessions_def example_owner_def enqueue_authorized_command_def channel_new_def try_send_def
        AGENT_CMD_CHANNEL_CAPACITY_def)
qed

theorem accepted_input_under_own_lease_witness:
  "\<exists>l. hm_get (leases (sessions (control example_app))) 9 = Some l \<and> 5 < expires_at (grant l) \<and> grant_token (grant l) = 7"
  using accepted_input_under_own_lease [of example_env example_app 9 1 example_user "Some 7" example_move 5]
    example_input_accepted by (metis option.inject prod.collapse)

text \<open>
  The tracker never runs ahead of the host: when input is refused, for whatever reason, a lease the
  agent still has is the one it had before the call, with the same held keys and buttons. In particular
  a command that was tracked and then could not be queued costs its sender the lease.
\<close>

theorem refused_input_is_not_tracked:
  assumes "app_inv st"
    and "send_viewer_input env st a viewer user token cmd now = (r, st')"
    and "hm_get (leases (sessions (control st'))) a = Some l'" and "is_err r"
  shows "hm_get (leases (sessions (control st))) a = Some l'"
proof (rule send_viewer_input_cases [of env st a viewer user token cmd now])
  fix e
  assume "send_viewer_input env st a viewer user token cmd now = (Err e, st)"
  with assms show ?thesis by simp
next
  fix e owner tok
  let ?at = "authorize_and_track (sessions (control st)) a owner tok cmd now"
  assume err: "is_err (result (fst ?at))"
    and "send_viewer_input env st a viewer user token cmd now =
        (Err e, snd (deliver_control_cleanup (fmt env) (set_sessions st (snd ?at)) (cleanup (fst ?at))))"
  with assms(2) have "st' = snd (deliver_control_cleanup (fmt env) (set_sessions st (snd ?at)) (cleanup (fst ?at)))" by simp
  with assms(3) have l': "lease_of (snd ?at) a = Some l'" by simp
  show ?thesis
  proof (cases "holds (sessions (control st)) a owner tok now")
    case True
    then obtain l where l: "lease_of (sessions (control st)) a = Some l" by (auto simp: holds_def)
    obtain e' h' where "track (held l) cmd = (Err e', h')"
      using err True l by (cases "track (held l) cmd"; cases "fst (track (held l) cmd)") (auto simp: authorize_and_track_eq)
    moreover from this have "h' = held l" by (rule track_error_unchanged)
    ultimately show ?thesis using True l l' by (simp add: authorize_and_track_eq)
  next
    case False
    then have eq: "?at = authorize (sessions (control st)) a owner tok now" by (simp add: authorize_and_track_eq)
    show ?thesis
      by (rule authorize_cases [of "sessions (control st)" a owner tok now]) (use l' eq in auto)
  qed
next
  fix owner tok c l r' reg
  assume owner: "current_control_owner st a viewer user = Ok owner" and l: "lease_of (sessions (control st)) a = Some l"
    and q: "enqueue_authorized_command (agents st) a (agent_connection_id owner) c = (r', reg)"
    and eq: "send_viewer_input env st a viewer user token cmd now =
        (let st1 = set_sessions st ((sessions (control st))
               \<lparr>leases := hm_insert a (l\<lparr>held := snd (track (held l) cmd)\<rparr>) (leases (sessions (control st)))\<rparr>)
         in if is_err r'
            then (r', snd (teardown_deliver (fmt env)
                       (st1\<lparr>agents := close_conn reg a (agent_connection_id owner) []\<rparr>)
                       (\<lambda>s. revoke_agent s a (agent_connection_id owner))))
            else (r', st1\<lparr>agents := reg\<rparr>))"
  let ?st2 = "(set_sessions st ((sessions (control st))
      \<lparr>leases := hm_insert a (l\<lparr>held := snd (track (held l) cmd)\<rparr>) (leases (sessions (control st)))\<rparr>))
      \<lparr>agents := close_conn reg a (agent_connection_id owner) []\<rparr>"
  have reg: "registry_inv reg" "\<And>b. current_conn reg b = current_conn (agents st) b"
    using enqueue_registry_inv [OF app_invD(1) [OF assms(1)], of a "agent_connection_id owner" c] q
      enqueue_conns(1) [of "agents st" a "agent_connection_id owner" c] by simp_all
  have "app_inv ?st2"
    using app_inv_track [OF assms(1) l registry_inv_close [OF reg(1)]] reg(2) by simp
  moreover have "current_conn (agents ?st2) a = Some (agent_connection_id owner)"
    using open_conn_SomeD [OF current_control_owner_ok(1) [OF owner]] reg(2) by simp
  ultimately have "lease_of (sessions (control (snd (teardown_deliver (fmt env) ?st2
      (\<lambda>s. revoke_agent s a (agent_connection_id owner)))))) a = None"
    using revoke_current(1) [of ?st2 a "agent_connection_id owner" "fmt env"] app_invD(2) [of ?st2]
    by (simp add: revoke_agent_control_locked_def)
  with assms(2,3,4) eq show ?thesis by (cases r') (auto simp: Let_def)
qed

text \<open>The example with its stream session running, a state that satisfies every invariant.\<close>

definition example_full :: AppState where
  "example_full = example_app\<lparr> media := example_live_media \<rparr>"

lemma example_registry_inv: "registry_inv example_registry"
  using example_report_validated
  by (auto simp: registry_inv_def example_registry_def AgentRegistry_default_def hm_wf_def example_conn_def current_conn_def
      queue_ok_def runtime_ok_def channel_new_def example_runtime_def split: if_splits)

lemma example_full_inv: "app_inv example_full"
proof -
  have "control_inv example_full"
    using example_app_control_inv by (simp add: control_inv_def example_full_def)
  moreover have "media_inv example_full"
    by (auto simp: media_inv_def example_full_def example_app_def example_live_media_def LiveMedia_default_def hm_wf_def
        example_registry_def current_conn_def example_conn_def count_sessions_def hm_values_def example_frozen_def
        example_owner_def split: if_splits)
  ultimately show ?thesis using example_registry_inv by (simp add: app_inv_def example_full_def example_app_def)
qed

theorem refused_input_is_not_tracked_witness:
  "\<exists>l'. hm_get (leases (sessions (control (snd (send_viewer_input example_env example_full 9 1 example_user (Some 8) example_move 5))))) 9
         = Some l' \<and> hm_get (leases (sessions (control example_full))) 9 = Some l'"
proof -
  let ?s = "send_viewer_input example_env example_full 9 1 example_user (Some 8) example_move 5"
  have "module_authorized (agents example_full) 9 RemoteInput"
    using example_live_authorized(2) by (simp add: example_full_def example_app_def example_live_def)
  moreover have "v_get example_move ''__module_generation'' = None" "v_get example_move ''__capture_generation'' = None"
    by (simp_all add: example_move_def)
  ultimately obtain c where "authorize_agent_command binary_fmt (agents example_full) 9 example_move = Ok c"
    using authorize_granted [OF example_move_gate] by metis
  then have err: "is_err (fst ?s)" and keep: "\<exists>l'. hm_get (leases (sessions (control (snd ?s)))) 9 = Some l'"
    by (simp_all add: send_viewer_input_def example_env_def current_control_owner_def is_operator_def example_user_def example_full_def
        example_app_def example_registry_def example_conn_def authorize_and_track_def authorize_def expire_agent_def
        check_def example_sessions_def example_owner_def)
  from keep obtain l' where "hm_get (leases (sessions (control (snd ?s)))) 9 = Some l'" ..
  with refused_input_is_not_tracked [OF example_full_inv prod.collapse [symmetric] this err] show ?thesis by blast
qed

lemma commit_frame [simp]:
  "sessions (control (commit_control_capture st a c)) = sessions (control st)"
  "capture (control (commit_control_capture st a c)) = capture (control st)"
  by (simp_all add: commit_control_capture_def Let_def split: option.split)

lemma freeze_sessions [simp]: "sessions (control (freeze_capture st a c)) = sessions (control st)"
  by (simp add: freeze_capture_def)

lemma media_inv_capture:
  assumes "media_inv st" "hm_get (capture (control st)) a = Some c"
  shows "\<exists>s. hm_get (mjpeg_sessions (media st)) (fc_session_id c) = Some s \<and> mj_agent_id s = a
    \<and> mj_user_id s = owner_user_id (fc_owner c)"
  using assms unfolding media_inv_def by blast

lemma grant_control_ok:
  assumes "grant_control f st a owner c now fresh = (Ok r, st')" "control_inv st"
    "\<And>l. lease_of (sessions (control st)) a = Some l \<Longrightarrow> live l now"
  shows "\<exists>l. r = Some (grant l) \<and> lease_of (sessions (control st')) a = Some l
    \<and> grant_owner (grant l) = owner \<and> live l now"
proof (cases "lease_of (sessions (control st)) a")
  case None
  have "now < deadline now DEFAULT_LEASE_TTL"
    using deadline_bounds(1) [of now DEFAULT_LEASE_TTL] by (simp add: from_secs_def)
  with assms(1) show ?thesis
    unfolding grant_control_free [OF None] by (auto simp: fresh_grant_def live_def)
next
  case (Some l)
  moreover have "hm_contains (capture (control st)) a"
    using lease_iff_capture [OF assms(2), of a] Some by simp
  ultimately show ?thesis
    using grant_control_live [of st a l now f owner c fresh] assms(1,3) by (auto split: if_splits)
qed

lemma control_acquire_ok:
  assumes "app_inv st" "control_acquire env st a owner value now clock fresh = (Ok r, st')"
  shows "\<exists>l. r = Some (grant l) \<and> lease_of (sessions (control st')) a = Some l
    \<and> grant_owner (grant l) = owner \<and> live l now"
proof -
  define st1 where "st1 = snd (teardown_deliver (fmt env) st (\<lambda>s. expire_agent s a now))"
  have inv1: "app_inv st1" unfolding st1_def by (rule agent_expiry.teardown_deliver_app_inv [OF assms(1)])
  have live1: "live l now" if "lease_of (sessions (control st1)) a = Some l" for l
    using expire_agent_none_left [OF control_invD(1) [OF app_invD(2) [OF assms(1)]], of a now l] that
    by (simp add: st1_def teardown_deliver_sessions)
  show ?thesis
  proof (rule control_acquire_cases [of env st a owner "value" now clock fresh, folded st1_def])
    fix frozen
    assume "control_acquire env st a owner value now clock fresh = grant_control (fmt env) st1 a owner frozen now fresh"
    then have "grant_control (fmt env) st1 a owner frozen now fresh = (Ok r, st')" using assms(2) by simp
    from grant_control_ok [OF this app_invD(2) [OF inv1] live1] show ?thesis .
  qed (use assms(2) in simp)
qed

text \<open>
  C18. Control is granted only to whom the request says: a successful acquire leaves a live lease owned
  by this viewer socket, this user, who is an operator, and the agent connection that was open when
  the request came in, on a device that currently grants remote input; the reply carries that very
  grant, and a capture is frozen for the same owner on a running stream session of the same user and
  device.
\<close>

theorem acquired_control_is_bound:
  assumes "app_inv st" and "control_lease_op env st a viewer user ''control_acquire'' value now clock fresh = (Ok r, st')"
  shows "\<exists>l c s. r = Some (grant l) \<and> hm_get (leases (sessions (control st'))) a = Some l \<and> now < expires_at (grant l)
    \<and> viewer_connection_id (grant_owner (grant l)) = viewer \<and> owner_user_id (grant_owner (grant l)) = user_id user
    \<and> is_operator user \<and> open_conn (agents st) a = Some (agent_connection_id (grant_owner (grant l)))
    \<and> module_authorized (agents st) a RemoteInput
    \<and> hm_get (capture (control st')) a = Some c \<and> fc_owner c = grant_owner (grant l)
    \<and> hm_get (mjpeg_sessions (media st')) (fc_session_id c) = Some s \<and> mj_agent_id s = a \<and> mj_user_id s = user_id user"
proof -
  have inv': "app_inv st'"
    using control_lease_op_app_inv [OF assms(1), of env a viewer user "''control_acquire''" "value" now clock fresh] assms(2)
    by simp
  obtain owner where owner: "current_control_owner st a viewer user = Ok owner"
    using assms(2) by (cases "current_control_owner st a viewer user") (auto simp: control_lease_op_def)
  moreover have probe: "is_ok (authorize_agent_command (fmt env) (agents st) a probe_move)"
    using assms(2) owner
    by (cases "authorize_agent_command (fmt env) (agents st) a probe_move") (auto simp: control_lease_op_def)
  ultimately have "control_acquire env st a owner value now clock fresh = (Ok r, st')"
    using assms(2) by (cases "authorize_agent_command (fmt env) (agents st) a probe_move") (auto simp: control_lease_op_def)
  from control_acquire_ok [OF assms(1) this] obtain l where l: "r = Some (grant l)"
    "lease_of (sessions (control st')) a = Some l" "grant_owner (grant l) = owner" "live l now" by blast
  have "lease_owner_of (sessions (control st')) a = Some owner" using l(2,3) by (simp add: lease_owner_of_def)
  with control_invD(3) [OF app_invD(2) [OF inv'], of a] obtain c where
    c: "hm_get (capture (control st')) a = Some c" "fc_owner c = owner" by auto
  then obtain s where "hm_get (mjpeg_sessions (media st')) (fc_session_id c) = Some s" "mj_agent_id s = a"
    "mj_user_id s = owner_user_id owner"
    using media_inv_capture [OF app_invD(3) [OF inv'] c(1)] by auto
  moreover have "module_authorized (agents st) a RemoteInput"
    using probe authorize_module_iff [of "fmt env" probe_move RemoteInput "agents st" a]
    by (simp add: probe_move_def example_move_gate [unfolded example_move_def])
  ultimately show ?thesis
    using l c current_control_owner_ok [OF owner] by (auto simp: live_def)
qed

lemma example_live_inv: "app_inv example_live"
  using app_invD(3) [OF example_full_inv] example_registry_inv app_invD(2) [OF app_inv_new]
  by (auto simp: app_inv_def example_live_def example_full_def example_app_def media_inv_def control_inv_def AppState_new_def
      ControlRuntime_default_def lease_owner_of_def ControlSessions_default_def)

lemma example_acquired:
  assumes "reads_example env"
  shows "\<exists>r st'. control_lease_op env example_live 9 1 example_user ''control_acquire'' example_acquire 5 7 13 = (Ok r, st')"
proof -
  let ?c = "control_lease_op env example_live 9 1 example_user ''control_acquire'' example_acquire 5 7 13"
  obtain c where "authorize_agent_command binary_fmt (agents example_live) 9 probe_move = Ok c"
    using authorize_module_iff [of binary_fmt probe_move RemoteInput "agents example_live" 9] example_live_authorized(2)
    by (cases "authorize_agent_command binary_fmt (agents example_live) 9 probe_move")
      (auto simp: probe_move_def example_move_gate [unfolded example_move_def])
  moreover have "current_control_owner example_live 9 1 example_user = Ok example_owner"
    by (simp add: current_control_owner_def is_operator_def example_user_def example_live_def example_registry_def example_conn_def example_owner_def)
  moreover have "fmt env = binary_fmt" using assms by (simp add: reads_example_def)
  ultimately have "?c = control_acquire env example_live 9 example_owner example_acquire 5 7 13"
    by (simp add: control_lease_op_def)
  moreover have free: "lease_of (sessions (control example_live)) 9 = None" "hm_get (capture (control example_live)) 9 = None"
    by (simp_all add: example_live_def AppState_new_def ControlRuntime_default_def ControlSessions_default_def)
  moreover have "teardown_deliver f example_live (\<lambda>s. expire_agent s 9 5) = (True, example_live)" for f
    using free(1) by (simp add: teardown_deliver_def expire_agent_none)
  ultimately have "is_ok (fst ?c)"
    using example_validated [OF assms] grant_control_free [OF free(1)] by (auto simp: control_acquire_def)
  then show ?thesis by (cases ?c; cases "fst ?c") auto
qed

theorem acquired_control_is_bound_witness:
  "\<exists>l. hm_get (leases (sessions (control (snd (control_lease_op example_env example_live 9 1 example_user
     ''control_acquire'' example_acquire 5 7 13))))) 9 = Some l \<and> owner_user_id (grant_owner (grant l)) = 2"
proof -
  obtain r st' where c: "control_lease_op example_env example_live 9 1 example_user ''control_acquire'' example_acquire 5 7 13 = (Ok r, st')"
    using example_acquired [OF reads_example_env] by blast
  from acquired_control_is_bound [OF example_live_inv c] show ?thesis
    unfolding c by (auto simp: example_user_def)
qed

end
