(* ===== verification/ClipboardRpc.thy ===== *)
theory ClipboardRpc
  imports ControlMessages
begin

text \<open>
  The clipboard requests of an operator (\<open>server/src/control/clipboard.rs\<close>): one HTTP request is one
  pending entry, fenced to a device, a connection, a lease and the generation of the clipboard grant,
  and answered at most once over its one-shot channel.

  The two clock readings of \<open>clipboard_valid_locked\<close> are its arguments \<open>t1\<close> and \<open>t2\<close>, the random request
  id is \<open>fresh\<close>. \<open>exchange\<close> is cut at its await points: \<open>exchange_begin\<close> runs up to the wait loop,
  \<open>exchange_reply\<close> and \<open>exchange_tick\<close> are the arms of its \<open>select!\<close>. A response that leaves the function
  drops the guard, \<open>waiter_drop\<close>.
\<close>

section \<open>Requests\<close>

definition MAX_TEXT_BYTES :: nat where "MAX_TEXT_BYTES = 64 * 1024"

definition TIMEOUT :: Duration where "TIMEOUT = from_secs 5"

record ClipRequest =
  rq_action :: string
  rq_control_token :: Uuid
  rq_text :: "string option"

definition clipboard_denied :: "string \<Rightarrow> CommandDenied" where
  "clipboard_denied message = CommandDenied_new ''clipboard_unavailable'' message (Some Module.Clipboard)"

definition text_ok :: "string \<Rightarrow> bool" where
  "text_ok t = (length t \<le> MAX_TEXT_BYTES \<and> CHR 0x00 \<notin> set t)"

definition request_command :: "ClipRequest \<Rightarrow> Uuid \<Rightarrow> (ServerCommand, CommandDenied) Result" where
  "request_command rq rid =
     (let bad = Err (CommandDenied_new ''invalid_request''
        ''Use read without text, or write with text of at most 65,536 UTF-8 bytes and no NUL characters.'' None) in
      case rq_text rq of
        None \<Rightarrow> if rq_action rq = ''read'' then Ok (ClipboardRead (ClipboardRequest_new rid)) else bad
      | Some text \<Rightarrow> if rq_action rq = ''write'' \<and> text_ok text
          then Ok (ServerCommand.ClipboardWrite (ClipboardWrite_new rid text)) else bad)"

section \<open>The fence\<close>

definition clipboard_valid_locked ::
  "Uuid_fmt \<Rightarrow> AppState \<Rightarrow> PendingClipboard \<Rightarrow> Instant \<Rightarrow> Instant \<Rightarrow> bool \<times> AppState" where
  "clipboard_valid_locked f st p t1 t2 =
     (if pc_deadline p \<le> t1
         \<or> \<not> is_some_and (hm_get (connections (agents st)) (pc_agent p))
               (\<lambda>c. conn_id c = agent_connection_id (pc_owner p) \<and> shutdown c = None)
      then (False, st)
      else
        (let (t, s') = authorize (sessions (control st)) (pc_agent p) (pc_owner p) (pc_token p) t2;
             st1 = snd (deliver_control_cleanup f (set_sessions st s') (cleanup t)) in
         if is_err (result t) then (False, st1)
         else if is_err (authorize_agent_command f (agents st1) (pc_agent p) probe_move) then (False, st1)
         else
           (case authorize_agent_command f (agents st1) (pc_agent p) (v_remove (pc_fence p) ''__module_generation'') of
              Inl _ \<Rightarrow> (False, st1)
            | Inr v \<Rightarrow> (v_index v ''__module_generation'' = v_index (pc_fence p) ''__module_generation'', st1))))"

definition set_clipboard :: "AppState \<Rightarrow> (Uuid, PendingClipboard) HashMap \<Rightarrow> AppState" where
  "set_clipboard st m = st\<lparr>control := (control st)\<lparr>clipboard := m\<rparr>\<rparr>"

definition clipboard_deliverable_locked ::
  "Uuid_fmt \<Rightarrow> AppState \<Rightarrow> Uuid \<Rightarrow> Uuid \<Rightarrow> Value \<Rightarrow> Instant \<Rightarrow> Instant \<Rightarrow> bool \<times> AppState" where
  "clipboard_deliverable_locked f st agent conn cmd t1 t2 =
     (case uuid_field f cmd ''request_id'' of
        None \<Rightarrow> (False, st)
      | Some rid \<Rightarrow>
          (case hm_get (clipboard (control st)) rid of
             None \<Rightarrow> (False, st)
           | Some p \<Rightarrow>
               (let st1 = set_clipboard st (hm_remove rid (clipboard (control st)));
                    (valid, st2) =
                      (if pc_agent p = agent \<and> agent_connection_id (pc_owner p) = conn
                          \<and> v_index (pc_fence p) ''type'' = v_index cmd ''type''
                          \<and> v_index (pc_fence p) ''__module_generation'' = v_index cmd ''__module_generation''
                       then clipboard_valid_locked f st1 p t1 t2 else (False, st1))
                in (valid, set_clipboard st2 (hm_insert rid p (clipboard (control st2)))))))"

section \<open>The answer\<close>

definition reply_error :: "string \<Rightarrow> Value" where
  "reply_error e = json_obj [(''ok'', Bool False), (''error'', Str e)]"

definition clipboard_reply :: "PendingClipboard \<Rightarrow> bool \<Rightarrow> Value \<Rightarrow> Value" where
  "clipboard_reply p valid value =
     (if \<not> valid then reply_error ''Clipboard permission, connection, or control lease was revoked.''
      else if v_index value ''ok'' = Bool True then
        (if v_index (pc_fence p) ''type'' = Str ''ClipboardRead'' then
           (case option_filter text_ok (as_str (v_index value ''text'')) of
              Some text \<Rightarrow> json_obj [(''ok'', Bool True), (''text'', Str text)]
            | None \<Rightarrow> reply_error ''Agent returned invalid or oversized clipboard text.'')
         else json_obj [(''ok'', Bool True)])
      else reply_error ''Agent could not access clipboard text; permission may have been revoked or the desktop clipboard may be unavailable.'')"

definition complete_clipboard ::
  "Uuid_fmt \<Rightarrow> AppState \<Rightarrow> Uuid \<Rightarrow> Uuid \<Rightarrow> Value \<Rightarrow> Instant \<Rightarrow> Instant \<Rightarrow> AppState" where
  "complete_clipboard f st agent conn value t1 t2 =
     (case uuid_field f value ''request_id'' of
        None \<Rightarrow> st
      | Some rid \<Rightarrow>
          (case hm_get (clipboard (control st)) rid of
             None \<Rightarrow> st
           | Some p \<Rightarrow>
               if pc_agent p \<noteq> agent \<or> agent_connection_id (pc_owner p) \<noteq> conn
               then set_clipboard st (hm_insert rid p (hm_remove rid (clipboard (control st))))
               else
                 (let (valid, st1) = clipboard_valid_locked f
                        (set_clipboard st (hm_remove rid (clipboard (control st)))) p t1 t2;
                      reply = clipboard_reply p valid value;
                      st2 = (if pc_sender p then st1\<lparr>oneshots := oneshots st1 @ [(rid, reply)]\<rparr> else st1)
                  in set_clipboard st2 (hm_insert rid (p\<lparr>pc_sender := False\<rparr>) (clipboard (control st2))))))"

section \<open>The exchange\<close>

definition waiter_drop :: "Uuid_fmt \<Rightarrow> AppState \<Rightarrow> Uuid \<Rightarrow> AppState" where
  "waiter_drop f st rid =
     (case hm_get (clipboard (control st)) rid of
        None \<Rightarrow> st
      | Some p \<Rightarrow>
          (let st1 = set_clipboard st (hm_remove rid (clipboard (control st)))
           in st1\<lparr>agents := snd (enqueue_authorized_command (agents st1) (pc_agent p)
                (agent_connection_id (pc_owner p)) (to_value f (ClipboardCancel (ClipboardRequest_new rid))))\<rparr>))"

datatype ClipResponse = RespDenied CommandDenied | RespError nat string string | RespJson Value

fun http_status_of :: "ClipResponse \<Rightarrow> nat" where
  "http_status_of (RespDenied d) = response_status d"
| "http_status_of (RespError n _ _) = n"
| "http_status_of (RespJson _) = 200"

text \<open>The record of one request, written when the request ends or its client goes away.\<close>

record ClipboardAudit =
  ca_direction :: string
  ca_bytes :: "nat option"
  ca_http_status :: "nat option"

definition audit_outcome :: "ClipboardAudit \<Rightarrow> string" where
  "audit_outcome au =
     (case ca_http_status au of
        None \<Rightarrow> ''cancelled''
      | Some status \<Rightarrow>
          if 200 \<le> status \<and> status < 300 then ''ok''
          else if status = 504 then ''timeout''
          else if status \<in> {403, 409, 429, 503} then ''denied''
          else if status = 400 then ''invalid''
          else ''failed'')"

definition audit_detail :: "ClipboardAudit \<Rightarrow> string \<times> Value" where
  "audit_detail au =
     (let outcome = audit_outcome au;
          status = (if outcome = ''ok'' then ''ok'' else ''rejected'')
      in (status, json_obj [(''direction'', Str (ca_direction au)), (''bytes'', json_opt json_nat (ca_bytes au)),
            (''outcome'', Str outcome), (''http_status'', json_opt json_nat (ca_http_status au))]))"

definition audit_begin :: "ClipRequest \<Rightarrow> ClipboardAudit" where
  "audit_begin rq = \<lparr> ca_direction = (if rq_action rq = ''read'' then ''read''
       else if rq_action rq = ''write'' then ''write'' else ''invalid''),
     ca_bytes = map_option length (rq_text rq), ca_http_status = None \<rparr>"

definition clipboard_busy :: ClipResponse where
  "clipboard_busy = RespError 429 ''clipboard_busy'' ''A clipboard request is already in progress.''"

text \<open>The end of the locked block: the entry is admitted, then its command is queued.\<close>

definition exchange_admit ::
  "AppState \<Rightarrow> Uuid \<Rightarrow> Uuid \<Rightarrow> PendingClipboard \<Rightarrow> Value \<Rightarrow> (unit, ClipResponse) Result \<times> AppState" where
  "exchange_admit st agent rid p authorized =
     (if 128 \<le> length (clipboard (control st)) \<or> list_ex (\<lambda>q. pc_agent q = agent) (hm_values (clipboard (control st)))
      then (Err clipboard_busy, st)
      else
        (let st1 = set_clipboard st (hm_insert rid p (clipboard (control st)));
             (r, reg) = enqueue_authorized_command (agents st1) agent (agent_connection_id (pc_owner p)) authorized in
         case r of
           Inl e \<Rightarrow> (Err (RespDenied e), set_clipboard st1 (hm_remove rid (clipboard (control st1))))
         | Inr _ \<Rightarrow> (Ok (), st1\<lparr>agents := reg\<rparr>)))"

definition exchange_begin ::
  "Uuid_fmt \<Rightarrow> AppState \<Rightarrow> Uuid \<Rightarrow> AuthUser \<Rightarrow> ClipRequest \<Rightarrow> Uuid \<Rightarrow> Instant \<Rightarrow> Instant \<Rightarrow> Instant
    \<Rightarrow> (unit, ClipResponse) Result \<times> AppState" where
  "exchange_begin f st agent user rq fresh t0 t1 t2 =
     (if \<not> is_operator user then (Err (RespDenied (clipboard_denied ''Operator permission is required.'')), st)
      else case request_command rq fresh of
        Inl e \<Rightarrow> (Err (RespError 400 (code e) (error e)), st)
      | Inr command \<Rightarrow>
     (case http_owner (sessions (control st)) agent (user_id user) (rq_control_token rq) of
        None \<Rightarrow> (Err (RespDenied (clipboard_denied ''An active control token belonging to this user is required.'')), st)
      | Some owner \<Rightarrow>
     (case authorize_agent_command f (agents st) agent (to_value f command) of
        Inl e \<Rightarrow> (Err (RespDenied e), st)
      | Inr authorized \<Rightarrow>
          (let p = \<lparr> pc_agent = agent, pc_owner = owner, pc_token = rq_control_token rq, pc_deadline = t0 + TIMEOUT,
                     pc_fence = v_remove authorized ''text'', pc_sender = True \<rparr>;
               (valid, st1) = clipboard_valid_locked f st p t1 t2 in
           if \<not> valid
           then (Err (RespDenied (clipboard_denied ''Control lease, connection, or device permission is no longer valid.'')), st1)
           else exchange_admit st1 agent fresh p authorized))))"

text \<open>The one-shot channel has a reply: what the client gets, and the byte count of the audit record.\<close>

definition exchange_reply ::
  "Uuid_fmt \<Rightarrow> AppState \<Rightarrow> Uuid \<Rightarrow> Value option \<Rightarrow> ClipboardAudit \<Rightarrow> Instant \<Rightarrow> Instant
    \<Rightarrow> ClipResponse \<times> ClipboardAudit \<times> AppState" where
  "exchange_reply f st rid reply au t1 t2 =
     (let st0 = set_clipboard st (hm_remove rid (clipboard (control st)));
          (valid, st1) = (case hm_get (clipboard (control st)) rid of
                            None \<Rightarrow> (False, st0)
                          | Some p \<Rightarrow> clipboard_valid_locked f st0 p t1 t2);
          st2 = waiter_drop f st1 rid in
      if \<not> valid
      then (RespDenied (clipboard_denied
              ''Clipboard request expired or its control lease, connection, or permission was revoked.''), au, st2)
      else
        (case option_filter (\<lambda>v. v_index v ''ok'' = Bool True) reply of
           Some v \<Rightarrow>
             (RespJson v,
              (case as_str (v_index v ''text'') of None \<Rightarrow> au | Some text \<Rightarrow> au\<lparr>ca_bytes := Some (length text)\<rparr>), st2)
         | None \<Rightarrow> (RespError 502 ''clipboard_failed'' ''Agent could not access bounded clipboard text.'', au, st2)))"

text \<open>The ticker fires: \<open>None\<close> is to go on waiting.\<close>

definition exchange_tick ::
  "Uuid_fmt \<Rightarrow> AppState \<Rightarrow> Uuid \<Rightarrow> Instant \<Rightarrow> Instant \<Rightarrow> Instant \<Rightarrow> ClipResponse option \<times> AppState" where
  "exchange_tick f st rid t0 t1 t2 =
     (let (valid, expired, st1) =
            (case hm_get (clipboard (control st)) rid of
               None \<Rightarrow> (False, False, st)
             | Some p \<Rightarrow>
                 (let (v, s1) = clipboard_valid_locked f (set_clipboard st (hm_remove rid (clipboard (control st)))) p t1 t2
                  in (v, pc_deadline p \<le> t0, set_clipboard s1 (hm_insert rid p (clipboard (control s1)))))) in
      if expired
      then (Some (RespError 504 ''clipboard_timeout'' ''Timed out waiting for the device clipboard.''), waiter_drop f st1 rid)
      else if \<not> valid
      then (Some (RespDenied (clipboard_denied ''Control lease, connection, or clipboard permission was revoked.'')),
            waiter_drop f st1 rid)
      else (None, st1))"

section \<open>The fence holds\<close>

lemma set_clipboard_simps [simp]:
  "clipboard (control (set_clipboard st m)) = m" "agents (set_clipboard st m) = agents st"
  "sessions (control (set_clipboard st m)) = sessions (control st)"
  "capture (control (set_clipboard st m)) = capture (control st)"
  "media (set_clipboard st m) = media st" "oneshots (set_clipboard st m) = oneshots st"
  "tx (set_clipboard st m) = tx st" "detached (set_clipboard st m) = detached st"
  by (simp_all add: set_clipboard_def)

lemma app_inv_clipboard [simp]: "app_inv (set_clipboard st m) = app_inv st"
  by (simp add: app_inv_def control_inv_def media_inv_def)

lemma app_inv_oneshots [simp]: "app_inv (st\<lparr>oneshots := x\<rparr>) = app_inv st"
  by (simp add: app_inv_def control_inv_def media_inv_def)

lemma clipboard_valid_frame [simp, frame_simps]:
  "clipboard (control (snd (clipboard_valid_locked f st p t1 t2))) = clipboard (control st)"
  "oneshots (snd (clipboard_valid_locked f st p t1 t2)) = oneshots st"
  "media (snd (clipboard_valid_locked f st p t1 t2)) = media st"
  "current_conn (agents (snd (clipboard_valid_locked f st p t1 t2))) a = current_conn (agents st) a"
  by (simp_all add: clipboard_valid_locked_def Let_def case_prod_unfold split: sum.split)

lemma clipboard_valid_app_inv [inv_intros]:
  assumes "app_inv st"
  shows "app_inv (snd (clipboard_valid_locked f st p t1 t2))"
proof -
  let ?au = "authorize (sessions (control st)) (pc_agent p) (pc_owner p) (pc_token p) t2"
  have "app_inv (snd (deliver_control_cleanup f (set_sessions st (snd ?au)) (cleanup (fst ?au))))"
    by (rule cleans_deliver_app_inv [OF assms authorize_cleans [OF control_invD(1) [OF app_invD(2) [OF assms]] prod.collapse [symmetric]]])
  with assms show ?thesis by (simp add: clipboard_valid_locked_def Let_def case_prod_unfold split: sum.split)
qed

lemma clipboard_valid_locked_true:
  assumes "fst (clipboard_valid_locked f st p t1 t2)"
  obtains v where "snd (clipboard_valid_locked f st p t1 t2) = st" "t1 < pc_deadline p"
    "open_conn (agents st) (pc_agent p) = Some (agent_connection_id (pc_owner p))"
    "holds (sessions (control st)) (pc_agent p) (pc_owner p) (pc_token p) t2"
    "is_ok (authorize_agent_command f (agents st) (pc_agent p) probe_move)"
    "authorize_agent_command f (agents st) (pc_agent p) (v_remove (pc_fence p) ''__module_generation'') = Ok v"
    "v_index v ''__module_generation'' = v_index (pc_fence p) ''__module_generation''"
proof (rule authorize_cases [of "sessions (control st)" "pc_agent p" "pc_owner p" "pc_token p" t2])
  fix l
  assume l: "lease_of (sessions (control st)) (pc_agent p) = Some l" "live l t2"
    "grant_owner (grant l) = pc_owner p" "grant_token (grant l) = pc_token p"
    and eq: "authorize (sessions (control st)) (pc_agent p) (pc_owner p) (pc_token p) t2 =
      (\<lparr> result = Ok (), cleanup = [] \<rparr>, sessions (control st))"
  have "t1 < pc_deadline p" "is_some_and (hm_get (connections (agents st)) (pc_agent p))
      (\<lambda>c. conn_id c = agent_connection_id (pc_owner p) \<and> shutdown c = None)"
    using assms by (auto simp: clipboard_valid_locked_def split: if_splits)
  moreover from this obtain v where
    "authorize_agent_command f (agents st) (pc_agent p) (v_remove (pc_fence p) ''__module_generation'') = Ok v"
    using assms eq by (cases "authorize_agent_command f (agents st) (pc_agent p) (v_remove (pc_fence p) ''__module_generation'')")
      (auto simp: clipboard_valid_locked_def split: if_splits)
  moreover have "open_conn (agents st) (pc_agent p) = Some (agent_connection_id (pc_owner p))"
    using calculation(2) by (auto simp: open_conn_def is_some_and_def option_filter_def split: option.splits)
  ultimately show ?thesis
    using that [of v] assms eq l by (auto simp: clipboard_valid_locked_def holds_def split: if_splits)
qed (use assms in \<open>simp_all add: clipboard_valid_locked_def split: if_splits\<close>)

definition fence_ok :: "PendingClipboard \<Rightarrow> bool" where
  "fence_ok p \<longleftrightarrow> is_obj (pc_fence p) \<and> kind_of (pc_fence p) \<in> {''ClipboardRead'', ''ClipboardWrite''}
     \<and> v_get (pc_fence p) ''text'' = None"

text \<open>What a live fence means: the lease, the connection and both permissions, all of them now.\<close>

definition clipboard_live :: "AppState \<Rightarrow> PendingClipboard \<Rightarrow> Instant \<Rightarrow> bool" where
  "clipboard_live st p now \<longleftrightarrow>
     open_conn (agents st) (pc_agent p) = Some (agent_connection_id (pc_owner p))
     \<and> holds (sessions (control st)) (pc_agent p) (pc_owner p) (pc_token p) now
     \<and> module_authorized (agents st) (pc_agent p) RemoteInput
     \<and> module_authorized (agents st) (pc_agent p) Module.Clipboard"

lemma clipboard_kind_gate:
  "gate (from_kind f ''ClipboardRead'') = GateModule Module.Clipboard"
  "gate (from_kind f ''ClipboardWrite'') = GateModule Module.Clipboard"
  by (simp_all add: from_kind_def parse_def parse_tagged_def Let_def)

lemma clipboard_gate:
  "kind_of cmd \<in> {''ClipboardRead'', ''ClipboardWrite''} \<Longrightarrow> gate (parse f cmd) = GateModule Module.Clipboard"
  unfolding gate_parse_kind by (elim insertE emptyE) (simp_all only: clipboard_kind_gate)

lemma probe_module:
  "is_ok (authorize_agent_command f reg a probe_move) \<longleftrightarrow> module_authorized reg a RemoteInput"
  using authorize_module_iff [of f probe_move RemoteInput reg a]
  by (simp add: probe_move_def example_move_gate [unfolded example_move_def])

lemma clipboard_valid_live:
  assumes "fst (clipboard_valid_locked f st p t1 t2)" "fence_ok p"
  shows "clipboard_live st p t2" "t1 < pc_deadline p" "snd (clipboard_valid_locked f st p t1 t2) = st"
proof (atomize (full), rule clipboard_valid_locked_true [OF assms(1)])
  fix v
  assume *: "snd (clipboard_valid_locked f st p t1 t2) = st" "t1 < pc_deadline p"
    "open_conn (agents st) (pc_agent p) = Some (agent_connection_id (pc_owner p))"
    "holds (sessions (control st)) (pc_agent p) (pc_owner p) (pc_token p) t2"
    "is_ok (authorize_agent_command f (agents st) (pc_agent p) probe_move)"
    "authorize_agent_command f (agents st) (pc_agent p) (v_remove (pc_fence p) ''__module_generation'') = Ok v"
  have "gate (parse f (v_remove (pc_fence p) ''__module_generation'')) = GateModule Module.Clipboard"
    using assms(2) by (intro clipboard_gate) (simp add: fence_ok_def)
  from authorize_module_iff [OF this, of "agents st" "pc_agent p"] *(6)
  have "module_authorized (agents st) (pc_agent p) Module.Clipboard" by simp
  with * show "clipboard_live st p t2 \<and> t1 < pc_deadline p \<and> snd (clipboard_valid_locked f st p t1 t2) = st"
    by (simp add: clipboard_live_def probe_module)
qed

section \<open>The pending requests\<close>

text \<open>
  At most 128 requests wait, at most one per device; what is kept of a request names its command and
  generation but never its text; a request is answered at most once, and an answer is an error or
  carries at most 65,536 bytes of text without NUL.
\<close>

definition bounded_reply :: "Value \<Rightarrow> bool" where
  "bounded_reply v \<longleftrightarrow> v_get v ''text'' = None
     \<or> (v_index v ''ok'' = Bool True \<and> (\<exists>t. v_get v ''text'' = Some (Str t) \<and> text_ok t))"

definition pending_ok :: "(Uuid, PendingClipboard) HashMap \<Rightarrow> bool" where
  "pending_ok m \<longleftrightarrow> hm_wf m \<and> length m \<le> 128
     \<and> (\<forall>i p. hm_get m i = Some p \<longrightarrow> fence_ok p)
     \<and> (\<forall>i p j q. hm_get m i = Some p \<longrightarrow> hm_get m j = Some q \<longrightarrow> pc_agent p = pc_agent q \<longrightarrow> i = j)"

definition answers_ok :: "(Uuid, PendingClipboard) HashMap \<Rightarrow> (Uuid \<times> Value) list \<Rightarrow> bool" where
  "answers_ok m os \<longleftrightarrow> distinct (map fst os)
     \<and> (\<forall>i v. (i, v) \<in> set os \<longrightarrow> bounded_reply v \<and> is_none_or (hm_get m i) (\<lambda>p. \<not> pc_sender p))"

definition clip_inv :: "AppState \<Rightarrow> bool" where
  "clip_inv st \<longleftrightarrow> pending_ok (clipboard (control st)) \<and> answers_ok (clipboard (control st)) (oneshots st)"

lemma clip_inv_cong:
  "clipboard (control st') = clipboard (control st) \<Longrightarrow> oneshots st' = oneshots st \<Longrightarrow> clip_inv st' = clip_inv st"
  by (simp add: clip_inv_def)

lemma clip_inv_new [simp]: "clip_inv AppState_new"
  by (simp add: clip_inv_def pending_ok_def answers_ok_def AppState_new_def ControlRuntime_default_def)

lemma pending_ok_remove [inv_intros]: "pending_ok m \<Longrightarrow> pending_ok (hm_remove i m)"
  using hm_length_remove_le [of i m] by (auto simp: pending_ok_def split: if_splits)

lemma pending_ok_readmit:
  assumes "pending_ok m" "hm_get m i = Some p" "pc_agent q = pc_agent p" "pc_fence q = pc_fence p"
  shows "pending_ok (hm_insert i q (hm_remove i m))"
proof -
  have "length (hm_insert i q (hm_remove i m)) = length m"
    using assms(1,2) hm_length_remove_old [of m i p]
    by (simp add: hm_length_insert_fresh pending_ok_def)
  moreover have "fence_ok q" using assms by (auto simp: pending_ok_def fence_ok_def)
  ultimately show ?thesis
    using assms by (auto simp: pending_ok_def split: if_splits)
qed

lemma pending_ok_admit:
  assumes "pending_ok m" "length m < 128" "\<forall>q \<in> set (hm_values m). pc_agent q \<noteq> pc_agent p"
    "hm_get m i = None" "fence_ok p"
  shows "pending_ok (hm_insert i p m)"
proof -
  have "\<And>j q. hm_get m j = Some q \<Longrightarrow> pc_agent q \<noteq> pc_agent p"
    using assms(1,3) by (auto simp: pending_ok_def hm_values_set)
  with assms(1,2,4,5) show ?thesis
    by (auto simp: pending_ok_def hm_length_insert_fresh) metis+
qed

lemma answers_ok_remove [inv_intros]: "answers_ok m os \<Longrightarrow> answers_ok (hm_remove i m) os"
  by (auto simp: answers_ok_def is_none_or_def)

lemma answers_ok_readmit:
  assumes "answers_ok m os" "hm_get m i = Some p" "pc_sender q \<longrightarrow> pc_sender p"
  shows "answers_ok (hm_insert i q (hm_remove i m)) os"
  using assms by (fastforce simp: answers_ok_def is_none_or_def)

lemma answers_ok_answer:
  assumes "answers_ok m os" "hm_get m i = Some p" "pc_sender p" "bounded_reply v" "\<not> pc_sender q"
  shows "answers_ok (hm_insert i q (hm_remove i m)) (os @ [(i, v)])"
proof -
  have "i \<notin> fst ` set os"
    using assms(1,2,3) by (fastforce simp: answers_ok_def is_none_or_def)
  with assms show ?thesis
    by (fastforce simp: answers_ok_def is_none_or_def)
qed

lemma clipboard_reply_bounded: "bounded_reply (clipboard_reply p valid value)"
  by (auto simp: bounded_reply_def clipboard_reply_def reply_error_def option_filter_def split: option.splits)

lemma clipboard_deliverable_clip_inv [inv_intros]:
  assumes "clip_inv st"
  shows "clip_inv (snd (clipboard_deliverable_locked f st agent conn cmd t1 t2))"
proof (cases "Option.bind (uuid_field f cmd ''request_id'') (hm_get (clipboard (control st)))")
  case None
  with assms show ?thesis
    by (auto simp: clipboard_deliverable_locked_def bind_eq_None_conv split: option.splits)
next
  case (Some p)
  then obtain i where "uuid_field f cmd ''request_id'' = Some i" "hm_get (clipboard (control st)) i = Some p"
    by (auto simp: bind_eq_Some_conv)
  with assms show ?thesis
    by (auto simp: clipboard_deliverable_locked_def clip_inv_def case_prod_unfold Let_def
        intro: pending_ok_readmit answers_ok_readmit)
qed

lemma clipboard_deliverable_app_inv [inv_intros]:
  "app_inv st \<Longrightarrow> app_inv (snd (clipboard_deliverable_locked f st agent conn cmd t1 t2))"
  by (auto simp: clipboard_deliverable_locked_def case_prod_unfold Let_def split: option.split
      intro: clipboard_valid_app_inv)

lemma complete_clipboard_cases:
  obtains (ignored) "complete_clipboard f st agent conn value t1 t2 = st"
  | (foreign) i p where "uuid_field f value ''request_id'' = Some i" "hm_get (clipboard (control st)) i = Some p"
      "complete_clipboard f st agent conn value t1 t2 = set_clipboard st (hm_insert i p (hm_remove i (clipboard (control st))))"
  | (answered) i p valid st1 where "uuid_field f value ''request_id'' = Some i" "hm_get (clipboard (control st)) i = Some p"
      "pc_agent p = agent" "agent_connection_id (pc_owner p) = conn"
      "clipboard_valid_locked f (set_clipboard st (hm_remove i (clipboard (control st)))) p t1 t2 = (valid, st1)"
      "complete_clipboard f st agent conn value t1 t2 =
         set_clipboard (if pc_sender p then st1\<lparr>oneshots := oneshots st @ [(i, clipboard_reply p valid value)]\<rparr> else st1)
           (hm_insert i (p\<lparr>pc_sender := False\<rparr>) (hm_remove i (clipboard (control st))))"
proof (cases "Option.bind (uuid_field f value ''request_id'') (hm_get (clipboard (control st)))")
  case None
  then show ?thesis
    by (intro ignored) (auto simp: complete_clipboard_def bind_eq_None_conv split: option.splits)
next
  case (Some p)
  then obtain i where i: "uuid_field f value ''request_id'' = Some i" "hm_get (clipboard (control st)) i = Some p"
    by (auto simp: bind_eq_Some_conv)
  show ?thesis
  proof (cases "pc_agent p = agent \<and> agent_connection_id (pc_owner p) = conn")
    case False
    with i show ?thesis by (intro foreign [of i p]) (auto simp: complete_clipboard_def)
  next
    case True
    let ?v = "clipboard_valid_locked f (set_clipboard st (hm_remove i (clipboard (control st)))) p t1 t2"
    have "clipboard (control (snd ?v)) = hm_remove i (clipboard (control st))" "oneshots (snd ?v) = oneshots st"
      by simp_all
    with i True show ?thesis
      by (intro answered [of i p "fst ?v" "snd ?v"]) (auto simp: complete_clipboard_def case_prod_unfold Let_def)
  qed
qed

lemma complete_clipboard_clip_inv [inv_intros]:
  assumes "clip_inv st"
  shows "clip_inv (complete_clipboard f st agent conn value t1 t2)"
proof (cases rule: complete_clipboard_cases [of f st agent conn "value" t1 t2])
  case (answered i p valid st1)
  have "oneshots st1 = oneshots st"
    using clipboard_valid_frame(2) [of f _ p t1 t2] answered(5) by (metis set_clipboard_simps(6) snd_conv)
  with assms answered show ?thesis
    by (auto simp: clip_inv_def intro: pending_ok_readmit answers_ok_readmit answers_ok_answer clipboard_reply_bounded)
qed (use assms in \<open>auto simp: clip_inv_def intro: pending_ok_readmit answers_ok_readmit\<close>)

lemma complete_clipboard_app_inv [inv_intros]:
  assumes "app_inv st"
  shows "app_inv (complete_clipboard f st agent conn value t1 t2)"
proof (cases rule: complete_clipboard_cases [of f st agent conn "value" t1 t2])
  case (answered i p valid st1)
  with clipboard_valid_app_inv [of "set_clipboard st (hm_remove i (clipboard (control st)))" f p t1 t2] assms
  show ?thesis by simp
qed (use assms in simp_all)

lemma app_inv_agents:
  assumes "app_inv st" "registry_inv reg" "\<And>a. current_conn reg a = current_conn (agents st) a"
  shows "app_inv (st\<lparr>agents := reg\<rparr>)"
  using assms by (simp add: app_inv_def control_inv_def media_inv_def)

lemma app_inv_enqueue [inv_intros]:
  "app_inv st \<Longrightarrow> app_inv (st\<lparr>agents := snd (enqueue_authorized_command (agents st) a c cmd)\<rparr>)"
  by (rule app_inv_agents) (simp_all add: enqueue_registry_inv app_invD)

lemma waiter_drop_inv [inv_intros]:
  "app_inv st \<Longrightarrow> app_inv (waiter_drop f st rid)"
  "clip_inv st \<Longrightarrow> clip_inv (waiter_drop f st rid)"
proof -
  show "app_inv (waiter_drop f st rid)" if "app_inv st"
    using that app_inv_enqueue [of "set_clipboard st (hm_remove rid (clipboard (control st)))"]
    by (auto simp: waiter_drop_def split: option.split)
  show "clip_inv (waiter_drop f st rid)" if "clip_inv st"
    using that by (auto simp: waiter_drop_def clip_inv_def pending_ok_remove answers_ok_remove split: option.split)
qed

lemma waiter_drop_gone:
  "hm_get (clipboard (control (waiter_drop f st rid))) rid = None"
  "j \<noteq> rid \<Longrightarrow> hm_get (clipboard (control (waiter_drop f st rid))) j = hm_get (clipboard (control st)) j"
  by (auto simp: waiter_drop_def split: option.split)

lemma exchange_reply_state:
  fixes st rid
  defines "st0 \<equiv> set_clipboard st (hm_remove rid (clipboard (control st)))"
  shows "snd (snd (exchange_reply f st rid reply au t1 t2)) = waiter_drop f (case hm_get (clipboard (control st)) rid of
      None \<Rightarrow> st0 | Some p \<Rightarrow> snd (clipboard_valid_locked f st0 p t1 t2)) rid"
  unfolding st0_def
  by (cases "hm_get (clipboard (control st)) rid"; cases "option_filter (\<lambda>v. v_index v ''ok'' = Bool True) reply")
    (simp_all add: exchange_reply_def case_prod_unfold Let_def)

lemma exchange_reply_inv [inv_intros]:
  "app_inv st \<Longrightarrow> app_inv (snd (snd (exchange_reply f st rid reply au t1 t2)))"
  "clip_inv st \<Longrightarrow> clip_inv (snd (snd (exchange_reply f st rid reply au t1 t2)))"
  unfolding exchange_reply_state
proof -
  let ?st0 = "set_clipboard st (hm_remove rid (clipboard (control st)))"
  show "app_inv (waiter_drop f (case hm_get (clipboard (control st)) rid of None \<Rightarrow> ?st0
      | Some p \<Rightarrow> snd (clipboard_valid_locked f ?st0 p t1 t2)) rid)" if "app_inv st"
    using that by (intro waiter_drop_inv) (auto intro: clipboard_valid_app_inv split: option.split)
  show "clip_inv (waiter_drop f (case hm_get (clipboard (control st)) rid of None \<Rightarrow> ?st0
      | Some p \<Rightarrow> snd (clipboard_valid_locked f ?st0 p t1 t2)) rid)" if "clip_inv st"
    using that by (intro waiter_drop_inv) (auto simp: clip_inv_def pending_ok_remove answers_ok_remove split: option.split)
qed

lemma exchange_tick_state:
  "snd (exchange_tick f st rid t0 t1 t2) \<in> (let st1 = (case hm_get (clipboard (control st)) rid of None \<Rightarrow> st
       | Some p \<Rightarrow> set_clipboard (snd (clipboard_valid_locked f (set_clipboard st (hm_remove rid (clipboard (control st)))) p t1 t2))
           (hm_insert rid p (hm_remove rid (clipboard (control st)))))
     in {st1, waiter_drop f st1 rid})"
  by (auto simp: exchange_tick_def case_prod_unfold Let_def split: option.splits)

lemma exchange_tick_inv [inv_intros]:
  "app_inv st \<Longrightarrow> app_inv (snd (exchange_tick f st rid t0 t1 t2))"
  "clip_inv st \<Longrightarrow> clip_inv (snd (exchange_tick f st rid t0 t1 t2))"
proof -
  let ?st1 = "case hm_get (clipboard (control st)) rid of None \<Rightarrow> st
       | Some p \<Rightarrow> set_clipboard (snd (clipboard_valid_locked f (set_clipboard st (hm_remove rid (clipboard (control st)))) p t1 t2))
           (hm_insert rid p (hm_remove rid (clipboard (control st))))"
  note mem = exchange_tick_state [of f st rid t0 t1 t2, unfolded Let_def]
  show "app_inv (snd (exchange_tick f st rid t0 t1 t2))" if "app_inv st"
  proof -
    have "app_inv ?st1" using that by (auto intro: clipboard_valid_app_inv split: option.split)
    with mem waiter_drop_inv(1) [of ?st1 f rid] show ?thesis by auto
  qed
  show "clip_inv (snd (exchange_tick f st rid t0 t1 t2))" if "clip_inv st"
  proof -
    have "clip_inv ?st1"
      using that by (auto simp: clip_inv_def intro: pending_ok_readmit answers_ok_readmit split: option.split)
    with mem waiter_drop_inv(2) [of ?st1 f rid] show ?thesis by auto
  qed
qed

lemma exchange_admit_inv:
  "app_inv st \<Longrightarrow> app_inv (snd (exchange_admit st agent rid p authorized))"
  "clip_inv st \<Longrightarrow> fence_ok p \<Longrightarrow> pc_agent p = agent \<Longrightarrow> hm_get (clipboard (control st)) rid = None
    \<Longrightarrow> rid \<notin> fst ` set (oneshots st) \<Longrightarrow> clip_inv (snd (exchange_admit st agent rid p authorized))"
proof -
  show "app_inv (snd (exchange_admit st agent rid p authorized))" if "app_inv st"
    using that app_inv_enqueue [of "set_clipboard st (hm_insert rid p (clipboard (control st)))" agent "agent_connection_id (pc_owner p)" authorized]
    by (auto simp: exchange_admit_def case_prod_unfold Let_def split: sum.split)
  assume *: "clip_inv st" "fence_ok p" "pc_agent p = agent" "hm_get (clipboard (control st)) rid = None"
    "rid \<notin> fst ` set (oneshots st)"
  let ?m = "clipboard (control st)"
  show "clip_inv (snd (exchange_admit st agent rid p authorized))"
  proof (cases "128 \<le> length ?m \<or> list_ex (\<lambda>q. pc_agent q = agent) (hm_values ?m)")
    case True
    with *(1) show ?thesis by (simp add: exchange_admit_def)
  next
    case False
    then have m: "pending_ok (hm_insert rid p ?m)"
      using * by (intro pending_ok_admit) (auto simp: clip_inv_def list_ex_iff)
    moreover have "answers_ok (hm_insert rid p ?m) (oneshots st)"
      using *(1,5) by (force simp: clip_inv_def answers_ok_def is_none_or_def)
    ultimately show ?thesis
      using False by (auto simp: exchange_admit_def case_prod_unfold Let_def clip_inv_def pending_ok_remove answers_ok_remove
          split: sum.split)
  qed
qed

lemma request_command_fence:
  assumes "request_command rq rid = Ok command" "authorize_agent_command f reg agent (to_value f command) = Ok c"
  shows "fence_ok \<lparr> pc_agent = a, pc_owner = owner, pc_token = tok, pc_deadline = d, pc_fence = v_remove c ''text'', pc_sender = b \<rparr>"
proof -
  have "kind_of (to_value f command) \<in> {''ClipboardRead'', ''ClipboardWrite''}" "is_obj (to_value f command)"
    using assms(1) by (auto simp: request_command_def Let_def to_value_def split: option.splits if_splits)
  moreover have "v_index c ''type'' = v_index (to_value f command) ''type''"
    by (rule authorize_fields(1) [OF assms(2)]) simp
  moreover have "is_obj c"
    using calculation by (intro v_index_not_Null_is_obj [of c "''type''"]) (auto simp: unwrap_or_def split: option.splits)
  ultimately show ?thesis by (simp add: fence_ok_def)
qed

lemma exchange_begin_inv [inv_intros]:
  "app_inv st \<Longrightarrow> app_inv (snd (exchange_begin f st agent user rq fresh t0 t1 t2))"
  "clip_inv st \<Longrightarrow> hm_get (clipboard (control st)) fresh = None \<Longrightarrow> fresh \<notin> fst ` set (oneshots st)
    \<Longrightarrow> clip_inv (snd (exchange_begin f st agent user rq fresh t0 t1 t2))"
proof -
  show "app_inv (snd (exchange_begin f st agent user rq fresh t0 t1 t2))" if "app_inv st"
    using that by (simp add: exchange_begin_def case_prod_unfold Let_def exchange_admit_inv clipboard_valid_app_inv
        split: sum.split option.split)
  assume *: "clip_inv st" "hm_get (clipboard (control st)) fresh = None" "fresh \<notin> fst ` set (oneshots st)"
  have "clip_inv (snd (clipboard_valid_locked f st p t1 t2))" for p
    using *(1) clip_inv_cong [of "snd (clipboard_valid_locked f st p t1 t2)" st] by simp
  with * show "clip_inv (snd (exchange_begin f st agent user rq fresh t0 t1 t2))"
    by (auto simp: exchange_begin_def case_prod_unfold Let_def split: sum.split option.split
        intro!: exchange_admit_inv(2) request_command_fence)
qed

section \<open>Properties\<close>

text \<open>
  C26. Clipboard text reaches an operator only while everything still holds: when the exchange hands out
  the device's answer, its request has not timed out, its device is connected over the connection the
  request was made on, its lease is live and held by the same owner under the same token, and the
  device grants both remote input and clipboard access now; the answer is the one sent over the
  request's own channel, any text in it has at most 65,536 bytes and no NUL, and the request is over.
\<close>

theorem clipboard_answer_fenced:
  assumes "clip_inv st" and "exchange_reply f st rid (map_of (oneshots st) rid) au t1 t2 = (RespJson v, au', st')"
  shows "\<exists>p. hm_get (clipboard (control st)) rid = Some p \<and> t1 < pc_deadline p \<and> clipboard_live st p t2
    \<and> map_of (oneshots st) rid = Some v \<and> bounded_reply v \<and> v_index v ''ok'' = Bool True
    \<and> hm_get (clipboard (control st')) rid = None"
proof -
  let ?st0 = "set_clipboard st (hm_remove rid (clipboard (control st)))"
  obtain p where p: "hm_get (clipboard (control st)) rid = Some p" and valid: "fst (clipboard_valid_locked f ?st0 p t1 t2)"
    and v: "option_filter (\<lambda>v. v_index v ''ok'' = Bool True) (map_of (oneshots st) rid) = Some v"
    using assms(2)
    by (auto simp: exchange_reply_def case_prod_unfold Let_def split: option.splits if_splits)
  have "fence_ok p" using assms(1) p by (auto simp: clip_inv_def pending_ok_def)
  from clipboard_valid_live [OF valid this] have "clipboard_live st p t2" "t1 < pc_deadline p"
    by (simp_all add: clipboard_live_def)
  moreover have "map_of (oneshots st) rid = Some v" "v_index v ''ok'' = Bool True"
    using v by (auto simp: option_filter_eq_Some)
  moreover from this have "bounded_reply v"
    using assms(1) by (auto simp: clip_inv_def answers_ok_def dest: map_of_SomeD)
  moreover have "hm_get (clipboard (control st')) rid = None"
    using waiter_drop_gone(1) exchange_reply_state [of f st rid "map_of (oneshots st) rid" au t1 t2] assms(2) by simp
  ultimately show ?thesis using p by blast
qed

definition example_fence :: Value where
  "example_fence = json_obj [(''type'', Str ''ClipboardRead''), (''request_id'', json_uuid binary_fmt 21),
     (''__module_generation'', module_generation Module.Clipboard (ms_revision (example_state Module.Clipboard)))]"

definition example_pending :: PendingClipboard where
  "example_pending = \<lparr> pc_agent = 9, pc_owner = example_owner, pc_token = 7, pc_deadline = 30,
     pc_fence = example_fence, pc_sender = False \<rparr>"

definition example_clip :: AppState where
  "example_clip = (set_clipboard example_full [(21, example_pending)])
     \<lparr> oneshots := [(21, json_obj [(''ok'', Bool True), (''text'', Str ''hi'')])] \<rparr>"

lemma example_clip_inv: "clip_inv example_clip"
  by (auto simp: clip_inv_def pending_ok_def answers_ok_def example_clip_def example_pending_def fence_ok_def example_fence_def
      hm_wf_def bounded_reply_def text_ok_def MAX_TEXT_BYTES_def is_none_or_def split: if_splits)

lemma example_clip_valid:
  assumes "agents st = agents example_clip" "sessions (control st) = sessions (control example_clip)"
  shows "clipboard_valid_locked binary_fmt st example_pending 5 5 = (True, st)"
proof -
  have reg: "agents st = example_registry" "sessions (control st) = example_sessions"
    using assms by (simp_all add: example_clip_def example_full_def example_app_def)
  have auth: "module_authorized example_registry 9 RemoteInput" "module_authorized example_registry 9 Module.Clipboard"
    by (simp_all add: module_authorized_def example_registry_def example_conn_def example_runtime_def
        grants_def disable_pending_def report_get_example example_state_def hm_values_def)
  then have probe: "is_ok (authorize_agent_command binary_fmt example_registry 9 probe_move)"
    by (simp add: probe_module)
  let ?c = "v_remove example_fence ''__module_generation''"
  have "kind_of ?c = ''ClipboardRead''" by (simp add: example_fence_def)
  then have g: "gate (parse binary_fmt ?c) = GateModule Module.Clipboard" by (intro clipboard_gate) simp
  obtain rt where "hm_get (modules example_registry) 9 = Some rt" "authorize_agent_command binary_fmt example_registry 9 ?c =
      Ok (v_set ?c ''__module_generation'' (module_generation Module.Clipboard (ms_revision (report_get (rm_report rt) Module.Clipboard))))"
    by (rule authorize_granted [OF g auth(2)])
      (auto simp: example_fence_def)
  then have "authorize_agent_command binary_fmt example_registry 9 ?c =
      Ok (v_set ?c ''__module_generation'' (module_generation Module.Clipboard (ms_revision (example_state Module.Clipboard))))"
    by (auto simp: example_registry_def example_runtime_def report_get_example)
  moreover have "authorize example_sessions 9 example_owner 7 5 = (\<lparr> result = Ok (), cleanup = [] \<rparr>, example_sessions)"
    by (simp add: authorize_def expire_agent_def example_sessions_def check_def)
  moreover have "is_some_and (hm_get (connections example_registry) 9) (\<lambda>c. conn_id c = 3 \<and> shutdown c = None)"
    by (simp add: example_registry_def example_conn_def)
  moreover have "is_obj ?c" by (simp add: example_fence_def)
  moreover have "set_sessions st example_sessions = st" using set_sessions_id [of st] reg(2) by simp
  ultimately show ?thesis
    using probe reg by (simp add: clipboard_valid_locked_def example_pending_def example_owner_def)
      (simp add: example_fence_def)
qed

theorem clipboard_answer_fenced_witness:
  "clipboard_live example_clip example_pending 5
   \<and> fst (exchange_reply binary_fmt example_clip 21 (map_of (oneshots example_clip) 21) (audit_begin \<lparr> rq_action = ''read'',
        rq_control_token = 7, rq_text = None \<rparr>) 5 5) = RespJson (json_obj [(''ok'', Bool True), (''text'', Str ''hi'')])"
proof -
  let ?r = "exchange_reply binary_fmt example_clip 21 (map_of (oneshots example_clip) 21) (audit_begin \<lparr> rq_action = ''read'',
        rq_control_token = 7, rq_text = None \<rparr>) 5 5"
  have p: "hm_get (clipboard (control example_clip)) 21 = Some example_pending" by (simp add: example_clip_def)
  have "fst ?r = RespJson (json_obj [(''ok'', Bool True), (''text'', Str ''hi'')])"
    using p by (simp add: exchange_reply_def case_prod_unfold Let_def example_clip_valid)
      (simp add: example_clip_def option_filter_def)
  moreover from this have "?r = (RespJson (json_obj [(''ok'', Bool True), (''text'', Str ''hi'')]), fst (snd ?r), snd (snd ?r))"
    by (metis prod.collapse)
  from clipboard_answer_fenced [OF example_clip_inv this] p have "clipboard_live example_clip example_pending 5" by auto
  ultimately show ?thesis by simp
qed

text \<open>
  Only the socket a request was sent to can answer it, and only once: a clipboard result from an
  agent connection leaves every channel as it is, or adds one answer, to a request made to that device
  over that very connection that had none; text goes into the answer only for a read, never for a
  write, and only within the bound.
\<close>

theorem clipboard_answered_by_its_socket:
  "let st' = complete_clipboard f st agent conn value t1 t2 in
   oneshots st' = oneshots st
   \<or> (\<exists>i p v. oneshots st' = oneshots st @ [(i, v)] \<and> hm_get (clipboard (control st)) i = Some p
        \<and> pc_agent p = agent \<and> agent_connection_id (pc_owner p) = conn \<and> pc_sender p
        \<and> hm_get (clipboard (control st')) i = Some (p\<lparr>pc_sender := False\<rparr>)
        \<and> (v_get v ''text'' = None
           \<or> (v_index (pc_fence p) ''type'' = Str ''ClipboardRead'' \<and> bounded_reply v)))"
proof (cases rule: complete_clipboard_cases [of f st agent conn "value" t1 t2])
  case (answered i p valid st1)
  have "oneshots st1 = oneshots st"
    using clipboard_valid_frame(2) [of f _ p t1 t2] answered(5) by (metis set_clipboard_simps(6) snd_conv)
  moreover have "v_get (clipboard_reply p valid value) ''text'' = None \<or> v_index (pc_fence p) ''type'' = Str ''ClipboardRead''"
    by (auto simp: clipboard_reply_def reply_error_def)
  ultimately show ?thesis
    using answered clipboard_reply_bounded [of p valid "value"] by (auto simp: Let_def)
qed (simp_all add: Let_def)

text \<open>
  C27. A clipboard request cannot outlive its deadline: the first tick at or after it answers the client
  with a timeout, forgets the request, and queues a cancellation on the connection the request was made
  on if that connection still takes commands; no other request is touched.
\<close>

theorem clipboard_deadline_ends:
  assumes "hm_get (clipboard (control st)) rid = Some p" and "pc_deadline p \<le> t0" and "t0 \<le> t1"
  shows "exchange_tick f st rid t0 t1 t2 =
    (Some (RespError 504 ''clipboard_timeout'' ''Timed out waiting for the device clipboard.''),
     st\<lparr>control := (control st)\<lparr>clipboard := hm_remove rid (hm_insert rid p (hm_remove rid (clipboard (control st))))\<rparr>,
        agents := snd (enqueue_authorized_command (agents st) (pc_agent p) (agent_connection_id (pc_owner p))
           (to_value f (ClipboardCancel (ClipboardRequest_new rid))))\<rparr>)"
  using assms
  by (simp add: exchange_tick_def clipboard_valid_locked_def waiter_drop_def set_clipboard_def Let_def)

theorem clipboard_deadline_ends_witness:
  "fst (exchange_tick binary_fmt example_clip 21 31 32 32) =
     Some (RespError 504 ''clipboard_timeout'' ''Timed out waiting for the device clipboard.'')"
  using clipboard_deadline_ends [of example_clip 21 example_pending 31 32 binary_fmt 32]
  by (simp add: example_clip_def example_pending_def)

text \<open>
  A clipboard command still in a queue when things change is not delivered: the writer sends it only
  when its own request is pending for this device and connection with the same command type and grant
  generation, has not timed out, and is live; checking it leaves the request pending.
\<close>

theorem clipboard_delivery_fenced:
  assumes "clip_inv st" and "clipboard_deliverable_locked f st agent conn cmd t1 t2 = (True, st')"
  shows "\<exists>i p. uuid_field f cmd ''request_id'' = Some i \<and> hm_get (clipboard (control st)) i = Some p
    \<and> pc_agent p = agent \<and> agent_connection_id (pc_owner p) = conn \<and> t1 < pc_deadline p \<and> clipboard_live st p t2
    \<and> v_index (pc_fence p) ''type'' = v_index cmd ''type''
    \<and> v_index (pc_fence p) ''__module_generation'' = v_index cmd ''__module_generation''
    \<and> hm_get (clipboard (control st')) = hm_get (clipboard (control st))"
proof -
  obtain i p where p: "uuid_field f cmd ''request_id'' = Some i" "hm_get (clipboard (control st)) i = Some p"
    "pc_agent p = agent" "agent_connection_id (pc_owner p) = conn" "v_index (pc_fence p) ''type'' = v_index cmd ''type''"
    "v_index (pc_fence p) ''__module_generation'' = v_index cmd ''__module_generation''"
    and valid: "fst (clipboard_valid_locked f (set_clipboard st (hm_remove i (clipboard (control st)))) p t1 t2)"
    and st': "st' = (let s = snd (clipboard_valid_locked f (set_clipboard st (hm_remove i (clipboard (control st)))) p t1 t2)
      in set_clipboard s (hm_insert i p (clipboard (control s))))"
    using assms(2) by (auto simp: clipboard_deliverable_locked_def case_prod_unfold Let_def split: option.splits if_splits)
  have "fence_ok p" using assms(1) p(2) by (auto simp: clip_inv_def pending_ok_def)
  from clipboard_valid_live [OF valid this] have "clipboard_live st p t2" "t1 < pc_deadline p"
    by (simp_all add: clipboard_live_def)
  moreover have "hm_get (clipboard (control st')) = hm_get (clipboard (control st))"
    using p(2) by (auto simp: st' Let_def fun_eq_iff)
  ultimately show ?thesis using p by blast
qed

theorem clipboard_delivery_fenced_witness:
  "clipboard_live example_clip example_pending 5
   \<and> fst (clipboard_deliverable_locked binary_fmt example_clip 9 3 example_fence 5 5)"
proof -
  let ?d = "clipboard_deliverable_locked binary_fmt example_clip 9 3 example_fence 5 5"
  have p: "hm_get (clipboard (control example_clip)) 21 = Some example_pending" by (simp add: example_clip_def)
  have i: "uuid_field binary_fmt example_fence ''request_id'' = Some 21"
    unfolding example_fence_def by (rule binary_uuid_field) simp
  have d: "fst ?d"
    using p i by (simp add: clipboard_deliverable_locked_def case_prod_unfold Let_def example_clip_valid)
      (simp add: example_pending_def example_owner_def)
  then have "?d = (True, snd ?d)" by (metis prod.collapse eqTrueI)
  from clipboard_delivery_fenced [OF example_clip_inv this] i p have "clipboard_live example_clip example_pending 5" by auto
  with d show ?thesis by simp
qed

end
