(* ===== verification/Delivery.thy ===== *)
theory Delivery
  imports ClipboardRpc
begin

text \<open>
  The last check before a command reaches a device (\<open>command_deliverable\<close> of
  \<open>server/src/agents/modules/mod.rs\<close>) and the command arm of the socket loop
  (\<open>run\<close> of \<open>server/src/agent_ws/connection.rs\<close>). A command waits in a queue between its
  authorization and its delivery; the check makes the two agree.
\<close>

section \<open>Operations\<close>

text \<open>\<open>capture\<close> against what the capture state expects, for capture commands and for all others.\<close>

definition capture_current :: "Uuid_fmt \<Rightarrow> AppState \<Rightarrow> Uuid \<Rightarrow> Uuid \<Rightarrow> Value \<Rightarrow> bool" where
  "capture_current f st agent_id conn cmd =
     (let capture = v_get cmd ''__capture_generation'';
          active = hm_get (mjpeg_active_capture (media st)) agent_id in
      if as_str (v_index cmd ''type'') \<in> {Some ''start_capture'', Some ''stop_capture''} then
        (let expected =
               (if v_index cmd ''type'' = Str ''start_capture''
                then map_option (\<lambda>a. json_uuid f (generation a)) (option_filter (\<lambda>a. ac_conn_id a = conn) active)
                else if active = None then Some (Str ''stopped'')
                else None)
         in capture \<noteq> None \<and> capture = expected)
      else capture = None)"

definition generation_current :: "Uuid_fmt \<Rightarrow> AppState \<Rightarrow> Uuid \<Rightarrow> Value \<Rightarrow> bool" where
  "generation_current f st agent_id cmd =
     (let untagged = v_remove (v_remove cmd ''__capture_generation'') ''__module_generation'' in
      case authorize_agent_command f (agents st) agent_id untagged of
        Inl _ \<Rightarrow> False
      | Inr expected \<Rightarrow> v_get cmd ''__module_generation'' = v_get expected ''__module_generation'')"

definition command_deliverable ::
  "Uuid_fmt \<Rightarrow> AppState \<Rightarrow> Uuid \<Rightarrow> Uuid \<Rightarrow> Value \<Rightarrow> Instant \<Rightarrow> Instant \<Rightarrow> bool \<times> AppState" where
  "command_deliverable f st agent_id conn cmd t1 t2 =
     (let (clip, st1) = (if as_str (v_index cmd ''type'') \<in> {Some ''ClipboardRead'', Some ''ClipboardWrite''}
                         then clipboard_deliverable_locked f st agent_id conn cmd t1 t2 else (True, st)) in
      if \<not> clip then (False, st1)
      else if open_conn (agents st1) agent_id \<noteq> Some conn then (False, st1)
      else if \<not> capture_current f st1 agent_id conn cmd then (False, st1)
      else (generation_current f st1 agent_id cmd, st1))"

text \<open>What the socket of \<open>conn\<close> does with the next message of its queue: write a line, drop it, or close.\<close>

datatype WriterAction = WriteText Value | Skip | CloseSocket

definition writer_recv ::
  "Uuid_fmt \<Rightarrow> AppState \<Rightarrow> Uuid \<Rightarrow> Uuid \<Rightarrow> AgentControl \<Rightarrow> Instant \<Rightarrow> Instant \<Rightarrow> WriterAction \<times> AppState" where
  "writer_recv f st agent_id conn msg t1 t2 =
     (case msg of
        Text command \<Rightarrow>
          (let (ok, st1) = command_deliverable f st agent_id conn command t1 t2
           in (if ok then WriteText command else Skip, st1))
      | InputCleanup cleanup_conn command \<Rightarrow>
          (if control_cleanup_deliverable st agent_id conn cleanup_conn command then WriteText command else Skip, st)
      | Close \<Rightarrow> (CloseSocket, st))"

text \<open>\<open>cmd_rx.recv()\<close> by the socket of the current connection.\<close>

definition take_command :: "AppState \<Rightarrow> Uuid \<Rightarrow> (AgentControl \<times> AppState) option" where
  "take_command st agent_id =
     (case hm_get (cmds (agents st)) agent_id of
        Some ch \<Rightarrow>
          (case queue ch of
             [] \<Rightarrow> None
           | msg # rest \<Rightarrow>
               Some (msg, st\<lparr>agents := (agents st)\<lparr>cmds := hm_insert agent_id (ch\<lparr>queue := rest\<rparr>) (cmds (agents st))\<rparr>\<rparr>))
      | None \<Rightarrow> None)"

section \<open>The operations keep the invariants\<close>

lemma command_deliverable_app_inv [inv_intros]:
  "app_inv st \<Longrightarrow> app_inv (snd (command_deliverable f st a conn cmd t1 t2))"
  by (simp add: command_deliverable_def case_prod_unfold Let_def clipboard_deliverable_app_inv)

lemma command_deliverable_clip_inv [inv_intros]:
  "clip_inv st \<Longrightarrow> clip_inv (snd (command_deliverable f st a conn cmd t1 t2))"
  by (simp add: command_deliverable_def case_prod_unfold Let_def clipboard_deliverable_clip_inv)

lemma writer_recv_inv [inv_intros]:
  "app_inv st \<Longrightarrow> app_inv (snd (writer_recv f st a conn msg t1 t2))"
  "clip_inv st \<Longrightarrow> clip_inv (snd (writer_recv f st a conn msg t1 t2))"
  by (cases msg; simp add: writer_recv_def case_prod_unfold Let_def command_deliverable_app_inv command_deliverable_clip_inv)+

lemma take_command_inv:
  assumes "take_command st a = Some (msg, st')"
  shows "app_inv st \<Longrightarrow> app_inv st'" "clip_inv st \<Longrightarrow> clip_inv st'"
proof -
  obtain ch rest where ch: "hm_get (cmds (agents st)) a = Some ch" "queue ch = msg # rest"
    "st' = st\<lparr>agents := (agents st)\<lparr>cmds := hm_insert a (ch\<lparr>queue := rest\<rparr>) (cmds (agents st))\<rparr>\<rparr>"
    using assms by (auto simp: take_command_def split: option.splits list.splits)
  show "clip_inv st'" if "clip_inv st" using that ch(3) by (simp add: clip_inv_def)
  show "app_inv st'" if inv: "app_inv st"
    unfolding ch(3)
  proof (rule app_inv_agents [OF inv])
    obtain cid where cid: "current_conn (agents st) a = Some cid"
      using registry_invD(4) [OF app_invD(1) [OF inv], of a] ch(1) by auto
    have "queue_ok cid (ch\<lparr>queue := rest\<rparr>)"
      using registry_invD(5) [OF app_invD(1) [OF inv] ch(1) cid] ch(2) by (auto simp: queue_ok_def)
    then show "registry_inv ((agents st)\<lparr>cmds := hm_insert a (ch\<lparr>queue := rest\<rparr>) (cmds (agents st))\<rparr>)"
      by (rule registry_inv_cmds [OF app_invD(1) [OF inv] cid])
  qed simp
qed

section \<open>What delivery re-checks\<close>

lemma command_deliverable_true:
  assumes "command_deliverable f st a conn cmd t1 t2 = (True, st')"
  shows "open_conn (agents st') a = Some conn" "capture_current f st' a conn cmd" "generation_current f st' a cmd"
  using assms by (auto simp: command_deliverable_def case_prod_unfold Let_def split: if_splits)

lemma module_generation_inj: "module_generation m r = module_generation m r' \<longleftrightarrow> r = r'"
  by (auto simp: module_generation_def json_obj_def json_u64_def)

lemma untagged_gate:
  "gate (parse f (v_remove (v_remove cmd ''__capture_generation'') ''__module_generation'')) = gate (parse f cmd)"
  by (simp add: gate_parse_kind)

lemma generation_current_granted:
  assumes "generation_current f st a cmd" "gate (parse f cmd) = GateModule m" "m \<noteq> AppPolicy" "m \<noteq> NetworkPolicy"
  obtains rt where "module_authorized (agents st) a m" "hm_get (modules (agents st)) a = Some rt"
    "v_get cmd ''__module_generation'' = Some (module_generation m (ms_revision (report_get (rm_report rt) m)))"
proof -
  let ?u = "v_remove (v_remove cmd ''__capture_generation'') ''__module_generation''"
  obtain e where e: "authorize_agent_command f (agents st) a ?u = Ok e"
    and gen: "v_get cmd ''__module_generation'' = v_get e ''__module_generation''"
    using assms(1) by (auto simp: generation_current_def Let_def split: sum.splits)
  have g: "gate (parse f ?u) = GateModule m" using assms(2) by (simp add: untagged_gate)
  have "is_obj ?u" by (rule gated_is_obj [of f]) (simp add: g)
  then show ?thesis
    using that e gen g assms(3,4) by (cases rule: authorize_ok_cases [OF e]) (auto simp: module_authorized_def)
qed

lemma command_deliverable_modules:
  "modules (agents (snd (command_deliverable f st a conn cmd t1 t2))) = modules (agents st)"
proof -
  have "modules (agents (snd (clipboard_valid_locked f s p t1 t2))) = modules (agents s)" for s p
    by (simp add: clipboard_valid_locked_def Let_def case_prod_unfold split: sum.split)
  then have "modules (agents (snd (clipboard_deliverable_locked f st a conn cmd t1 t2))) = modules (agents st)"
    by (simp add: clipboard_deliverable_locked_def Let_def case_prod_unfold split: option.split)
  then show ?thesis by (simp add: command_deliverable_def case_prod_unfold Let_def)
qed

text \<open>
  Permission is checked again at the wire: a command that needs a module is written to a device only
  over the agent's current, open connection, while that connection's report grants the module and no
  disable of it is pending, and only when it carries the revision the grant has at that moment.
  (The two policy modules may also be delivered to an agent that has never reported modules.)
\<close>

theorem delivery_rechecks_grant:
  assumes "command_deliverable f st a conn cmd t1 t2 = (True, st')"
    and "gate (parse f cmd) = GateModule m" and "m \<noteq> AppPolicy" and "m \<noteq> NetworkPolicy"
  shows "open_conn (agents st') a = Some conn \<and> module_authorized (agents st') a m
    \<and> (\<exists>rt. hm_get (modules (agents st')) a = Some rt
         \<and> v_get cmd ''__module_generation'' = Some (module_generation m (ms_revision (report_get (rm_report rt) m))))"
  using command_deliverable_true [OF assms(1)] generation_current_granted [OF _ assms(2-4)] by metis

definition example_stamped :: Value where
  "example_stamped = v_set example_move ''__module_generation'' (module_generation RemoteInput 3)"

lemma example_registry_authorized: "module_authorized example_registry 9 RemoteInput"
  using example_live_authorized(2) by (simp add: example_live_def)

lemma example_move_authorized:
  "authorize_agent_command binary_fmt example_registry 9 example_move = Ok example_stamped"
proof -
  obtain rt where "hm_get (modules example_registry) 9 = Some rt"
    "authorize_agent_command binary_fmt example_registry 9 example_move =
       Ok (v_set example_move ''__module_generation'' (module_generation RemoteInput (ms_revision (report_get (rm_report rt) RemoteInput))))"
    by (rule authorize_granted [OF example_move_gate example_registry_authorized]) (auto simp: example_move_def)
  then show ?thesis
    by (auto simp: example_registry_def example_runtime_def report_get_example example_state_def example_stamped_def)
qed

lemma example_stamped_untagged:
  "v_remove (v_remove example_stamped ''__capture_generation'') ''__module_generation'' = example_move"
  by (simp add: example_stamped_def example_move_def json_obj_def obj_remove_def)

lemma example_delivered: "command_deliverable binary_fmt example_full 9 3 example_stamped 5 5 = (True, example_full)"
proof -
  have "v_index example_stamped ''type'' = Str ''MouseMove''" "v_get example_stamped ''__capture_generation'' = None"
    "v_get example_stamped ''__module_generation'' = Some (module_generation RemoteInput 3)"
    by (simp_all add: example_stamped_def example_move_def)
  moreover have "agents example_full = example_registry" by (simp add: example_full_def example_app_def)
  moreover have "open_conn example_registry 9 = Some 3"
    by (simp add: open_conn_def example_registry_def example_conn_def)
  ultimately show ?thesis
    using example_move_authorized
    by (simp add: command_deliverable_def capture_current_def generation_current_def example_stamped_untagged Let_def)
qed

theorem delivery_rechecks_grant_witness:
  "module_authorized (agents example_full) 9 RemoteInput \<and> fst (command_deliverable binary_fmt example_full 9 3 example_stamped 5 5)"
proof -
  have "gate (parse binary_fmt example_stamped) = GateModule RemoteInput"
    using untagged_gate [of binary_fmt example_stamped] by (simp add: example_stamped_untagged example_move_gate)
  from delivery_rechecks_grant [OF example_delivered this] example_delivered show ?thesis by simp
qed


text \<open>The example device after it has withdrawn and given back every grant: the same report at the next
  revision.\<close>

definition example_regranted :: AppState where
  "example_regranted = example_full\<lparr>agents := (agents example_full)\<lparr>modules := [(9, example_runtime\<lparr>rm_report :=
     example_report\<lparr>report_modules := map (\<lambda>s. s\<lparr>ms_revision := 4\<rparr>) (report_modules example_report)\<rparr>\<rparr>)]\<rparr>\<rparr>"


text \<open>
  A queued capture command takes effect only if it is the latest word: a start is delivered only
  while it carries the generation of the capture that is active on this very connection, a stop only
  while no capture is active, and no other command may carry a capture generation at all.
\<close>

theorem capture_delivery_is_current:
  assumes "command_deliverable f st a conn cmd t1 t2 = (True, st')"
  shows "(v_index cmd ''type'' = Str ''start_capture''
      \<and> (\<exists>ac. hm_get (mjpeg_active_capture (media st')) a = Some ac \<and> ac_conn_id ac = conn
           \<and> v_get cmd ''__capture_generation'' = Some (json_uuid f (generation ac))))
    \<or> (v_index cmd ''type'' = Str ''stop_capture'' \<and> hm_get (mjpeg_active_capture (media st')) a = None
         \<and> v_get cmd ''__capture_generation'' = Some (Str ''stopped''))
    \<or> (as_str (v_index cmd ''type'') \<notin> {Some ''start_capture'', Some ''stop_capture''}
         \<and> v_get cmd ''__capture_generation'' = None)"
proof -
  have "as_str v = Some s \<longleftrightarrow> v = Str s" for v s by (cases v) auto
  then show ?thesis
    using command_deliverable_true(2) [OF assms]
    by (auto simp: capture_current_def Let_def option_filter_def split: if_splits option.splits)
qed

theorem capture_delivery_is_current_witness:
  "fst (command_deliverable binary_fmt example_full 9 3 example_stamped 5 5)
   \<and> v_get example_stamped ''__capture_generation'' = None"
proof -
  have "v_index example_stamped ''type'' = Str ''MouseMove''" by (simp add: example_stamped_def example_move_def)
  with capture_delivery_is_current [OF example_delivered] example_delivered show ?thesis by auto
qed

text \<open>
  Whatever a socket writes from its queue is written over the agent's current open connection, and is
  either a queued command that passes authorization again with the same generation stamp, or a
  key-up or mouse-up that was queued for this very connection.
\<close>

lemma writer_writes_checked:
  assumes "writer_recv f st a conn msg t1 t2 = (WriteText c, st')"
  shows "open_conn (agents st') a = Some conn
    \<and> (msg = Text c \<and> capture_current f st' a conn c \<and> generation_current f st' a c
       \<or> msg = InputCleanup conn c \<and> is_cleanup_command c)"
proof (cases msg)
  case (Text command)
  with assms have "command_deliverable f st a conn command t1 t2 = (True, st')" "command = c"
    by (auto simp: writer_recv_def case_prod_unfold Let_def prod_eq_iff split: if_splits)
  with Text command_deliverable_true [of f st a conn command t1 t2 st'] show ?thesis by simp
next
  case (InputCleanup cc command)
  with assms show ?thesis
    by (auto simp: writer_recv_def control_cleanup_deliverable_def is_some_and_iff open_conn_def option_filter_eq_Some
        split: if_splits)
next
  case Close
  with assms show ?thesis by (simp add: writer_recv_def)
qed

end
