(* ===== verification/Connections.thy ===== *)
theory Connections
  imports Delivery
begin

text \<open>
  The lifecycle of an agent's connection: authentication, registration, the binary arm of the socket
  loop and the cleanup after it (\<open>server/src/agent_ws/connection.rs\<close>), and the administrator's operations
  that detach a device (\<open>server/src/agents/lifecycle.rs\<close>), with the errors of
  \<open>server/src/error.rs\<close>.

  What the database answers is an argument of the operations that ask it; the lifecycle gate makes
  each of them one step. A time stamp of a broadcast event is an argument, already serialized.
\<close>

section \<open>Errors of the HTTP handlers\<close>

datatype ApiError =
    BadRequest string | Forbidden string | NotFound string | ApiConflict string | Status nat string
  | Coded nat string string | Internal | Empty nat | Custom nat Value

fun api_status :: "ApiError \<Rightarrow> nat" where
  "api_status (BadRequest _) = 400"
| "api_status (Forbidden _) = 403"
| "api_status (NotFound _) = 404"
| "api_status (ApiConflict _) = 409"
| "api_status (Status n _) = n"
| "api_status (Coded n _ _) = n"
| "api_status Internal = 500"
| "api_status (Empty n) = n"
| "api_status (Custom n _) = n"

section \<open>Registration\<close>

record AuthenticatedAgent =
  auth_id :: Uuid
  auth_token_hash :: string

text \<open>\<open>lookup\<close> is the answer to \<open>get_agent_auth_by_name\<close> (\<open>None\<close> when it failed), \<open>verify\<close> is
  \<open>verify_dashboard_password\<close>.\<close>

definition authenticate_agent ::
  "(string \<Rightarrow> string \<Rightarrow> bool) \<Rightarrow> (Uuid \<times> string option) option option \<Rightarrow> string \<Rightarrow> AuthenticatedAgent option" where
  "authenticate_agent verify lookup provided =
     (if provided = [] then None
      else case lookup of
             Some (Some (i, Some hash)) \<Rightarrow>
               if verify hash provided then Some \<lparr> auth_id = i, auth_token_hash = hash \<rparr> else None
           | _ \<Rightarrow> None)"

text \<open>The current connection, if any, loses its lease and its capture state.\<close>

definition retire_connection :: "Uuid_fmt \<Rightarrow> AppState \<Rightarrow> Uuid \<Rightarrow> AppState" where
  "retire_connection f st agent_id =
     (case current_conn (agents st) agent_id of
        Some old_conn \<Rightarrow>
          clear_capture_connection_locked (revoke_agent_control_locked f st agent_id old_conn) agent_id old_conn
      | None \<Rightarrow> st)"

text \<open>\<open>shutdown.send_replace(Some(reason))\<close> on a connection whose registry entry is gone.\<close>

definition detach :: "AppState \<Rightarrow> AgentConn option \<Rightarrow> string \<Rightarrow> AppState" where
  "detach st connection reason =
     (case connection of
        Some c \<Rightarrow> st\<lparr>detached := detached st @ [(conn_id c, reason)]\<rparr>
      | None \<Rightarrow> st)"

text \<open>\<open>registered\<close> is the answer of \<open>register_authenticated_agent\<close>: an error, no such credential any more,
  or the new session's id; \<open>has_report\<close> is \<open>has_module_report(..).unwrap_or(true)\<close>.\<close>

definition register_authenticated_connection ::
  "Uuid_fmt \<Rightarrow> AppState \<Rightarrow> AuthenticatedAgent \<Rightarrow> string \<Rightarrow> (int option, unit) Result \<Rightarrow> bool \<Rightarrow> Uuid \<Rightarrow> Instant \<Rightarrow> Value
    \<Rightarrow> ((int \<times> Uuid) option, unit) Result \<times> AppState" where
  "register_authenticated_connection f st authenticated name registered has_report fresh now at =
     (case registered of
        Inl e \<Rightarrow> (Err e, st)
      | Inr None \<Rightarrow> (Ok None, st)
      | Inr (Some session) \<Rightarrow>
          (let agent_id = auth_id authenticated;
               st1 = retire_connection f st agent_id;
               previous = hm_get (connections (agents st1)) agent_id;
               reg = (agents st1)\<lparr>
                 connections := hm_insert agent_id \<lparr> conn_id = fresh, connected_at = now, session_id = session,
                   shutdown = None, legacy_policy_delivery = \<not> has_report \<rparr> (connections (agents st1)),
                 modules := hm_remove agent_id (modules (agents st1)),
                 cmds := hm_insert agent_id channel_new (cmds (agents st1))\<rparr>;
               st2 = detach (st1\<lparr>agents := reg\<rparr>) previous []
           in (Ok (Some (session, fresh)),
               broadcast st2 (json_obj [(''event'', Str ''agent_connected''), (''agent_id'', json_uuid f agent_id),
                 (''name'', Str name), (''connected_at'', at)]))))"

section \<open>Inbound binary frames\<close>

definition MAX_AGENT_BINARY_BYTES :: nat where "MAX_AGENT_BINARY_BYTES = 8 * 1024 * 1024"
definition AUDIO_FRAME_MAGIC :: "u8 list" where "AUDIO_FRAME_MAGIC = [0x41, 0x55, 0x44, 0x00]"
definition HISTORY_FRAME_MAGIC :: "u8 list" where "HISTORY_FRAME_MAGIC = [0x48, 0x53, 0x54, 0x00]"

datatype FrameAction = DropSocket | RouteAudio | IngestHistory | FrameDone

definition binary_frame :: "AppState \<Rightarrow> Uuid \<Rightarrow> Uuid \<Rightarrow> u8 list \<Rightarrow> Instant \<Rightarrow> FrameAction \<times> AppState" where
  "binary_frame st agent_id conn frame now =
     (if current_conn (agents st) agent_id \<noteq> Some conn then (DropSocket, st)
      else if length frame > MAX_AGENT_BINARY_BYTES then (DropSocket, st)
      else if length frame \<ge> 4 \<and> take 4 frame = AUDIO_FRAME_MAGIC then
        (if module_authorized (agents st) agent_id LiveAudio then RouteAudio else FrameDone, st)
      else if length frame \<ge> 4 \<and> take 4 frame = HISTORY_FRAME_MAGIC then
        (if module_authorized (agents st) agent_id Recall then IngestHistory else FrameDone, st)
      else
        (FrameDone,
         if module_authorized (agents st) agent_id LiveScreen
         then st\<lparr>media := store_frame (media st) agent_id frame now\<rparr> else st))"

section \<open>Disconnection\<close>

definition remove_agent :: "AgentRegistry \<Rightarrow> Uuid \<Rightarrow> AgentRegistry" where
  "remove_agent reg agent_id =
     reg\<lparr>connections := hm_remove agent_id (connections reg), cmds := hm_remove agent_id (cmds reg),
         modules := hm_remove agent_id (modules reg)\<rparr>"

definition drop_frame :: "AppState \<Rightarrow> Uuid \<Rightarrow> AppState" where
  "drop_frame st agent_id = st\<lparr>media := (media st)\<lparr>frames := hm_remove agent_id (frames (media st))\<rparr>\<rparr>"

definition disconnected_event :: "Uuid_fmt \<Rightarrow> Uuid \<Rightarrow> Value \<Rightarrow> Value" where
  "disconnected_event f agent_id at = json_obj [(''event'', Str ''agent_disconnected''),
     (''agent_id'', json_uuid f agent_id), (''disconnected_at'', at)]"

definition cleanup_connection :: "Uuid_fmt \<Rightarrow> AppState \<Rightarrow> Uuid \<Rightarrow> Uuid \<Rightarrow> Value \<Rightarrow> AppState" where
  "cleanup_connection f st agent_id conn at =
     (let st1 = clear_capture_connection_locked (revoke_agent_control_locked f st agent_id conn) agent_id conn in
      if current_conn (agents st1) agent_id = Some conn then
        broadcast (drop_frame (st1\<lparr>agents := remove_agent (clear_live (agents st1) agent_id) agent_id\<rparr>) agent_id)
          (disconnected_event f agent_id at)
      else st1)"

definition invalidate_agent_connection :: "Uuid_fmt \<Rightarrow> AppState \<Rightarrow> Uuid \<Rightarrow> string \<Rightarrow> Value \<Rightarrow> AppState" where
  "invalidate_agent_connection f st agent_id reason at =
     (let st1 = retire_connection f st agent_id;
          connection = hm_get (connections (agents st1)) agent_id;
          st2 = drop_frame (st1\<lparr>agents := clear_live (remove_agent (agents st1) agent_id) agent_id\<rparr>) agent_id in
      case connection of
        None \<Rightarrow> st2
      | Some c \<Rightarrow> broadcast (detach st2 (Some c) reason) (disconnected_event f agent_id at))"

section \<open>Administration\<close>

definition forget_tokens :: "AppState \<Rightarrow> (Uuid \<Rightarrow> bool) \<Rightarrow> AppState" where
  "forget_tokens st keep = st\<lparr>agents := (agents st)\<lparr>pending_enrollment_tokens :=
     hm_retain (\<lambda>_ t. keep (pet_agent_id t)) (pending_enrollment_tokens (agents st))\<rparr>\<rparr>"

text \<open>\<open>revoked\<close>: whether the database revoked the credential.\<close>

definition revoke_agent_credentials ::
  "Uuid_fmt \<Rightarrow> AppState \<Rightarrow> Uuid \<Rightarrow> AuthUser \<Rightarrow> bool \<Rightarrow> Value \<Rightarrow> (unit, ApiError) Result \<times> AppState" where
  "revoke_agent_credentials f st agent_id user revoked at =
     (if \<not> is_admin user then (Err (Forbidden ''admin only''), st)
      else
        (let st1 = invalidate_agent_connection f st agent_id ''agent_credentials_revoked'' at in
         if \<not> revoked then (Err Internal, st1)
         else (Ok (), forget_tokens st1 (\<lambda>a. a \<noteq> agent_id))))"

text \<open>\<open>invite\<close> is the answer of \<open>create_agent_replacement_token\<close>: an error, no such agent, or the new code.\<close>

definition replace_agent_installation ::
  "Uuid_fmt \<Rightarrow> AppState \<Rightarrow> Uuid \<Rightarrow> AuthUser \<Rightarrow> ((Uuid \<times> string \<times> Value) option, unit) Result \<Rightarrow> Value
    \<Rightarrow> (Value, ApiError) Result \<times> AppState" where
  "replace_agent_installation f st agent_id user invite at =
     (if \<not> is_admin user then (Err (Forbidden ''admin only''), st)
      else
        (let st1 = invalidate_agent_connection f st agent_id ''agent_credentials_revoked'' at in
         case invite of
           Inl _ \<Rightarrow> (Err Internal, st1)
         | Inr None \<Rightarrow> (Err (NotFound ''agent not found''), st1)
         | Inr (Some (i, plaintext, expires)) \<Rightarrow>
             (Ok (json_obj [(''id'', json_uuid f i), (''enrollment_token'', Str plaintext), (''uses'', json_nat 1),
                (''expires_at'', expires), (''bound_agent_id'', json_uuid f agent_id)]),
              forget_tokens st1 (\<lambda>a. a \<noteq> agent_id))))"

definition removed_event :: "Uuid_fmt \<Rightarrow> Uuid \<Rightarrow> Value" where
  "removed_event f agent_id = json_obj [(''event'', Str ''agent_removed''), (''agent_id'', json_uuid f agent_id)]"

definition forget_agent :: "Uuid_fmt \<Rightarrow> AppState \<Rightarrow> Uuid \<Rightarrow> AppState" where
  "forget_agent f st agent_id =
     broadcast (drop_frame (st\<lparr>agents := clear_live (agents st) agent_id\<rparr>) agent_id) (removed_event f agent_id)"

text \<open>\<open>revoked\<close>: for which agents the database revoked the credential; \<open>deleted\<close>: its count of deleted rows,
  \<open>None\<close> when the statement failed. The blobs on disk are not modelled.\<close>

definition delete_agents_bulk ::
  "Uuid_fmt \<Rightarrow> AppState \<Rightarrow> AuthUser \<Rightarrow> Uuid list \<Rightarrow> (Uuid \<Rightarrow> bool) \<Rightarrow> nat option \<Rightarrow> Value
    \<Rightarrow> (nat, ApiError) Result \<times> AppState" where
  "delete_agents_bulk f st user agent_ids revoked deleted at =
     (if \<not> is_admin user then (Err (Forbidden ''admin only''), st)
      else if agent_ids = [] then (Err (BadRequest ''agent_ids must be non-empty''), st)
      else if length agent_ids > 128 then (Err (BadRequest ''at most 128 agents per request''), st)
      else
        (let st1 = foldl (\<lambda>s i. invalidate_agent_connection f s i ''agent_deleted'' at) st (remdups_adj (sort agent_ids)) in
         if \<not> list_all revoked agent_ids then (Err Internal, st1)
         else
           (let st2 = forget_tokens st1 (\<lambda>a. a \<notin> set agent_ids) in
            case deleted of
              None \<Rightarrow> (Err Internal, st2)
            | Some n \<Rightarrow> (Ok n, foldl (forget_agent f) st2 agent_ids))))"

section \<open>A device without lease, stream or capture\<close>

definition agent_idle :: "AppState \<Rightarrow> Uuid \<Rightarrow> bool" where
  "agent_idle st a \<longleftrightarrow> lease_of (sessions (control st)) a = None \<and> hm_get (capture (control st)) a = None
     \<and> hm_get (mjpeg_active_capture (media st)) a = None
     \<and> (\<forall>k s. hm_get (mjpeg_sessions (media st)) k = Some s \<longrightarrow> mj_agent_id s \<noteq> a)"

lemma agent_idleD:
  assumes "agent_idle st a"
  shows "lease_of (sessions (control st)) a = None" "hm_get (capture (control st)) a = None"
    "hm_get (mjpeg_active_capture (media st)) a = None"
    "hm_get (mjpeg_sessions (media st)) k = Some s \<Longrightarrow> mj_agent_id s \<noteq> a"
  using assms by (auto simp: agent_idle_def)

lemma offline_idle:
  assumes "app_inv st" "current_conn (agents st) a = None"
  shows "agent_idle st a"
proof -
  note c = app_invD(2) [OF assms(1)] and m = app_invD(3) [OF assms(1)]
  have "lease_of (sessions (control st)) a = None"
    using control_invD(4) [OF c, of a] assms(2) by (cases "lease_of (sessions (control st)) a") (auto simp: lease_owner_of_def)
  moreover from this have "hm_get (capture (control st)) a = None"
    using control_invD(3) [OF c, of a] by (simp add: lease_owner_of_def)
  moreover have "hm_get (mjpeg_active_capture (media st)) a = None"
    using media_invD(4) [OF m, of a] assms(2) by (cases "hm_get (mjpeg_active_capture (media st)) a") auto
  moreover have "mj_agent_id s \<noteq> a" if "hm_get (mjpeg_sessions (media st)) k = Some s" for k s
    using media_invD(3) [OF m that] assms(2) by auto
  ultimately show ?thesis by (auto simp: agent_idle_def)
qed

lemma app_inv_swap:
  assumes "app_inv st" "agent_idle st a" "registry_inv reg"
    "\<And>b. b \<noteq> a \<Longrightarrow> current_conn reg b = current_conn (agents st) b"
  shows "app_inv (st\<lparr>agents := reg\<rparr>)"
proof -
  note c = app_invD(2) [OF assms(1)] and m = app_invD(3) [OF assms(1)] and idle = agent_idleD [OF assms(2)]
  have "control_inv (st\<lparr>agents := reg\<rparr>)"
  proof -
    have "current_conn reg b = Some (agent_connection_id owner)"
      if "lease_owner_of (sessions (control st)) b = Some owner" for b owner
    proof (cases "b = a")
      case True
      with that idle(1) show ?thesis by (simp add: lease_owner_of_def)
    next
      case False
      with assms(4) control_invD(4) [OF c that] show ?thesis by simp
    qed
    with c show ?thesis by (simp add: control_inv_def)
  qed
  moreover have "media_inv (st\<lparr>agents := reg\<rparr>)"
  proof (rule media_invI)
    show "current_conn (agents (st\<lparr>agents := reg\<rparr>)) (mj_agent_id s) = Some (mj_conn_id s)"
      if "hm_get (mjpeg_sessions (media (st\<lparr>agents := reg\<rparr>))) k = Some s" for k s
      using that media_invD(3) [OF m, of k s] idle(4) [of k s] assms(4) by simp
    show "current_conn (agents (st\<lparr>agents := reg\<rparr>)) b = Some (ac_conn_id ac)"
      if "hm_get (mjpeg_active_capture (media (st\<lparr>agents := reg\<rparr>))) b = Some ac" for b ac
      using that media_invD(4) [OF m, of b ac] idle(3) assms(4) [of b] by (cases "b = a") auto
  qed (use media_invD [OF m] in auto)
  ultimately show ?thesis using assms(3) by (simp add: app_inv_def)
qed

lemma app_inv_frame [simp]:
  "app_inv (st\<lparr>detached := d\<rparr>) = app_inv st" "app_inv (st\<lparr>tx := t\<rparr>) = app_inv st"
  "app_inv (st\<lparr>media := (media st)\<lparr>frames := x\<rparr>\<rparr>) = app_inv st"
  by (simp_all add: app_inv_def control_inv_def media_inv_def count_sessions_def)

lemma app_inv_effects [simp]:
  "app_inv (broadcast st v) = app_inv st" "app_inv (detach st c r) = app_inv st" "app_inv (drop_frame st a) = app_inv st"
  by (simp_all add: broadcast_def detach_def drop_frame_def split: option.split)

lemma clip_inv_effects [simp]:
  "clip_inv (broadcast st v) = clip_inv st" "clip_inv (detach st c r) = clip_inv st"
  "clip_inv (drop_frame st a) = clip_inv st" "clip_inv (st\<lparr>agents := reg\<rparr>) = clip_inv st"
  "clip_inv (st\<lparr>media := md\<rparr>) = clip_inv st"
  "clip_inv (clear_capture_connection_locked st a conn) = clip_inv st"
  "clip_inv (revoke_agent_control_locked f st a conn) = clip_inv st"
  by (simp_all add: broadcast_def detach_def drop_frame_def clip_inv_def split: option.split)

lemma effects_frame [simp, frame_simps]:
  "agents (broadcast st v) = agents st" "control (broadcast st v) = control st" "media (broadcast st v) = media st"
  "agents (detach st c r) = agents st" "control (detach st c r) = control st" "media (detach st c r) = media st"
  "agents (drop_frame st a) = agents st" "control (drop_frame st a) = control st"
  "mjpeg_sessions (media (drop_frame st a)) = mjpeg_sessions (media st)"
  "mjpeg_active_capture (media (drop_frame st a)) = mjpeg_active_capture (media st)"
  by (simp_all add: broadcast_def detach_def drop_frame_def split: option.split)

lemma agent_idle_effects [simp]:
  "agent_idle (broadcast st v) a = agent_idle st a" "agent_idle (detach st c r) a = agent_idle st a"
  "agent_idle (drop_frame st b) a = agent_idle st a" "agent_idle (st\<lparr>agents := reg\<rparr>) a = agent_idle st a"
  by (simp_all add: agent_idle_def)

text \<open>Retiring a connection leaves the device idle.\<close>

lemma revoke_clear_idle:
  assumes "app_inv st" "current_conn (agents st) a = Some conn"
  shows "app_inv (clear_capture_connection_locked (revoke_agent_control_locked f st a conn) a conn)"
    "agent_idle (clear_capture_connection_locked (revoke_agent_control_locked f st a conn) a conn) a"
proof -
  let ?st1 = "revoke_agent_control_locked f st a conn"
  have inv: "app_inv ?st1" by (rule revoke_agent_app_inv [OF assms(1)])
  have conn: "current_conn (agents ?st1) a = Some conn" using assms(2) by simp
  note gone = revoke_current [OF app_invD(2) [OF assms(1)] assms(2), of f]
  show "app_inv (clear_capture_connection_locked ?st1 a conn)"
    by (rule clear_app_inv [OF inv]) (simp add: gone)
  show "agent_idle (clear_capture_connection_locked ?st1 a conn) a"
    using gone clear_gone [OF inv conn] by (auto simp: agent_idle_def)
qed

lemma retire_connection_idle:
  assumes "app_inv st"
  shows "app_inv (retire_connection f st a)" "agent_idle (retire_connection f st a) a"
  using revoke_clear_idle [OF assms] offline_idle [OF assms] assms
  by (auto simp: retire_connection_def split: option.split)

lemma retire_connection_frame [simp, frame_simps]:
  "current_conn (agents (retire_connection f st a)) b = current_conn (agents st) b"
  "modules (agents (retire_connection f st a)) = modules (agents st)"
  "clip_inv (retire_connection f st a) = clip_inv st"
  "detached (retire_connection f st a) = detached st"
  "oneshots (retire_connection f st a) = oneshots st"
  by (simp_all add: retire_connection_def split: option.split)

section \<open>The operations keep the invariant\<close>

lemma registry_inv_connect:
  assumes "registry_inv reg"
  shows "registry_inv (reg\<lparr>connections := hm_insert a c (connections reg), modules := hm_remove a (modules reg),
     cmds := hm_insert a channel_new (cmds reg)\<rparr>)"
proof -
  have "current_conn (reg\<lparr>connections := hm_insert a c (connections reg), modules := x, cmds := y\<rparr>) b =
      (if b = a then Some (conn_id c) else current_conn reg b)" for b x y
    by (simp add: current_conn_def)
  with assms show ?thesis
    by (auto simp: registry_inv_def queue_ok_def channel_new_def)
qed

lemma registry_inv_remove:
  assumes "registry_inv reg"
  shows "registry_inv (remove_agent reg a)"
proof -
  have "current_conn (remove_agent reg a) b = (if b = a then None else current_conn reg b)" for b
    by (simp add: current_conn_def remove_agent_def)
  with assms show ?thesis
    by (auto simp: registry_inv_def remove_agent_def)
qed

lemma current_conn_remove [simp]: "current_conn (remove_agent reg a) b = (if b = a then None else current_conn reg b)"
  by (simp add: current_conn_def remove_agent_def)

lemma registry_inv_snapshots [simp]:
  "registry_inv (clear_live reg a) = registry_inv reg"
  "registry_inv (reg\<lparr>pending_enrollment_tokens := x\<rparr>) = registry_inv reg"
  by (simp_all add: registry_inv_def clear_live_def current_conn_def)

lemma current_conn_clear_live [simp]: "current_conn (clear_live reg a) b = current_conn reg b"
  by (simp add: clear_live_def)

lemma register_app_inv [inv_intros]:
  assumes "app_inv st"
  shows "app_inv (snd (register_authenticated_connection f st au name registered has_report fresh now at))"
proof -
  let ?a = "auth_id au"
  let ?st1 = "retire_connection f st ?a"
  note idle = retire_connection_idle [OF assms, of f ?a]
  have "app_inv (?st1\<lparr>agents := (agents ?st1)\<lparr>connections := hm_insert ?a c (connections (agents ?st1)),
      modules := hm_remove ?a (modules (agents ?st1)), cmds := hm_insert ?a channel_new (cmds (agents ?st1))\<rparr>\<rparr>)" for c
    by (rule app_inv_swap [OF idle registry_inv_connect [OF app_invD(1) [OF idle(1)]]])
      (simp add: current_conn_def)
  with assms show ?thesis
    by (auto simp: register_authenticated_connection_def Let_def split: sum.split option.split)
qed

lemma disconnect_app_inv:
  assumes "app_inv st" "agent_idle st a"
  shows "app_inv (st\<lparr>agents := remove_agent (clear_live (agents st) b) a\<rparr>)"
    "app_inv (st\<lparr>agents := clear_live (remove_agent (agents st) a) b\<rparr>)"
  by (rule app_inv_swap [OF assms]; simp add: registry_inv_remove app_invD(1) [OF assms(1)])+

lemma cleanup_connection_app_inv [inv_intros]:
  assumes "app_inv st"
  shows "app_inv (cleanup_connection f st a conn at)"
proof (cases "current_conn (agents st) a = Some conn")
  case True
  from disconnect_app_inv(1) [OF revoke_clear_idle [OF assms True, of f], of a] True show ?thesis
    by (simp add: cleanup_connection_def Let_def)
next
  case False
  have "app_inv (clear_capture_connection_locked (revoke_agent_control_locked f st a conn) a conn)"
    by (rule clear_app_inv [OF revoke_agent_app_inv [OF assms]]) (use False in simp)
  with False show ?thesis by (simp add: cleanup_connection_def Let_def)
qed

lemma invalidate_app_inv [inv_intros]:
  assumes "app_inv st"
  shows "app_inv (invalidate_agent_connection f st a reason at)"
  using disconnect_app_inv(2) [OF retire_connection_idle [OF assms, of f a], of a]
  by (simp add: invalidate_agent_connection_def Let_def split: option.split)

lemma binary_frame_app_inv [inv_intros]:
  assumes "app_inv st"
  shows "app_inv (snd (binary_frame st a conn frame now))"
proof -
  have "app_inv (st\<lparr>media := store_frame (media st) a frame now\<rparr>)"
    using assms by (simp add: store_frame_def Let_def app_inv_def control_inv_def media_inv_def count_sessions_def)
  with assms show ?thesis by (simp add: binary_frame_def)
qed

lemma forget_tokens_app_inv [simp]: "app_inv (forget_tokens st keep) = app_inv st"
  by (simp add: forget_tokens_def app_inv_def control_inv_def media_inv_def current_conn_def)

lemma forget_agent_app_inv [inv_intros]: "app_inv st \<Longrightarrow> app_inv (forget_agent f st a)"
  by (simp add: forget_agent_def app_inv_agents app_invD)

lemma foldl_invariant: "P s \<Longrightarrow> (\<And>s x. P s \<Longrightarrow> P (g s x)) \<Longrightarrow> P (foldl g s xs)"
  by (induction xs arbitrary: s) auto

lemma admin_app_inv [inv_intros]:
  "app_inv st \<Longrightarrow> app_inv (snd (revoke_agent_credentials f st a user revoked at))"
  "app_inv st \<Longrightarrow> app_inv (snd (replace_agent_installation f st a user invite at))"
  "app_inv st \<Longrightarrow> app_inv (snd (delete_agents_bulk f st user ids rv deleted at))"
  by (auto simp: revoke_agent_credentials_def replace_agent_installation_def delete_agents_bulk_def Let_def
      invalidate_app_inv split: sum.split option.split intro!: foldl_invariant [where P = app_inv] intro: invalidate_app_inv forget_agent_app_inv)

section \<open>Properties\<close>

lemma command_deliverable_conn [simp]:
  "current_conn (agents (snd (command_deliverable f st a conn cmd t1 t2))) b = current_conn (agents st) b"
proof -
  have "current_conn (agents (snd (clipboard_deliverable_locked f st a conn cmd t1 t2))) b = current_conn (agents st) b"
    by (simp add: clipboard_deliverable_locked_def Let_def case_prod_unfold split: option.split)
  then show ?thesis by (simp add: command_deliverable_def case_prod_unfold Let_def)
qed

lemma current_conn_retired:
  "current_conn (agents st) a = map_option conn_id (conn_of (agents (retire_connection f st a)) a)"
  using retire_connection_frame(1) [of f st a a] by (simp add: current_conn_def)

lemma unauthorized_without_report: "hm_get (modules reg) a = None \<Longrightarrow> \<not> module_authorized reg a m"
  by (simp add: module_authorized_def split: option.split)

text \<open>
  A new connection inherits nothing: once an agent is registered, its connection is the new one, open
  and with an empty queue, no module is authorized until the agent reports again, the device has no
  lease, no frozen display, no stream and no capture, and the connection it replaces has been told to
  stop. Nothing of another device's connection changes.
\<close>

theorem new_connection_starts_clean:
  assumes "app_inv st"
    and "register_authenticated_connection f st au name registered has_report fresh now at = (Ok (Some (session, conn)), st')"
  shows "registered = Ok (Some session) \<and> conn = fresh \<and> open_conn (agents st') (auth_id au) = Some conn
    \<and> hm_get (cmds (agents st')) (auth_id au) = Some channel_new
    \<and> (\<forall>m. \<not> module_authorized (agents st') (auth_id au) m) \<and> agent_idle st' (auth_id au)
    \<and> (case current_conn (agents st) (auth_id au) of
         None \<Rightarrow> detached st' = detached st | Some old \<Rightarrow> detached st' = detached st @ [(old, [])])
    \<and> (\<forall>b. b \<noteq> auth_id au \<longrightarrow> current_conn (agents st') b = current_conn (agents st) b)"
proof -
  let ?a = "auth_id au"
  let ?st1 = "retire_connection f st ?a"
  define reg where "reg = (agents ?st1)\<lparr>connections := hm_insert ?a \<lparr> conn_id = fresh, connected_at = now, session_id = session,
      shutdown = None, legacy_policy_delivery = \<not> has_report \<rparr> (connections (agents ?st1)),
      modules := hm_remove ?a (modules (agents ?st1)), cmds := hm_insert ?a channel_new (cmds (agents ?st1))\<rparr>"
  have r: "registered = Ok (Some session)" "conn = fresh"
    and st': "st' = broadcast (detach (?st1\<lparr>agents := reg\<rparr>) (conn_of (agents ?st1) ?a) [])
      (json_obj [(''event'', Str ''agent_connected''), (''agent_id'', json_uuid f ?a), (''name'', Str name), (''connected_at'', at)])"
    using assms(2) by (auto simp: register_authenticated_connection_def Let_def reg_def split: sum.splits option.splits)
  have "agents st' = reg" by (simp add: st')
  moreover have "open_conn reg ?a = Some fresh" "hm_get (cmds reg) ?a = Some channel_new" "hm_get (modules reg) ?a = None"
    by (simp_all add: reg_def open_conn_def option_filter_def)
  moreover have "current_conn reg b = current_conn (agents st) b" if "b \<noteq> ?a" for b
    using that retire_connection_frame(1) [of f st ?a b] by (simp add: reg_def current_conn_def)
  moreover have "agent_idle st' ?a" using retire_connection_idle(2) [OF assms(1)] by (simp add: st')
  moreover have "case current_conn (agents st) ?a of
      None \<Rightarrow> detached st' = detached st | Some old \<Rightarrow> detached st' = detached st @ [(old, [])]"
    unfolding current_conn_retired [of st ?a f]
    by (cases "conn_of (agents ?st1) ?a") (simp_all add: st' detach_def broadcast_def)
  ultimately show ?thesis using r unauthorized_without_report by auto
qed

theorem new_connection_starts_clean_witness:
  "agent_idle (snd (register_authenticated_connection binary_fmt example_full \<lparr> auth_id = 9, auth_token_hash = ''h'' \<rparr> ''pc''
      (Ok (Some 2)) True 4 50 Null)) 9
   \<and> (3, []) \<in> set (detached (snd (register_authenticated_connection binary_fmt example_full
        \<lparr> auth_id = 9, auth_token_hash = ''h'' \<rparr> ''pc'' (Ok (Some 2)) True 4 50 Null)))"
proof -
  let ?r = "register_authenticated_connection binary_fmt example_full \<lparr> auth_id = 9, auth_token_hash = ''h'' \<rparr> ''pc''
      (Ok (Some 2)) True 4 50 Null"
  have r: "?r = (Ok (Some (2, 4)), snd ?r)" by (simp add: register_authenticated_connection_def Let_def)
  have c: "current_conn (agents example_full) 9 = Some 3"
    by (simp add: example_full_def example_app_def example_registry_def current_conn_def example_conn_def)
  from new_connection_starts_clean [OF example_full_inv r] show ?thesis by (simp add: c)
qed

lemma revoke_stale:
  assumes "control_inv st" "current_conn (agents st) a \<noteq> Some conn"
  shows "revoke_agent_control_locked f st a conn = st"
proof -
  have "revoke_agent (sessions (control st)) a conn = ([], sessions (control st))"
  proof (cases "lease_of (sessions (control st)) a")
    case None
    then show ?thesis by (simp add: revoke_agent_def)
  next
    case (Some l)
    with control_invD(4) [OF assms(1), of a "grant_owner (grant l)"] assms(2)
    have "agent_connection_id (grant_owner (grant l)) \<noteq> conn" by (auto simp: lease_owner_of_def)
    with Some show ?thesis by (simp add: revoke_agent_def)
  qed
  then show ?thesis by (simp add: revoke_agent_control_locked_def teardown_deliver_def)
qed

text \<open>
  The late cleanup of a replaced socket cannot touch its successor: when the socket that ends is not
  the device's current connection, its cleanup changes no connection, queue, report, lease, frozen
  display, stream session or active capture, and announces nothing.
\<close>

theorem stale_cleanup_is_harmless:
  assumes "app_inv st" and "current_conn (agents st) a \<noteq> Some conn"
  shows "agents (cleanup_connection f st a conn at) = agents st
    \<and> control (cleanup_connection f st a conn at) = control st
    \<and> tx (cleanup_connection f st a conn at) = tx st
    \<and> hm_get (mjpeg_sessions (media (cleanup_connection f st a conn at))) = hm_get (mjpeg_sessions (media st))
    \<and> mjpeg_active_capture (media (cleanup_connection f st a conn at)) = mjpeg_active_capture (media st)"
proof -
  note m = app_invD(3) [OF assms(1)]
  have eq: "cleanup_connection f st a conn at = clear_capture_connection_locked st a conn"
    using assms(2) revoke_stale [OF app_invD(2) [OF assms(1)] assms(2)] by (simp add: cleanup_connection_def Let_def)
  have "hm_get (mjpeg_sessions (clear_media (media st) a conn)) k = hm_get (mjpeg_sessions (media st)) k" for k
    using media_invD(3) [OF m, of k] assms(2)
    by (cases "hm_get (mjpeg_sessions (media st)) k")
      (auto simp: clear_media_def hm_get_retain [OF media_invD(1) [OF m]] option_filter_def)
  moreover have "\<not> is_some_and (hm_get (mjpeg_active_capture (media st)) a) (\<lambda>ac. ac_conn_id ac = conn)"
    using media_invD(4) [OF m, of a] assms(2) by (auto simp: is_some_and_iff)
  ultimately show ?thesis unfolding eq by (auto simp: clear_media_parts fun_eq_iff)
qed

theorem stale_cleanup_is_harmless_witness:
  "hm_get (leases (sessions (control (cleanup_connection binary_fmt example_full 9 77 Null)))) 9 =
     hm_get (leases (sessions (control example_full))) 9"
proof -
  have "current_conn (agents example_full) 9 \<noteq> Some 77"
    by (simp add: example_full_def example_app_def example_registry_def current_conn_def example_conn_def)
  from stale_cleanup_is_harmless [OF example_full_inv this] show ?thesis by simp
qed

text \<open>
  Invalidation takes effect at once: after a device's credentials are revoked or it is deleted, it
  has no connection, lease, display, stream or cached frame, no plain command can be sent to it, no command
  from an old queue is deliverable on any socket, and the socket it had has been told why.
\<close>

theorem invalidated_device_is_cut_off:
  assumes "app_inv st" and "st' = invalidate_agent_connection f st a reason at"
  shows "current_conn (agents st') a = None \<and> agent_idle st' a \<and> hm_get (frames (media st')) a = None
    \<and> is_err (fst (send_agent_command_json f (agents st') a cmd))
    \<and> \<not> fst (command_deliverable f st' a conn queued t1 t2)
    \<and> (case current_conn (agents st) a of None \<Rightarrow> detached st' = detached st
       | Some old \<Rightarrow> detached st' = detached st @ [(old, reason)])"
proof -
  let ?st1 = "retire_connection f st a"
  let ?st2 = "drop_frame (?st1\<lparr>agents := clear_live (remove_agent (agents ?st1) a) a\<rparr>) a"
  have st': "st' = (case conn_of (agents ?st1) a of None \<Rightarrow> ?st2
      | Some c \<Rightarrow> broadcast (detach ?st2 (Some c) reason) (disconnected_event f a at))"
    by (simp add: assms(2) invalidate_agent_connection_def Let_def)
  have reg: "agents st' = clear_live (remove_agent (agents ?st1) a) a"
    by (simp add: st' split: option.split)
  have off: "current_conn (agents st') a = None" by (simp add: reg)
  then have none: "conn_of (agents st') a = None" by (simp add: current_conn_None)
  have "agent_idle st' a"
    using retire_connection_idle(2) [OF assms(1)] by (simp add: st' split: option.split)
  moreover have "hm_get (frames (media st')) a = None"
    by (simp add: st' drop_frame_def broadcast_def detach_def split: option.split)
  moreover have "is_err (fst (send_agent_command_json f (agents st') a cmd))"
    using none by (simp add: send_agent_command_json_def authorize_agent_command_def Let_def)
  moreover have "\<not> fst (command_deliverable f st' a conn queued t1 t2)"
  proof
    assume "fst (command_deliverable f st' a conn queued t1 t2)"
    then have "command_deliverable f st' a conn queued t1 t2 = (True, snd (command_deliverable f st' a conn queued t1 t2))"
      by (metis (full_types) eqTrueI prod.collapse)
    from open_conn_SomeD [OF command_deliverable_true(1) [OF this]]
    have "current_conn (agents st') a = Some conn" by (simp add: command_deliverable_conn)
    with off show False by simp
  qed
  moreover have "case current_conn (agents st) a of None \<Rightarrow> detached st' = detached st
       | Some old \<Rightarrow> detached st' = detached st @ [(old, reason)]"
    unfolding current_conn_retired [of st a f]
    by (cases "conn_of (agents ?st1) a") (simp_all add: st' detach_def broadcast_def drop_frame_def)
  ultimately show ?thesis using off by blast
qed

theorem invalidated_device_is_cut_off_witness:
  "is_err (fst (send_agent_command_json binary_fmt
     (agents (invalidate_agent_connection binary_fmt example_full 9 ''agent_deleted'' Null)) 9 example_info))"
  using invalidated_device_is_cut_off [OF example_full_inv refl, of binary_fmt 9 "''agent_deleted''" Null example_info] by blast

lemma oldest_frame_present: "fs \<noteq> [] \<Longrightarrow> \<exists>k. oldest_frame fs = Some k \<and> hm_get fs k \<noteq> None"
  by (induction fs rule: oldest_frame.induct) (auto split: option.splits if_splits)

lemma oldest_frame_least:
  assumes "hm_wf fs" "oldest_frame fs = Some k" "hm_get fs k = Some fr" "hm_get fs j = Some fr'"
  shows "last_update fr \<le> last_update fr'"
  using assms
proof (induction fs arbitrary: k fr j fr' rule: oldest_frame.induct)
  case 1
  then show ?case by simp
next
  case (2 i g rest)
  have wf: "hm_wf rest" "hm_get rest i = None"
    using 2(2) by (auto simp: hm_wf_def map_of_eq_None_iff)
  show ?case
  proof (cases "oldest_frame rest")
    case None
    then have "rest = []" using oldest_frame_present [of rest] by auto
    with 2 show ?thesis by (auto split: if_splits)
  next
    case (Some k')
    then obtain g' where g': "hm_get rest k' = Some g'"
      using oldest_frame_present [of rest] by (cases rest) auto
    note least = 2(1) [OF wf(1) Some g']
    have "k' \<noteq> i" using g' wf(2) by auto
    then show ?thesis
      using 2(3-5) Some g' least by (auto split: if_splits dest: order_trans [of "last_update g"] intro: order_trans)
  qed
qed

text \<open>
  The frame cache is bounded and evicts the right frame: caching a frame keeps at most 16 devices, the
  new frame is the one served for its device, and the only other device that may lose its frame is one
  whose frame was the least recently updated of a full cache.
\<close>

theorem frame_cache_bounded:
  assumes "hm_wf (frames md)" and "length (frames md) \<le> 16" and "md' = store_frame md a bytes now"
  shows "hm_wf (frames md') \<and> length (frames md') \<le> 16
    \<and> hm_get (frames md') a = Some \<lparr> seq = frame_seq md, jpeg = bytes, last_update = now \<rparr>
    \<and> (\<forall>b fr. b \<noteq> a \<longrightarrow> hm_get (frames md) b = Some fr \<longrightarrow> hm_get (frames md') b = None \<longrightarrow>
         length (frames md) = 16 \<and> hm_get (frames md) a = None
         \<and> (\<forall>c fr'. hm_get (frames md) c = Some fr' \<longrightarrow> last_update fr \<le> last_update fr'))"
proof (cases "\<not> hm_contains (frames md) a \<and> length (frames md) \<ge> MAX_CACHED_FRAMES")
  case True
  then have full: "length (frames md) = 16" "hm_get (frames md) a = None"
    using assms(2) by (auto simp: MAX_CACHED_FRAMES_def hm_contains_def)
  then have "frames md \<noteq> []" by auto
  then obtain k fr where k: "oldest_frame (frames md) = Some k" "hm_get (frames md) k = Some fr"
    using oldest_frame_present [of "frames md"] by auto
  let ?fr = "\<lparr> seq = frame_seq md, jpeg = bytes, last_update = now \<rparr>"
  have md': "frames md' = hm_insert a ?fr (hm_remove k (frames md))"
    using True k by (simp add: assms(3) store_frame_def Let_def)
  have "length (frames md') \<le> 16"
    using hm_length_remove_old [OF assms(1) k(2)] hm_length_insert_le [of a ?fr "hm_remove k (frames md)"] full
    by (simp add: md')
  moreover have "hm_wf (frames md')" unfolding md' by (intro hm.invar_insert hm.invar_remove assms(1))
  moreover have "b = k" if "b \<noteq> a" "hm_get (frames md) b = Some fr'" "hm_get (frames md') b = None" for b fr'
    using that by (auto simp: md' split: if_splits)
  moreover have "last_update fr \<le> last_update fr'" if "hm_get (frames md) c = Some fr'" for c fr'
    by (rule oldest_frame_least [OF assms(1) k that])
  moreover have "hm_get (frames md') a = Some ?fr" by (simp add: md')
  ultimately show ?thesis using full k(2) by (metis option.inject)
next
  case False
  let ?fr = "\<lparr> seq = frame_seq md, jpeg = bytes, last_update = now \<rparr>"
  have md': "frames md' = hm_insert a ?fr (frames md)"
    using False by (auto simp: assms(3) store_frame_def Let_def)
  have "length (frames md') \<le> 16"
  proof (cases "hm_get (frames md) a")
    case None
    with False have "length (frames md) < 16" by (simp add: hm_contains_def MAX_CACHED_FRAMES_def)
    with None show ?thesis by (simp add: md' hm_length_insert_fresh)
  next
    case (Some x)
    with assms(2) show ?thesis by (simp add: md' hm_length_insert_old)
  qed
  then show ?thesis using assms(1) by (auto simp: md')
qed

theorem frame_cache_bounded_witness:
  "length (frames (store_frame example_live_media 4 [1] 8)) \<le> 16
   \<and> hm_get (frames (store_frame example_live_media 4 [1] 8)) 4 = Some \<lparr> seq = 1, jpeg = [1], last_update = 8 \<rparr>"
  using frame_cache_bounded [of example_live_media "store_frame example_live_media 4 [1] 8" 4 "[1]" 8]
  by (simp add: example_live_media_def LiveMedia_default_def hm_wf_def)

text \<open>
  A frame is cached only with permission: a binary message changes what is served for a device only
  when it came over the device's current connection, has at most 8 MiB, is neither audio nor a history
  frame, and the device grants the live screen; audio and history frames are passed on only under
  their own modules, and an oversized message or one from a replaced socket ends that socket.
\<close>

theorem frame_needs_grant:
  "let (act, st') = binary_frame st a conn frame now in
   (st' = st \<or> (current_conn (agents st) a = Some conn \<and> length frame \<le> 8388608
      \<and> module_authorized (agents st) a LiveScreen \<and> st' = st\<lparr>media := store_frame (media st) a frame now\<rparr>))
   \<and> (act = RouteAudio \<longrightarrow> current_conn (agents st) a = Some conn \<and> module_authorized (agents st) a LiveAudio)
   \<and> (act = IngestHistory \<longrightarrow> current_conn (agents st) a = Some conn \<and> module_authorized (agents st) a Recall)
   \<and> (act = DropSocket \<longleftrightarrow> current_conn (agents st) a \<noteq> Some conn \<or> 8388608 < length frame)"
  by (auto simp: binary_frame_def MAX_AGENT_BINARY_BYTES_def)

theorem frame_needs_grant_witness:
  "hm_get (frames (media (snd (binary_frame example_full 9 3 [7] 60)))) 9 = Some \<lparr> seq = 1, jpeg = [7], last_update = 60 \<rparr>
   \<and> fst (binary_frame example_full 9 77 [7] 60) = DropSocket"
proof -
  have c: "current_conn (agents example_full) 9 = Some 3"
    by (simp add: example_full_def example_app_def example_registry_def current_conn_def example_conn_def)
  have "module_authorized (agents example_full) 9 LiveScreen"
    using example_live_authorized(1) by (simp add: example_full_def example_app_def example_live_def)
  then have "hm_get (frames (media (snd (binary_frame example_full 9 3 [7] 60)))) 9 = Some \<lparr> seq = 1, jpeg = [7], last_update = 60 \<rparr>"
    using c by (simp add: binary_frame_def MAX_AGENT_BINARY_BYTES_def store_frame_def Let_def hm_contains_def)
      (simp add: example_full_def example_live_media_def LiveMedia_default_def)
  with frame_needs_grant [of example_full 9 77 "[7]" 60] c show ?thesis by (simp add: case_prod_unfold Let_def)
qed

end
