(* ===== verification/Strings.thy ===== *)
theory Strings
  imports Json
begin

text \<open>
  The functions of \<open>str\<close> the code calls on text: \<open>trim\<close>, \<open>chars().take(n)\<close>, \<open>split\<close> and digit filters, on strings of
  UTF-8 bytes. White space is Unicode's \<open>White_Space\<close>, by its encodings.
\<close>

section \<open>Trimming\<close>

definition white_space :: "string list" where
  "white_space = map (map char_of)
     [[9], [10], [11], [12], [13], [32 :: nat], [0xC2, 0x85], [0xC2, 0xA0], [0xE1, 0x9A, 0x80],
      [0xE2, 0x80, 0x80], [0xE2, 0x80, 0x81], [0xE2, 0x80, 0x82], [0xE2, 0x80, 0x83], [0xE2, 0x80, 0x84],
      [0xE2, 0x80, 0x85], [0xE2, 0x80, 0x86], [0xE2, 0x80, 0x87], [0xE2, 0x80, 0x88], [0xE2, 0x80, 0x89],
      [0xE2, 0x80, 0x8A], [0xE2, 0x80, 0xA8], [0xE2, 0x80, 0xA9], [0xE2, 0x80, 0xAF], [0xE2, 0x81, 0x9F],
      [0xE3, 0x80, 0x80]]"

definition leads :: "string \<Rightarrow> string \<Rightarrow> bool" where
  "leads s p \<longleftrightarrow> p \<noteq> [] \<and> take (length p) s = p"

function strip_leading :: "string list \<Rightarrow> string \<Rightarrow> string" where
  "strip_leading ps s = (case find (leads s) ps of None \<Rightarrow> s | Some p \<Rightarrow> strip_leading ps (drop (length p) s))"
  by auto

termination
proof (relation "measure (\<lambda>(ps, s). length s)")
  fix ps s p assume "find (leads s) ps = Some p"
  then have "leads s p" by (auto simp: find_Some_iff)
  then show "((ps, drop (length p) s), ps, s) \<in> measure (\<lambda>(ps, s). length s)" by (cases s) (auto simp: leads_def)
qed simp

declare strip_leading.simps [simp del]

definition trim_start :: "string \<Rightarrow> string" where
  "trim_start s = strip_leading white_space s"

definition trim_end :: "string \<Rightarrow> string" where
  "trim_end s = rev (strip_leading (map rev white_space) (rev s))"

definition trim :: "string \<Rightarrow> string" where
  "trim s = trim_end (trim_start s)"

lemma strip_leading_suffix: "\<exists>n. strip_leading ps s = drop n s"
proof (induction ps s rule: strip_leading.induct)
  case (1 ps s)
  show ?case
  proof (cases "find (leads s) ps")
    case None
    then show ?thesis by (intro exI [of _ 0]) (simp add: strip_leading.simps [of ps s])
  next
    case (Some p)
    with 1 obtain n where "strip_leading ps (drop (length p) s) = drop n (drop (length p) s)" by blast
    with Some show ?thesis by (intro exI [of _ "n + length p"]) (simp add: strip_leading.simps [of ps s])
  qed
qed

lemma strip_leading_done: "p \<in> set ps \<Longrightarrow> \<not> leads (strip_leading ps s) p"
proof (induction ps s rule: strip_leading.induct)
  case (1 ps s)
  show ?case
  proof (cases "find (leads s) ps")
    case None
    then have "strip_leading ps s = s" by (simp add: strip_leading.simps [of ps s])
    with None 1(2) show ?thesis by (simp add: find_None_iff)
  next
    case (Some q)
    with 1(1) [OF Some 1(2)] show ?thesis by (simp add: strip_leading.simps [of ps s])
  qed
qed

lemma strip_leading_id: "(\<And>p. p \<in> set ps \<Longrightarrow> \<not> leads s p) \<Longrightarrow> strip_leading ps s = s"
  by (auto simp: strip_leading.simps [of ps s] find_None_iff split: option.split) (metis find_Some_iff nth_mem)

lemma length_trim: "length (trim s) \<le> length s"
proof -
  have strip: "length (strip_leading ps x) \<le> length x" for ps x
    using strip_leading_suffix [of ps x] by auto
  show ?thesis
    unfolding trim_def trim_end_def trim_start_def
    using strip [of "map rev white_space" "rev (strip_leading white_space s)"] strip [of white_space s] by simp
qed

lemma trim_Nil [simp]: "trim [] = []"
  using length_trim [of "[]"] by simp

text \<open>A text of visible ASCII characters has nothing to trim.\<close>

definition visible :: "char \<Rightarrow> bool" where
  "visible c \<longleftrightarrow> 33 \<le> (of_char c :: nat) \<and> (of_char c :: nat) < 127"

lemma white_space_invisible: "p \<in> set white_space \<Longrightarrow> c \<in> set p \<Longrightarrow> \<not> visible c"
  unfolding white_space_def visible_def by auto

lemma leads_hd: "leads s p \<Longrightarrow> s \<noteq> [] \<and> hd s \<in> set p"
  unfolding leads_def by (cases s; cases p) auto

lemma trim_visible_ends:
  assumes "s = [] \<or> visible (hd s) \<and> visible (last s)"
  shows "trim s = s"
proof -
  have "strip_leading white_space s = s"
    by (rule strip_leading_id) (use assms in \<open>auto dest!: leads_hd white_space_invisible\<close>)
  moreover have "strip_leading (map rev white_space) (rev s) = rev s"
    by (rule strip_leading_id) (use assms in \<open>auto dest!: leads_hd white_space_invisible simp: hd_rev\<close>)
  ultimately show ?thesis by (simp add: trim_def trim_start_def trim_end_def)
qed

lemma trim_visible: "(\<And>c. c \<in> set s \<Longrightarrow> visible c) \<Longrightarrow> trim s = s"
  by (rule trim_visible_ends) (cases "s = []", simp_all)

text \<open>\<open>to_ascii_lowercase\<close>\<close>

definition ascii_lower :: "char \<Rightarrow> char" where
  "ascii_lower c = (let n = of_char c :: nat in if 65 \<le> n \<and> n \<le> 90 then char_of (n + 32) else c)"

definition to_ascii_lowercase :: "string \<Rightarrow> string" where
  "to_ascii_lowercase s = map ascii_lower s"

section \<open>Prefixes and pieces\<close>

text \<open>\<open>chars().take(n).collect()\<close>\<close>

fun take_chars :: "nat \<Rightarrow> string \<Rightarrow> string" where
  "take_chars n [] = []"
| "take_chars n (c # cs) =
     (if is_utf8_continuation c then c # take_chars n cs
      else case n of 0 \<Rightarrow> [] | Suc k \<Rightarrow> c # take_chars k cs)"

lemma chars_count_take_chars: "chars_count (take_chars n s) \<le> n"
  by (induction n s rule: take_chars.induct) (auto simp: chars_count_def split: nat.split)

lemma take_chars_id: "chars_count s \<le> n \<Longrightarrow> take_chars n s = s"
  by (induction n s rule: take_chars.induct) (auto simp: chars_count_def split: nat.split if_splits)

lemma take_chars_idem: "take_chars n (take_chars n s) = take_chars n s"
  by (rule take_chars_id) (rule chars_count_take_chars)

text \<open>\<open>split(|c| ..)\<close>: the pieces between the separators, empty ones included.\<close>

fun split_at :: "(char \<Rightarrow> bool) \<Rightarrow> string \<Rightarrow> string list" where
  "split_at p [] = [[]]"
| "split_at p (c # cs) =
     (if p c then [] # split_at p cs
      else case split_at p cs of [] \<Rightarrow> [[c]] | x # xs \<Rightarrow> (c # x) # xs)"

lemma split_at_Nil [simp]: "split_at p s \<noteq> []"
  by (induction s) (auto split: list.split)

lemma split_at_pieces: "x \<in> set (split_at p s) \<Longrightarrow> c \<in> set x \<Longrightarrow> \<not> p c \<and> c \<in> set s"
  by (induction s arbitrary: x) (fastforce split: if_splits list.splits)+

text \<open>\<open>char::is_ascii_digit\<close>\<close>

definition is_ascii_digit :: "char \<Rightarrow> bool" where
  "is_ascii_digit c \<longleftrightarrow> 48 \<le> (of_char c :: nat) \<and> (of_char c :: nat) \<le> 57"

end
