(* ===== verification/ModuleLifecycle.thy ===== *)
theory ModuleLifecycle
  imports Connections Strings
begin

text \<open>
  Module reports and disable requests over time: the two database tables and their statements
  (\<open>server/src/agents/modules/db.rs\<close>, with the constraints of migration \<open>0069_agent_modules.sql\<close>), accepting a
  report, sending pending disable requests, accepting their acknowledgments
  (\<open>server/src/agents/modules/mod.rs\<close>) and the operator's request (\<open>api.rs\<close>).

  A table is the list of its rows in insertion order. Whether a statement succeeds is an argument of the
  operation that runs it (\<open>read_ok\<close>, \<open>save_ok\<close>, ...): a statement that fails changes nothing. The time stamps
  of rows and events are not kept, except that the order of \<open>created_at\<close> is the order of insertion; a
  clock reading is the argument \<open>now\<close>.
\<close>

section \<open>The tables\<close>

record DisableRequestRow =
  row_command_id :: Uuid
  row_agent_id :: Uuid
  row_module :: string
  row_expected_revision :: nat
  row_status :: string
  row_error :: "string option"
  row_persisted :: bool
  row_stop_status :: string
  row_last_sent_conn_id :: "Uuid option"

record Db =
  agent_module_reports :: "(Uuid, Value \<times> Uuid) HashMap"
  agent_module_disable_requests :: "DisableRequestRow list"

definition row_pending :: "DisableRequestRow \<Rightarrow> bool" where
  "row_pending row = (row_status row = ''queued'' \<or> row_status row = ''sent'')"

text \<open>\<open>request\<close>: the module's name and the revision's decimal text may fail to parse.\<close>

definition request :: "DisableRequestRow \<Rightarrow> ModuleDisableRequest option" where
  "request row =
     (case module_of_str (row_module row) of
        None \<Rightarrow> None
      | Some m \<Rightarrow>
          if row_expected_revision row < 2 ^ 64 then
            Some \<lparr> req_command_id = row_command_id row, req_agent_id = row_agent_id row, req_module = m,
              req_expected_revision = of_nat (row_expected_revision row), req_status = row_status row,
              req_error = row_error row, req_persisted = row_persisted row, req_stopped = False,
              req_stop_status = row_stop_status row, req_pending = row_pending row \<rparr>
          else None)"

definition module_report :: "Db \<Rightarrow> Uuid \<Rightarrow> (ModuleReport \<times> Uuid, ReportError) Result option" where
  "module_report db agent =
     map_option (\<lambda>(state, conn). case ModuleReport_parse state of Inl e \<Rightarrow> Err e | Inr r \<Rightarrow> Ok (r, conn))
       (hm_get (agent_module_reports db) agent)"

definition has_module_report :: "Db \<Rightarrow> Uuid \<Rightarrow> bool" where
  "has_module_report db agent = hm_contains (agent_module_reports db) agent"

definition save_module_report :: "Db \<Rightarrow> Uuid \<Rightarrow> Uuid \<Rightarrow> ModuleReport \<Rightarrow> Db" where
  "save_module_report db agent conn report =
     db\<lparr>agent_module_reports := hm_insert agent (json_report report, conn) (agent_module_reports db)\<rparr>"

definition module_disable_requests :: "Db \<Rightarrow> Uuid \<Rightarrow> bool \<Rightarrow> ModuleDisableRequest list option" where
  "module_disable_requests db agent pending_only =
     (let rows = rev (filter (\<lambda>row. row_agent_id row = agent) (agent_module_disable_requests db));
          chosen = (if pending_only then filter row_pending rows
                    else filter row_pending rows @ filter (\<lambda>row. \<not> row_pending row) rows)
      in decode_all request (take 200 chosen))"

definition disable_row :: "Db \<Rightarrow> Uuid \<Rightarrow> Uuid \<Rightarrow> DisableRequestRow option" where
  "disable_row db agent command_id =
     find (\<lambda>row. row_agent_id row = agent \<and> row_command_id row = command_id) (agent_module_disable_requests db)"

text \<open>\<open>Some None\<close>: no such row; \<open>None\<close>: a row that does not decode.\<close>

definition module_disable_request :: "Db \<Rightarrow> Uuid \<Rightarrow> Uuid \<Rightarrow> ModuleDisableRequest option option" where
  "module_disable_request db agent command_id =
     (case disable_row db agent command_id of
        None \<Rightarrow> Some None
      | Some row \<Rightarrow> map_option Some (request row))"

text \<open>\<open>INSERT .. ON CONFLICT DO NOTHING\<close> against the primary key and the partial unique index.\<close>

definition insert_disable :: "Db \<Rightarrow> Uuid \<Rightarrow> Module \<Rightarrow> u64 \<Rightarrow> Uuid \<Rightarrow> Db" where
  "insert_disable db agent m revision command_id =
     (if list_ex (\<lambda>row. row_command_id row = command_id
             \<or> (row_agent_id row = agent \<and> row_module row = module_as_str m \<and> row_pending row))
           (agent_module_disable_requests db)
      then db
      else db\<lparr>agent_module_disable_requests := agent_module_disable_requests db @
             [\<lparr> row_command_id = command_id, row_agent_id = agent, row_module = module_as_str m,
                row_expected_revision = unat revision, row_status = ''queued'', row_error = None,
                row_persisted = False, row_stop_status = ''unconfirmed'', row_last_sent_conn_id = None \<rparr>]\<rparr>)"

definition create_module_disable ::
  "Db \<Rightarrow> Uuid \<Rightarrow> Module \<Rightarrow> u64 \<Rightarrow> Uuid \<Rightarrow> ModuleDisableRequest option option \<times> Db" where
  "create_module_disable db agent m revision command_id =
     (let db1 = insert_disable db agent m revision command_id in
      (map_option (option_filter (\<lambda>rq. req_module rq = m \<and> req_expected_revision rq = revision))
         (module_disable_request db1 agent command_id), db1))"

definition update_pending ::
  "Db \<Rightarrow> Uuid \<Rightarrow> Uuid \<Rightarrow> (DisableRequestRow \<Rightarrow> DisableRequestRow) \<Rightarrow> Db" where
  "update_pending db agent command g =
     db\<lparr>agent_module_disable_requests :=
          map (\<lambda>row. if row_agent_id row = agent \<and> row_command_id row = command \<and> row_pending row then g row else row)
            (agent_module_disable_requests db)\<rparr>"

definition mark_module_disable_sent :: "Db \<Rightarrow> Uuid \<Rightarrow> Uuid \<Rightarrow> Uuid \<Rightarrow> Db" where
  "mark_module_disable_sent db agent command conn =
     update_pending db agent command (\<lambda>row. row\<lparr>row_status := ''sent'', row_last_sent_conn_id := Some conn\<rparr>)"

definition acknowledge_module_disable ::
  "Db \<Rightarrow> Uuid \<Rightarrow> Uuid \<Rightarrow> string \<Rightarrow> string option \<Rightarrow> string \<Rightarrow> Db" where
  "acknowledge_module_disable db agent command status err stop_status =
     update_pending db agent command
       (\<lambda>row. row\<lparr>row_status := status, row_error := err,
                  row_persisted := (status = ''disabled'' \<or> status = ''duplicate''), row_stop_status := stop_status\<rparr>)"

section \<open>Sending pending requests\<close>

datatype LifecycleError = BadReport ReportError | BadAck | Refused string | DbFailed

text \<open>After a successful send: the request counts as sent on this connection.\<close>

definition note_sent :: "AgentRegistry \<Rightarrow> Uuid \<Rightarrow> Uuid \<Rightarrow> Uuid \<Rightarrow> Instant \<Rightarrow> AgentRegistry" where
  "note_sent reg agent_id conn command now =
     (case option_filter (\<lambda>rt. rm_conn_id rt = conn) (hm_get (modules reg) agent_id) of
        None \<Rightarrow> reg
      | Some rt \<Rightarrow> reg\<lparr>modules := hm_insert agent_id
          (rt\<lparr>rm_sent := insert command (rm_sent rt), rm_last_sent := hm_insert command now (rm_last_sent rt)\<rparr>)
          (modules reg)\<rparr>)"

definition disable_command :: "ModuleDisableRequest \<Rightarrow> ServerCommand" where
  "disable_command rq = ServerCommand.DisableModule
     (DisableModule_new (req_module rq) (req_expected_revision rq) (req_command_id rq))"

text \<open>The loop of \<open>replay_module_disables\<close>; \<open>mark_ok\<close> says which updates of the table succeed.\<close>

fun replay_each ::
  "Uuid_fmt \<Rightarrow> AppState \<Rightarrow> Db \<Rightarrow> Uuid \<Rightarrow> Uuid \<Rightarrow> (Uuid \<Rightarrow> bool) \<Rightarrow> Instant \<Rightarrow> ModuleDisableRequest list
    \<Rightarrow> (unit, LifecycleError) Result \<times> AppState \<times> Db" where
  "replay_each f st db agent_id conn mark_ok now [] = (Ok (), st, db)"
| "replay_each f st db agent_id conn mark_ok now (rq # rqs) =
     (let (r, reg) = send_command f (agents st) agent_id (disable_command rq) in
      if is_ok r then
        (let st1 = st\<lparr>agents := note_sent reg agent_id conn (req_command_id rq) now\<rparr> in
         if mark_ok (req_command_id rq)
         then replay_each f st1 (mark_module_disable_sent db agent_id (req_command_id rq) conn) agent_id conn mark_ok now rqs
         else (Err DbFailed, st1, db))
      else replay_each f (st\<lparr>agents := reg\<rparr>) db agent_id conn mark_ok now rqs)"

definition unsent_requests :: "AgentRegistry \<Rightarrow> Uuid \<Rightarrow> Uuid \<Rightarrow> ModuleDisableRequest list" where
  "unsent_requests reg agent_id conn =
     (case option_filter (\<lambda>rt. rm_conn_id rt = conn) (hm_get (modules reg) agent_id) of
        None \<Rightarrow> []
      | Some rt \<Rightarrow> filter (\<lambda>rq. req_command_id rq \<notin> rm_sent rt) (hm_values (rm_pending rt)))"

definition replay_module_disables ::
  "Uuid_fmt \<Rightarrow> AppState \<Rightarrow> Db \<Rightarrow> Uuid \<Rightarrow> Uuid \<Rightarrow> (Uuid \<Rightarrow> bool) \<Rightarrow> Instant
    \<Rightarrow> (unit, LifecycleError) Result \<times> AppState \<times> Db" where
  "replay_module_disables f st db agent_id conn mark_ok now =
     replay_each f st db agent_id conn mark_ok now (unsent_requests (agents st) agent_id conn)"

section \<open>Accepting a report\<close>

definition grant_off :: "ModuleState \<Rightarrow> bool" where
  "grant_off s = (\<not> enabled s \<or> \<not> available s \<or> authorization_required s)"

text \<open>Whether the module has another revision in the report stored for the agent, whatever its connection.\<close>

definition revision_changed :: "AgentRegistry \<Rightarrow> Uuid \<Rightarrow> ModuleReport \<Rightarrow> Module \<Rightarrow> bool" where
  "revision_changed reg agent_id report m =
     is_some_and (hm_get (modules reg) agent_id)
       (\<lambda>old. ms_revision (report_get (rm_report old) m) \<noteq> ms_revision (report_get report m))"

definition report_revokes :: "AgentRegistry \<Rightarrow> Uuid \<Rightarrow> ModuleReport \<Rightarrow> bool" where
  "report_revokes reg agent_id report =
     (revision_changed reg agent_id report LiveScreen \<or> grant_off (report_get report LiveScreen)
      \<or> grant_off (report_get report RemoteInput) \<or> revision_changed reg agent_id report RemoteInput)"

text \<open>\<open>active.generation = Uuid::nil()\<close>: queued capture commands and the running capture are no longer current.\<close>

definition reset_capture_generation :: "AppState \<Rightarrow> Uuid \<Rightarrow> AppState" where
  "reset_capture_generation st agent_id =
     st\<lparr>media := (media st)\<lparr>mjpeg_active_capture :=
       hm_modify agent_id (\<lambda>a. a\<lparr>generation := uuid_nil\<rparr>) (mjpeg_active_capture (media st))\<rparr>\<rparr>"

text \<open>Revoke before the new generation is published.\<close>

definition apply_report_change :: "Uuid_fmt \<Rightarrow> AppState \<Rightarrow> Uuid \<Rightarrow> Uuid \<Rightarrow> bool \<Rightarrow> bool \<Rightarrow> AppState" where
  "apply_report_change f st agent_id conn revoke screen_changed =
     (let st1 = (if revoke then revoke_agent_control_locked f st agent_id conn else st)
      in if screen_changed then reset_capture_generation st1 agent_id else st1)"

definition collect_pending :: "ModuleDisableRequest list \<Rightarrow> (Uuid, ModuleDisableRequest) HashMap" where
  "collect_pending rqs = foldl (\<lambda>m rq. hm_insert (req_command_id rq) rq m) [] rqs"

definition store_report ::
  "AgentRegistry \<Rightarrow> Uuid \<Rightarrow> Uuid \<Rightarrow> ModuleReport \<Rightarrow> ModuleDisableRequest list \<Rightarrow> AgentRegistry" where
  "store_report reg agent_id conn report pending =
     (let (sent, last_sent) = (case option_filter (\<lambda>rt. rm_conn_id rt = conn) (hm_get (modules reg) agent_id) of
                            None \<Rightarrow> ({}, [])
                          | Some rt \<Rightarrow> (rm_sent rt, rm_last_sent rt))
      in reg\<lparr>modules := hm_insert agent_id \<lparr> rm_conn_id = conn, rm_report = report,
               rm_pending = collect_pending pending, rm_sent = sent, rm_last_sent = last_sent \<rparr>
             (hm_remove agent_id (modules reg))\<rparr>)"

definition report_follows_current :: "AgentRegistry \<Rightarrow> Uuid \<Rightarrow> Uuid \<Rightarrow> ModuleReport \<Rightarrow> bool" where
  "report_follows_current reg agent_id conn report =
     is_none_or (option_filter (\<lambda>rt. rm_conn_id rt = conn) (hm_get (modules reg) agent_id))
       (\<lambda>previous. follows report (rm_report previous))"

definition accept_module_report ::
  "Uuid_fmt \<Rightarrow> AppState \<Rightarrow> Db \<Rightarrow> Uuid \<Rightarrow> Uuid \<Rightarrow> Value \<Rightarrow> bool \<Rightarrow> bool \<Rightarrow> (Uuid \<Rightarrow> bool) \<Rightarrow> Instant \<Rightarrow> Value
    \<Rightarrow> (unit, LifecycleError) Result \<times> AppState \<times> Db" where
  "accept_module_report f st db agent_id conn value read_ok save_ok mark_ok now at =
     (case ModuleReport_parse value of
        Inl e \<Rightarrow> (Err (BadReport e), st, db)
      | Inr report \<Rightarrow>
          if current_conn (agents st) agent_id \<noteq> Some conn then (Err (Refused ''stale socket report''), st, db)
          else if \<not> report_follows_current (agents st) agent_id conn report
          then (Err (Refused ''backward or inconsistent module revisions''), st, db)
          else
            (case (if read_ok then module_disable_requests db agent_id True else None) of
               None \<Rightarrow> (Err DbFailed, st, db)
             | Some pending \<Rightarrow>
                 if \<not> save_ok then (Err DbFailed, st, db)
                 else
                   (let db1 = save_module_report db agent_id conn report;
                        revoke = (report_revokes (agents st) agent_id report
                                  \<or> list_ex (\<lambda>rq. req_module rq = RemoteInput) pending);
                        st1 = apply_report_change f st agent_id conn revoke
                                (revision_changed (agents st) agent_id report LiveScreen);
                        st2 = st1\<lparr>agents := store_report (agents st1) agent_id conn report pending\<rparr>;
                        st3 = broadcast st2 (json_obj [(''event'', Str ''agent_modules''), (''agent_id'', json_uuid f agent_id),
                                (''state'', json_report report), (''reported_at'', at)])
                    in replay_module_disables f st3 db1 agent_id conn mark_ok now)))"

section \<open>Acknowledgments\<close>

record DisableAck =
  ack_kind :: string
  ack_command_id :: Uuid
  ack_module :: Module
  ack_ok :: bool
  ack_status :: string
  ack_state :: "Value option"
  ack_error :: "string option"
  ack_persisted :: bool
  ack_stopped :: bool
  ack_stop_status :: "string option"

text \<open>A struct that ignores unknown fields; in an array the last fields may be missing.\<close>

fun open_struct_fields :: "string list \<Rightarrow> Value \<Rightarrow> (string \<times> Value) list option" where
  "open_struct_fields names (Obj kvs) = Some kvs"
| "open_struct_fields names (Arr vs) = (if length vs \<le> length names then Some (zip names vs) else None)"
| "open_struct_fields names _ = None"

text \<open>Fields with \<open>#[serde(default)]\<close>: absent is the default, \<open>null\<close> is \<open>None\<close> of an option, another type fails.\<close>

definition default_bool :: "Value option \<Rightarrow> bool option" where
  "default_bool v = (case v of None \<Rightarrow> Some False | Some x \<Rightarrow> as_bool x)"

definition default_opt_string :: "Value option \<Rightarrow> string option option" where
  "default_opt_string v =
     (case v of None \<Rightarrow> Some None | Some x \<Rightarrow> if is_null x then Some None else map_option Some (as_str x))"

definition default_opt_value :: "Value option \<Rightarrow> Value option" where
  "default_opt_value v = option_filter (\<lambda>x. \<not> is_null x) v"

definition disable_ack_of_value :: "Uuid_fmt \<Rightarrow> Value \<Rightarrow> DisableAck option" where
  "disable_ack_of_value f v =
     Option.bind (open_struct_fields [''type'', ''command_id'', ''module'', ''ok'', ''status'', ''state'', ''error'',
                    ''persisted'', ''stopped'', ''stop_status''] v)
       (\<lambda>kvs. case (Option.bind (map_of kvs ''type'') as_str,
                    Option.bind (Option.bind (map_of kvs ''command_id'') as_str) (parse_str f),
                    Option.bind (map_of kvs ''module'') module_of_value,
                    Option.bind (map_of kvs ''ok'') as_bool,
                    Option.bind (map_of kvs ''status'') as_str,
                    default_opt_string (map_of kvs ''error''),
                    default_bool (map_of kvs ''persisted''), default_bool (map_of kvs ''stopped''),
                    default_opt_string (map_of kvs ''stop_status'')) of
          (Some k, Some i, Some m, Some b, Some s, Some e, Some p, Some q, Some t) \<Rightarrow>
            Some \<lparr> ack_kind = k, ack_command_id = i, ack_module = m, ack_ok = b, ack_status = s,
              ack_state = default_opt_value (map_of kvs ''state''), ack_error = e, ack_persisted = p,
              ack_stopped = q, ack_stop_status = t \<rparr>
        | _ \<Rightarrow> None)"

definition ack_success :: "DisableAck \<Rightarrow> bool" where
  "ack_success ack = (ack_status ack = ''disabled'' \<or> ack_status ack = ''duplicate'')"

definition ack_stop_text :: "DisableAck \<Rightarrow> string" where
  "ack_stop_text ack = unwrap_or (ack_stop_status ack) ''unconfirmed''"

text \<open>The \<open>ensure!\<close>s between the request's lookup and the report, in order.\<close>

definition check_ack :: "AgentRegistry \<Rightarrow> Uuid \<Rightarrow> Uuid \<Rightarrow> DisableAck \<Rightarrow> ModuleDisableRequest \<Rightarrow> string option" where
  "check_ack reg agent_id conn ack rq =
     (if \<not> is_some_and (option_filter (\<lambda>rt. rm_conn_id rt = conn) (hm_get (modules reg) agent_id))
            (\<lambda>rt. ack_command_id ack \<in> rm_sent rt)
      then Some ''acknowledgment was not sent on this connection''
      else if req_module rq \<noteq> ack_module ack then Some ''acknowledgment module differs from request''
      else if \<not> (ack_status ack \<in> {''disabled'', ''duplicate'', ''stale'', ''conflict'', ''error''} \<and> ack_ok ack = ack_success ack)
      then Some ''invalid acknowledgment status''
      else if \<not> (\<not> ack_success ack \<or> ack_persisted ack) then Some ''successful ack must confirm durable persistence''
      else if ack_stopped ack then Some ''physical stop is not confirmed by this protocol''
      else if \<not> (length (ack_stop_text ack) \<le> 256) then Some ''invalid stop status''
      else None)"

definition check_ack_report ::
  "AgentRegistry \<Rightarrow> Uuid \<Rightarrow> Uuid \<Rightarrow> DisableAck \<Rightarrow> ModuleDisableRequest \<Rightarrow> ModuleReport \<Rightarrow> string option" where
  "check_ack_report reg agent_id conn ack rq report =
     (let grant = report_get report (ack_module ack) in
      if ack_success ack \<and> \<not> (ms_revision grant > req_expected_revision rq)
      then Some ''ack revision does not follow requested generation''
      else if ack_status ack = ''disabled'' \<and> \<not> (\<not> enabled grant \<and> authorization_required grant)
      then Some ''disable ack must report revoked grant''
      else if ack_status ack = ''stale'' \<and> ms_revision grant = req_expected_revision rq
      then Some ''stale ack must show different generation''
      else if \<not> report_follows_current reg agent_id conn report then Some ''backward acknowledgment report''
      else None)"

definition settle_request ::
  "AgentRegistry \<Rightarrow> Uuid \<Rightarrow> Uuid \<Rightarrow> Uuid \<Rightarrow> ModuleReport option \<Rightarrow> AgentRegistry" where
  "settle_request reg agent_id conn command report =
     (case option_filter (\<lambda>rt. rm_conn_id rt = conn) (hm_get (modules reg) agent_id) of
        None \<Rightarrow> reg
      | Some rt \<Rightarrow> reg\<lparr>modules := hm_insert agent_id
          (rt\<lparr>rm_report := unwrap_or report (rm_report rt), rm_pending := hm_remove command (rm_pending rt),
              rm_sent := rm_sent rt - {command}, rm_last_sent := hm_remove command (rm_last_sent rt)\<rparr>)
          (modules reg)\<rparr>)"

definition ack_event :: "Uuid_fmt \<Rightarrow> Uuid \<Rightarrow> DisableAck \<Rightarrow> string option \<Rightarrow> ModuleReport option \<Rightarrow> Value" where
  "ack_event f agent_id ack err report =
     json_obj [(''event'', Str ''module_disable_ack''), (''agent_id'', json_uuid f agent_id),
       (''command_id'', json_uuid f (ack_command_id ack)), (''module'', json_module (ack_module ack)),
       (''status'', Str (ack_status ack)), (''persisted'', Bool (ack_success ack)), (''stopped'', Bool False),
       (''stop_status'', Str (ack_stop_text ack)), (''error'', json_opt Str err), (''state'', json_opt json_report report)]"

text \<open>The part after the checks: the report and the request are stored, then the new state is published.\<close>

definition apply_ack ::
  "Uuid_fmt \<Rightarrow> AppState \<Rightarrow> Db \<Rightarrow> Uuid \<Rightarrow> Uuid \<Rightarrow> DisableAck \<Rightarrow> ModuleReport option \<Rightarrow> bool \<Rightarrow> bool
    \<Rightarrow> (unit, LifecycleError) Result \<times> AppState \<times> Db" where
  "apply_ack f st db agent_id conn ack report save_ok ack_ok_db =
     (if report \<noteq> None \<and> \<not> save_ok then (Err DbFailed, st, db)
      else
        (let db1 = (case report of None \<Rightarrow> db | Some r \<Rightarrow> save_module_report db agent_id conn r);
             err = map_option (take_chars 1024) (ack_error ack) in
         if \<not> ack_ok_db then (Err DbFailed, st, db1)
         else
           (let db2 = acknowledge_module_disable db1 agent_id (ack_command_id ack) (ack_status ack) err (ack_stop_text ack);
                st1 = apply_report_change f st agent_id conn
                        (is_some_and report (report_revokes (agents st) agent_id))
                        (is_some_and report (\<lambda>r. revision_changed (agents st) agent_id r LiveScreen));
                st2 = st1\<lparr>agents := settle_request (agents st1) agent_id conn (ack_command_id ack) report\<rparr>
            in (Ok (), broadcast st2 (ack_event f agent_id ack err report), db2))))"

definition accept_module_disable_ack ::
  "Uuid_fmt \<Rightarrow> AppState \<Rightarrow> Db \<Rightarrow> Uuid \<Rightarrow> Uuid \<Rightarrow> Value \<Rightarrow> bool \<Rightarrow> bool \<Rightarrow> bool
    \<Rightarrow> (unit, LifecycleError) Result \<times> AppState \<times> Db" where
  "accept_module_disable_ack f st db agent_id conn value read_ok save_ok ack_ok_db =
     (case disable_ack_of_value f value of
        None \<Rightarrow> (Err BadAck, st, db)
      | Some ack \<Rightarrow>
     if ack_kind ack \<noteq> ''module_disable_ack'' then (Err (Refused ''invalid acknowledgment type''), st, db)
     else if current_conn (agents st) agent_id \<noteq> Some conn then (Err (Refused ''stale socket acknowledgment''), st, db)
     else
       (case (if read_ok then module_disable_request db agent_id (ack_command_id ack) else None) of
          None \<Rightarrow> (Err DbFailed, st, db)
        | Some None \<Rightarrow> (Err (Refused ''uncorrelated acknowledgment''), st, db)
        | Some (Some rq) \<Rightarrow>
     if \<not> req_pending rq then (Ok (), st, db)
     else
       (case check_ack (agents st) agent_id conn ack rq of
          Some e \<Rightarrow> (Err (Refused e), st, db)
        | None \<Rightarrow>
       (case (case ack_state ack of None \<Rightarrow> Ok None
              | Some v \<Rightarrow> (case ModuleReport_parse v of Inl e \<Rightarrow> Err e | Inr r \<Rightarrow> Ok (Some r))) of
          Inl e \<Rightarrow> (Err (BadReport e), st, db)
        | Inr report \<Rightarrow>
            if \<not> (ack_status ack = ''error'' \<or> report \<noteq> None)
            then (Err (Refused ''acknowledgment needs full report''), st, db)
            else
              (case Option.bind report (check_ack_report (agents st) agent_id conn ack rq) of
                 Some e \<Rightarrow> (Err (Refused e), st, db)
               | None \<Rightarrow> apply_ack f st db agent_id conn ack report save_ok ack_ok_db)))))"

section \<open>The operator's request\<close>

definition DISABLE_RETRY_COOLDOWN :: Duration where "DISABLE_RETRY_COOLDOWN = from_secs 5"

record DisableBody =
  body_module :: Module
  body_expected_revision :: u64
  body_command_id :: Uuid

text \<open>The locked block for a pending request: revoke control, then hand the request to the connection's
  runtime. The result is the connection to send it on, or how long a retry has to wait.\<close>

definition publish_request ::
  "Uuid_fmt \<Rightarrow> AppState \<Rightarrow> Uuid \<Rightarrow> ModuleDisableRequest \<Rightarrow> bool \<Rightarrow> Instant
    \<Rightarrow> (Uuid option, Duration) Result \<times> AppState" where
  "publish_request f st agent_id rq retry now =
     (let st1 = (if req_module rq = RemoteInput \<or> req_module rq = LiveScreen
                 then (case current_conn (agents st) agent_id of
                         Some conn \<Rightarrow> revoke_agent_control_locked f st agent_id conn
                       | None \<Rightarrow> st)
                 else st);
          reg = agents st1 in
      case Option.bind (hm_get (connections reg) agent_id)
             (\<lambda>c. option_filter (\<lambda>rt. rm_conn_id rt = conn_id c) (hm_get (modules reg) agent_id)) of
        None \<Rightarrow> (Ok None, st1)
      | Some rt \<Rightarrow>
          (let wait = (case hm_get (rm_last_sent rt) (req_command_id rq) of
                         Some sent_at \<Rightarrow> DISABLE_RETRY_COOLDOWN - duration_since now sent_at
                       | None \<Rightarrow> 0) in
           if retry \<and> wait \<noteq> 0 then (Err wait, st1)
           else
             (let rt1 = (if retry then rt\<lparr>rm_sent := rm_sent rt - {req_command_id rq}\<rparr> else rt);
                  rt2 = rt1\<lparr>rm_pending := hm_insert (req_command_id rq) rq (rm_pending rt1)\<rparr>
              in (Ok (Some (rm_conn_id rt)), st1\<lparr>agents := reg\<lparr>modules := hm_insert agent_id rt2 (modules reg)\<rparr>\<rparr>))))"

definition operator_required :: ApiError where
  "operator_required = Coded 403 ''forbidden'' ''Operator role required''"

text \<open>Only a new request is checked against the stored report.\<close>

definition check_revision ::
  "Db \<Rightarrow> Uuid \<Rightarrow> DisableBody \<Rightarrow> ModuleDisableRequest option \<Rightarrow> bool \<Rightarrow> (unit, ApiError) Result" where
  "check_revision db agent_id body previous report_ok =
     (if previous \<noteq> None then Ok ()
      else if \<not> report_ok then Err Internal
      else case module_report db agent_id of
             None \<Rightarrow> Err (Coded 409 ''module_report_required''
               ''Update the agent and obtain a module report before requesting a disable.'')
           | Some (Inl _) \<Rightarrow> Err Internal
           | Some (Inr (report, _)) \<Rightarrow>
               if ms_revision (report_get report (body_module body)) \<noteq> body_expected_revision body
               then Err (Coded 409 ''module_revision_conflict''
                 ''Module revision changed; refresh before requesting disable.'')
               else Ok ())"

definition retry_cooldown :: "Uuid_fmt \<Rightarrow> ModuleDisableRequest \<Rightarrow> Duration \<Rightarrow> ApiError" where
  "retry_cooldown f rq wait = Custom 429 (json_obj [(''code'', Str ''module_retry_cooldown''),
     (''error'', Str ''Wait before retrying this pending disable request.''),
     (''command_id'', json_uuid f (req_command_id rq)), (''retry_after_ms'', json_nat (max 1 (as_millis wait)))])"

definition send_request ::
  "Uuid_fmt \<Rightarrow> AppState \<Rightarrow> Db \<Rightarrow> Uuid \<Rightarrow> ModuleDisableRequest \<Rightarrow> bool \<Rightarrow> (Uuid \<Rightarrow> bool) \<Rightarrow> Instant
    \<Rightarrow> (unit, ApiError) Result \<times> AppState \<times> Db" where
  "send_request f st db agent_id rq retry mark_ok now =
     (if \<not> req_pending rq then (Ok (), st, db)
      else
        (let (p, st1) = publish_request f st agent_id rq retry now in
         case p of
           Inl wait \<Rightarrow> (Err (retry_cooldown f rq wait), st1, db)
         | Inr None \<Rightarrow> (Ok (), st1, db)
         | Inr (Some conn) \<Rightarrow>
             (let (r, st2, db2) = replay_module_disables f st1 db agent_id conn mark_ok now
              in (if is_err r then Err Internal else Ok (), st2, db2))))"

definition final_request :: "Db \<Rightarrow> Uuid \<Rightarrow> Uuid \<Rightarrow> bool \<Rightarrow> (ModuleDisableRequest, ApiError) Result" where
  "final_request db agent_id command final_ok =
     (case (if final_ok then module_disable_request db agent_id command else None) of
        None \<Rightarrow> Err Internal
      | Some None \<Rightarrow> Err (Empty 404)
      | Some (Some rq) \<Rightarrow> Ok rq)"

text \<open>\<open>known\<close>: whether the agent is in the database, \<open>None\<close> when asking failed. \<open>prev_ok\<close>, \<open>report_ok\<close>, \<open>create_ok\<close>
  and \<open>final_ok\<close> are the statements in order; a create that fails may fail before or after its insert, which
  \<open>insert_done\<close> says. The audit row is not modelled.\<close>

definition disable_module ::
  "Uuid_fmt \<Rightarrow> AppState \<Rightarrow> Db \<Rightarrow> Uuid \<Rightarrow> AuthUser \<Rightarrow> DisableBody \<Rightarrow> bool option \<Rightarrow> bool \<Rightarrow> bool \<Rightarrow> bool \<Rightarrow> bool
    \<Rightarrow> (Uuid \<Rightarrow> bool) \<Rightarrow> bool \<Rightarrow> Instant \<Rightarrow> (ModuleDisableRequest, ApiError) Result \<times> AppState \<times> Db" where
  "disable_module f st db agent_id user body known prev_ok report_ok create_ok insert_done mark_ok final_ok now =
     (if \<not> is_operator user then (Err operator_required, st, db)
      else if known = None then (Err Internal, st, db)
      else if known = Some False then (Err (Empty 404), st, db)
      else
        (case (if prev_ok then module_disable_request db agent_id (body_command_id body) else None) of
           None \<Rightarrow> (Err Internal, st, db)
         | Some previous \<Rightarrow>
        (case check_revision db agent_id body previous report_ok of
           Inl e \<Rightarrow> (Err e, st, db)
         | Inr _ \<Rightarrow>
             (let (created, db1) = create_module_disable db agent_id (body_module body) (body_expected_revision body)
                                     (body_command_id body) in
              if \<not> create_ok then (Err Internal, st, if insert_done then db1 else db)
              else
                (case created of
                   None \<Rightarrow> (Err Internal, st, db1)
                 | Some None \<Rightarrow> (Err (Coded 409 ''disable_request_conflict''
                     ''Command ID was reused with different binding, or this module already has a pending request.''), st, db1)
                 | Some (Some rq) \<Rightarrow>
                     (let (r, st1, db2) = send_request f st db1 agent_id rq (previous \<noteq> None) mark_ok now
                      in (case r of Inl e \<Rightarrow> Err e | Inr _ \<Rightarrow> final_request db2 agent_id (body_command_id body) final_ok,
                          st1, db2)))))))"

text \<open>\<open>GET /api/agents/:id/modules\<close>. \<open>reported_at\<close> is not modelled.\<close>

record ModulesResponse =
  mr_state :: "ModuleReport option"
  mr_online :: bool
  mr_authorization_current :: bool
  mr_pending :: "ModuleDisableRequest list"

definition get_modules ::
  "AgentRegistry \<Rightarrow> Db \<Rightarrow> Uuid \<Rightarrow> AuthUser \<Rightarrow> bool option \<Rightarrow> bool \<Rightarrow> bool \<Rightarrow> (ModulesResponse, ApiError) Result" where
  "get_modules reg db agent_id user known report_ok requests_ok =
     (if \<not> is_operator user then Err operator_required
      else if known = None then Err Internal
      else if known = Some False then Err (Empty 404)
      else
        (case (if report_ok then (case module_report db agent_id of
                                    None \<Rightarrow> Some None
                                  | Some (Inl _) \<Rightarrow> None
                                  | Some (Inr (report, _)) \<Rightarrow> Some (Some report)) else None) of
           None \<Rightarrow> Err Internal
         | Some state \<Rightarrow>
        (case (if requests_ok then module_disable_requests db agent_id False else None) of
           None \<Rightarrow> Err Internal
         | Some requests \<Rightarrow>
             Ok \<lparr> mr_state = state, mr_online = hm_contains (connections reg) agent_id,
               mr_authorization_current = (case (hm_get (connections reg) agent_id, hm_get (modules reg) agent_id) of
                   (Some connection, Some runtime) \<Rightarrow> conn_id connection = rm_conn_id runtime
                 | _ \<Rightarrow> False),
               mr_pending = requests \<rparr>)))"

section \<open>The operations keep the invariant\<close>

lemma send_command_frame [simp, frame_simps]:
  "current_conn (snd (send_command f reg a c)) b = current_conn reg b"
  "modules (snd (send_command f reg a c)) = modules reg"
  "connections (snd (send_command f reg a c)) = connections reg"
  by (auto simp: send_command_def send_agent_command_json_def Let_def enqueue_authorized_command_def
      split: sum.split option.split)

lemma app_inv_modules:
  assumes "app_inv st" "current_conn (agents st) a = Some (rm_conn_id rt)" "runtime_ok rt"
  shows "app_inv (st\<lparr>agents := (agents st)\<lparr>modules := hm_insert a rt (modules (agents st))\<rparr>\<rparr>)"
proof (rule app_inv_agents [OF assms(1)])
  show "registry_inv ((agents st)\<lparr>modules := hm_insert a rt (modules (agents st))\<rparr>)"
    using app_invD(1) [OF assms(1)] assms(2,3) by (auto simp: registry_inv_def)
qed simp

lemma filtered_runtime:
  assumes "app_inv st" "option_filter (\<lambda>rt. rm_conn_id rt = conn) (hm_get (modules (agents st)) a) = Some rt"
  shows "hm_get (modules (agents st)) a = Some rt" "rm_conn_id rt = conn" "current_conn (agents st) a = Some conn" "runtime_ok rt"
  using assms registry_invD(6,7) [OF app_invD(1) [OF assms(1)], of a rt] by (auto simp: option_filter_eq_Some)

lemma note_sent_app_inv:
  assumes "app_inv st"
  shows "app_inv (st\<lparr>agents := note_sent (agents st) a conn c now\<rparr>)"
proof (cases "option_filter (\<lambda>rt. rm_conn_id rt = conn) (hm_get (modules (agents st)) a)")
  case None
  with assms show ?thesis by (simp add: note_sent_def)
next
  case (Some rt)
  note rt = filtered_runtime [OF assms Some]
  show ?thesis
    using app_inv_modules [OF assms, of a "rt\<lparr>rm_sent := insert c (rm_sent rt), rm_last_sent := hm_insert c now (rm_last_sent rt)\<rparr>"]
      rt Some by (simp add: note_sent_def runtime_ok_def)
qed

lemma send_command_app_inv: "app_inv st \<Longrightarrow> app_inv (st\<lparr>agents := snd (send_command f (agents st) a c)\<rparr>)"
  by (rule app_inv_agents) (simp_all add: send_command_def send_registry_inv app_invD send_command_frame(1) [unfolded send_command_def])

text \<open>What sending the pending requests changes: queues and the marks of what was sent.\<close>

definition unsent_view :: "RuntimeModules \<Rightarrow> Uuid \<times> ModuleReport \<times> (Uuid, ModuleDisableRequest) HashMap" where
  "unsent_view rt = (rm_conn_id rt, rm_report rt, rm_pending rt)"

lemma note_sent_frame [simp, frame_simps]:
  "current_conn (note_sent reg a conn c now) b = current_conn reg b"
  "connections (note_sent reg a conn c now) = connections reg"
  "map_option unsent_view (hm_get (modules (note_sent reg a conn c now)) b) = map_option unsent_view (hm_get (modules reg) b)"
  by (auto simp: note_sent_def unsent_view_def option_filter_eq_Some split: option.split)

lemma replay_each_app_inv:
  "app_inv st \<Longrightarrow> app_inv (fst (snd (replay_each f st db a conn mark_ok now rqs)))"
proof (induction rqs arbitrary: st db)
  case Nil
  then show ?case by simp
next
  case (Cons rq rqs)
  let ?st1 = "st\<lparr>agents := snd (send_command f (agents st) a (disable_command rq))\<rparr>"
  have s: "app_inv ?st1" by (rule send_command_app_inv [OF Cons.prems])
  then have "app_inv (?st1\<lparr>agents := note_sent (agents ?st1) a conn (req_command_id rq) now\<rparr>)"
    by (rule note_sent_app_inv)
  with s Cons.IH show ?case by (simp add: case_prod_unfold Let_def)
qed

lemma replay_each_frame:
  "control (fst (snd (replay_each f st db a conn mark_ok now rqs))) = control st"
  "media (fst (snd (replay_each f st db a conn mark_ok now rqs))) = media st"
  "oneshots (fst (snd (replay_each f st db a conn mark_ok now rqs))) = oneshots st"
  "connections (agents (fst (snd (replay_each f st db a conn mark_ok now rqs)))) = connections (agents st)"
  "map_option unsent_view (hm_get (modules (agents (fst (snd (replay_each f st db a conn mark_ok now rqs))))) b) =
     map_option unsent_view (hm_get (modules (agents st)) b)"
  by (induction rqs arbitrary: st db) (simp_all add: case_prod_unfold Let_def)

lemma reset_generation_app_inv:
  assumes "app_inv st"
  shows "app_inv (reset_capture_generation st a)"
proof -
  have "media_inv (reset_capture_generation st a)"
  proof (rule media_invI)
    note m = media_invD [OF app_invD(3) [OF assms]]
    let ?st' = "reset_capture_generation st a"
    have count: "count_sessions (media ?st') b = count_sessions (media st) b" for b
      by (simp add: reset_capture_generation_def count_sessions_def)
    show "current_conn (agents ?st') b = Some (ac_conn_id ac)"
      if "hm_get (mjpeg_active_capture (media ?st')) b = Some ac" for b ac
      using that m(4) by (auto simp: reset_capture_generation_def split: if_splits)
    show "hm_get (capture_viewers (media ?st')) b =
        (if count_sessions (media ?st') b = 0 then None else Some (of_nat (count_sessions (media ?st') b)))" for b
      using m(5) [of b] by (simp add: count) (simp add: reset_capture_generation_def)
    show "count_sessions (media ?st') b \<le> 256" for b using m(6) [of b] by (simp add: count)
  qed (use media_invD [OF app_invD(3) [OF assms]] in \<open>auto simp: reset_capture_generation_def\<close>)
  with assms show ?thesis by (simp add: app_inv_def reset_capture_generation_def control_inv_def)
qed

lemma apply_report_change_app_inv [inv_intros]:
  "app_inv st \<Longrightarrow> app_inv (apply_report_change f st a conn revoke screen)"
  by (simp add: apply_report_change_def Let_def reset_generation_app_inv revoke_agent_app_inv)

lemma apply_report_change_frame [simp, frame_simps]:
  "current_conn (agents (apply_report_change f st a conn revoke screen)) b = current_conn (agents st) b"
  "modules (agents (apply_report_change f st a conn revoke screen)) = modules (agents st)"
  "clipboard (control (apply_report_change f st a conn revoke screen)) = clipboard (control st)"
  "oneshots (apply_report_change f st a conn revoke screen) = oneshots st"
  by (simp_all add: apply_report_change_def Let_def reset_capture_generation_def)

lemma hm_wf_collect: "hm_wf (collect_pending rqs)"
proof -
  have "hm_wf m \<Longrightarrow> hm_wf (foldl (\<lambda>m rq. hm_insert (req_command_id rq) rq m) m rqs)" for m
    by (induction rqs arbitrary: m) auto
  then show ?thesis by (simp add: collect_pending_def)
qed

lemma store_report_app_inv:
  assumes "app_inv st" "current_conn (agents st) a = Some conn" "validated report"
  shows "app_inv (st\<lparr>agents := store_report (agents st) a conn report pending\<rparr>)"
proof (rule app_inv_agents [OF assms(1)])
  show "registry_inv (store_report (agents st) a conn report pending)"
    using app_invD(1) [OF assms(1)] assms(2,3) hm_wf_collect [of pending]
    by (auto simp: registry_inv_def store_report_def case_prod_unfold Let_def runtime_ok_def)
qed (simp add: store_report_def case_prod_unfold Let_def)

lemma accept_module_report_app_inv [inv_intros]:
  assumes "app_inv st"
  shows "app_inv (fst (snd (accept_module_report f st db a conn v read_ok save_ok mark_ok now at)))"
proof -
  have "app_inv (fst (snd (replay_module_disables f (broadcast ((apply_report_change f st a conn r s)
      \<lparr>agents := store_report (agents (apply_report_change f st a conn r s)) a conn report pending\<rparr>) e) d a conn mark_ok now)))"
    if "current_conn (agents st) a = Some conn" "ModuleReport_parse v = Ok report" for report pending r s e d
    unfolding replay_module_disables_def
    by (rule replay_each_app_inv)
      (use that in \<open>auto intro!: store_report_app_inv apply_report_change_app_inv assms ModuleReport_parse_validated\<close>)
  then show ?thesis
    using assms by (simp add: accept_module_report_def Let_def split: sum.split option.split)
qed

lemma settle_app_inv:
  assumes "app_inv st" "\<And>r. report = Some r \<Longrightarrow> validated r"
  shows "app_inv (st\<lparr>agents := settle_request (agents st) a conn c report\<rparr>)"
proof (cases "option_filter (\<lambda>rt. rm_conn_id rt = conn) (hm_get (modules (agents st)) a)")
  case None
  with assms show ?thesis by (simp add: settle_request_def)
next
  case (Some rt)
  note rt = filtered_runtime [OF assms(1) Some]
  let ?rt = "rt\<lparr>rm_report := unwrap_or report (rm_report rt), rm_pending := hm_remove c (rm_pending rt),
              rm_sent := rm_sent rt - {c}, rm_last_sent := hm_remove c (rm_last_sent rt)\<rparr>"
  have "runtime_ok ?rt" using rt(4) assms(2) by (cases report) (auto simp: runtime_ok_def)
  with app_inv_modules [OF assms(1), of a ?rt] rt Some show ?thesis by (simp add: settle_request_def)
qed

lemma apply_ack_app_inv:
  assumes "app_inv st" "\<And>r. report = Some r \<Longrightarrow> validated r"
  shows "app_inv (fst (snd (apply_ack f st db a conn ack report save_ok ok)))"
  using assms by (simp add: apply_ack_def Let_def settle_app_inv apply_report_change_app_inv)

lemma accept_ack_app_inv [inv_intros]:
  assumes "app_inv st"
  shows "app_inv (fst (snd (accept_module_disable_ack f st db a conn v read_ok save_ok ok)))"
  using assms
  by (auto simp: accept_module_disable_ack_def Let_def split: sum.split option.split
      intro!: apply_ack_app_inv dest: ModuleReport_parse_validated)

lemma publish_request_app_inv:
  assumes "app_inv st"
  shows "app_inv (snd (publish_request f st a rq retry now))"
proof -
  define st1 where "st1 = (if req_module rq = RemoteInput \<or> req_module rq = LiveScreen
      then (case current_conn (agents st) a of Some conn \<Rightarrow> revoke_agent_control_locked f st a conn | None \<Rightarrow> st) else st)"
  have inv: "app_inv st1" using assms by (auto simp: st1_def revoke_agent_app_inv split: option.split)
  show ?thesis
  proof (cases "Option.bind (conn_of (agents st1) a) (\<lambda>c. option_filter (\<lambda>rt. rm_conn_id rt = conn_id c) (hm_get (modules (agents st1)) a))")
    case None
    with inv show ?thesis by (simp add: publish_request_def st1_def [symmetric] Let_def)
  next
    case (Some rt)
    then have "\<exists>cid. option_filter (\<lambda>rt. rm_conn_id rt = cid) (hm_get (modules (agents st1)) a) = Some rt"
      by (auto simp: bind_eq_Some_conv)
    then obtain cid where c: "option_filter (\<lambda>rt. rm_conn_id rt = cid) (hm_get (modules (agents st1)) a) = Some rt" ..
    note rt = filtered_runtime [OF inv c]
    have "app_inv (st1\<lparr>agents := (agents st1)\<lparr>modules := hm_insert a (rt'\<lparr>rm_pending := hm_insert (req_command_id rq) rq (rm_pending rt')\<rparr>)
        (modules (agents st1))\<rparr>\<rparr>)" if "unsent_view rt' = unsent_view rt" for rt'
      using that rt by (intro app_inv_modules [OF inv]) (auto simp: unsent_view_def runtime_ok_def)
    from this [of rt] this [of "rt\<lparr>rm_sent := rm_sent rt - {req_command_id rq}\<rparr>"] show ?thesis
      using Some inv by (simp add: publish_request_def st1_def [symmetric] Let_def unsent_view_def)
  qed
qed

lemma send_request_app_inv:
  assumes "app_inv st"
  shows "app_inv (fst (snd (send_request f st db a rq retry mark_ok now)))"
proof -
  have "app_inv (snd (publish_request f st a rq retry now))" by (rule publish_request_app_inv [OF assms])
  then show ?thesis
    using assms by (simp add: send_request_def replay_module_disables_def case_prod_unfold Let_def replay_each_app_inv
        split: sum.split option.split)
qed

lemma disable_module_app_inv [inv_intros]:
  "app_inv st \<Longrightarrow> app_inv (fst (snd (disable_module f st db a user body known p1 p2 p3 p4 mark_ok p5 now)))"
  by (simp add: disable_module_def case_prod_unfold Let_def send_request_app_inv split: sum.split option.split)

section \<open>The table of requests\<close>

text \<open>
  What the migration's constraints give: a command id names one row, a device has at most one pending
  request per module, and what the server wrote it can read.
\<close>

abbreviation rows_of :: "Db \<Rightarrow> DisableRequestRow list" where
  "rows_of db \<equiv> agent_module_disable_requests db"

definition pending_keys :: "DisableRequestRow list \<Rightarrow> (Uuid \<times> string) list" where
  "pending_keys rows = map (\<lambda>r. (row_agent_id r, row_module r)) (filter row_pending rows)"

definition db_inv :: "Db \<Rightarrow> bool" where
  "db_inv db \<longleftrightarrow> distinct (map row_command_id (rows_of db)) \<and> distinct (pending_keys (rows_of db))
     \<and> (\<forall>row \<in> set (rows_of db). request row \<noteq> None)"

lemma request_iff: "request row \<noteq> None \<longleftrightarrow> module_of_str (row_module row) \<noteq> None \<and> row_expected_revision row < 2 ^ 64"
  by (simp add: request_def split: option.split)

lemma db_inv_insert [inv_intros]:
  assumes "db_inv db"
  shows "db_inv (insert_disable db a m r c)"
proof (cases "list_ex (\<lambda>row. row_command_id row = c \<or> (row_agent_id row = a \<and> row_module row = module_as_str m \<and> row_pending row)) (rows_of db)")
  case True
  with assms show ?thesis by (simp add: insert_disable_def)
next
  case False
  moreover have "unat r < 2 ^ 64" using unsigned_less [of r] by simp
  then have "\<exists>rq. request \<lparr>row_command_id = c, row_agent_id = a, row_module = module_as_str m,
      row_expected_revision = unat r, row_status = ''queued'', row_error = None, row_persisted = False,
      row_stop_status = ''unconfirmed'', row_last_sent_conn_id = None\<rparr> = Some rq"
    by (simp add: request_def)
  ultimately show ?thesis
    using assms by (auto simp: insert_disable_def db_inv_def pending_keys_def list_ex_iff row_pending_def)
qed

lemma pending_keys_update:
  assumes "distinct (pending_keys rows)" "\<And>r. (row_agent_id (h r), row_module (h r)) = (row_agent_id r, row_module r)"
    "\<And>r. row_pending (h r) \<Longrightarrow> row_pending r"
  shows "distinct (pending_keys (map h rows)) \<and> set (pending_keys (map h rows)) \<subseteq> set (pending_keys rows)"
  using assms(1) by (induction rows) (use assms(2,3) in \<open>auto simp: pending_keys_def\<close>)

lemma db_inv_update:
  assumes "db_inv db" "\<And>r. row_command_id (g r) = row_command_id r" "\<And>r. row_agent_id (g r) = row_agent_id r"
    "\<And>r. row_module (g r) = row_module r" "\<And>r. row_expected_revision (g r) = row_expected_revision r"
  shows "db_inv (update_pending db a c g)"
proof -
  let ?h = "\<lambda>row. if row_agent_id row = a \<and> row_command_id row = c \<and> row_pending row then g row else row"
  have "map row_command_id (map ?h rows) = map row_command_id rows" for rows
    using assms(2) by (induction rows) auto
  moreover have "distinct (pending_keys (map ?h (rows_of db)))"
    using pending_keys_update [of "rows_of db" ?h] assms(1,3,4) by (auto simp: db_inv_def split: if_splits)
  moreover have "request (g r) \<noteq> None \<longleftrightarrow> request r \<noteq> None" for r
    by (simp only: request_iff assms(4,5))
  ultimately show ?thesis
    using assms(1) by (auto simp: db_inv_def update_pending_def simp del: map_map)
qed

lemma db_inv_ops [inv_intros]:
  "db_inv db \<Longrightarrow> db_inv (mark_module_disable_sent db a c conn)"
  "db_inv db \<Longrightarrow> db_inv (acknowledge_module_disable db a c s e t)"
  "db_inv db \<Longrightarrow> db_inv (save_module_report db a conn r)"
proof -
  show "db_inv (mark_module_disable_sent db a c conn)" if "db_inv db"
    unfolding mark_module_disable_sent_def by (rule db_inv_update [OF that]) simp_all
  show "db_inv (acknowledge_module_disable db a c s e t)" if "db_inv db"
    unfolding acknowledge_module_disable_def by (rule db_inv_update [OF that]) simp_all
  show "db_inv (save_module_report db a conn r)" if "db_inv db"
    using that by (simp add: db_inv_def save_module_report_def)
qed

lemma db_inv_replay: "db_inv db \<Longrightarrow> db_inv (snd (snd (replay_each f st db a conn mark_ok now rqs)))"
  by (induction rqs arbitrary: st db) (simp_all add: case_prod_unfold Let_def db_inv_ops)

lemma db_inv_operations [inv_intros]:
  "db_inv db \<Longrightarrow> db_inv (snd (snd (accept_module_report f st db a conn v read_ok save_ok mark_ok now at)))"
  "db_inv db \<Longrightarrow> db_inv (snd (snd (accept_module_disable_ack f st db a conn v read_ok save_ok ok)))"
  "db_inv db \<Longrightarrow> db_inv (snd (snd (disable_module f st db a user body known p1 p2 p3 p4 mark_ok p5 now)))"
proof -
  show "db_inv (snd (snd (accept_module_report f st db a conn v read_ok save_ok mark_ok now at)))" if "db_inv db"
    using that by (simp add: accept_module_report_def replay_module_disables_def Let_def db_inv_replay db_inv_ops
        split: sum.split option.split)
  have "db_inv (snd (snd (apply_ack f st db a conn ack r save_ok ok)))" if "db_inv db" for ack r
    using that by (simp add: apply_ack_def Let_def db_inv_ops split: option.split)
  then show "db_inv (snd (snd (accept_module_disable_ack f st db a conn v read_ok save_ok ok)))" if "db_inv db"
    using that by (simp add: accept_module_disable_ack_def split: sum.split option.split)
  have "db_inv (snd (snd (send_request f st d a rq retry mark_ok now)))" if "db_inv d" for d rq retry
    using that by (simp add: send_request_def replay_module_disables_def case_prod_unfold Let_def db_inv_replay
        split: sum.split option.split)
  then show "db_inv (snd (snd (disable_module f st db a user body known p1 p2 p3 p4 mark_ok p5 now)))" if "db_inv db"
    using that by (simp add: disable_module_def create_module_disable_def case_prod_unfold Let_def db_inv_insert
        split: sum.split option.split)
qed

lemma decode_all_ok: "\<forall>x \<in> set xs. g x \<noteq> None \<Longrightarrow> decode_all g xs = Some (map (\<lambda>x. the (g x)) xs)"
  by (induction xs) auto

lemma module_of_str_SomeD: "module_of_str s = Some m \<Longrightarrow> s = module_as_str m"
  unfolding module_of_str_def by (auto dest!: map_of_SomeD)

text \<open>The pending rows of a device, in the order the query returns them.\<close>

definition pending_rows :: "Db \<Rightarrow> Uuid \<Rightarrow> DisableRequestRow list" where
  "pending_rows db a = filter row_pending (rev (filter (\<lambda>row. row_agent_id row = a) (rows_of db)))"

lemma set_pending_rows: "set (pending_rows db a) = {row \<in> set (rows_of db). row_agent_id row = a \<and> row_pending row}"
  by (auto simp: pending_rows_def)

lemma distinct_pending_modules:
  "distinct (pending_keys xs) \<Longrightarrow> distinct (map row_module (filter (\<lambda>row. row_agent_id row = a \<and> row_pending row) xs))"
proof (induction xs)
  case (Cons row xs)
  then have "distinct (pending_keys xs)" by (simp add: pending_keys_def split: if_splits)
  with Cons show ?case by (auto simp: pending_keys_def image_iff split: if_splits)
qed simp

lemma distinct_pending_rows: "db_inv db \<Longrightarrow> distinct (map row_module (pending_rows db a))"
  by (simp add: pending_rows_def rev_filter [symmetric] rev_map [symmetric] db_inv_def distinct_pending_modules)

lemma request_module:
  "request row = Some rq \<Longrightarrow> row_module row = module_as_str (req_module rq)"
  by (auto simp: request_def dest: module_of_str_SomeD split: option.splits if_splits)

lemma pending_rows_ok:
  assumes "db_inv db" "row \<in> set (pending_rows db a)"
  shows "request row = Some (the (request row))" "row_module row = module_as_str (req_module (the (request row)))"
proof -
  show "request row = Some (the (request row))" using assms by (auto simp: set_pending_rows db_inv_def)
  then show "row_module row = module_as_str (req_module (the (request row)))" by (rule request_module)
qed

lemma pending_rows_length:
  assumes "db_inv db"
  shows "length (pending_rows db a) \<le> 19"
proof -
  let ?mods = "map row_module (pending_rows db a)"
  have "length ?mods = card (set ?mods)" using distinct_card [OF distinct_pending_rows [OF assms]] by simp
  also have "\<dots> \<le> card (set (map module_as_str MODULES))"
    using pending_rows_ok(2) [OF assms] by (intro card_mono List.finite_set) (auto simp: set_MODULES)
  also have "\<dots> \<le> 19" using card_length [of "map module_as_str MODULES"] by (simp add: MODULES_def)
  finally show ?thesis by simp
qed

lemma pending_requests_eq:
  assumes "db_inv db"
  shows "module_disable_requests db a True = Some (map (\<lambda>row. the (request row)) (pending_rows db a))"
proof -
  have "\<forall>row \<in> set (pending_rows db a). request row \<noteq> None" using assms by (auto simp: set_pending_rows db_inv_def)
  from decode_all_ok [OF this] pending_rows_length [OF assms, of a] show ?thesis
    by (simp add: module_disable_requests_def Let_def pending_rows_def [symmetric])
qed

text \<open>
  No pending disable request is overlooked: whatever has happened to the table, a device has at most 19
  pending requests, one per module, the query that loads them when a report is accepted decodes and returns
  every one of them, and its limit of 200 rows never cuts one off.
\<close>

theorem pending_requests_complete:
  assumes "db_inv db"
  shows "\<exists>rqs. module_disable_requests db a True = Some rqs \<and> length rqs \<le> 19 \<and> distinct (map req_module rqs)
    \<and> (\<forall>rq. rq \<in> set rqs \<longleftrightarrow> (\<exists>row \<in> set (agent_module_disable_requests db).
         row_agent_id row = a \<and> row_pending row \<and> request row = Some rq))"
proof -
  let ?rows = "pending_rows db a" and ?rqs = "map (\<lambda>row. the (request row)) (pending_rows db a)"
  note ok = pending_rows_ok [OF assms, of _ a]
  have "map row_module ?rows = map module_as_str (map req_module ?rqs)" using ok(2) by simp
  with distinct_pending_rows [OF assms, of a] have "distinct (map req_module ?rqs)" by (simp only: distinct_map)
  moreover have "rq \<in> set ?rqs \<longleftrightarrow> (\<exists>row \<in> set (rows_of db). row_agent_id row = a \<and> row_pending row \<and> request row = Some rq)" for rq
    using ok(1) by (force simp: set_pending_rows)
  ultimately show ?thesis
    using pending_requests_eq [OF assms, of a] pending_rows_length [OF assms, of a] by auto
qed

text \<open>A table with a settled and a pending request of one device.\<close>

definition example_row :: "Uuid \<Rightarrow> Module \<Rightarrow> string \<Rightarrow> DisableRequestRow" where
  "example_row c m status = \<lparr> row_command_id = c, row_agent_id = 1, row_module = module_as_str m, row_expected_revision = 3,
     row_status = status, row_error = None, row_persisted = False, row_stop_status = ''unconfirmed'',
     row_last_sent_conn_id = None \<rparr>"

definition example_db :: Db where
  "example_db = \<lparr> agent_module_reports = [],
     agent_module_disable_requests = [example_row 21 Module.Clipboard ''disabled'', example_row 22 Module.Clipboard ''queued''] \<rparr>"

lemma example_db_inv: "db_inv example_db"
proof -
  have "request (example_row c m s) \<noteq> None" for c m s by (simp add: request_def example_row_def)
  then show ?thesis
    unfolding db_inv_def example_db_def by (simp add: pending_keys_def row_pending_def) (simp add: example_row_def)
qed

theorem pending_requests_complete_witness:
  "\<exists>rqs. module_disable_requests example_db 1 True = Some rqs \<and> length rqs \<le> 19 \<and> distinct (map req_module rqs)
    \<and> (\<forall>rq. rq \<in> set rqs \<longleftrightarrow> (\<exists>row \<in> set (agent_module_disable_requests example_db).
         row_agent_id row = 1 \<and> row_pending row \<and> request row = Some rq))"
  using pending_requests_complete [OF example_db_inv] .


lemma validated_parse: "validated r \<Longrightarrow> ModuleReport_parse (json_report r) = Ok r"
  by (simp add: ModuleReport_parse_def validated_validate) (simp add: validated_def)

lemma store_report_view:
  "map_option unsent_view (hm_get (modules (store_report reg a conn report pending)) a) = Some (conn, report, collect_pending pending)"
  by (simp add: store_report_def unsent_view_def case_prod_unfold Let_def)

section \<open>Reports and control\<close>

lemma collect_pending_values: "set (hm_values (collect_pending rqs)) \<subseteq> set rqs"
proof -
  have "hm_wf m \<Longrightarrow> set (hm_values (foldl (\<lambda>m rq. hm_insert (req_command_id rq) rq m) m rqs)) \<subseteq> set (hm_values m) \<union> set rqs" for m
  proof (induction rqs arbitrary: m)
    case (Cons rq rqs)
    have "set (hm_values (hm_insert (req_command_id rq) rq m)) \<subseteq> insert rq (set (hm_values m))"
    proof
      fix x assume x: "x \<in> set (hm_values (hm_insert (req_command_id rq) rq m))"
      have "hm_wf (hm_insert (req_command_id rq) rq m)" using Cons.prems by auto
      with x obtain k where "hm_get (hm_insert (req_command_id rq) rq m) k = Some x" by (auto simp: hm_values_set)
      then show "x \<in> insert rq (set (hm_values m))" using Cons.prems by (auto simp: hm_values_set split: if_splits)
    qed
    with Cons.IH [of "hm_insert (req_command_id rq) rq m"] Cons.prems show ?case by auto
  qed simp
  from this [of "[]"] show ?thesis by (simp add: collect_pending_def hm_values_def)
qed

text \<open>What an accepted report does, in one place: the checks that held and the state that is published,
  up to the marks of what was sent.\<close>

lemma accept_module_report_cases:
  assumes "accept_module_report f st db a conn v read_ok save_ok mark_ok now at = (Ok (), st', db')"
  obtains report pending where
    "ModuleReport_parse v = Ok report" "current_conn (agents st) a = Some conn"
    "report_follows_current (agents st) a conn report" "module_disable_requests db a True = Some pending"
    "control st' = control (apply_report_change f st a conn
       (report_revokes (agents st) a report \<or> list_ex (\<lambda>rq. req_module rq = RemoteInput) pending)
       (revision_changed (agents st) a report LiveScreen))"
    "connections (agents st') = connections (agents (apply_report_change f st a conn
       (report_revokes (agents st) a report \<or> list_ex (\<lambda>rq. req_module rq = RemoteInput) pending)
       (revision_changed (agents st) a report LiveScreen)))"
    "map_option unsent_view (hm_get (modules (agents st')) a) = Some (conn, report, collect_pending pending)"
    "agent_module_reports db' = agent_module_reports (save_module_report db a conn report)"
proof -
  have reports: "agent_module_reports (snd (snd (replay_each f s d a conn mark_ok now rqs))) = agent_module_reports d" for s d rqs
    by (induction rqs arbitrary: s d) (simp_all add: case_prod_unfold Let_def mark_module_disable_sent_def update_pending_def)
  show thesis
  proof (cases "ModuleReport_parse v")
    case (Inl e)
    with assms show thesis by (simp add: accept_module_report_def)
  next
    case (Inr report)
    show thesis
    proof (cases "module_disable_requests db a True")
      case None
      with assms Inr show thesis by (simp add: accept_module_report_def split: if_splits)
    next
      case (Some pending)
      let ?st1 = "apply_report_change f st a conn
         (report_revokes (agents st) a report \<or> list_ex (\<lambda>rq. req_module rq = RemoteInput) pending)
         (revision_changed (agents st) a report LiveScreen)"
      obtain st3 rqs where run: "replay_each f st3 (save_module_report db a conn report) a conn mark_ok now rqs = (Ok (), st', db')"
        and st3: "control st3 = control ?st1" "agents st3 = store_report (agents ?st1) a conn report pending"
        and ok: "current_conn (agents st) a = Some conn" "report_follows_current (agents st) a conn report"
        using assms Inr Some by (auto simp: accept_module_report_def replay_module_disables_def Let_def split: if_splits)
      note frame = replay_each_frame [of f st3 "save_module_report db a conn report" a conn mark_ok now rqs, simplified run fst_conv snd_conv]
      have "map_option unsent_view (hm_get (modules (agents st')) a) = Some (conn, report, collect_pending pending)"
        unfolding frame(5) st3(2) by (rule store_report_view)
      moreover have "connections (agents st') = connections (agents ?st1)"
        unfolding frame(4) st3(2) by (simp add: store_report_def case_prod_unfold Let_def)
      moreover have "agent_module_reports db' = agent_module_reports (save_module_report db a conn report)"
        using reports [of st3 "save_module_report db a conn report" rqs] run by simp
      ultimately show thesis using that Inr Some ok frame(1) st3(1) by simp
    qed
  qed
qed

text \<open>
  An accepted report is the device's word and nobody else's: it came over the device's current connection,
  is complete and consistent, follows the report accepted before it on that connection, is now the report
  commands are authorized against, with exactly the pending disable requests of the table, and is the one
  a reader of the table gets, with the connection it came over.
\<close>

theorem accepted_report_is_published:
  assumes "accept_module_report f st db a conn v read_ok save_ok mark_ok now at = (Ok (), st', db')"
  shows "\<exists>report. ModuleReport_parse v = Ok report \<and> current_conn (agents st) a = Some conn
    \<and> (\<forall>old. hm_get (modules (agents st)) a = Some old \<longrightarrow> rm_conn_id old = conn \<longrightarrow> follows report (rm_report old))
    \<and> (\<exists>rt. hm_get (modules (agents st')) a = Some rt \<and> rm_conn_id rt = conn \<and> rm_report rt = report
         \<and> Some (rm_pending rt) = map_option collect_pending (module_disable_requests db a True))
    \<and> module_report db' a = Some (Ok (report, conn))"
  using assms
proof (rule accept_module_report_cases)
  fix report pending
  assume parse: "ModuleReport_parse v = Ok report" and "current_conn (agents st) a = Some conn"
    and follows: "report_follows_current (agents st) a conn report"
    and "module_disable_requests db a True = Some pending"
    and "map_option unsent_view (hm_get (modules (agents st')) a) = Some (conn, report, collect_pending pending)"
    and stored: "agent_module_reports db' = agent_module_reports (save_module_report db a conn report)"
  moreover have "ModuleReport_parse (json_report report) = Ok report"
    using ModuleReport_parse_validated [OF parse] by (rule validated_parse)
  then have "module_report db' a = Some (Ok (report, conn))"
    by (simp add: module_report_def stored save_module_report_def)
  moreover have "follows report (rm_report old)" if "hm_get (modules (agents st)) a = Some old" "rm_conn_id old = conn" for old
    using follows that by (simp add: report_follows_current_def is_none_or_def)
  ultimately show ?thesis by (auto simp: unsent_view_def)
qed

text \<open>
  Control does not outlive its permissions: a lease that is still there after a report was accepted is
  the lease that was there before, and under the new report Remote Input is authorized (granted, with no
  disable pending) and Live Screen granted, both at the very revision they had in the stored report.
\<close>

theorem lease_survives_only_same_grants:
  assumes "app_inv st"
    and "accept_module_report f st db a conn v read_ok save_ok mark_ok now at = (Ok (), st', db')"
    and "lease_of (sessions (control st')) a = Some l"
  shows "lease_of (sessions (control st)) a = Some l \<and> module_authorized (agents st') a RemoteInput
    \<and> (\<exists>rt. hm_get (modules (agents st')) a = Some rt \<and> grants rt LiveScreen
         \<and> (\<forall>old m. hm_get (modules (agents st)) a = Some old \<longrightarrow> m \<in> {RemoteInput, LiveScreen} \<longrightarrow>
              ms_revision (report_get (rm_report rt) m) = ms_revision (report_get (rm_report old) m)))"
  using assms(2)
proof (rule accept_module_report_cases)
  fix report and pending :: "ModuleDisableRequest list"
  let ?revoke = "report_revokes (agents st) a report \<or> list_ex (\<lambda>rq. req_module rq = RemoteInput) pending"
    and ?screen = "revision_changed (agents st) a report LiveScreen"
  let ?st1 = "apply_report_change f st a conn ?revoke ?screen"
  assume conn: "current_conn (agents st) a = Some conn"
    and ctl: "control st' = control ?st1" and conns: "connections (agents st') = connections (agents ?st1)"
    and view: "map_option unsent_view (hm_get (modules (agents st')) a) = Some (conn, report, collect_pending pending)"
  have keep: "\<not> ?revoke"
  proof
    assume ?revoke
    then have "lease_of (sessions (control ?st1)) a = None"
      using revoke_current(1) [OF app_invD(2) [OF assms(1)] conn]
      by (auto simp: apply_report_change_def Let_def reset_capture_generation_def)
    with assms(3) ctl show False by simp
  qed
  then have lease: "lease_of (sessions (control st)) a = Some l"
    using assms(3) ctl by (simp add: apply_report_change_def Let_def reset_capture_generation_def split: if_splits)
  from view obtain rt where rt: "hm_get (modules (agents st')) a = Some rt" "rm_conn_id rt = conn" "rm_report rt = report"
    "rm_pending rt = collect_pending pending" by (auto simp: unsent_view_def)
  have granted: "grants rt RemoteInput" "grants rt LiveScreen"
    using keep rt(3) by (auto simp: grants_def Let_def report_revokes_def grant_off_def)
  have "\<not> disable_pending rt RemoteInput"
    using keep collect_pending_values [of pending] rt(4) by (auto simp: disable_pending_def list_ex_iff)
  moreover have "current_conn (agents st') a = current_conn (agents ?st1) a"
    unfolding current_conn_def conns ..
  with conn have "current_conn (agents st') a = Some conn" by simp
  ultimately have "module_authorized (agents st') a RemoteInput"
    using rt granted by (auto simp: module_authorized_def current_conn_def split: option.split)
  moreover have "ms_revision (report_get report m) = ms_revision (report_get (rm_report old) m)"
    if "hm_get (modules (agents st)) a = Some old" "m \<in> {RemoteInput, LiveScreen}" for old m
    using that keep by (auto simp: report_revokes_def revision_changed_def is_some_and_def)
  ultimately show ?thesis using lease rt granted by auto
qed

text \<open>The example device reports again what it has reported, with an empty table of requests.\<close>

abbreviation no_requests :: Db where
  "no_requests \<equiv> \<lparr> agent_module_reports = [], agent_module_disable_requests = [] \<rparr>"

abbreviation example_accept :: "(unit, LifecycleError) Result \<times> AppState \<times> Db" where
  "example_accept \<equiv> accept_module_report binary_fmt example_full no_requests 9 3 (json_report example_report) True True
     (\<lambda>_. True) 5 Null"

lemma example_accepted:
  "fst example_accept = Ok ()" "lease_of (sessions (control (fst (snd example_accept)))) 9 = lease_of (sessions (control example_full)) 9"
proof -
  have parse: "ModuleReport_parse (json_report example_report) = Ok example_report"
    by (rule validated_parse [OF example_report_validated])
  have rt: "hm_get (modules (agents example_full)) 9 = Some example_runtime" "rm_conn_id example_runtime = 3"
      "rm_report example_runtime = example_report" "current_conn (agents example_full) 9 = Some 3"
    by (simp_all add: example_full_def example_app_def example_registry_def example_runtime_def current_conn_def example_conn_def)
  have pend: "module_disable_requests no_requests 9 True = Some []" by (simp add: module_disable_requests_def)
  have "report_follows_current (agents example_full) 9 3 example_report"
    using rt by (simp add: report_follows_current_def is_none_or_def follows_refl example_report_validated)
  moreover have "\<not> report_revokes (agents example_full) 9 example_report"
    "\<not> revision_changed (agents example_full) 9 example_report LiveScreen"
    using rt by (simp_all add: report_revokes_def revision_changed_def is_some_and_def report_get_example grant_off_def example_state_def)
  ultimately show "fst example_accept = Ok ()"
    "lease_of (sessions (control (fst (snd example_accept)))) 9 = lease_of (sessions (control example_full)) 9"
    using parse rt pend
    by (simp_all add: accept_module_report_def Let_def apply_report_change_def replay_module_disables_def unsent_requests_def
        store_report_def collect_pending_def hm_values_def)
qed

lemma example_accept_eq: "example_accept = (Ok (), fst (snd example_accept), snd (snd example_accept))"
  using example_accepted(1) by (metis prod.collapse)

theorem accepted_report_is_published_witness:
  "\<exists>rt. hm_get (modules (agents (fst (snd example_accept)))) 9 = Some rt \<and> rm_conn_id rt = 3
     \<and> ModuleReport_parse (json_report example_report) = Ok (rm_report rt)"
  using accepted_report_is_published [OF example_accept_eq] by blast

theorem lease_survives_only_same_grants_witness:
  "module_authorized (agents (fst (snd example_accept))) 9 RemoteInput"
proof -
  have "\<exists>l. lease_of (sessions (control (fst (snd example_accept)))) 9 = Some l"
    unfolding example_accepted(2) by (simp add: example_full_def example_app_def example_sessions_def)
  then obtain l where "lease_of (sessions (control (fst (snd example_accept)))) 9 = Some l" ..
  from lease_survives_only_same_grants [OF example_full_inv example_accept_eq this] show ?thesis by blast
qed

section \<open>A disable request\<close>

lemma publish_request_effect:
  assumes "app_inv st" "publish_request f st a rq retry now = (Ok p, st1)"
  shows "\<not> module_authorized (agents st1) a (req_module rq)"
    "req_module rq \<in> {RemoteInput, LiveScreen} \<Longrightarrow> lease_of (sessions (control st1)) a = None"
proof -
  define st0 where "st0 = (if req_module rq = RemoteInput \<or> req_module rq = LiveScreen
      then (case current_conn (agents st) a of Some conn \<Rightarrow> revoke_agent_control_locked f st a conn | None \<Rightarrow> st) else st)"
  have lease: "lease_of (sessions (control st0)) a = None" if "req_module rq \<in> {RemoteInput, LiveScreen}"
  proof (cases "current_conn (agents st) a")
    case None
    with control_invD(4) [OF app_invD(2) [OF assms(1)], of a] that show ?thesis
      by (cases "lease_of (sessions (control st)) a") (auto simp: st0_def lease_owner_of_def)
  next
    case (Some conn)
    with revoke_current(1) [OF app_invD(2) [OF assms(1)] Some, of f] that show ?thesis by (auto simp: st0_def)
  qed
  let ?rt = "Option.bind (conn_of (agents st0) a) (\<lambda>c. option_filter (\<lambda>rt. rm_conn_id rt = conn_id c) (hm_get (modules (agents st0)) a))"
  have "control st1 = control st0 \<and> \<not> module_authorized (agents st1) a (req_module rq)"
  proof (cases ?rt)
    case None
    with assms(2) have "st1 = st0" by (simp add: publish_request_def st0_def [symmetric] Let_def)
    with None show ?thesis
      by (auto simp: module_authorized_def bind_eq_None_conv option_filter_def split: option.splits if_splits)
  next
    case (Some rt)
    let ?rt' = "if retry then rt\<lparr>rm_sent := rm_sent rt - {req_command_id rq}\<rparr> else rt"
    from Some assms(2) have
      "st1 = st0\<lparr>agents := (agents st0)\<lparr>modules := hm_insert a (?rt'\<lparr>rm_pending := hm_insert (req_command_id rq) rq (rm_pending ?rt')\<rparr>)
        (modules (agents st0))\<rparr>\<rparr>"
      by (auto simp: publish_request_def st0_def [symmetric] Let_def split: if_splits)
    moreover have "rq \<in> set (hm_values (hm_insert (req_command_id rq) rq m))" for m
      by (induction m) (auto simp: hm_values_def hm_insert_def)
    ultimately show ?thesis by (auto simp: module_authorized_def disable_pending_def list_ex_iff split: option.split)
  qed
  with lease show "\<not> module_authorized (agents st1) a (req_module rq)"
    "req_module rq \<in> {RemoteInput, LiveScreen} \<Longrightarrow> lease_of (sessions (control st1)) a = None" by simp_all
qed

lemma module_authorized_view:
  assumes "connections reg' = connections reg" "map_option unsent_view (hm_get (modules reg') a) = map_option unsent_view (hm_get (modules reg) a)"
  shows "module_authorized reg' a m = module_authorized reg a m"
  using assms by (auto simp: module_authorized_def unsent_view_def grants_def disable_pending_def split: option.splits)

lemma send_request_effect:
  assumes "app_inv st" "send_request f st db a rq retry mark_ok now = (Ok (), st', db')" "req_pending rq"
  shows "\<not> module_authorized (agents st') a (req_module rq)"
    "req_module rq \<in> {RemoteInput, LiveScreen} \<Longrightarrow> lease_of (sessions (control st')) a = None"
proof -
  obtain p st1 where pub: "publish_request f st a rq retry now = (p, st1)" by force
  then obtain q where p: "p = Ok q" using assms(2,3) by (cases p) (auto simp: send_request_def)
  note effect = publish_request_effect [OF assms(1) pub [unfolded p]]
  have "control st' = control st1 \<and> module_authorized (agents st') a m = module_authorized (agents st1) a m" for m
  proof (cases q)
    case None
    with assms(2,3) pub p show ?thesis by (simp add: send_request_def)
  next
    case (Some conn)
    with assms(2,3) pub p have "st' = fst (snd (replay_module_disables f st1 db a conn mark_ok now))"
      by (auto simp: send_request_def case_prod_unfold Let_def)
    then have st': "st' = fst (snd (replay_each f st1 db a conn mark_ok now (unsent_requests (agents st1) a conn)))"
      by (simp add: replay_module_disables_def)
    show ?thesis unfolding st'
      by (intro conjI module_authorized_view replay_each_frame)
  qed
  with effect show "\<not> module_authorized (agents st') a (req_module rq)"
    "req_module rq \<in> {RemoteInput, LiveScreen} \<Longrightarrow> lease_of (sessions (control st')) a = None" by simp_all
qed

text \<open>
  C30. A disable request takes effect before the device answers: when the operator is told that the request is
  pending, the module is no longer authorized on the device's connection, whatever its last report grants,
  and if the module is Remote Input or Live Screen the device's control lease is gone.
\<close>

theorem pending_disable_blocks_module:
  assumes "app_inv st"
    and "disable_module f st db a user body known prev_ok report_ok create_ok insert_done mark_ok final_ok now = (Ok rq, st', db')"
    and "req_pending rq"
  shows "is_operator user \<and> \<not> module_authorized (agents st') a (body_module body)
    \<and> (body_module body \<in> {RemoteInput, LiveScreen} \<longrightarrow> lease_of (sessions (control st')) a = None)"
proof -
  obtain created db1 where c: "create_module_disable db a (body_module body) (body_expected_revision body) (body_command_id body) = (created, db1)"
    by force
  with assms(2) obtain rq0 retry st1 db2 where created: "created = Some (Some rq0)"
    and send: "send_request f st db1 a rq0 retry mark_ok now = (Ok (), st1, db2)"
    and fin: "final_request db2 a (body_command_id body) final_ok = Ok rq" "st1 = st'" and op: "is_operator user"
    by (auto simp: disable_module_def Let_def split: if_splits sum.splits option.splits prod.splits)
  from c created have rq0: "module_disable_request db1 a (body_command_id body) = Some (Some rq0)" "req_module rq0 = body_module body"
    by (auto simp: create_module_disable_def Let_def option_filter_eq_Some)
  have "req_pending rq0"
  proof (rule ccontr)
    assume "\<not> req_pending rq0"
    with send have "db2 = db1" by (simp add: send_request_def)
    with fin(1) rq0(1) have "rq = rq0" by (simp add: final_request_def split: if_splits)
    with assms(3) \<open>\<not> req_pending rq0\<close> show False by simp
  qed
  from send_request_effect [OF assms(1) send this] rq0(2) fin(2) op show ?thesis by simp
qed

text \<open>Sending never settles a request.\<close>

definition request_pending :: "Db \<Rightarrow> Uuid \<Rightarrow> Uuid \<Rightarrow> bool" where
  "request_pending db a c = (\<exists>rq. module_disable_request db a c = Some (Some rq) \<and> req_pending rq)"

lemma find_map_key: "(\<And>x. P (h x) = P x) \<Longrightarrow> find P (map h xs) = map_option h (find P xs)"
  by (induction xs) auto

lemma disable_row_update:
  assumes "\<And>r. row_command_id (g r) = row_command_id r" "\<And>r. row_agent_id (g r) = row_agent_id r"
  shows "disable_row (update_pending db b d g) a c =
    map_option (\<lambda>row. if row_agent_id row = b \<and> row_command_id row = d \<and> row_pending row then g row else row) (disable_row db a c)"
  using assms by (simp add: disable_row_def update_pending_def find_map_key)

lemma mark_keeps_pending: "request_pending db a c \<Longrightarrow> request_pending (mark_module_disable_sent db a d conn) a c"
  by (auto simp: request_pending_def module_disable_request_def mark_module_disable_sent_def disable_row_update request_def
      row_pending_def split: option.splits if_splits)

lemma replay_keeps_pending:
  "request_pending db a c \<Longrightarrow> request_pending (snd (snd (replay_each f st db a conn mark_ok now rqs))) a c"
  by (induction rqs arbitrary: st db) (simp_all add: case_prod_unfold Let_def mark_keeps_pending)

lemma replay_ok: "fst (replay_each f st db a conn (\<lambda>_. True) now rqs) = Ok ()"
  by (induction rqs arbitrary: st db) (simp_all add: case_prod_unfold Let_def)

lemma send_first_ok:
  assumes "request_pending db a c"
  shows "fst (send_request f st db a rq False (\<lambda>_. True) now) = Ok ()"
    "request_pending (snd (snd (send_request f st db a rq False (\<lambda>_. True) now))) a c"
  using assms
  by (simp_all add: send_request_def publish_request_def replay_module_disables_def case_prod_unfold Let_def replay_ok replay_keeps_pending
      split: sum.split option.split)

text \<open>The example's operator disables Remote Input on the device it controls.\<close>

definition reported_db :: Db where
  "reported_db = save_module_report no_requests 9 3 example_report"

definition example_body :: DisableBody where
  "example_body = \<lparr> body_module = RemoteInput, body_expected_revision = ms_revision (example_state RemoteInput), body_command_id = 30 \<rparr>"

abbreviation example_disable :: "(ModuleDisableRequest, ApiError) Result \<times> AppState \<times> Db" where
  "example_disable \<equiv> disable_module binary_fmt example_full reported_db 9 example_user example_body (Some True) True True True True
     (\<lambda>_. True) True 5"

lemma example_created:
  obtains rq db1 where "request_pending db1 9 30"
    "create_module_disable reported_db 9 RemoteInput (ms_revision (example_state RemoteInput)) 30 = (Some (Some rq), db1)"
proof -
  let ?db1 = "insert_disable reported_db 9 RemoteInput (ms_revision (example_state RemoteInput)) 30"
  have "unat (ms_revision (example_state RemoteInput)) < 2 ^ 64"
    using unsigned_less [of "ms_revision (example_state RemoteInput)"] by simp
  then show thesis
    by (intro that [of ?db1])
      (simp_all add: request_pending_def create_module_disable_def insert_disable_def reported_db_def save_module_report_def Let_def
        module_disable_request_def disable_row_def request_def row_pending_def option_filter_def del: module_as_str.simps)
qed

theorem pending_disable_blocks_module_witness:
  "\<exists>rq. fst example_disable = Ok rq \<and> req_pending rq \<and> \<not> module_authorized (agents (fst (snd example_disable))) 9 RemoteInput
     \<and> lease_of (sessions (control (fst (snd example_disable)))) 9 = None"
proof -
  obtain rq0 db1 where c: "request_pending db1 9 30"
    "create_module_disable reported_db 9 RemoteInput (ms_revision (example_state RemoteInput)) 30 = (Some (Some rq0), db1)"
    by (rule example_created)
  have "module_report reported_db 9 = Some (Ok (example_report, 3))"
    by (simp add: module_report_def reported_db_def save_module_report_def validated_parse [OF example_report_validated])
  then have "check_revision reported_db 9 example_body None True = Ok ()"
    by (simp add: check_revision_def example_body_def report_get_example)
  moreover have "module_disable_request reported_db 9 30 = Some None"
    by (simp add: module_disable_request_def disable_row_def reported_db_def save_module_report_def)
  moreover have "is_operator example_user" by (simp add: is_operator_def example_user_def)
  moreover have "body_module example_body = RemoteInput" "body_command_id example_body = 30"
    "body_expected_revision example_body = ms_revision (example_state RemoteInput)"
    by (simp_all add: example_body_def)
  ultimately obtain rq where rq: "fst example_disable = Ok rq" "req_pending rq"
    using c send_first_ok [OF c(1), of binary_fmt example_full rq0 5]
    by (auto simp: disable_module_def case_prod_unfold Let_def final_request_def request_pending_def)
  then have "example_disable = (Ok rq, fst (snd example_disable), snd (snd example_disable))" by (metis prod.collapse)
  from pending_disable_blocks_module [OF example_full_inv this rq(2)] rq show ?thesis by (auto simp: example_body_def)
qed

section \<open>An acknowledgment\<close>

lemma option2_cases [case_names none some_none some_some]:
  "(x = None \<Longrightarrow> P) \<Longrightarrow> (x = Some None \<Longrightarrow> P) \<Longrightarrow> (\<And>y. x = Some (Some y) \<Longrightarrow> P) \<Longrightarrow> P"
  by (cases x) (use option.exhaust in auto)

lemma accept_ack_cases:
  assumes "accept_module_disable_ack f st db a conn v read_ok save_ok ok = (Ok (), st', db')"
  obtains ack rq where "disable_ack_of_value f v = Some ack" "current_conn (agents st) a = Some conn"
      "module_disable_request db a (ack_command_id ack) = Some (Some rq)" "\<not> req_pending rq" "st' = st" "db' = db"
  | ack rq report where "disable_ack_of_value f v = Some ack" "current_conn (agents st) a = Some conn"
      "module_disable_request db a (ack_command_id ack) = Some (Some rq)" "req_pending rq"
      "check_ack (agents st) a conn ack rq = None" "ack_status ack = ''error'' \<or> report \<noteq> None"
      "Option.bind report (check_ack_report (agents st) a conn ack rq) = None"
      "apply_ack f st db a conn ack report save_ok ok = (Ok (), st', db')"
proof -
  note run = assms [unfolded accept_module_disable_ack_def]
  obtain ack where ack: "disable_ack_of_value f v = Some ack" using run by (cases "disable_ack_of_value f v") simp_all
  have kind: "ack_kind ack = ''module_disable_ack''" using run ack by (cases "ack_kind ack = ''module_disable_ack''") simp_all
  have conn: "current_conn (agents st) a = Some conn" using run ack kind by (cases "current_conn (agents st) a = Some conn") simp_all
  note run = run [unfolded ack option.simps(5), simplified kind conn]
  obtain rq where rq: "(if read_ok then module_disable_request db a (ack_command_id ack) else None) = Some (Some rq)"
    using run by (cases "if read_ok then module_disable_request db a (ack_command_id ack) else None" rule: option2_cases) simp_all
  then have found: "module_disable_request db a (ack_command_id ack) = Some (Some rq)" by (simp split: if_splits)
  show thesis
  proof (cases "req_pending rq")
    case False
    with run rq that(1) [OF ack conn found] show thesis by simp
  next
    case True
    note run = run [unfolded rq option.simps(5), simplified True]
    have ok: "check_ack (agents st) a conn ack rq = None" using run by (cases "check_ack (agents st) a conn ack rq") simp_all
    let ?report = "case ack_state ack of None \<Rightarrow> Ok None
              | Some v \<Rightarrow> (case ModuleReport_parse v of Inl e \<Rightarrow> Err e | Inr r \<Rightarrow> Ok (Some r))"
    note run = run [unfolded ok option.simps(4)]
    obtain report where report: "?report = Ok report" using run by (cases ?report) simp_all
    note run = run [unfolded report sum.case]
    show thesis
      by (rule that(2) [OF ack conn found True ok]) (use run in \<open>auto split: if_splits option.splits\<close>)
  qed
qed

lemma settle_runtime:
  assumes "hm_get (modules reg) a = Some rt" "rm_conn_id rt = conn"
  shows "\<exists>rt'. hm_get (modules (settle_request reg a conn c report)) a = Some rt' \<and> rm_report rt' = unwrap_or report (rm_report rt)"
  using assms by (simp add: settle_request_def)

lemma apply_ack_effect:
  assumes "apply_ack f st db a conn ack report save_ok ok = (Ok (), st', db')"
  shows "modules (agents st') = modules (settle_request (agents st) a conn (ack_command_id ack) report)"
    "rows_of db' = rows_of (acknowledge_module_disable db a (ack_command_id ack) (ack_status ack)
       (map_option (take_chars 1024) (ack_error ack)) (ack_stop_text ack))"
  using assms
  by (auto simp: apply_ack_def Let_def settle_request_def save_module_report_def acknowledge_module_disable_def update_pending_def
      split: option.splits if_splits)

lemma disable_row_cong: "rows_of db' = rows_of db \<Longrightarrow> disable_row db' = disable_row db"
  by (intro ext) (simp add: disable_row_def)

lemma acknowledged_row:
  "disable_row (acknowledge_module_disable db a d s e t) b c =
     map_option (\<lambda>row. if b = a \<and> c = d \<and> row_pending row
        then row\<lparr>row_status := s, row_error := e, row_persisted := (s = ''disabled'' \<or> s = ''duplicate''), row_stop_status := t\<rparr>
        else row) (disable_row db b c)"
proof -
  have "row_agent_id row = b \<and> row_command_id row = c" if "disable_row db b c = Some row" for row
    using that by (auto simp: disable_row_def find_Some_iff)
  then show ?thesis
    by (cases "disable_row db b c") (simp_all add: acknowledge_module_disable_def disable_row_update)
qed

text \<open>
  An acknowledgment settles exactly the request it answers: it is accepted only from the device's current
  connection; if the request is already settled nothing changes; otherwise it was sent on this connection, it
  is settled with the acknowledged status and no other request of any device changes, and an
  acknowledgment of ''disabled'' leaves the module unauthorized.
\<close>

theorem acknowledgment_settles_its_request:
  assumes "accept_module_disable_ack f st db a conn v read_ok save_ok ok = (Ok (), st', db')"
  shows "\<exists>ack rq. disable_ack_of_value f v = Some ack \<and> current_conn (agents st) a = Some conn
    \<and> module_disable_request db a (ack_command_id ack) = Some (Some rq)
    \<and> (if req_pending rq
       then req_module rq = ack_module ack
         \<and> (\<exists>rt. hm_get (modules (agents st)) a = Some rt \<and> rm_conn_id rt = conn \<and> ack_command_id ack \<in> rm_sent rt)
         \<and> (\<exists>row. disable_row db' a (ack_command_id ack) = Some row \<and> row_status row = ack_status ack \<and> \<not> row_pending row)
         \<and> (\<forall>b c. (b, c) \<noteq> (a, ack_command_id ack) \<longrightarrow> disable_row db' b c = disable_row db b c)
         \<and> (ack_status ack = ''disabled'' \<longrightarrow> \<not> module_authorized (agents st') a (req_module rq))
       else st' = st \<and> db' = db)"
  using assms
proof (cases rule: accept_ack_cases)
  case (1 ack rq)
  then show ?thesis by auto
next
  case (2 ack rq report)
  have rt: "\<exists>rt. hm_get (modules (agents st)) a = Some rt \<and> rm_conn_id rt = conn \<and> ack_command_id ack \<in> rm_sent rt"
    and m: "req_module rq = ack_module ack"
    and status: "ack_status ack \<in> {''disabled'', ''duplicate'', ''stale'', ''conflict'', ''error''}"
    using 2(5) by (auto simp: check_ack_def is_some_and_def option_filter_eq_Some split: if_splits option.splits)
  note effect = apply_ack_effect [OF 2(8)]
  note row = acknowledged_row [of db a "ack_command_id ack" "ack_status ack" "map_option (take_chars 1024) (ack_error ack)" "ack_stop_text ack",
      folded disable_row_cong [OF effect(2)]]
  obtain row0 where row0: "disable_row db a (ack_command_id ack) = Some row0" "row_pending row0"
    using 2(3,4) by (auto simp: module_disable_request_def request_def split: option.splits if_splits)
  have settled: "\<exists>row. disable_row db' a (ack_command_id ack) = Some row \<and> row_status row = ack_status ack \<and> \<not> row_pending row"
    using row [of a "ack_command_id ack"] row0 status by (auto simp: row_pending_def)
  have others: "disable_row db' b c = disable_row db b c" if "(b, c) \<noteq> (a, ack_command_id ack)" for b c
    using row [of b c] that by (cases "disable_row db b c") auto
  have "\<not> module_authorized (agents st') a (req_module rq)" if disabled: "ack_status ack = ''disabled''"
  proof -
    obtain r where r: "report = Some r" using 2(6) disabled by auto
    with 2(7) disabled have off: "\<not> enabled (report_get r (ack_module ack))"
      by (auto simp: check_ack_report_def ack_success_def Let_def split: if_splits)
    from rt obtain old where "hm_get (modules (agents st)) a = Some old" "rm_conn_id old = conn" by blast
    from settle_runtime [OF this, of "ack_command_id ack" report]
    obtain rt' where "hm_get (modules (agents st')) a = Some rt'" "rm_report rt' = r" by (auto simp: effect(1) r)
    with off m show ?thesis by (auto simp: module_authorized_def grants_def Let_def split: option.split)
  qed
  with 2(1-4) rt m settled others show ?thesis by auto
qed

text \<open>The device answers the example's request, sent on its connection, with an error.\<close>

definition example_sent :: AppState where
  "example_sent = example_full\<lparr>agents := note_sent example_registry 9 3 30 5\<rparr>"

definition example_ack :: Value where
  "example_ack = json_obj [(''type'', Str ''module_disable_ack''), (''command_id'', json_uuid binary_fmt 30),
     (''module'', json_module RemoteInput), (''ok'', Bool False), (''status'', Str ''error'')]"

theorem acknowledgment_settles_its_request_witness:
  "\<exists>row. disable_row (snd (snd (accept_module_disable_ack binary_fmt example_sent
       (insert_disable reported_db 9 RemoteInput 3 30) 9 3 example_ack True True True))) 9 30 = Some row
     \<and> row_status row = ''error'' \<and> \<not> row_pending row"
proof -
  let ?db = "insert_disable reported_db 9 RemoteInput 3 30"
  let ?run = "accept_module_disable_ack binary_fmt example_sent ?db 9 3 example_ack True True True"
  have "\<exists>kvs. example_ack = Obj kvs \<and> (\<forall>k. map_of kvs k = map_of [(''type'', Str ''module_disable_ack''),
      (''command_id'', json_uuid binary_fmt 30), (''module'', json_module RemoteInput), (''ok'', Bool False), (''status'', Str ''error'')] k)"
    unfolding example_ack_def json_obj_def by (rule exI, rule conjI [OF refl]) (simp only: map_of_foldr_obj_insert simp_thms)
  then obtain kvs where fields: "example_ack = Obj kvs" "map_of kvs = map_of [(''type'', Str ''module_disable_ack''),
      (''command_id'', json_uuid binary_fmt 30), (''module'', json_module RemoteInput), (''ok'', Bool False), (''status'', Str ''error'')]"
    by (auto simp only: fun_eq_iff)
  have uuid: "as_str (json_uuid binary_fmt 30) = Some (to_str binary_fmt 30)" "parse_str binary_fmt (to_str binary_fmt 30) = Some 30"
    using binary_fmt_ok by (simp_all add: json_uuid_def uuid_fmt_ok_def)
  have ack: "\<exists>ack. disable_ack_of_value binary_fmt example_ack = Some ack \<and> ack_kind ack = ''module_disable_ack'' \<and> ack_command_id ack = 30
      \<and> ack_module ack = RemoteInput \<and> ack_status ack = ''error'' \<and> \<not> ack_ok ack \<and> \<not> ack_stopped ack \<and> ack_stop_status ack = None
      \<and> ack_state ack = None"
    by (simp add: disable_ack_of_value_def fields uuid default_bool_def default_opt_string_def default_opt_value_def option_filter_def)
  then obtain ack where ack: "disable_ack_of_value binary_fmt example_ack = Some ack" "ack_kind ack = ''module_disable_ack''"
      "ack_command_id ack = 30" "ack_module ack = RemoteInput" "ack_status ack = ''error''" "\<not> ack_ok ack" "\<not> ack_stopped ack"
      "ack_stop_status ack = None" "ack_state ack = None" by blast
  obtain rq where rq: "module_disable_request ?db 9 30 = Some (Some rq)" "req_pending rq" "req_module rq = RemoteInput"
    by (simp add: insert_disable_def reported_db_def save_module_report_def module_disable_request_def disable_row_def request_def
        row_pending_def del: module_as_str.simps)
  have "current_conn (agents example_sent) 9 = Some 3"
    by (simp add: example_sent_def example_full_def example_app_def example_registry_def current_conn_def example_conn_def)
  moreover have "check_ack (agents example_sent) 9 3 ack rq = None"
    using ack rq by (simp add: check_ack_def ack_success_def ack_stop_text_def example_sent_def example_registry_def note_sent_def
        example_runtime_def option_filter_def is_some_and_def)
  ultimately have "fst ?run = Ok ()"
    using ack rq by (simp add: accept_module_disable_ack_def apply_ack_def Let_def)
  then have "?run = (Ok (), fst (snd ?run), snd (snd ?run))" by (metis prod.collapse)
  from acknowledgment_settles_its_request [OF this] ack rq show ?thesis by auto
qed

end
