(* ===== verification/Enrollment.thy ===== *)
theory Enrollment
  imports ModuleLifecycle
begin

text \<open>
  Enrollment of devices: pairing codes and their revocation (\<open>server/src/agents/enrollment/db/invites.rs\<close>), claims
  and their approval (\<open>db/claims.rs\<close>, \<open>service.rs\<close>), the public and the administrator's endpoints
  (\<open>public_http.rs\<close>, \<open>api.rs\<close>, \<open>mod.rs\<close>) and the credentials of the \<open>agents\<close> table (\<open>server/src/agents/db.rs\<close>).

  A table is the list of its rows in insertion order; the columns are those the code reads back, the
  constraints those of migrations \<open>0001_init.sql\<close> and \<open>0055_agent_enrollment_claims.sql\<close>. A transaction that fails
  changes nothing, so whether it succeeds is one argument. SHA-256 is the parameter \<open>sha\<close>; a drawn
  code, a drawn token and its Argon2 hash, and the identifier a new row gets are arguments. Time is counted in
  microseconds. Audit rows are not kept.
\<close>

section \<open>The tables\<close>

record Invite =
  inv_id :: Uuid
  secret_digest :: string
  inv_kind :: string
  uses_remaining :: int
  inv_expires_at :: "Time option"
  auto_approve :: bool
  bound_agent_id :: "Uuid option"
  inv_note :: "string option"
  revoked_at :: "Time option"

record EnrollmentClaimRow =
  cl_id :: Uuid
  cl_invite_id :: "Uuid option"
  cl_status :: string
  cl_requested_name :: string
  cl_hostname :: "string option"
  cl_os :: "string option"
  cl_agent_version :: "string option"
  install_id_digest :: "string option"
  cl_client_ip :: "string option"
  cl_discovered_server :: "string option"
  cl_created_at :: Time
  approved_by :: "string option"
  rejected_by :: "string option"
  cl_agent_id :: "Uuid option"
  issued_token_hash :: "string option"
  cl_error :: "string option"

record AgentRow =
  ag_id :: Uuid
  ag_name :: string
  api_token_hash :: "string option"

record EnrollDb =
  invites :: "Invite list"
  claims :: "EnrollmentClaimRow list"
  agent_rows :: "AgentRow list"
  group_members :: "(Uuid \<times> Uuid) list"

definition EnrollDb_new :: EnrollDb where
  "EnrollDb_new = \<lparr> invites = [], claims = [], agent_rows = [], group_members = [] \<rparr>"

definition invite_row :: "EnrollDb \<Rightarrow> Uuid \<Rightarrow> Invite option" where
  "invite_row d i = find (\<lambda>r. inv_id r = i) (invites d)"

definition claim_row :: "EnrollDb \<Rightarrow> Uuid \<Rightarrow> EnrollmentClaimRow option" where
  "claim_row d c = find (\<lambda>r. cl_id r = c) (claims d)"

definition agent_row :: "EnrollDb \<Rightarrow> Uuid \<Rightarrow> AgentRow option" where
  "agent_row d a = find (\<lambda>r. ag_id r = a) (agent_rows d)"

text \<open>\<open>UPDATE .. SET .. WHERE\<close>\<close>

definition update_where :: "('r \<Rightarrow> bool) \<Rightarrow> ('r \<Rightarrow> 'r) \<Rightarrow> 'r list \<Rightarrow> 'r list" where
  "update_where p g rows = map (\<lambda>r. if p r then g r else r) rows"

section \<open>Credentials of devices\<close>

definition register_authenticated_agent ::
  "EnrollDb \<Rightarrow> Uuid \<Rightarrow> string \<Rightarrow> int \<Rightarrow> bool \<Rightarrow> (int option, unit) Result" where
  "register_authenticated_agent d agent_id authenticated_hash fresh_session tx_ok =
     (if \<not> tx_ok then Err ()
      else if list_ex (\<lambda>r. ag_id r = agent_id \<and> api_token_hash r = Some authenticated_hash) (agent_rows d)
      then Ok (Some fresh_session)
      else Ok None)"

definition get_agent_auth_by_name :: "EnrollDb \<Rightarrow> string \<Rightarrow> (Uuid \<times> string option) option" where
  "get_agent_auth_by_name d name =
     map_option (\<lambda>r. (ag_id r, api_token_hash r)) (find (\<lambda>r. ag_name r = name) (agent_rows d))"

text \<open>\<open>DELETE FROM agents\<close>: invites and claims keep their rows, with the reference set to \<open>NULL\<close>; group memberships
  go with the device.\<close>

definition delete_agent_rows :: "EnrollDb \<Rightarrow> Uuid list \<Rightarrow> EnrollDb" where
  "delete_agent_rows d ids =
     d\<lparr>agent_rows := filter (\<lambda>r. ag_id r \<notin> set ids) (agent_rows d),
       invites := update_where (\<lambda>r. is_some_and (bound_agent_id r) (\<lambda>a. a \<in> set ids)) (bound_agent_id_update (\<lambda>_. None)) (invites d),
       claims := update_where (\<lambda>r. is_some_and (cl_agent_id r) (\<lambda>a. a \<in> set ids)) (cl_agent_id_update (\<lambda>_. None)) (claims d),
       group_members := filter (\<lambda>(_, a). a \<notin> set ids) (group_members d)\<rparr>"

section \<open>Pairing codes\<close>

text \<open>\<open>format!("{:06}", n)\<close> for a draw below one million.\<close>

definition code6 :: "nat \<Rightarrow> string" where
  "code6 n = map (\<lambda>k. char_of (48 + n div 10 ^ k mod 10)) [5, 4, 3, 2, 1, 0]"

definition normalize_enrollment_code_for_lookup :: "string \<Rightarrow> string option" where
  "normalize_enrollment_code_for_lookup raw =
     (let digits = filter is_ascii_digit raw in if length digits = 6 then Some digits else None)"

text \<open>\<open>INSERT INTO agent_enrollment_invites .. RETURNING id\<close>: \<open>secret_digest\<close> is unique.\<close>

definition insert_invite :: "EnrollDb \<Rightarrow> Invite \<Rightarrow> EnrollDb option" where
  "insert_invite d row =
     (if list_ex (\<lambda>r. secret_digest r = secret_digest row) (invites d) then None
      else Some (d\<lparr>invites := invites d @ [row]\<rparr>))"

text \<open>The loops of \<open>create_agent_enrollment_token\<close> and \<open>create_agent_replacement_token\<close>: \<open>draw\<close> gives the code of each
  attempt, \<open>attempt\<close> is the transaction with it (an error, a collision, or its result).\<close>

fun try_codes :: "string \<Rightarrow> nat \<Rightarrow> (nat \<Rightarrow> string) \<Rightarrow> (nat \<Rightarrow> string \<Rightarrow> ('r option, string) Result) \<Rightarrow> nat \<Rightarrow> ('r, string) Result" where
  "try_codes exhausted 0 draw attempt i = Err exhausted"
| "try_codes exhausted (Suc n) draw attempt i =
     (case attempt i (draw i) of
        Inl e \<Rightarrow> Err e
      | Inr (Some r) \<Rightarrow> Ok r
      | Inr None \<Rightarrow> try_codes exhausted n draw attempt (Suc i))"

definition create_agent_enrollment_token ::
  "(string \<Rightarrow> string) \<Rightarrow> EnrollDb \<Rightarrow> int \<Rightarrow> Time option \<Rightarrow> string option \<Rightarrow> Uuid \<Rightarrow> (nat \<Rightarrow> nat) \<Rightarrow> (nat \<Rightarrow> bool)
    \<Rightarrow> (Uuid \<times> string, string) Result \<times> EnrollDb" where
  "create_agent_enrollment_token sha d uses expires note fresh draw tx_ok =
     (case try_codes ''could not allocate a unique enrollment code'' 512 (\<lambda>i. code6 (draw i)) (\<lambda>i plaintext.
        if \<not> tx_ok i then Err ''database''
        else Ok (map_option (\<lambda>d'. ((fresh, plaintext), d'))
          (insert_invite d \<lparr> inv_id = fresh, secret_digest = sha plaintext, inv_kind = ''quick_pair'', uses_remaining = max uses 1,
             inv_expires_at = expires, auto_approve = True, bound_agent_id = None, inv_note = note, revoked_at = None \<rparr>))) 0 of
        Inl e \<Rightarrow> (Err e, d)
      | Inr (r, d') \<Rightarrow> (Ok r, d'))"

text \<open>\<open>SET uses_remaining = 0, revoked_at = COALESCE(revoked_at, NOW())\<close>\<close>

definition revoke_row :: "Time \<Rightarrow> Invite \<Rightarrow> Invite" where
  "revoke_row now r = r\<lparr>uses_remaining := 0, revoked_at := Some (unwrap_or (revoked_at r) now)\<rparr>"

definition revoke_agent_enrollment_token :: "EnrollDb \<Rightarrow> Uuid \<Rightarrow> Time \<Rightarrow> EnrollDb" where
  "revoke_agent_enrollment_token d token_id now =
     d\<lparr>invites := update_where (\<lambda>r. inv_id r = token_id) (revoke_row now) (invites d)\<rparr>"

definition revoke_all_agent_enrollment_tokens :: "EnrollDb \<Rightarrow> Time \<Rightarrow> nat \<times> EnrollDb" where
  "revoke_all_agent_enrollment_tokens d now =
     (length (filter (\<lambda>r. uses_remaining r > 0) (invites d)),
      d\<lparr>invites := update_where (\<lambda>r. uses_remaining r > 0) (revoke_row now) (invites d)\<rparr>)"

definition list_agent_enrollment_token_uses ::
  "EnrollDb \<Rightarrow> Uuid \<Rightarrow> int \<Rightarrow> (string \<times> Uuid option) list" where
  "list_agent_enrollment_token_uses d token_id limit =
     map (\<lambda>c. (cl_requested_name c, cl_agent_id c))
       (take (nat (clamp limit 1 500)) (rev (sort_key cl_created_at (filter (\<lambda>c. cl_invite_id c = Some token_id) (claims d)))))"

text \<open>The two updates that \<open>revoke_agent_credentials\<close> and \<open>create_agent_replacement_token\<close> start with.\<close>

definition revoke_bound_invites :: "EnrollDb \<Rightarrow> Uuid \<Rightarrow> Time \<Rightarrow> EnrollDb" where
  "revoke_bound_invites d agent_id now =
     d\<lparr>invites := update_where (\<lambda>r. bound_agent_id r = Some agent_id) (revoke_row now) (invites d)\<rparr>"

definition clear_token_hash :: "EnrollDb \<Rightarrow> Uuid \<Rightarrow> EnrollDb" where
  "clear_token_hash d agent_id =
     d\<lparr>agent_rows := update_where (\<lambda>r. ag_id r = agent_id) (api_token_hash_update (\<lambda>_. None)) (agent_rows d)\<rparr>"

definition revoke_credentials_db :: "EnrollDb \<Rightarrow> Uuid \<Rightarrow> Time \<Rightarrow> EnrollDb" where
  "revoke_credentials_db d agent_id now = clear_token_hash (revoke_bound_invites d agent_id now) agent_id"

definition MINUTE :: Time where "MINUTE = 60 * 1000000"

definition create_agent_replacement_token ::
  "(string \<Rightarrow> string) \<Rightarrow> EnrollDb \<Rightarrow> Uuid \<Rightarrow> (nat \<Rightarrow> Time) \<Rightarrow> Uuid \<Rightarrow> (nat \<Rightarrow> nat) \<Rightarrow> (nat \<Rightarrow> bool)
    \<Rightarrow> ((Uuid \<times> string \<times> Time) option, string) Result \<times> EnrollDb" where
  "create_agent_replacement_token sha d agent_id clock fresh draw tx_ok =
     (case try_codes ''could not allocate a unique replacement code'' 512 (\<lambda>i. code6 (draw i)) (\<lambda>i plaintext.
        let expires = clock i + 10 * MINUTE; d1 = revoke_credentials_db d agent_id (clock i) in
        if \<not> tx_ok i then Err ''database''
        else if agent_row d agent_id = None then Ok (Some (None, d))
        else Ok (map_option (\<lambda>d'. (Some (fresh, plaintext, expires), d'))
          (insert_invite d1 \<lparr> inv_id = fresh, secret_digest = sha plaintext, inv_kind = ''re_enroll'', uses_remaining = 1,
             inv_expires_at = Some expires, auto_approve = True, bound_agent_id = Some agent_id, inv_note = None, revoked_at = None \<rparr>))) 0 of
        Inl e \<Rightarrow> (Err e, d)
      | Inr (r, d') \<Rightarrow> (Ok r, d'))"

section \<open>Claims\<close>

datatype ClaimCreateReject = InvalidOrExpiredCode | CreateAlreadyEnrolled

datatype ClaimApproveReject = ClaimNotFound | NotPending | AlreadyEnrolled

record AgentEnrollmentClaimInput =
  in_pairing_code :: "string option"
  in_requested_name :: string
  in_hostname :: "string option"
  in_os :: "string option"
  in_agent_version :: "string option"
  in_install_id :: string
  in_discovered_server :: "string option"
  in_client_ip :: "string option"

definition claim_name :: "AgentEnrollmentClaimInput \<Rightarrow> string" where
  "claim_name input =
     (let requested_name = take_chars 128 (trim (in_requested_name input)) in
      if requested_name = [] then take_chars 128 (trim (unwrap_or (in_hostname input) ''agent'')) else requested_name)"

definition install_digest :: "(string \<Rightarrow> string) \<Rightarrow> AgentEnrollmentClaimInput \<Rightarrow> string option" where
  "install_digest sha input =
     (if trim (in_install_id input) = [] then None else option_filter (\<lambda>x. x \<noteq> []) (Some (sha (trim (in_install_id input)))))"

definition expired :: "Time option \<Rightarrow> Time \<Rightarrow> bool" where
  "expired expires now = is_some_and expires (\<lambda>e. now > e)"

text \<open>The invite a non-empty code stands for, if it can still be used.\<close>

definition check_code :: "(string \<Rightarrow> string) \<Rightarrow> EnrollDb \<Rightarrow> string \<Rightarrow> Time \<Rightarrow> (Invite, ClaimCreateReject) Result" where
  "check_code sha d pairing_code now =
     (case normalize_enrollment_code_for_lookup pairing_code of
        None \<Rightarrow> Err InvalidOrExpiredCode
      | Some digits \<Rightarrow>
          (case find (\<lambda>r. secret_digest r = sha digits \<and> revoked_at r = None) (invites d) of
             None \<Rightarrow> Err InvalidOrExpiredCode
           | Some invite \<Rightarrow>
               if uses_remaining invite \<le> 0 \<or> expired (inv_expires_at invite) now
                  \<or> inv_kind invite = ''re_enroll'' \<and> bound_agent_id invite = None
               then Err InvalidOrExpiredCode
               else Ok invite))"

definition name_taken :: "EnrollDb \<Rightarrow> string \<Rightarrow> bool" where
  "name_taken d name = list_ex (\<lambda>r. ag_name r = name) (agent_rows d)"

definition use_invite :: "EnrollDb \<Rightarrow> Uuid \<Rightarrow> EnrollDb" where
  "use_invite d i = d\<lparr>invites := update_where (\<lambda>r. inv_id r = i) (\<lambda>r. r\<lparr>uses_remaining := uses_remaining r - 1\<rparr>) (invites d)\<rparr>"

definition invite_auto_approves :: "Invite \<Rightarrow> bool" where
  "invite_auto_approves invite = (auto_approve invite \<or> inv_kind invite = ''quick_pair'')"

text \<open>The device's pending claim takes the new description, and the new invite if there is one.\<close>

definition refresh_claim ::
  "EnrollDb \<Rightarrow> AgentEnrollmentClaimInput \<Rightarrow> EnrollmentClaimRow \<Rightarrow> Uuid option \<Rightarrow> EnrollmentClaimRow \<times> EnrollDb" where
  "refresh_claim d input row invite_id =
     (let upd = (\<lambda>r. r\<lparr>cl_requested_name := claim_name input, cl_hostname := in_hostname input, cl_os := in_os input,
            cl_agent_version := in_agent_version input, cl_client_ip := in_client_ip input,
            cl_discovered_server := in_discovered_server input,
            cl_invite_id := (if invite_id = None then cl_invite_id r else invite_id)\<rparr>)
      in (upd row, d\<lparr>claims := update_where (\<lambda>r. cl_id r = cl_id row) upd (claims d)\<rparr>))"

definition new_claim ::
  "(string \<Rightarrow> string) \<Rightarrow> AgentEnrollmentClaimInput \<Rightarrow> Uuid option \<Rightarrow> Uuid \<Rightarrow> Time \<Rightarrow> EnrollmentClaimRow" where
  "new_claim sha input invite_id fresh now =
     \<lparr> cl_id = fresh, cl_invite_id = invite_id, cl_status = ''pending'', cl_requested_name = claim_name input,
       cl_hostname = in_hostname input, cl_os = in_os input, cl_agent_version = in_agent_version input,
       install_id_digest = install_digest sha input, cl_client_ip = in_client_ip input,
       cl_discovered_server = in_discovered_server input, cl_created_at = now, approved_by = None, rejected_by = None,
       cl_agent_id = None, issued_token_hash = None, cl_error = None \<rparr>"

text \<open>\<open>None\<close> is the \<open>anyhow\<close> error of a failed transaction; the flag of a success is \<open>auto_approve\<close>.\<close>

definition create_agent_enrollment_claim ::
  "(string \<Rightarrow> string) \<Rightarrow> EnrollDb \<Rightarrow> AgentEnrollmentClaimInput \<Rightarrow> Time \<Rightarrow> Uuid \<Rightarrow> bool
    \<Rightarrow> (EnrollmentClaimRow \<times> bool, ClaimCreateReject) Result option \<times> EnrollDb" where
  "create_agent_enrollment_claim sha d input now fresh tx_ok =
     (let pairing_code = trim (unwrap_or (in_pairing_code input) []);
          active = (case install_digest sha input of
                      None \<Rightarrow> None
                    | Some digest \<Rightarrow> find (\<lambda>r. install_id_digest r = Some digest \<and> cl_status r = ''pending'') (claims d))
      in
      if \<not> tx_ok then (None, d)
      else case active of
        Some row \<Rightarrow>
          if pairing_code = [] then (let (row', d') = refresh_claim d input row None in (Some (Ok (row', False)), d'))
          else (case check_code sha d pairing_code now of
                  Inl e \<Rightarrow> (Some (Err e), d)
                | Inr invite \<Rightarrow>
                    if bound_agent_id invite = None \<and> name_taken d (claim_name input) then (Some (Err CreateAlreadyEnrolled), d)
                    else (let (row', d') = refresh_claim (use_invite d (inv_id invite)) input row (Some (inv_id invite))
                          in (Some (Ok (row', invite_auto_approves invite)), d')))
      | None \<Rightarrow>
          (case (if pairing_code = [] then Ok None else map_sum (\<lambda>e. e) Some (check_code sha d pairing_code now)) of
             Inl e \<Rightarrow> (Some (Err e), d)
           | Inr invite \<Rightarrow>
               if Option.bind invite bound_agent_id = None \<and> name_taken d (claim_name input)
               then (Some (Err CreateAlreadyEnrolled), d)
               else
                 (let invite_id = map_option inv_id invite;
                      d1 = (case invite_id of None \<Rightarrow> d | Some i \<Rightarrow> use_invite d i);
                      row = new_claim sha input invite_id fresh now
                  in (Some (Ok (row, is_some_and invite invite_auto_approves)), d1\<lparr>claims := claims d1 @ [row]\<rparr>))))"

definition enrollment_claim_bound_agent_id :: "EnrollDb \<Rightarrow> Uuid \<Rightarrow> Time \<Rightarrow> Uuid option" where
  "enrollment_claim_bound_agent_id d claim_id now =
     (case claim_row d claim_id of
        Some c \<Rightarrow>
          (case Option.bind (cl_invite_id c) (invite_row d) of
             Some i \<Rightarrow> if cl_status c = ''pending'' \<and> revoked_at i = None \<and> is_none_or (inv_expires_at i) (\<lambda>e. e > now)
                       then bound_agent_id i else None
           | None \<Rightarrow> None)
      | None \<Rightarrow> None)"

text \<open>The foreign key of a claim keeps its invite in the table, so the join of the code is the lookup here.\<close>

definition lock_claim_for_approval ::
  "EnrollDb \<Rightarrow> Uuid \<Rightarrow> Uuid option \<Rightarrow> Time \<Rightarrow> (string \<times> Uuid option, ClaimApproveReject) Result" where
  "lock_claim_for_approval d claim_id expected_bound_agent_id now =
     (case claim_row d claim_id of
        None \<Rightarrow> Err ClaimNotFound
      | Some row \<Rightarrow>
          (let bound = Option.bind (Option.bind (cl_invite_id row) (invite_row d)) bound_agent_id in
           if cl_status row \<noteq> ''pending'' then Err NotPending
           else if bound \<noteq> expected_bound_agent_id then Err NotPending
           else if is_some_and (cl_invite_id row) (\<lambda>i.
                  is_none_or (invite_row d i) (\<lambda>invite.
                    revoked_at invite \<noteq> None \<or> expired (inv_expires_at invite) now
                    \<or> inv_kind invite = ''re_enroll'' \<and> bound_agent_id invite = None))
           then Err NotPending
           else Ok (cl_requested_name row, bound)))"

definition issue_agent_credentials ::
  "EnrollDb \<Rightarrow> Uuid option \<Rightarrow> string \<Rightarrow> string \<Rightarrow> Uuid \<Rightarrow> (Uuid \<times> string, ClaimApproveReject) Result \<times> EnrollDb" where
  "issue_agent_credentials d bound final_name api_hash fresh =
     (case bound of
        Some i \<Rightarrow>
          (case agent_row d i of
             None \<Rightarrow> (Err ClaimNotFound, d)
           | Some r \<Rightarrow>
               (Ok (i, ag_name r),
                d\<lparr>agent_rows := update_where (\<lambda>r. ag_id r = i) (api_token_hash_update (\<lambda>_. Some api_hash)) (agent_rows d)\<rparr>))
      | None \<Rightarrow>
          if name_taken d final_name then (Err AlreadyEnrolled, d)
          else (Ok (fresh, final_name),
                d\<lparr>agent_rows := agent_rows d @ [\<lparr> ag_id = fresh, ag_name = final_name, api_token_hash = Some api_hash \<rparr>]\<rparr>))"

definition mark_claim_approved :: "EnrollDb \<Rightarrow> Uuid \<Rightarrow> string \<Rightarrow> Uuid \<Rightarrow> Uuid option \<Rightarrow> string \<Rightarrow> EnrollDb" where
  "mark_claim_approved d claim_id by agent_id group_id api_hash =
     d\<lparr>group_members := (case group_id of
          Some g \<Rightarrow> if (g, agent_id) \<in> set (group_members d) then group_members d else group_members d @ [(g, agent_id)]
        | None \<Rightarrow> group_members d),
       claims := update_where (\<lambda>r. cl_id r = claim_id)
         (\<lambda>r. r\<lparr>cl_status := ''approved'', approved_by := Some by, cl_agent_id := Some agent_id,
            issued_token_hash := Some api_hash, cl_error := None\<rparr>) (claims d)\<rparr>"

definition reject_agent_enrollment_claim :: "EnrollDb \<Rightarrow> Uuid \<Rightarrow> string \<Rightarrow> string option \<Rightarrow> bool \<times> EnrollDb" where
  "reject_agent_enrollment_claim d claim_id by err =
     (let hit = (\<lambda>r. cl_id r = claim_id \<and> cl_status r = ''pending'') in
      (list_ex hit (claims d),
       d\<lparr>claims := update_where hit
          (\<lambda>r. r\<lparr>cl_status := ''rejected'', rejected_by := Some by, cl_error := Some (unwrap_or err ''Rejected by admin'')\<rparr>) (claims d)\<rparr>))"

section \<open>Approval\<close>

definition final_agent_name :: "string option \<Rightarrow> string \<Rightarrow> string" where
  "final_agent_name override_name requested_name =
     take_chars 128 (unwrap_or (option_filter (\<lambda>s. s \<noteq> []) (map_option trim override_name)) requested_name)"

text \<open>\<open>token\<close> is the fresh plaintext token and \<open>api_hash\<close> its hash, \<open>None\<close> when hashing failed.\<close>

definition approve_claim_with_binding ::
  "EnrollDb \<Rightarrow> Uuid \<Rightarrow> string \<Rightarrow> string option \<Rightarrow> Uuid option \<Rightarrow> Uuid option \<Rightarrow> string \<Rightarrow> string option \<Rightarrow> Uuid \<Rightarrow> Time \<Rightarrow> bool
    \<Rightarrow> (Uuid \<times> string \<times> string, ClaimApproveReject) Result option \<times> EnrollDb" where
  "approve_claim_with_binding d claim_id by agent_name group_id expected token api_hash fresh now tx_ok =
     (if \<not> tx_ok then (None, d)
      else case lock_claim_for_approval d claim_id expected now of
        Inl reject \<Rightarrow> (Some (Err reject), d)
      | Inr (requested_name, bound) \<Rightarrow>
          (case api_hash of
             None \<Rightarrow> (None, d)
           | Some h \<Rightarrow>
               (case issue_agent_credentials d bound (final_agent_name agent_name requested_name) h fresh of
                  (Inl reject, _) \<Rightarrow> (Some (Err reject), d)
                | (Inr (agent_id, name), d1) \<Rightarrow>
                    (Some (Ok (agent_id, token, name)), mark_claim_approved d1 claim_id by agent_id group_id h))))"

text \<open>\<open>bound\<close> is what \<open>enrollment_claim_bound_agent_id\<close> answered before the device's gate was acquired; the second
  answer, under the gate, is computed. \<open>read_ok\<close> and \<open>tx_ok\<close>: whether the second query and the transaction succeed.\<close>

definition approve_agent_enrollment_claim ::
  "Uuid_fmt \<Rightarrow> AppState \<Rightarrow> EnrollDb \<Rightarrow> Uuid \<Rightarrow> string \<Rightarrow> string option \<Rightarrow> Uuid option \<Rightarrow> Uuid option \<Rightarrow> string \<Rightarrow> string option
    \<Rightarrow> Uuid \<Rightarrow> Time \<Rightarrow> Time \<Rightarrow> bool \<Rightarrow> bool \<Rightarrow> Value
    \<Rightarrow> (Uuid \<times> string \<times> string, ClaimApproveReject) Result option \<times> AppState \<times> EnrollDb" where
  "approve_agent_enrollment_claim f st d claim_id by agent_name group_id bound token api_hash fresh t1 t2 read_ok tx_ok at =
     (if bound \<noteq> None \<and> \<not> read_ok then (None, st, d)
      else if bound \<noteq> None \<and> enrollment_claim_bound_agent_id d claim_id t1 \<noteq> bound then (Some (Err NotPending), st, d)
      else
        (let st1 = (case bound of
               Some i \<Rightarrow> invalidate_agent_connection f st i ''agent_credentials_revoked'' at
             | None \<Rightarrow> st);
             (outcome, d') = approve_claim_with_binding d claim_id by agent_name group_id bound token api_hash fresh t2 tx_ok;
             st2 = (case outcome of
               Some (Inr (agent_id, tok, name)) \<Rightarrow>
                 st1\<lparr>agents := (agents st1)\<lparr>pending_enrollment_tokens := hm_insert claim_id
                   \<lparr> pet_agent_id = agent_id, pet_agent_name = name, pet_agent_token = tok \<rparr>
                   (pending_enrollment_tokens (agents st1))\<rparr>\<rparr>
             | _ \<Rightarrow> st1)
         in (outcome, st2, d')))"

section \<open>The public endpoints\<close>

type_synonym Response = "nat \<times> Value"

definition error_response :: "nat \<Rightarrow> string \<Rightarrow> Response" where
  "error_response status message = (status, json_obj [(''error'', Str message)])"

record CreateClaimBody =
  cb_pairing_code :: "string option"
  cb_requested_name :: string
  cb_hostname :: "string option"
  cb_os :: "string option"
  cb_agent_version :: "string option"
  cb_install_id :: string
  cb_discovered_server :: "string option"

definition claim_input :: "CreateClaimBody \<Rightarrow> string option \<Rightarrow> AgentEnrollmentClaimInput" where
  "claim_input body ip =
     \<lparr> in_pairing_code = cb_pairing_code body, in_requested_name = cb_requested_name body, in_hostname = cb_hostname body,
       in_os = cb_os body, in_agent_version = cb_agent_version body, in_install_id = cb_install_id body,
       in_discovered_server = cb_discovered_server body, in_client_ip = ip \<rparr>"

definition auto_approve_response ::
  "Uuid_fmt \<Rightarrow> Uuid \<Rightarrow> (Uuid \<times> string \<times> string, ClaimApproveReject) Result option \<Rightarrow> Response" where
  "auto_approve_response f claim_id outcome =
     (case outcome of
        Some (Inr _) \<Rightarrow>
          (200, json_obj [(''claim_id'', json_uuid f claim_id), (''status'', Str ''approved''), (''poll_after_secs'', json_nat 1)])
      | Some (Inl AlreadyEnrolled) \<Rightarrow> error_response 409 ''an enrolled agent already uses that name''
      | _ \<Rightarrow> error_response 500 ''could not auto-approve enrollment claim'')"

text \<open>The approval of an automatically approved claim runs right after the claim's own transaction; its arguments
  are those of \<open>approve_agent_enrollment_claim\<close>, with \<open>bound\<close> the answer of the query it starts with.\<close>

definition create_enrollment_claim ::
  "Uuid_fmt \<Rightarrow> (string \<Rightarrow> string) \<Rightarrow> AppState \<Rightarrow> EnrollDb \<Rightarrow> CreateClaimBody \<Rightarrow> string option \<Rightarrow> Time \<Rightarrow> Uuid \<Rightarrow> bool
    \<Rightarrow> Uuid option \<Rightarrow> bool \<Rightarrow> string \<Rightarrow> string option \<Rightarrow> Uuid \<Rightarrow> Time \<Rightarrow> Time \<Rightarrow> bool \<Rightarrow> bool \<Rightarrow> Value
    \<Rightarrow> Response \<times> AppState \<times> EnrollDb" where
  "create_enrollment_claim f sha st d body ip now fresh tx_ok bound bound_ok token api_hash fresh_agent t1 t2 read_ok approve_ok at =
     (if trim (cb_requested_name body) = [] \<or> trim (cb_install_id body) = []
      then (error_response 400 ''requested_name and install_id required'', st, d)
      else case create_agent_enrollment_claim sha d (claim_input body ip) now fresh tx_ok of
        (Some (Inr (claim, auto)), d1) \<Rightarrow>
          if auto then
            (let (outcome, st2, d2) =
               (if \<not> bound_ok then (None, st, d1)
                else approve_agent_enrollment_claim f st d1 (cl_id claim) ''pairing_code'' None None bound token api_hash
                       fresh_agent t1 t2 read_ok approve_ok at)
             in (auto_approve_response f (cl_id claim) outcome, st2, d2))
          else ((200, json_obj [(''claim_id'', json_uuid f (cl_id claim)), (''status'', Str (cl_status claim)),
                   (''poll_after_secs'', json_nat 2)]), st, d1)
      | (Some (Inl InvalidOrExpiredCode), d1) \<Rightarrow> (error_response 401 ''invalid or expired pairing code'', st, d1)
      | (Some (Inl CreateAlreadyEnrolled), d1) \<Rightarrow> (error_response 409 ''an enrolled agent already uses that name'', st, d1)
      | (None, d1) \<Rightarrow> (error_response 500 ''could not create enrollment claim'', st, d1))"

definition token_response :: "Uuid_fmt \<Rightarrow> PendingEnrollmentToken \<Rightarrow> Response" where
  "token_response f issued =
     (200, json_obj [(''status'', Str ''approved''), (''agent_id'', json_uuid f (pet_agent_id issued)),
        (''agent_name'', Str (pet_agent_name issued)), (''agent_token'', Str (pet_agent_token issued))])"

definition poll_enrollment_claim :: "Uuid_fmt \<Rightarrow> AppState \<Rightarrow> EnrollDb \<Rightarrow> Uuid \<Rightarrow> bool \<Rightarrow> Response \<times> AppState" where
  "poll_enrollment_claim f st d claim_id read_ok =
     (if \<not> read_ok then (error_response 500 ''could not load claim'', st)
      else case claim_row d claim_id of
        None \<Rightarrow> (error_response 404 ''claim not found'', st)
      | Some claim \<Rightarrow>
          if cl_status claim = ''pending'' then
            ((200, json_obj [(''status'', Str ''pending''), (''poll_after_secs'', json_nat 2)]), st)
          else if cl_status claim = ''approved'' then
            (case hm_get (pending_enrollment_tokens (agents st)) claim_id of
               Some issued \<Rightarrow>
                 (token_response f issued,
                  st\<lparr>agents := (agents st)\<lparr>pending_enrollment_tokens := hm_remove claim_id (pending_enrollment_tokens (agents st))\<rparr>\<rparr>)
             | None \<Rightarrow>
                 ((200, json_obj [(''status'', Str ''approved''), (''agent_id'', json_opt (json_uuid f) (cl_agent_id claim)),
                     (''agent_name'', Str (cl_requested_name claim)),
                     (''error'', Str ''credential was already retrieved; start a new pairing if this device did not save it'')]), st))
          else if cl_status claim = ''rejected'' \<or> cl_status claim = ''expired'' then
            ((200, json_obj [(''status'', Str (cl_status claim)), (''error'', Str (unwrap_or (cl_error claim) ''Rejected by admin''))]), st)
          else ((200, json_obj [(''status'', Str (cl_status claim)), (''poll_after_secs'', json_nat 5)]), st))"

section \<open>The administrator's endpoints\<close>

record CreateEnrollmentTokenBody =
  tb_uses :: int
  tb_expires_in_hours :: "int option"
  tb_note :: "string option"
  tb_bound_agent_id :: "Uuid option"

text \<open>\<open>add_hours\<close> is \<open>Utc::now() + Duration::hours(h)\<close> of \<open>chrono\<close>, which panics (\<open>None\<close>) outside its range; the
  outer \<open>None\<close> of the result is that panic. \<open>jtime\<close> serializes a time stamp.\<close>

definition code_expiry :: "(Time \<Rightarrow> int \<Rightarrow> Time option) \<Rightarrow> Time \<Rightarrow> int option \<Rightarrow> (Time, ApiError) Result option" where
  "code_expiry add_hours now hours =
     (case hours of
        Some h \<Rightarrow> if h > 0 then map_option Ok (add_hours now h)
                  else Some (Err (BadRequest ''expires_in_hours must be positive''))
      | None \<Rightarrow> Some (Ok (now + 10 * MINUTE)))"

definition create_pairing_code ::
  "Uuid_fmt \<Rightarrow> (string \<Rightarrow> string) \<Rightarrow> (Time \<Rightarrow> int \<Rightarrow> Time option) \<Rightarrow> (Time \<Rightarrow> Value) \<Rightarrow> EnrollDb \<Rightarrow> CreateEnrollmentTokenBody \<Rightarrow> Time
    \<Rightarrow> Uuid \<Rightarrow> (nat \<Rightarrow> nat) \<Rightarrow> (nat \<Rightarrow> bool) \<Rightarrow> (Value, ApiError) Result option \<times> EnrollDb" where
  "create_pairing_code f sha add_hours jtime d body now fresh draw tx_ok =
     (let uses = clamp (tb_uses body) 1 100000 in
      case code_expiry add_hours now (tb_expires_in_hours body) of
        None \<Rightarrow> (None, d)
      | Some (Inl e) \<Rightarrow> (Some (Err e), d)
      | Some (Inr expires) \<Rightarrow>
          (case create_agent_enrollment_token sha d uses (Some expires) (option_filter (\<lambda>s. s \<noteq> []) (map_option trim (tb_note body)))
                  fresh draw tx_ok of
             (Inl _, d') \<Rightarrow> (Some (Err (Status 500 ''could not create token'')), d')
           | (Inr (i, plaintext), d') \<Rightarrow>
               (Some (Ok (json_obj [(''id'', json_uuid f i), (''enrollment_token'', Str plaintext), (''uses'', json_int uses),
                  (''expires_at'', jtime expires), (''note'', json_opt Str (tb_note body))])), d')))"

definition replace_installation_db ::
  "Uuid_fmt \<Rightarrow> (string \<Rightarrow> string) \<Rightarrow> (Time \<Rightarrow> Value) \<Rightarrow> AppState \<Rightarrow> EnrollDb \<Rightarrow> AuthUser \<Rightarrow> Uuid \<Rightarrow> (nat \<Rightarrow> Time) \<Rightarrow> Uuid
    \<Rightarrow> (nat \<Rightarrow> nat) \<Rightarrow> (nat \<Rightarrow> bool) \<Rightarrow> Value \<Rightarrow> (Value, ApiError) Result \<times> AppState \<times> EnrollDb" where
  "replace_installation_db f sha jtime st d user agent_id clock fresh draw tx_ok at =
     (let (answer, d') = (if is_admin user then create_agent_replacement_token sha d agent_id clock fresh draw tx_ok else (Ok None, d));
          invite = map_sum (\<lambda>_. ()) (map_option (\<lambda>(i, p, e). (i, p, jtime e))) answer;
          (r, st') = replace_agent_installation f st agent_id user invite at
      in (r, st', d'))"

definition create_enrollment_token ::
  "Uuid_fmt \<Rightarrow> (string \<Rightarrow> string) \<Rightarrow> (Time \<Rightarrow> int \<Rightarrow> Time option) \<Rightarrow> (Time \<Rightarrow> Value) \<Rightarrow> AppState \<Rightarrow> EnrollDb \<Rightarrow> AuthUser
    \<Rightarrow> CreateEnrollmentTokenBody \<Rightarrow> (nat \<Rightarrow> Time) \<Rightarrow> Uuid \<Rightarrow> (nat \<Rightarrow> nat) \<Rightarrow> (nat \<Rightarrow> bool) \<Rightarrow> Value
    \<Rightarrow> (Value, ApiError) Result option \<times> AppState \<times> EnrollDb" where
  "create_enrollment_token f sha add_hours jtime st d user body clock fresh draw tx_ok at =
     (if \<not> is_admin user then (Some (Err (Forbidden ''admin only'')), st, d)
      else case tb_bound_agent_id body of
        Some i \<Rightarrow> map_prod Some (\<lambda>x. x) (replace_installation_db f sha jtime st d user i clock fresh draw tx_ok at)
      | None \<Rightarrow> (let (r, d') = create_pairing_code f sha add_hours jtime d body (clock 0) fresh draw tx_ok in (r, st, d')))"

definition ok_response :: Value where "ok_response = json_obj [(''ok'', Bool True)]"

definition revoke_enrollment_token :: "EnrollDb \<Rightarrow> AuthUser \<Rightarrow> Uuid \<Rightarrow> Time \<Rightarrow> bool \<Rightarrow> (Value, ApiError) Result \<times> EnrollDb" where
  "revoke_enrollment_token d user token_id now tx_ok =
     (if \<not> is_admin user then (Err (Forbidden ''admin only''), d)
      else if \<not> tx_ok then (Err (Status 500 ''could not revoke token''), d)
      else (Ok ok_response, revoke_agent_enrollment_token d token_id now))"

definition revoke_all_enrollment_tokens :: "EnrollDb \<Rightarrow> AuthUser \<Rightarrow> Time \<Rightarrow> bool \<Rightarrow> (Value, ApiError) Result \<times> EnrollDb" where
  "revoke_all_enrollment_tokens d user now tx_ok =
     (if \<not> is_admin user then (Err (Forbidden ''admin only''), d)
      else if \<not> tx_ok then (Err (Status 500 ''could not revoke tokens''), d)
      else (let (n, d') = revoke_all_agent_enrollment_tokens d now in
            (Ok (json_obj [(''ok'', Bool True), (''revoked'', json_nat n)]), d')))"

definition approve_response ::
  "Uuid_fmt \<Rightarrow> (Uuid \<times> string \<times> string, ClaimApproveReject) Result option \<Rightarrow> (Value, ApiError) Result" where
  "approve_response f outcome =
     (case outcome of
        None \<Rightarrow> Err (Status 500 ''could not approve claim'')
      | Some (Inl ClaimNotFound) \<Rightarrow> Err (NotFound ''claim not found'')
      | Some (Inl NotPending) \<Rightarrow> Err (ApiConflict ''claim is not pending'')
      | Some (Inl AlreadyEnrolled) \<Rightarrow> Err (ApiConflict ''an enrolled agent already uses that name'')
      | Some (Inr (agent_id, _)) \<Rightarrow> Ok (json_obj [(''ok'', Bool True), (''agent_id'', json_uuid f agent_id)]))"

text \<open>\<open>bound_ok\<close>: whether the first query of the approval succeeded.\<close>

definition approve_enrollment_claim ::
  "Uuid_fmt \<Rightarrow> AppState \<Rightarrow> EnrollDb \<Rightarrow> AuthUser \<Rightarrow> Uuid \<Rightarrow> string option \<Rightarrow> Uuid option \<Rightarrow> Uuid option \<Rightarrow> bool \<Rightarrow> string \<Rightarrow> string option
    \<Rightarrow> Uuid \<Rightarrow> Time \<Rightarrow> Time \<Rightarrow> bool \<Rightarrow> bool \<Rightarrow> Value \<Rightarrow> (Value, ApiError) Result \<times> AppState \<times> EnrollDb" where
  "approve_enrollment_claim f st d user claim_id agent_name group_id bound bound_ok token api_hash fresh t1 t2 read_ok tx_ok at =
     (if \<not> is_admin user then (Err (Forbidden ''admin only''), st, d)
      else if \<not> bound_ok then (approve_response f None, st, d)
      else (let (outcome, st', d') = approve_agent_enrollment_claim f st d claim_id (username user) agent_name group_id bound token
                  api_hash fresh t1 t2 read_ok tx_ok at
            in (approve_response f outcome, st', d')))"

definition reject_enrollment_claim ::
  "EnrollDb \<Rightarrow> AuthUser \<Rightarrow> Uuid \<Rightarrow> string option \<Rightarrow> bool \<Rightarrow> (Value, ApiError) Result \<times> EnrollDb" where
  "reject_enrollment_claim d user claim_id err tx_ok =
     (if \<not> is_admin user then (Err (Forbidden ''admin only''), d)
      else if \<not> tx_ok then (Err (Status 500 ''could not reject claim''), d)
      else (case reject_agent_enrollment_claim d claim_id (username user) err of
              (True, d') \<Rightarrow> (Ok ok_response, d')
            | (False, d') \<Rightarrow> (Err (ApiConflict ''claim is not pending''), d')))"

section \<open>Revocation and deletion of devices\<close>

text \<open>\<open>revoke_agent_credentials\<close> and \<open>delete_agents_bulk\<close> of \<open>lifecycle.rs\<close> with their statements.\<close>

definition revoke_credentials_endpoint ::
  "Uuid_fmt \<Rightarrow> AppState \<Rightarrow> EnrollDb \<Rightarrow> Uuid \<Rightarrow> AuthUser \<Rightarrow> Time \<Rightarrow> bool \<Rightarrow> Value
    \<Rightarrow> (unit, ApiError) Result \<times> AppState \<times> EnrollDb" where
  "revoke_credentials_endpoint f st d agent_id user now tx_ok at =
     (let (r, st') = revoke_agent_credentials f st agent_id user tx_ok at
      in (r, st', if is_admin user \<and> tx_ok then revoke_credentials_db d agent_id now else d))"

text \<open>The loop over \<open>body.agent_ids\<close> stops at the first device whose transaction fails.\<close>

definition revoke_each :: "EnrollDb \<Rightarrow> Uuid list \<Rightarrow> Time \<Rightarrow> (Uuid \<Rightarrow> bool) \<Rightarrow> EnrollDb" where
  "revoke_each d ids now revoked = foldl (\<lambda>d i. revoke_credentials_db d i now) d (takeWhile revoked ids)"

definition delete_agents_endpoint ::
  "Uuid_fmt \<Rightarrow> AppState \<Rightarrow> EnrollDb \<Rightarrow> AuthUser \<Rightarrow> Uuid list \<Rightarrow> Time \<Rightarrow> (Uuid \<Rightarrow> bool) \<Rightarrow> bool \<Rightarrow> Value
    \<Rightarrow> (nat, ApiError) Result \<times> AppState \<times> EnrollDb" where
  "delete_agents_endpoint f st d user ids now revoked delete_ok at =
     (let d1 = revoke_each d ids now revoked;
          n = length (filter (\<lambda>r. ag_id r \<in> set ids) (agent_rows d1));
          (r, st') = delete_agents_bulk f st user ids revoked (if delete_ok then Some n else None) at
      in (r, st',
          if \<not> is_admin user \<or> ids = [] \<or> length ids > 128 then d
          else if is_ok r then delete_agent_rows d1 ids else d1))"

section \<open>Rows\<close>

lemma in_update_where: "r \<in> set (update_where p g rows) \<longleftrightarrow> (\<exists>r0 \<in> set rows. r = (if p r0 then g r0 else r0))"
  by (auto simp: update_where_def)

lemma map_update_where [simp]: "(\<And>r. key (g r) = key r) \<Longrightarrow> map key (update_where p g rows) = map key rows"
  by (simp add: update_where_def)

lemma image_update_where [simp]: "(\<And>r. key (g r) = key r) \<Longrightarrow> key ` set (update_where p g rows) = key ` set rows"
  by (metis map_update_where set_map)

lemma find_update_where:
  "(\<And>r. key (g r) = key r) \<Longrightarrow>
     find (\<lambda>r. key r = k) (update_where p g rows) = map_option (\<lambda>r. if p r then g r else r) (find (\<lambda>r. key r = k) rows)"
  by (induction rows) (auto simp: update_where_def)

lemma find_key_Some: "distinct (map key rows) \<Longrightarrow> find (\<lambda>r. key r = k) rows = Some r \<longleftrightarrow> r \<in> set rows \<and> key r = k"
  by (induction rows) (auto simp: image_iff)

lemma find_append: "find p (xs @ ys) = (case find p xs of None \<Rightarrow> find p ys | Some x \<Rightarrow> Some x)"
  by (induction xs) auto

lemma find_in_set: "find p xs = Some x \<Longrightarrow> x \<in> set xs \<and> p x"
  by (induction xs) (auto split: if_splits)

lemma find_none: "find p xs = None \<Longrightarrow> x \<in> set xs \<Longrightarrow> \<not> p x"
  by (induction xs) (auto split: if_splits)

lemma keys_inj: "distinct (map key rows) \<Longrightarrow> r \<in> set rows \<Longrightarrow> s \<in> set rows \<Longrightarrow> key r = key s \<Longrightarrow> r = s"
  by (auto simp: distinct_map inj_on_def)

text \<open>How many claims were made with a code.\<close>

definition claims_under :: "EnrollDb \<Rightarrow> Uuid \<Rightarrow> nat" where
  "claims_under d i = length (filter (\<lambda>c. cl_invite_id c = Some i) (claims d))"

definition pending_digests :: "EnrollmentClaimRow list \<Rightarrow> string option list" where
  "pending_digests cs = map install_id_digest (filter (\<lambda>c. cl_status c = ''pending'' \<and> install_id_digest c \<noteq> None) cs)"

definition enroll_inv :: "EnrollDb \<Rightarrow> bool" where
  "enroll_inv d \<longleftrightarrow>
     distinct (map inv_id (invites d)) \<and> distinct (map secret_digest (invites d)) \<and> distinct (map cl_id (claims d))
     \<and> distinct (map ag_id (agent_rows d)) \<and> distinct (map ag_name (agent_rows d)) \<and> distinct (pending_digests (claims d))
     \<and> (\<forall>r \<in> set (invites d). 0 \<le> uses_remaining r)
     \<and> (\<forall>c \<in> set (claims d). \<forall>i. cl_invite_id c = Some i \<longrightarrow> i \<in> inv_id ` set (invites d))
     \<and> (\<forall>r \<in> set (invites d). \<forall>a. bound_agent_id r = Some a \<longrightarrow>
          a \<in> ag_id ` set (agent_rows d) \<and> uses_remaining r + int (claims_under d (inv_id r)) \<le> 1)
     \<and> (\<forall>r \<in> set (invites d). \<forall>s \<in> set (invites d). bound_agent_id r \<noteq> None \<and> bound_agent_id r = bound_agent_id s
          \<and> revoked_at r = None \<and> revoked_at s = None \<longrightarrow> r = s)"

lemma enroll_invD:
  assumes "enroll_inv d"
  shows "distinct (map inv_id (invites d))" "distinct (map secret_digest (invites d))" "distinct (map cl_id (claims d))"
    "distinct (map ag_id (agent_rows d))" "distinct (map ag_name (agent_rows d))" "distinct (pending_digests (claims d))"
    "r \<in> set (invites d) \<Longrightarrow> 0 \<le> uses_remaining r"
    "c \<in> set (claims d) \<Longrightarrow> cl_invite_id c = Some i \<Longrightarrow> i \<in> inv_id ` set (invites d)"
    "r \<in> set (invites d) \<Longrightarrow> bound_agent_id r = Some a \<Longrightarrow> a \<in> ag_id ` set (agent_rows d)"
    "r \<in> set (invites d) \<Longrightarrow> bound_agent_id r = Some a \<Longrightarrow> uses_remaining r + int (claims_under d (inv_id r)) \<le> 1"
    "r \<in> set (invites d) \<Longrightarrow> s \<in> set (invites d) \<Longrightarrow> bound_agent_id r = Some a \<Longrightarrow> bound_agent_id s = Some a \<Longrightarrow>
       revoked_at r = None \<Longrightarrow> revoked_at s = None \<Longrightarrow> r = s"
  using assms unfolding enroll_inv_def by (blast, blast, blast, blast, blast, blast, blast, blast, blast, blast, simp)

text \<open>What happens to the codes: none disappears, none gets more claims than it had left, a revoked one stays revoked,
  and none is ever bound to another device.\<close>

definition code_le :: "EnrollDb \<Rightarrow> EnrollDb \<Rightarrow> Invite \<Rightarrow> Invite \<Rightarrow> bool" where
  "code_le d d' r s \<longleftrightarrow> inv_id s = inv_id r \<and> secret_digest s = secret_digest r
     \<and> uses_remaining s + int (claims_under d' (inv_id r)) \<le> uses_remaining r + int (claims_under d (inv_id r))
     \<and> (revoked_at r \<noteq> None \<longrightarrow> revoked_at s \<noteq> None) \<and> bound_agent_id s \<in> {bound_agent_id r, None}"

definition codes_kept :: "EnrollDb \<Rightarrow> EnrollDb \<Rightarrow> bool" where
  "codes_kept d d' \<longleftrightarrow> (\<forall>r \<in> set (invites d). \<exists>s \<in> set (invites d'). code_le d d' r s)"

lemma codes_kept_refl: "codes_kept d d"
  by (auto simp: codes_kept_def code_le_def)

lemma code_le_trans: "code_le d d' r s \<Longrightarrow> code_le d' d'' s u \<Longrightarrow> code_le d d'' r u"
  unfolding code_le_def by fastforce

lemma codes_kept_trans: "codes_kept d d' \<Longrightarrow> codes_kept d' d'' \<Longrightarrow> codes_kept d d''"
  unfolding codes_kept_def by (meson code_le_trans)

lemma codes_keptE:
  assumes "codes_kept d d'" "enroll_inv d" "map inv_id (invites d') = map inv_id (invites d)" "s \<in> set (invites d')"
  obtains r where "r \<in> set (invites d)" "code_le d d' r s"
proof -
  from assms(4) have "inv_id s \<in> set (map inv_id (invites d'))" by simp
  then have "inv_id s \<in> inv_id ` set (invites d)" unfolding assms(3) by simp
  then obtain r where r: "r \<in> set (invites d)" "inv_id r = inv_id s" by force
  with assms(1) obtain u where u: "u \<in> set (invites d')" "code_le d d' r u" by (auto simp: codes_kept_def)
  have "distinct (map inv_id (invites d'))" using enroll_invD(1) [OF assms(2)] assms(3) by simp
  from keys_inj [OF this u(1) assms(4)] u(2) r have "u = s" by (simp add: code_le_def)
  with r u that show ?thesis by blast
qed

lemma enroll_inv_kept:
  assumes inv: "enroll_inv d" and kept: "codes_kept d d'" and ids: "map inv_id (invites d') = map inv_id (invites d)"
    and digests: "map secret_digest (invites d') = map secret_digest (invites d)"
    and rows: "distinct (map cl_id (claims d'))" "distinct (map ag_id (agent_rows d'))" "distinct (map ag_name (agent_rows d'))"
      "distinct (pending_digests (claims d'))"
    and uses: "\<And>s. s \<in> set (invites d') \<Longrightarrow> 0 \<le> uses_remaining s"
    and refs: "\<And>c i. c \<in> set (claims d') \<Longrightarrow> cl_invite_id c = Some i \<Longrightarrow> i \<in> inv_id ` set (invites d)"
    and bound: "\<And>s a. s \<in> set (invites d') \<Longrightarrow> bound_agent_id s = Some a \<Longrightarrow> a \<in> ag_id ` set (agent_rows d) \<Longrightarrow>
      a \<in> ag_id ` set (agent_rows d')"
  shows "enroll_inv d'"
proof -
  note D = enroll_invD [OF inv]
  have ids': "inv_id ` set (invites d') = inv_id ` set (invites d)" using ids by (metis set_map)
  have b1: "a \<in> ag_id ` set (agent_rows d') \<and> uses_remaining s + int (claims_under d' (inv_id s)) \<le> 1"
    if s: "s \<in> set (invites d')" "bound_agent_id s = Some a" for s a
  proof -
    obtain r where r: "r \<in> set (invites d)" "code_le d d' r s" by (rule codes_keptE [OF kept inv ids s(1)])
    then have "bound_agent_id r = Some a" using s(2) by (auto simp: code_le_def)
    from D(9,10) [OF r(1) this] r(2) bound [OF s] show ?thesis by (simp add: code_le_def)
  qed
  have b2: "s = t" if s: "s \<in> set (invites d')" "t \<in> set (invites d')" "bound_agent_id s = Some a" "bound_agent_id t = Some a"
    "revoked_at s = None" "revoked_at t = None" for s t a
  proof -
    obtain r where r: "r \<in> set (invites d)" "code_le d d' r s" by (rule codes_keptE [OF kept inv ids s(1)])
    obtain q where q: "q \<in> set (invites d)" "code_le d d' q t" by (rule codes_keptE [OF kept inv ids s(2)])
    have "r = q" using D(11) [OF r(1) q(1), of a] r(2) q(2) s(3-) by (auto simp: code_le_def)
    then have "inv_id s = inv_id t" using r(2) q(2) by (simp add: code_le_def)
    then show "s = t" using keys_inj [OF _ s(1,2)] D(1) ids by metis
  qed
  show ?thesis
    unfolding enroll_inv_def ids'
    using D(1,2) ids digests rows uses refs b1 b2 by auto
qed

section \<open>Counting claims\<close>

lemma count_update_le:
  "(\<And>r. r \<in> set xs \<Longrightarrow> p r \<Longrightarrow> P (g r) \<Longrightarrow> P r) \<Longrightarrow> length (filter P (update_where p g xs)) \<le> length (filter P xs)"
  by (induction xs) (auto simp: update_where_def le_Suc_eq)

lemma count_update_Suc:
  "distinct (map key xs) \<Longrightarrow> length (filter P (update_where (\<lambda>r. key r = k) g xs)) \<le> Suc (length (filter P xs))"
proof (induction xs)
  case (Cons x xs)
  have "update_where (\<lambda>r. key r = k) g xs = xs" if "key x = k"
    using that Cons.prems by (fastforce simp: update_where_def image_iff intro!: map_idI)
  with Cons show ?case by (cases "key x = k") (auto simp: update_where_def)
qed (simp add: update_where_def)

lemma claims_under_same [simp]: "claims_under (d\<lparr>invites := x\<rparr>) i = claims_under d i" "claims_under (d\<lparr>agent_rows := y\<rparr>) i = claims_under d i"
  by (simp_all add: claims_under_def)

lemma use_invite_simps [simp]: "claims (use_invite d i) = claims d" "agent_rows (use_invite d i) = agent_rows d"
  "claims_under (use_invite d i) j = claims_under d j" "map inv_id (invites (use_invite d i)) = map inv_id (invites d)"
  "map secret_digest (invites (use_invite d i)) = map secret_digest (invites d)"
  by (simp_all add: use_invite_def)

text \<open>Changes that only revoke codes, unbind them, or drop claims from them.\<close>

lemma codes_kept_update:
  assumes "invites d' = update_where p g (invites d)" "\<And>i. claims_under d' i \<le> claims_under d i"
    and "\<And>r. r \<in> set (invites d) \<Longrightarrow> p r \<Longrightarrow> inv_id (g r) = inv_id r \<and> secret_digest (g r) = secret_digest r
      \<and> uses_remaining (g r) \<le> uses_remaining r \<and> (revoked_at r \<noteq> None \<longrightarrow> revoked_at (g r) \<noteq> None)
      \<and> bound_agent_id (g r) \<in> {bound_agent_id r, None}"
  shows "codes_kept d d'"
  unfolding codes_kept_def
proof
  fix r assume r: "r \<in> set (invites d)"
  let ?s = "if p r then g r else r"
  have "?s \<in> set (invites d')" using r assms(1) by (auto simp: in_update_where)
  moreover have "code_le d d' r ?s"
    using assms(2) [of "inv_id r"] assms(3) [OF r] by (auto simp: code_le_def)
  ultimately show "\<exists>s \<in> set (invites d'). code_le d d' r s" by blast
qed

lemma codes_kept_same: "invites d' = invites d \<Longrightarrow> (\<And>i. claims_under d' i \<le> claims_under d i) \<Longrightarrow> codes_kept d d'"
  unfolding codes_kept_def code_le_def by force

text \<open>One use of a code pays for one more claim.\<close>

lemma codes_kept_use:
  assumes "invites d' = invites (use_invite d i)" "\<And>j. claims_under d' j \<le> claims_under d j + (if j = i then 1 else 0)"
  shows "codes_kept d d'"
  unfolding codes_kept_def
proof
  fix r assume r: "r \<in> set (invites d)"
  let ?s = "if inv_id r = i then r\<lparr>uses_remaining := uses_remaining r - 1\<rparr> else r"
  have "?s \<in> set (invites d')" using r assms(1) by (auto simp: in_update_where use_invite_def)
  moreover have "code_le d d' r ?s" using assms(2) [of "inv_id r"] by (auto simp: code_le_def)
  ultimately show "\<exists>s \<in> set (invites d'). code_le d d' r s" by blast
qed

section \<open>The operations on claims\<close>

lemma check_code_Ok:
  assumes "check_code sha d x now = Ok invite"
  shows "invite \<in> set (invites d)" "0 < uses_remaining invite" "revoked_at invite = None" "\<not> expired (inv_expires_at invite) now"
    "inv_kind invite = ''re_enroll'' \<Longrightarrow> bound_agent_id invite \<noteq> None"
    "\<exists>digits. normalize_enrollment_code_for_lookup x = Some digits \<and> secret_digest invite = sha digits"
  using assms by (auto simp: check_code_def split: option.splits if_splits dest!: find_in_set)

lemma create_claim_cases:
  assumes "create_agent_enrollment_claim sha d input now fresh ok = (r, d')"
  obtains (refused) "d' = d" "\<And>x. r \<noteq> Some (Ok x)"
  | (refreshed) row where "row \<in> set (claims d)" "cl_status row = ''pending''" "d' = snd (refresh_claim d input row None)"
      "r = Some (Ok (fst (refresh_claim d input row None), False))"
  | (refreshed_code) row invite where "row \<in> set (claims d)" "cl_status row = ''pending''"
      "check_code sha d (trim (unwrap_or (in_pairing_code input) [])) now = Ok invite"
      "d' = snd (refresh_claim (use_invite d (inv_id invite)) input row (Some (inv_id invite)))"
      "r = Some (Ok (fst (refresh_claim (use_invite d (inv_id invite)) input row (Some (inv_id invite))), invite_auto_approves invite))"
  | (created) "install_digest sha input = None \<or> install_digest sha input \<notin> set (pending_digests (claims d))"
      "d' = d\<lparr>claims := claims d @ [new_claim sha input None fresh now]\<rparr>" "r = Some (Ok (new_claim sha input None fresh now, False))"
  | (created_code) invite where "install_digest sha input = None \<or> install_digest sha input \<notin> set (pending_digests (claims d))"
      "check_code sha d (trim (unwrap_or (in_pairing_code input) [])) now = Ok invite"
      "d' = (use_invite d (inv_id invite))\<lparr>claims := claims d @ [new_claim sha input (Some (inv_id invite)) fresh now]\<rparr>"
      "r = Some (Ok (new_claim sha input (Some (inv_id invite)) fresh now, invite_auto_approves invite))"
proof -
  define active where "active = (case install_digest sha input of None \<Rightarrow> None
     | Some digest \<Rightarrow> find (\<lambda>r. install_id_digest r = Some digest \<and> cl_status r = ''pending'') (claims d))"
  define x where "x = trim (unwrap_or (in_pairing_code input) [])"
  note def = create_agent_enrollment_claim_def [of sha d input now fresh ok, folded active_def x_def, unfolded Let_def, folded active_def]
  note refreshed_code = refreshed_code [folded x_def] and created_code = created_code [folded x_def]
  show ?thesis
  proof (cases ok)
    case False
    with assms refused show ?thesis by (simp add: create_agent_enrollment_claim_def)
  next
    case ok: True
    show ?thesis
    proof (cases active)
      case (Some row)
      then have row: "row \<in> set (claims d)" "cl_status row = ''pending''"
        by (auto simp: active_def split: option.splits dest!: find_in_set)
      note step = assms [unfolded def, simplified ok Some, simplified]
      show ?thesis
      proof (cases "x = []")
        case True
        with step refreshed [OF row] show ?thesis by (simp add: case_prod_unfold)
      next
        case False
        show ?thesis
        proof (cases "check_code sha d x now")
          case (Inl e)
          with step False refused show ?thesis by auto
        next
          case (Inr invite)
          with step False refused refreshed_code [OF row Inr] show ?thesis by (auto simp: case_prod_unfold split: if_splits)
        qed
      qed
    next
      case None
      then have new: "install_digest sha input = None \<or> install_digest sha input \<notin> set (pending_digests (claims d))"
        by (auto simp: active_def pending_digests_def split: option.splits dest: find_none)
      note step = assms [unfolded def, simplified ok None, simplified]
      show ?thesis
      proof (cases "x = []")
        case True
        with step refused created [OF new] show ?thesis by (auto split: if_splits)
      next
        case False
        show ?thesis
        proof (cases "check_code sha d x now")
          case (Inl e)
          with step False refused show ?thesis by auto
        next
          case (Inr invite)
          with step False refused created_code [OF new Inr] show ?thesis by (auto split: if_splits)
        qed
      qed
    qed
  qed
qed

lemma refresh_claim_simps [simp]:
  "invites (snd (refresh_claim d input row i)) = invites d" "agent_rows (snd (refresh_claim d input row i)) = agent_rows d"
  "map cl_id (claims (snd (refresh_claim d input row i))) = map cl_id (claims d)"
  "pending_digests (claims (snd (refresh_claim d input row i))) = pending_digests (claims d)"
  by (simp_all add: refresh_claim_def Let_def pending_digests_def update_where_def filter_map comp_def)

lemma refresh_claim_refs:
  "c \<in> set (claims (snd (refresh_claim d input row iv))) \<Longrightarrow> \<exists>c0 \<in> set (claims d). cl_invite_id c \<in> {cl_invite_id c0, iv}"
  by (auto simp: refresh_claim_def Let_def in_update_where split: if_splits)

lemma refresh_claim_under:
  assumes "enroll_inv d"
  shows "claims_under (snd (refresh_claim d input row iv)) j \<le> claims_under d j + (if iv = Some j then 1 else 0)"
proof (cases "iv = Some j")
  case True
  with count_update_Suc [OF enroll_invD(3) [OF assms]] show ?thesis by (simp add: claims_under_def refresh_claim_def Let_def)
next
  case False
  then show ?thesis
    by (auto simp: claims_under_def refresh_claim_def Let_def split: if_splits intro!: count_update_le)
qed

lemma uses_use_invite:
  "enroll_inv d \<Longrightarrow> invite \<in> set (invites d) \<Longrightarrow> 0 < uses_remaining invite \<Longrightarrow> s \<in> set (invites (use_invite d (inv_id invite))) \<Longrightarrow>
     0 \<le> uses_remaining s"
  using keys_inj [OF enroll_invD(1)] by (fastforce simp: use_invite_def in_update_where dest: enroll_invD(7) split: if_splits)

lemma create_claim_inv:
  assumes "enroll_inv d" "create_agent_enrollment_claim sha d input now fresh ok = (r, d')" "fresh \<notin> cl_id ` set (claims d)"
  shows "enroll_inv d' \<and> codes_kept d d'"
  using assms(2)
proof (cases rule: create_claim_cases)
  case refused
  with assms(1) show ?thesis by (simp add: codes_kept_refl)
next
  case (refreshed row)
  have kept: "codes_kept d d'"
    by (rule codes_kept_same) (use refreshed refresh_claim_under [OF assms(1), of input row None] in \<open>simp_all\<close>)
  show ?thesis
  proof (rule conjI [OF enroll_inv_kept [OF assms(1) kept] kept])
    show "i \<in> inv_id ` set (invites d)" if "c \<in> set (claims d')" "cl_invite_id c = Some i" for c i
      using refresh_claim_refs [of c d input row None] that refreshed enroll_invD(8) [OF assms(1)] by force
  qed (use refreshed enroll_invD [OF assms(1)] in simp_all)
next
  case (refreshed_code row invite)
  note ok = check_code_Ok [OF refreshed_code(3)]
  let ?u = "use_invite d (inv_id invite)"
  have under: "claims_under d' j \<le> claims_under d j + (if j = inv_id invite then 1 else 0)" for j
  proof -
    have "claims (snd (refresh_claim ?u input row (Some (inv_id invite)))) = claims (snd (refresh_claim d input row (Some (inv_id invite))))"
      by (simp add: refresh_claim_def Let_def)
    then show ?thesis
      using refresh_claim_under [OF assms(1), of input row "Some (inv_id invite)" j] refreshed_code by (auto simp: claims_under_def)
  qed
  have kept: "codes_kept d d'" by (rule codes_kept_use [OF _ under]) (simp add: refreshed_code)
  show ?thesis
  proof (rule conjI [OF enroll_inv_kept [OF assms(1) kept] kept])
    show "i \<in> inv_id ` set (invites d)" if "c \<in> set (claims d')" "cl_invite_id c = Some i" for c i
      using refresh_claim_refs [of c ?u input row "Some (inv_id invite)"] that refreshed_code ok(1) enroll_invD(8) [OF assms(1)] by force
    show "0 \<le> uses_remaining s" if "s \<in> set (invites d')" for s
      using uses_use_invite [OF assms(1) ok(1,2)] that refreshed_code by simp
  qed (use refreshed_code enroll_invD [OF assms(1)] in simp_all)
next
  case created
  have kept: "codes_kept d d'" by (rule codes_kept_same) (simp_all add: created claims_under_def new_claim_def)
  show ?thesis
  proof (rule conjI [OF enroll_inv_kept [OF assms(1) kept] kept])
    show "distinct (pending_digests (claims d'))"
      using created(1) enroll_invD(6) [OF assms(1)] by (auto simp: created(2) pending_digests_def new_claim_def)
  qed (use created assms(3) enroll_invD [OF assms(1)] in \<open>auto simp: new_claim_def\<close>)
next
  case (created_code invite)
  note ok = check_code_Ok [OF created_code(2)]
  have kept: "codes_kept d d'"
    by (rule codes_kept_use [of _ _ "inv_id invite"]) (simp_all add: created_code claims_under_def new_claim_def)
  show ?thesis
  proof (rule conjI [OF enroll_inv_kept [OF assms(1) kept] kept])
    show "distinct (pending_digests (claims d'))"
      using created_code(1) enroll_invD(6) [OF assms(1)] by (auto simp: created_code(3) pending_digests_def new_claim_def)
    show "0 \<le> uses_remaining s" if "s \<in> set (invites d')" for s
      using uses_use_invite [OF assms(1) ok(1,2)] that created_code by simp
  qed (use created_code ok(1) assms(3) enroll_invD [OF assms(1)] in \<open>auto simp: new_claim_def\<close>)
qed

section \<open>Revocation, rejection and deletion\<close>

lemma revoke_rows_kept:
  "d' = d\<lparr>invites := update_where p (revoke_row now) (invites d)\<rparr> \<Longrightarrow> enroll_inv d \<Longrightarrow> codes_kept d d'"
  by (rule codes_kept_update [where p = p and g = "revoke_row now"]) (auto simp: revoke_row_def dest: enroll_invD(7))

lemma enroll_inv_revoke_rows:
  assumes "enroll_inv d"
  shows "enroll_inv (d\<lparr>invites := update_where p (revoke_row now) (invites d)\<rparr>)"
  by (rule enroll_inv_kept [OF assms revoke_rows_kept [OF refl assms]])
    (use enroll_invD [OF assms] in \<open>auto simp: in_update_where revoke_row_def split: if_splits\<close>)

lemma clear_token_hash_simps [simp]:
  "invites (clear_token_hash d a) = invites d" "claims (clear_token_hash d a) = claims d"
  "map ag_id (agent_rows (clear_token_hash d a)) = map ag_id (agent_rows d)"
  "map ag_name (agent_rows (clear_token_hash d a)) = map ag_name (agent_rows d)"
  "ag_id ` set (agent_rows (clear_token_hash d a)) = ag_id ` set (agent_rows d)"
  "claims_under (clear_token_hash d a) i = claims_under d i"
  by (simp_all add: clear_token_hash_def)

lemma enroll_inv_clear: "enroll_inv d \<Longrightarrow> enroll_inv (clear_token_hash d a)"
  unfolding enroll_inv_def clear_token_hash_simps by assumption

lemma revoke_credentials_inv:
  assumes "enroll_inv d"
  shows "enroll_inv (revoke_credentials_db d a now)" "codes_kept d (revoke_credentials_db d a now)"
proof -
  have "enroll_inv (revoke_bound_invites d a now)" "codes_kept d (revoke_bound_invites d a now)"
    using enroll_inv_revoke_rows [OF assms] revoke_rows_kept [OF refl assms] by (simp_all add: revoke_bound_invites_def)
  then show "enroll_inv (revoke_credentials_db d a now)" "codes_kept d (revoke_credentials_db d a now)"
    by (simp_all add: revoke_credentials_db_def enroll_inv_clear codes_kept_def code_le_def)
qed

lemma revoke_each_inv:
  assumes "enroll_inv d"
  shows "enroll_inv (revoke_each d ids now ok)" "codes_kept d (revoke_each d ids now ok)"
proof -
  have "enroll_inv (foldl (\<lambda>d i. revoke_credentials_db d i now) d xs) \<and> codes_kept d (foldl (\<lambda>d i. revoke_credentials_db d i now) d xs)" for xs
    using assms
  proof (induction xs arbitrary: d)
    case (Cons x xs)
    note one = revoke_credentials_inv [OF Cons.prems, of x now]
    from Cons.IH [OF one(1)] codes_kept_trans [OF one(2)] show ?case by auto
  qed (simp add: codes_kept_refl)
  then show "enroll_inv (revoke_each d ids now ok)" "codes_kept d (revoke_each d ids now ok)" by (simp_all add: revoke_each_def)
qed

lemma claims_status_kept:
  assumes "\<And>r. p r \<Longrightarrow> cl_invite_id (g r) = cl_invite_id r"
  shows "claims_under (d\<lparr>claims := update_where p g (claims d), group_members := x\<rparr>) i \<le> claims_under d i"
    "claims_under (d\<lparr>claims := update_where p g (claims d)\<rparr>) i \<le> claims_under d i"
  using assms by (auto simp: claims_under_def intro!: count_update_le)

lemma pending_digests_update:
  assumes "\<And>r. p r \<Longrightarrow> install_id_digest (g r) = install_id_digest r \<and> (cl_status (g r) = ''pending'' \<longrightarrow> cl_status r = ''pending'')"
  shows "distinct (pending_digests cs) \<Longrightarrow> distinct (pending_digests (update_where p g cs))"
proof (induction cs)
  case (Cons c cs)
  have sub: "set (pending_digests (update_where p g cs)) \<subseteq> set (pending_digests cs)"
    using assms by (fastforce simp: pending_digests_def in_update_where split: if_splits)
  define c' where "c' = (if p c then g c else c)"
  have c': "install_id_digest c' = install_id_digest c" "cl_status c' = ''pending'' \<Longrightarrow> cl_status c = ''pending''"
    using assms [of c] by (auto simp: c'_def split: if_splits)
  have upd: "update_where p g (c # cs) = c' # update_where p g cs" by (simp add: update_where_def c'_def)
  have "distinct (pending_digests (update_where p g cs))" using Cons by (simp add: pending_digests_def split: if_splits)
  moreover have "install_id_digest c \<notin> set (pending_digests (update_where p g cs))"
    if "cl_status c' = ''pending''" "install_id_digest c \<noteq> None"
    using Cons.prems c'(2) that sub by (auto simp: pending_digests_def)
  ultimately show ?case unfolding upd using c' by (auto simp: pending_digests_def)
qed (simp add: pending_digests_def update_where_def)

text \<open>Changes of claims that keep their codes and never make one pending again.\<close>

lemma enroll_inv_claims:
  assumes inv: "enroll_inv d" and d': "d' = d\<lparr>claims := update_where p g (claims d)\<rparr>"
    and g: "\<And>r. p r \<Longrightarrow> cl_id (g r) = cl_id r \<and> cl_invite_id (g r) = cl_invite_id r \<and> install_id_digest (g r) = install_id_digest r
      \<and> (cl_status (g r) = ''pending'' \<longrightarrow> cl_status r = ''pending'')"
  shows "enroll_inv d' \<and> codes_kept d d'"
proof -
  have kept: "codes_kept d d'" by (rule codes_kept_same) (use g claims_status_kept(2) [of p g] in \<open>simp_all add: d'\<close>)
  have ids: "map cl_id (update_where p g (claims d)) = map cl_id (claims d)" using g by (auto simp: update_where_def)
  show ?thesis
  proof (rule conjI [OF enroll_inv_kept [OF inv kept] kept])
    show "distinct (pending_digests (claims d'))" using pending_digests_update [of p g] g enroll_invD(6) [OF inv] by (simp add: d')
    show "i \<in> inv_id ` set (invites d)" if "c \<in> set (claims d')" "cl_invite_id c = Some i" for c i
      using that g enroll_invD(8) [OF inv] by (auto simp: d' in_update_where split: if_splits)
  qed (use ids enroll_invD [OF inv] in \<open>simp_all add: d'\<close>)
qed

lemma reject_inv:
  "enroll_inv d \<Longrightarrow> enroll_inv (snd (reject_agent_enrollment_claim d c by e)) \<and> codes_kept d (snd (reject_agent_enrollment_claim d c by e))"
  unfolding reject_agent_enrollment_claim_def Let_def snd_conv
  by (rule enroll_inv_claims [OF _ refl]) auto

lemma delete_agent_rows_inv:
  assumes "enroll_inv d"
  shows "enroll_inv (delete_agent_rows d ids) \<and> codes_kept d (delete_agent_rows d ids)"
proof -
  let ?d = "delete_agent_rows d ids"
  have under: "claims_under ?d i \<le> claims_under d i" for i
    by (auto simp: delete_agent_rows_def claims_under_def intro!: count_update_le)
  have kept: "codes_kept d ?d"
    by (rule codes_kept_update [OF _ under, of "\<lambda>r. is_some_and (bound_agent_id r) (\<lambda>a. a \<in> set ids)" "bound_agent_id_update (\<lambda>_. None)"])
      (simp_all add: delete_agent_rows_def)
  show ?thesis
  proof (rule conjI [OF enroll_inv_kept [OF assms kept] kept])
    show "distinct (pending_digests (claims ?d))"
      using pending_digests_update [of "\<lambda>r. is_some_and (cl_agent_id r) (\<lambda>a. a \<in> set ids)" "cl_agent_id_update (\<lambda>_. None)"]
        enroll_invD(6) [OF assms] by (simp add: delete_agent_rows_def)
    show "i \<in> inv_id ` set (invites d)" if "c \<in> set (claims ?d)" "cl_invite_id c = Some i" for c i
      using that enroll_invD(8) [OF assms] by (auto simp: delete_agent_rows_def in_update_where split: if_splits)
    show "a \<in> ag_id ` set (agent_rows ?d)"
      if s: "s \<in> set (invites ?d)" "bound_agent_id s = Some a" "a \<in> ag_id ` set (agent_rows d)" for s a
    proof -
      obtain r where "s = (if is_some_and (bound_agent_id r) (\<lambda>a. a \<in> set ids) then r\<lparr>bound_agent_id := None\<rparr> else r)"
        using s(1) by (auto simp: delete_agent_rows_def in_update_where)
      with s(2) have "a \<notin> set ids" by (auto split: if_splits)
      with s(3) show ?thesis by (auto simp: delete_agent_rows_def)
    qed
    show "0 \<le> uses_remaining s" if "s \<in> set (invites ?d)" for s
      using that enroll_invD(7) [OF assms] by (auto simp: delete_agent_rows_def in_update_where split: if_splits)
  qed (use enroll_invD [OF assms] in \<open>auto simp: delete_agent_rows_def distinct_map_filter\<close>)
qed

section \<open>Issuing codes\<close>

lemma try_codes_Ok:
  "try_codes e n draw attempt i = Ok r \<Longrightarrow> \<exists>j. i \<le> j \<and> j < i + n \<and> attempt j (draw j) = Ok (Some r)"
proof (induction n arbitrary: i)
  case (Suc n)
  show ?case
  proof (cases "attempt i (draw i)")
    case (Inl x)
    with Suc.prems show ?thesis by simp
  next
    case (Inr y)
    show ?thesis
    proof (cases y)
      case None
      with Suc.prems Inr have "try_codes e n draw attempt (Suc i) = Ok r" by simp
      from Suc.IH [OF this] obtain j where "Suc i \<le> j" "j < Suc i + n" "attempt j (draw j) = Ok (Some r)" by blast
      then show ?thesis by (intro exI [of _ j]) simp
    next
      case (Some z)
      with Suc.prems Inr show ?thesis by (intro exI [of _ i]) simp
    qed
  qed
qed simp

lemma try_codes_collision_free:
  "0 < n \<Longrightarrow> attempt i (draw i) = Ok (Some r) \<Longrightarrow> try_codes e n draw attempt i = Ok r"
  by (cases n) auto

lemma insert_invite_Some:
  "insert_invite d row = Some d' \<longleftrightarrow> secret_digest row \<notin> secret_digest ` set (invites d) \<and> d' = d\<lparr>invites := invites d @ [row]\<rparr>"
proof -
  have "list_ex (\<lambda>r. secret_digest r = secret_digest row) (invites d) \<longleftrightarrow> secret_digest row \<in> secret_digest ` set (invites d)"
    by (simp add: list_ex_iff image_iff) metis
  then show ?thesis by (auto simp: insert_invite_def)
qed

lemma codes_kept_insert: "insert_invite d row = Some d' \<Longrightarrow> codes_kept d d'"
  by (auto simp: insert_invite_Some codes_kept_def code_le_def)

lemma enroll_inv_insert:
  assumes "enroll_inv d" "insert_invite d row = Some d'" "inv_id row \<notin> inv_id ` set (invites d)" "0 \<le> uses_remaining row"
    and "\<And>a. bound_agent_id row = Some a \<Longrightarrow> a \<in> ag_id ` set (agent_rows d) \<and> uses_remaining row \<le> 1
      \<and> (\<forall>r \<in> set (invites d). bound_agent_id r = Some a \<longrightarrow> revoked_at r \<noteq> None)"
  shows "enroll_inv d'"
proof -
  have d': "d' = d\<lparr>invites := invites d @ [row]\<rparr>" and dig: "secret_digest row \<notin> secret_digest ` set (invites d)"
    using assms(2) by (auto simp: insert_invite_Some)
  note D = enroll_invD [OF assms(1)]
  have none: "claims_under d (inv_id row) = 0"
    using D(8) assms(3) by (auto simp: claims_under_def filter_empty_conv)
  have "r = s" if "r \<in> set (invites d')" "s \<in> set (invites d')" "bound_agent_id r = Some a" "bound_agent_id s = Some a"
    "revoked_at r = None" "revoked_at s = None" for r s a
    using that assms(5) [of a] D(11) [of r s a] by (auto simp: d' simp del: not_None_eq)
  with D assms(3-5) dig none show ?thesis unfolding enroll_inv_def d' by auto
qed

lemma enrollment_token_result:
  assumes "create_agent_enrollment_token sha d uses expires note fresh draw ok = (r, d')"
  shows "(\<exists>e. r = Err e) \<and> d' = d \<or> (\<exists>row n. r = Ok (fresh, code6 n) \<and> insert_invite d row = Some d'
     \<and> inv_id row = fresh \<and> secret_digest row = sha (code6 n) \<and> inv_kind row = ''quick_pair'' \<and> uses_remaining row = max uses 1
     \<and> inv_expires_at row = expires \<and> auto_approve row \<and> bound_agent_id row = None \<and> revoked_at row = None \<and> n \<in> range draw)"
  using assms
  by (auto simp: create_agent_enrollment_token_def split: sum.splits if_splits dest!: try_codes_Ok) force+

lemma replacement_token_result:
  assumes "create_agent_replacement_token sha d a clock fresh draw ok = (r, d')"
  shows "\<not> (\<exists>x. r = Ok (Some x)) \<and> d' = d
    \<or> (\<exists>row n now. r = Ok (Some (fresh, code6 n, now + 10 * MINUTE)) \<and> insert_invite (revoke_credentials_db d a now) row = Some d'
     \<and> agent_row d a \<noteq> None \<and> inv_id row = fresh \<and> secret_digest row = sha (code6 n) \<and> inv_kind row = ''re_enroll''
     \<and> uses_remaining row = 1 \<and> inv_expires_at row = Some (now + 10 * MINUTE) \<and> auto_approve row \<and> bound_agent_id row = Some a \<and> revoked_at row = None)"
  using assms
  by (auto simp: create_agent_replacement_token_def Let_def split: sum.splits if_splits dest!: try_codes_Ok) force+

lemma enrollment_token_inv:
  assumes "enroll_inv d" "create_agent_enrollment_token sha d uses expires note fresh draw ok = (r, d')" "fresh \<notin> inv_id ` set (invites d)"
  shows "enroll_inv d' \<and> codes_kept d d'"
  using enrollment_token_result [OF assms(2)] assms(1,3) enroll_inv_insert [OF assms(1)] codes_kept_insert codes_kept_refl by fastforce

lemma revoked_row:
  assumes "r \<in> set (update_where p (revoke_row now) rows)" "p r" "\<And>x. p (revoke_row now x) = p x"
  shows "revoked_at r \<noteq> None"
proof -
  obtain x where "r = (if p x then revoke_row now x else x)" using assms(1) by (auto simp: in_update_where)
  with assms(2,3) show ?thesis by (cases "p x") (auto simp: revoke_row_def)
qed

lemma revoke_credentials_revoked:
  "r \<in> set (invites (revoke_credentials_db d a now)) \<Longrightarrow> bound_agent_id r = Some a \<Longrightarrow> revoked_at r \<noteq> None"
  by (rule revoked_row [of r "\<lambda>r. bound_agent_id r = Some a" now "invites d"])
    (simp_all add: revoke_credentials_db_def revoke_bound_invites_def revoke_row_def)

lemma revoke_credentials_rows:
  "ag_id ` set (agent_rows (revoke_credentials_db d a now)) = ag_id ` set (agent_rows d)"
  "inv_id ` set (invites (revoke_credentials_db d a now)) = inv_id ` set (invites d)"
  "claims (revoke_credentials_db d a now) = claims d"
  by (simp_all add: revoke_credentials_db_def clear_token_hash_def revoke_bound_invites_def revoke_row_def)

lemma replacement_token_inv:
  assumes "enroll_inv d" "create_agent_replacement_token sha d a clock fresh draw ok = (r, d')" "fresh \<notin> inv_id ` set (invites d)"
  shows "enroll_inv d' \<and> codes_kept d d'"
  using replacement_token_result [OF assms(2)]
proof
  assume "\<exists>row n now. r = Ok (Some (fresh, code6 n, now + 10 * MINUTE)) \<and> insert_invite (revoke_credentials_db d a now) row = Some d'
     \<and> agent_row d a \<noteq> None \<and> inv_id row = fresh \<and> secret_digest row = sha (code6 n) \<and> inv_kind row = ''re_enroll''
     \<and> uses_remaining row = 1 \<and> inv_expires_at row = Some (now + 10 * MINUTE) \<and> auto_approve row \<and> bound_agent_id row = Some a \<and> revoked_at row = None"
  then obtain row now where row: "insert_invite (revoke_credentials_db d a now) row = Some d'" "agent_row d a \<noteq> None"
    "inv_id row = fresh" "uses_remaining row = 1" "bound_agent_id row = Some a" by blast
  have "a \<in> ag_id ` set (agent_rows d)" using row(2) by (auto simp: agent_row_def dest!: find_in_set)
  then have "enroll_inv d'"
    using enroll_inv_insert [OF revoke_credentials_inv(1) [OF assms(1)] row(1)] row revoke_credentials_rows revoke_credentials_revoked assms(3)
    by force
  with codes_kept_trans [OF revoke_credentials_inv(2) [OF assms(1)] codes_kept_insert [OF row(1)]] show ?thesis by simp
qed (simp add: assms(1) codes_kept_refl)

section \<open>Approval\<close>

lemma lock_claim_Ok:
  assumes "lock_claim_for_approval d c expected now = Ok (name, bound)"
  obtains row where "claim_row d c = Some row" "cl_status row = ''pending''" "name = cl_requested_name row" "bound = expected"
    "bound = Option.bind (Option.bind (cl_invite_id row) (invite_row d)) bound_agent_id"
    "\<forall>i. cl_invite_id row = Some i \<longrightarrow> (\<exists>invite. invite_row d i = Some invite \<and> revoked_at invite = None
       \<and> \<not> expired (inv_expires_at invite) now \<and> (inv_kind invite = ''re_enroll'' \<longrightarrow> bound_agent_id invite \<noteq> None))"
proof -
  obtain row where row: "claim_row d c = Some row" using assms by (auto simp: lock_claim_for_approval_def split: option.splits)
  then have *: "cl_status row = ''pending''" "name = cl_requested_name row" "bound = expected"
      "bound = Option.bind (Option.bind (cl_invite_id row) (invite_row d)) bound_agent_id"
      "\<not> is_some_and (cl_invite_id row) (\<lambda>i. is_none_or (invite_row d i) (\<lambda>invite.
         revoked_at invite \<noteq> None \<or> expired (inv_expires_at invite) now \<or> inv_kind invite = ''re_enroll'' \<and> bound_agent_id invite = None))"
    using assms by (simp_all add: lock_claim_for_approval_def Let_def split: if_splits)
  have "\<exists>invite. invite_row d i = Some invite \<and> revoked_at invite = None
      \<and> \<not> expired (inv_expires_at invite) now \<and> (inv_kind invite = ''re_enroll'' \<longrightarrow> bound_agent_id invite \<noteq> None)"
    if "cl_invite_id row = Some i" for i
    using *(5) that by (cases "invite_row d i") auto
  with that [OF row *(1-4)] show ?thesis by blast
qed

lemma approve_cases:
  assumes "approve_claim_with_binding d c by nm g expected token api_hash fresh now ok = (r, d')"
  obtains (refused) "d' = d" "\<And>x. r \<noteq> Some (Ok x)"
  | (rotated) a row invite ag h where "expected = Some a" "claim_row d c = Some row" "cl_status row = ''pending''"
      "Option.bind (cl_invite_id row) (invite_row d) = Some invite" "bound_agent_id invite = Some a" "revoked_at invite = None"
      "\<not> expired (inv_expires_at invite) now" "agent_row d a = Some ag" "api_hash = Some h" "r = Some (Ok (a, token, ag_name ag))"
      "d' = mark_claim_approved (d\<lparr>agent_rows := update_where (\<lambda>r. ag_id r = a) (api_token_hash_update (\<lambda>_. Some h)) (agent_rows d)\<rparr>) c by a g h"
  | (enrolled) row name h where "expected = None" "claim_row d c = Some row" "cl_status row = ''pending''" "\<not> name_taken d name"
      "Option.bind (Option.bind (cl_invite_id row) (invite_row d)) bound_agent_id = None" "api_hash = Some h" "r = Some (Ok (fresh, token, name))"
      "name = final_agent_name nm (cl_requested_name row)"
      "d' = mark_claim_approved (d\<lparr>agent_rows := agent_rows d @ [\<lparr> ag_id = fresh, ag_name = name, api_token_hash = Some h \<rparr>]\<rparr>) c by fresh g h"
proof (cases "lock_claim_for_approval d c expected now")
  case (Inl e)
  with assms refused show ?thesis by (cases ok) (auto simp: approve_claim_with_binding_def)
next
  case (Inr y)
  obtain name bound where y: "y = (name, bound)" by (cases y)
  note lock = Inr [unfolded y]
  obtain row where row: "claim_row d c = Some row" "cl_status row = ''pending''" "name = cl_requested_name row" "bound = expected"
    "bound = Option.bind (Option.bind (cl_invite_id row) (invite_row d)) bound_agent_id"
    "\<forall>i. cl_invite_id row = Some i \<longrightarrow> (\<exists>invite. invite_row d i = Some invite \<and> revoked_at invite = None
       \<and> \<not> expired (inv_expires_at invite) now \<and> (inv_kind invite = ''re_enroll'' \<longrightarrow> bound_agent_id invite \<noteq> None))"
    by (rule lock_claim_Ok [OF lock])
  show ?thesis
  proof (cases "ok \<and> api_hash \<noteq> None")
    case False
    with assms refused lock show ?thesis by (auto simp: approve_claim_with_binding_def split: if_splits)
  next
    case True
    then obtain h where h: "ok" "api_hash = Some h" by auto
    show ?thesis
    proof (cases expected)
      case None
      with assms refused enrolled [OF None row(1,2)] row lock h show ?thesis
        by (auto simp: approve_claim_with_binding_def issue_agent_credentials_def split: if_splits)
    next
      case (Some a)
      then obtain invite where inv: "Option.bind (cl_invite_id row) (invite_row d) = Some invite" "bound_agent_id invite = Some a"
        using row(4,5) by (auto simp: bind_eq_Some_conv)
      then have "revoked_at invite = None" "\<not> expired (inv_expires_at invite) now" using row(6) by (auto simp: bind_eq_Some_conv)
      with assms refused rotated [OF Some row(1,2) inv] row lock h Some show ?thesis
        by (auto simp: approve_claim_with_binding_def issue_agent_credentials_def split: option.splits)
    qed
  qed
qed

lemma enroll_inv_agents:
  assumes "enroll_inv d" "distinct (map ag_id rows)" "distinct (map ag_name rows)" "ag_id ` set (agent_rows d) \<subseteq> ag_id ` set rows"
  shows "enroll_inv (d\<lparr>agent_rows := rows\<rparr>)" "codes_kept d (d\<lparr>agent_rows := rows\<rparr>)"
proof -
  show kept: "codes_kept d (d\<lparr>agent_rows := rows\<rparr>)" by (rule codes_kept_same) simp_all
  show "enroll_inv (d\<lparr>agent_rows := rows\<rparr>)"
    by (rule enroll_inv_kept [OF assms(1) kept]) (use assms enroll_invD [OF assms(1)] in auto)
qed

lemma mark_approved_inv:
  assumes "enroll_inv d"
  shows "enroll_inv (mark_claim_approved d c by a g h) \<and> codes_kept d (mark_claim_approved d c by a g h)"
proof -
  have eq: "enroll_inv (d\<lparr>group_members := y, claims := x\<rparr>) = enroll_inv (d\<lparr>claims := x\<rparr>)"
    "codes_kept d (d\<lparr>group_members := y, claims := x\<rparr>) = codes_kept d (d\<lparr>claims := x\<rparr>)" for x y
    by (simp_all add: enroll_inv_def codes_kept_def code_le_def claims_under_def)
  have "enroll_inv (d\<lparr>claims := update_where (\<lambda>r. cl_id r = c) f (claims d)\<rparr>)
      \<and> codes_kept d (d\<lparr>claims := update_where (\<lambda>r. cl_id r = c) f (claims d)\<rparr>)"
    if "f = (\<lambda>r. r\<lparr>cl_status := ''approved'', approved_by := Some by, cl_agent_id := Some a, issued_token_hash := Some h, cl_error := None\<rparr>)" for f
    by (rule enroll_inv_claims [OF assms refl]) (simp add: that)
  then show ?thesis by (simp add: mark_claim_approved_def eq)
qed

lemma approve_inv:
  assumes "enroll_inv d" "approve_claim_with_binding d c by nm g expected token api_hash fresh now ok = (r, d')"
    "fresh \<notin> ag_id ` set (agent_rows d)"
  shows "enroll_inv d' \<and> codes_kept d d'"
  using assms(2)
proof (cases rule: approve_cases)
  case refused
  with assms(1) show ?thesis by (simp add: codes_kept_refl)
next
  case (rotated a row invite ag h)
  let ?rows = "update_where (\<lambda>r. ag_id r = a) (api_token_hash_update (\<lambda>_. Some h)) (agent_rows d)"
  have "distinct (map ag_id ?rows)" "distinct (map ag_name ?rows)" "ag_id ` set (agent_rows d) \<subseteq> ag_id ` set ?rows"
    using enroll_invD(4,5) [OF assms(1)] by simp_all
  note rows = enroll_inv_agents [OF assms(1) this]
  from mark_approved_inv [OF rows(1)] codes_kept_trans [OF rows(2)] show ?thesis unfolding rotated(11) by blast
next
  case (enrolled row name h)
  let ?rows = "agent_rows d @ [\<lparr> ag_id = fresh, ag_name = name, api_token_hash = Some h \<rparr>]"
  have "distinct (map ag_id ?rows)" "distinct (map ag_name ?rows)" "ag_id ` set (agent_rows d) \<subseteq> ag_id ` set ?rows"
    using enroll_invD(4,5) [OF assms(1)] assms(3) enrolled(4) by (auto simp: name_taken_def list_ex_iff)
  note rows = enroll_inv_agents [OF assms(1) this]
  from mark_approved_inv [OF rows(1)] codes_kept_trans [OF rows(2)] show ?thesis unfolding enrolled(9) by blast
qed

section \<open>Codes on paper\<close>

lemma code6_digits: "length (code6 n) = 6" "c \<in> set (code6 n) \<Longrightarrow> is_ascii_digit c"
proof -
  show "length (code6 n) = 6" by (simp add: code6_def)
  have "is_ascii_digit (char_of (48 + m mod 10))" for m :: nat
  proof -
    have "m mod 10 < 10" by simp
    then have "(48 + m mod 10) mod 256 = 48 + m mod 10" by (intro mod_less) simp
    with \<open>m mod 10 < 10\<close> show ?thesis by (simp add: is_ascii_digit_def)
  qed
  then show "is_ascii_digit c" if "c \<in> set (code6 n)" using that by (auto simp: code6_def)
qed

definition decimal_digit :: "char \<Rightarrow> nat" where
  "decimal_digit c = of_char c - 48"

lemma code6_value: "n < 1000000 \<Longrightarrow> foldl (\<lambda>v c. 10 * v + decimal_digit c) 0 (code6 n) = n"
proof -
  assume n: "n < 1000000"
  have digit: "decimal_digit (char_of (48 + m mod 10)) = m mod 10" for m :: nat
  proof -
    have "m mod 10 < 10" by simp
    then have "(48 + m mod 10) mod 256 = 48 + m mod 10" by (intro mod_less) simp
    then show ?thesis by (simp add: decimal_digit_def)
  qed
  have "10 * (10 * (10 * (10 * (10 * (n div 100000 mod 10) + n div 10000 mod 10) + n div 1000 mod 10) + n div 100 mod 10)
      + n div 10 mod 10) + n mod 10 = n"
  proof -
    have d: "10 * (n div (m * 10)) + n div m mod 10 = n div m" for m by (simp add: div_mult2_eq)
    have "n div 100000 mod 10 = n div 100000" using n by (intro mod_less) simp
    with d [of 1] d [of 10] d [of 100] d [of 1000] d [of 10000] show ?thesis by simp
  qed
  then show ?thesis by (simp add: code6_def digit)
qed

text \<open>
  Whatever code the server draws, a person who types it with any separators around and between its digits gives
  back exactly that code, and two different draws below one million are two different codes.
\<close>

theorem pairing_code_readable:
  assumes "filter is_ascii_digit typed = code6 n"
  shows "normalize_enrollment_code_for_lookup typed = Some (code6 n) \<and> normalize_enrollment_code_for_lookup (code6 n) = Some (code6 n)
    \<and> (\<forall>m. n < 1000000 \<longrightarrow> m < 1000000 \<longrightarrow> code6 m = code6 n \<longrightarrow> m = n)"
proof -
  have "filter is_ascii_digit (code6 n) = code6 n" using code6_digits(2) by (simp add: filter_id_conv)
  then have "normalize_enrollment_code_for_lookup typed = Some (code6 n)" "normalize_enrollment_code_for_lookup (code6 n) = Some (code6 n)"
    using assms code6_digits(1) by (simp_all add: normalize_enrollment_code_for_lookup_def)
  moreover have "m = n" if "n < 1000000" "m < 1000000" "code6 m = code6 n" for m
    using code6_value [OF that(1)] code6_value [OF that(2)] that(3) by simp
  ultimately show ?thesis by blast
qed

theorem pairing_code_readable_witness:
  "normalize_enrollment_code_for_lookup '' 004-217 '' = Some (code6 4217)"
proof -
  have "filter is_ascii_digit '' 004-217 '' = code6 4217"
    by (simp add: code6_def is_ascii_digit_def char_of_def bit_0)
  from pairing_code_readable [OF this] show ?thesis by blast
qed

section \<open>The endpoints\<close>

definition enroll_ok :: "EnrollDb \<Rightarrow> EnrollDb \<Rightarrow> bool" where
  "enroll_ok d d' \<longleftrightarrow> enroll_inv d' \<and> codes_kept d d'"

lemma enroll_ok_refl: "enroll_inv d \<Longrightarrow> enroll_ok d d"
  by (simp add: enroll_ok_def codes_kept_refl)

lemma enroll_ok_trans: "enroll_ok d d' \<Longrightarrow> enroll_ok d' d'' \<Longrightarrow> enroll_ok d d''"
  by (auto simp: enroll_ok_def intro: codes_kept_trans)

lemma approve_endpoint_ok:
  assumes "enroll_inv d" "fresh \<notin> ag_id ` set (agent_rows d)"
  shows "enroll_ok d (snd (snd (approve_agent_enrollment_claim f st d c by nm g bound token h fresh t1 t2 ok1 ok2 at)))"
proof -
  have "enroll_ok d (snd (approve_claim_with_binding d c by nm g bound token h fresh t2 ok2))"
    using approve_inv [OF assms(1) _ assms(2)] by (simp add: enroll_ok_def prod_eq_iff)
  then show ?thesis
    using enroll_ok_refl [OF assms(1)] by (auto simp: approve_agent_enrollment_claim_def Let_def case_prod_unfold)
qed

lemma agent_rows_refresh: "create_agent_enrollment_claim sha d input now fresh ok = (r, d') \<Longrightarrow> agent_rows d' = agent_rows d"
  by (erule create_claim_cases) simp_all

lemma claim_endpoint_ok:
  assumes "enroll_inv d" "fresh \<notin> cl_id ` set (claims d)" "fresh_agent \<notin> ag_id ` set (agent_rows d)"
  shows "enroll_ok d (snd (snd (create_enrollment_claim f sha st d body ip now fresh ok bound bok token h fresh_agent t1 t2 ok1 ok2 at)))"
proof -
  obtain r d1 where c: "create_agent_enrollment_claim sha d (claim_input body ip) now fresh ok = (r, d1)" by fastforce
  have ok: "enroll_ok d d1" using create_claim_inv [OF assms(1) c assms(2)] by (simp add: enroll_ok_def)
  note agent_rows_refresh [OF c]
  then have "enroll_ok d (snd (snd (approve_agent_enrollment_claim f st d1 i ''pairing_code'' None None bound token h fresh_agent t1 t2 ok1 ok2 at)))" for i
    using approve_endpoint_ok [of d1] ok assms(3) by (auto simp: enroll_ok_def intro: codes_kept_trans)
  with ok enroll_ok_refl [OF assms(1)] show ?thesis
    by (auto simp: create_enrollment_claim_def c Let_def case_prod_unfold split: option.split sum.split ClaimCreateReject.split)
qed

lemma token_endpoint_ok:
  assumes "enroll_inv d" "fresh \<notin> inv_id ` set (invites d)"
  shows "enroll_ok d (snd (snd (create_enrollment_token f sha add_hours jtime st d user body clock fresh draw ok at)))"
proof -
  have "enroll_ok d (snd (snd (replace_installation_db f sha jtime st d user a clock fresh draw ok at)))" for a
    using replacement_token_inv [OF assms(1) prod.collapse [symmetric] assms(2), of sha a clock draw ok] enroll_ok_refl [OF assms(1)]
    by (simp add: replace_installation_db_def Let_def case_prod_unfold enroll_ok_def)
  moreover have "enroll_ok d (snd (create_pairing_code f sha add_hours jtime d body now fresh draw ok))" for now
    using enrollment_token_inv [OF assms(1) prod.collapse [symmetric] assms(2)] enroll_ok_refl [OF assms(1)]
    by (simp add: create_pairing_code_def Let_def case_prod_unfold enroll_ok_def split: option.split sum.split)
  ultimately show ?thesis
    using enroll_ok_refl [OF assms(1)] by (simp add: create_enrollment_token_def Let_def case_prod_unfold split: option.split)
qed

lemma revoking_endpoints_ok:
  assumes "enroll_inv d"
  shows "enroll_ok d (snd (revoke_enrollment_token d user i now ok))"
    "enroll_ok d (snd (revoke_all_enrollment_tokens d user now ok))"
    "enroll_ok d (snd (reject_enrollment_claim d user c err ok))"
    "enroll_ok d (snd (snd (revoke_credentials_endpoint f st d a user now ok at)))"
    "enroll_ok d (snd (snd (delete_agents_endpoint f st d user ids now rv n at)))"
proof -
  note same = enroll_ok_refl [OF assms] and rows = enroll_inv_revoke_rows [OF assms] revoke_rows_kept [OF refl assms]
  show "enroll_ok d (snd (revoke_enrollment_token d user i now ok))" "enroll_ok d (snd (revoke_all_enrollment_tokens d user now ok))"
    using same rows by (simp_all add: revoke_enrollment_token_def revoke_agent_enrollment_token_def revoke_all_enrollment_tokens_def
        revoke_all_agent_enrollment_tokens_def enroll_ok_def)
  show "enroll_ok d (snd (reject_enrollment_claim d user c err ok))"
    using same reject_inv [OF assms, of c "username user" err]
    by (simp add: reject_enrollment_claim_def case_prod_unfold enroll_ok_def split: bool.split)
  show "enroll_ok d (snd (snd (revoke_credentials_endpoint f st d a user now ok at)))"
    using same revoke_credentials_inv [OF assms, of a now] by (simp add: revoke_credentials_endpoint_def case_prod_unfold Let_def enroll_ok_def)
  note each = revoke_each_inv [OF assms, of ids now rv]
  show "enroll_ok d (snd (snd (delete_agents_endpoint f st d user ids now rv n at)))"
    using same each delete_agent_rows_inv [OF each(1), of ids] codes_kept_trans [OF each(2)]
    by (simp add: delete_agents_endpoint_def case_prod_unfold Let_def enroll_ok_def)
qed

lemma tokens_app_inv [simp]: "app_inv (st\<lparr>agents := (agents st)\<lparr>pending_enrollment_tokens := x\<rparr>\<rparr>) = app_inv st"
  by (simp add: app_inv_def control_inv_def media_inv_def current_conn_def)

lemma approve_endpoint_app_inv:
  assumes "app_inv st"
  shows "app_inv (fst (snd (approve_agent_enrollment_claim f st d c by nm g bound token h fresh t1 t2 ok1 ok2 at)))"
proof -
  have "app_inv (case bound of Some i \<Rightarrow> invalidate_agent_connection f st i r at | None \<Rightarrow> st)" for r
    using assms invalidate_app_inv [OF assms] by (simp split: option.split)
  with assms show ?thesis
    by (auto simp: approve_agent_enrollment_claim_def Let_def case_prod_unfold split: option.splits sum.splits)
qed

lemma endpoints_app_inv:
  assumes "app_inv st"
  shows "app_inv (fst (snd (create_enrollment_claim f sha st d body ip now fresh ok bound bok token h fresh_agent t1 t2 ok1 ok2 at)))"
    "app_inv (fst (snd (approve_enrollment_claim f st d user c nm g bound bok token h fresh t1 t2 ok1 ok2 at)))"
    "app_inv (snd (poll_enrollment_claim f st d c ok))"
    "app_inv (fst (snd (create_enrollment_token f sha add_hours jtime st d user tbody clock fresh draw oks at)))"
    "app_inv (fst (snd (revoke_credentials_endpoint f st d a user now ok at)))"
    "app_inv (fst (snd (delete_agents_endpoint f st d user ids now rv n at)))"
  using assms approve_endpoint_app_inv [OF assms] admin_app_inv [OF assms]
  by (auto simp: create_enrollment_claim_def approve_enrollment_claim_def poll_enrollment_claim_def create_enrollment_token_def
      replace_installation_db_def revoke_credentials_endpoint_def delete_agents_endpoint_def Let_def case_prod_unfold
      split: option.split sum.split ClaimCreateReject.split)

end
