(* ===== verification/ViewerSocket.thy ===== *)
theory ViewerSocket
  imports ControlMessages Strings
begin

text \<open>
  The dashboard's socket (\<open>server/src/viewer\<close>): which commands have an acceptable shape (\<open>command_shape.rs\<close>), which
  need a capability of the device and how its status is cached (\<open>capabilities.rs\<close>), and the loop that serves one viewer
  (\<open>ws.rs\<close>): its messages, the periodic check of its session, and what it is sent.
\<close>

section \<open>Shapes of commands\<close>

definition MAX_TYPE_TEXT_CHARS :: nat where "MAX_TYPE_TEXT_CHARS = 2000"
definition MAX_NOTIFY_TITLE_CHARS :: nat where "MAX_NOTIFY_TITLE_CHARS = 64"
definition MAX_NOTIFY_MESSAGE_CHARS :: nat where "MAX_NOTIFY_MESSAGE_CHARS = 256"
definition MAX_FS_PATH_CHARS :: nat where "MAX_FS_PATH_CHARS = 2048"
definition MAX_FS_NAME_CHARS :: nat where "MAX_FS_NAME_CHARS = 256"

definition i32_field :: "Value \<Rightarrow> string \<Rightarrow> bool" where
  "i32_field cmd k = is_some_and (as_i64 (v_index cmd k)) (\<lambda>v. i32_try_from v \<noteq> None)"

definition text_field :: "Value \<Rightarrow> string \<Rightarrow> nat \<Rightarrow> bool" where
  "text_field cmd k n = is_some_and (as_str (v_index cmd k)) (\<lambda>s. chars_count s \<le> n)"

definition path_field :: "Value \<Rightarrow> string \<Rightarrow> nat \<Rightarrow> bool" where
  "path_field cmd k n = is_some_and (as_str (v_index cmd k)) (\<lambda>p. trim p \<noteq> [] \<and> chars_count p \<le> n)"

definition named_keys :: "string list" where
  "named_keys = [''enter'', ''backspace'', ''tab'', ''escape'', ''delete'', ''insert'', ''space'', ''home'', ''end'', ''pageup'', ''pagedown'',
     ''arrowup'', ''arrowdown'', ''arrowleft'', ''arrowright'', ''f1'', ''f2'', ''f3'', ''f4'', ''f5'', ''f6'', ''f7'', ''f8'', ''f9'', ''f10'',
     ''f11'', ''f12'', ''control'', ''alt'', ''shift'', ''meta'', ''capslock'']"

definition is_valid :: "string \<Rightarrow> Value \<Rightarrow> bool" where
  "is_valid cmd_type cmd =
     (if cmd_type = ''MouseMove'' then i32_field cmd ''x'' \<and> i32_field cmd ''y''
      else if cmd_type \<in> {''MouseClick'', ''MouseDoubleClick'', ''MouseDown'', ''MouseUp''} then
        i32_field cmd ''x'' \<and> i32_field cmd ''y''
        \<and> is_none_or (as_str (v_index cmd ''button'')) (\<lambda>b. b \<in> {''left'', ''right'', ''middle''})
      else if cmd_type = ''MouseScroll'' then i32_field cmd ''delta_x'' \<and> i32_field cmd ''delta_y''
      else if cmd_type = ''TypeText'' then text_field cmd ''text'' MAX_TYPE_TEXT_CHARS
      else if cmd_type \<in> {''KeyPress'', ''KeyDown'', ''KeyUp''} then
        is_some_and (as_str (v_index cmd ''key'')) (\<lambda>k. k \<in> set named_keys)
      else if cmd_type = ''KeyChar'' then is_some_and (as_str (v_index cmd ''char'')) (\<lambda>s. chars_count s = 1)
      else if cmd_type = ''Notify'' then
        text_field cmd ''title'' MAX_NOTIFY_TITLE_CHARS \<and> text_field cmd ''message'' MAX_NOTIFY_MESSAGE_CHARS
      else if cmd_type = ''ListDir'' then True
      else if cmd_type = ''ReadFile'' then as_str (v_index cmd ''path'') \<noteq> None
      else if cmd_type = ''Mkdir'' then path_field cmd ''path'' MAX_FS_PATH_CHARS \<and> path_field cmd ''name'' MAX_FS_NAME_CHARS
      else if cmd_type = ''RenamePath'' then path_field cmd ''src'' MAX_FS_PATH_CHARS \<and> path_field cmd ''dst'' MAX_FS_PATH_CHARS
      else if cmd_type = ''CopyPath'' then path_field cmd ''src'' MAX_FS_PATH_CHARS \<and> path_field cmd ''dst'' MAX_FS_PATH_CHARS
      else if cmd_type = ''DeletePath'' then path_field cmd ''path'' MAX_FS_PATH_CHARS
      else if cmd_type = ''WriteFileChunk'' then
        (let total = unwrap_or (as_u64 (v_index cmd ''total_chunks'')) 0; idx = unwrap_or (as_u64 (v_index cmd ''chunk_index'')) 0;
             dv = v_index cmd ''data''
         in path_field cmd ''path'' 2048 \<and> total \<ge> 1 \<and> idx < total \<and> (as_str dv \<noteq> None \<or> is_null dv))
      else cmd_type \<in> {''RequestInfo'', ''RestartHost'', ''ShutdownHost'', ''LockHost'', ''CollectSoftware''})"

section \<open>Capabilities\<close>

definition capability_is_unavailable :: "string \<Rightarrow> bool" where
  "capability_is_unavailable status \<longleftrightarrow>
     to_ascii_lowercase (trim status) \<in> {''unsupported'', ''unavailable'', ''not_supported'', ''disabled''}"

definition capability_is_attemptable :: "string option \<Rightarrow> bool" where
  "capability_is_attemptable status = (case status of None \<Rightarrow> True | Some s \<Rightarrow> \<not> capability_is_unavailable s)"

text \<open>\<open>info\<close> is the device's stored information (\<open>get_agent_info\<close>), \<open>None\<close> outside when the query failed.\<close>

definition capability_status :: "Value option option \<Rightarrow> string \<Rightarrow> string option option" where
  "capability_status info capability =
     map_option (\<lambda>stored. Option.bind (Option.bind (Option.bind stored (\<lambda>i. v_get i ''capabilities'')) (\<lambda>c. v_get c capability)) as_str) info"

type_synonym CapabilityCache = "(Uuid \<times> Uuid \<times> string, string option) HashMap"

text \<open>\<open>connection\<close> is the device's connection read before the lookup; \<open>st\<close> is the state after it, when the connection is
  read again.\<close>

definition capability_denial ::
  "AppState \<Rightarrow> Uuid option \<Rightarrow> Value option option \<Rightarrow> Uuid \<Rightarrow> string \<Rightarrow> CapabilityCache \<Rightarrow> CommandDenied option \<times> CapabilityCache" where
  "capability_denial st connection info agent capability cache =
     (case connection of
        None \<Rightarrow> (None, cache)
      | Some conn \<Rightarrow>
          (let key = (agent, conn, capability);
               cache1 = (if length cache \<ge> 4096 then [] else cache);
               cache2 = hm_retain (\<lambda>(i, c, _) _. i \<noteq> agent \<or> c = conn) cache1;
               (status, cache3) =
                 (case hm_get cache2 key of
                    Some status \<Rightarrow> (status, cache2)
                  | None \<Rightarrow>
                      (case capability_status info capability of
                         Some status \<Rightarrow> (status, hm_insert key status cache2)
                       | None \<Rightarrow> (None, cache2)))
           in (if current_conn (agents st) agent \<noteq> Some conn
               then Some (CommandDenied_new ''agent_offline'' ''Connection changed during capability lookup; retry.'' None)
               else map_option (\<lambda>_. CommandDenied_new ''capability_unavailable'' ''This capability is unavailable on the device.'' None)
                      (option_filter capability_is_unavailable status),
               cache3)))"

definition command_capability :: "string \<Rightarrow> string option" where
  "command_capability cmd_type =
     (if cmd_type \<in> {''MouseMove'', ''MouseClick'', ''MouseDoubleClick'', ''MouseDown'', ''MouseUp'', ''MouseScroll'', ''TypeText'',
        ''KeyPress'', ''KeyDown'', ''KeyUp'', ''KeyChar'', ''Notify''} then Some ''remote_input''
      else if cmd_type \<in> {''RestartHost'', ''ShutdownHost'', ''LockHost''} then Some ''system_control''
      else if cmd_type = ''CollectSoftware'' then Some ''software_inventory''
      else None)"

section \<open>Messages of a viewer\<close>

definition MAX_VIEWER_TEXT_BYTES :: nat where "MAX_VIEWER_TEXT_BYTES = 64 * 1024"
definition MAX_VIEWER_WRITEFILE_MSG_BYTES :: nat where "MAX_VIEWER_WRITEFILE_MSG_BYTES = 8 * 1024 * 1024"

text \<open>The clock readings, the fresh token and the answers of the capability lookup that a message uses.\<close>

record Lookup =
  conn_before :: "Uuid option"
  stored_info :: "Value option option"
  msg_now :: Instant
  msg_clock :: Instant
  msg_fresh :: Uuid

definition denied_event :: "Uuid_fmt \<Rightarrow> string \<Rightarrow> Uuid \<Rightarrow> CommandDenied \<Rightarrow> (string \<times> Value) list \<Rightarrow> Value" where
  "denied_event f event agent denied extra =
     json_obj ([(''event'', Str event), (''agent_id'', json_uuid f agent), (''code'', Str (code denied)), (''error'', Str (error denied))] @ extra)"

text \<open>A lease message: the capability is checked first, except for a release.\<close>

definition viewer_lease_message ::
  "Env \<Rightarrow> AppState \<Rightarrow> AuthUser \<Rightarrow> Uuid \<Rightarrow> Value \<Rightarrow> CapabilityCache \<Rightarrow> Lookup \<Rightarrow> Value option \<times> AppState \<times> CapabilityCache" where
  "viewer_lease_message env st user viewer_id val cache q =
     (let f = fmt env; agent = uuid_field f val ''agent_id''; request = uuid_field f val ''request_id'';
          (denial, cache') =
            (case (agent, request) of
               (Some a, Some r) \<Rightarrow>
                 if is_operator user \<and> v_index val ''type'' \<noteq> Str ''control_release''
                 then (let (d, c) = capability_denial st (conn_before q) (stored_info q) a ''remote_input'' cache
                       in (map_option (\<lambda>denied. (a, r, denied)) d, c))
                 else (None, cache)
             | _ \<Rightarrow> (None, cache))
      in case denial of
           Some (a, r, denied) \<Rightarrow>
             (Some (denied_event f ''control_lease'' a denied [(''request_id'', json_uuid f r), (''status'', Str ''denied''), (''expires_in_ms'', json_nat 0)]),
              snd (audit_control_event st user a ''control_acquire'' True (msg_clock q)), cache')
         | None \<Rightarrow>
             (let (event, st') = control_lease_message env st viewer_id user val (msg_now q) (msg_clock q) (msg_fresh q)
              in (Some event, st', cache')))"

text \<open>Forwarding a command whose shape and capability are fine.\<close>

definition forward_command ::
  "Env \<Rightarrow> AppState \<Rightarrow> AuthUser \<Rightarrow> Uuid \<Rightarrow> Value \<Rightarrow> Uuid \<Rightarrow> string \<Rightarrow> Lookup \<Rightarrow> Value option \<times> AppState" where
  "forward_command env st user viewer_id val agent_id cmd_type q =
     (let f = fmt env; cmd = v_index val ''cmd'';
          (sent, st1) =
            (if is_remote_input cmd_type
             then send_viewer_input env st agent_id viewer_id user (uuid_field f val ''lease_token'') cmd (msg_now q)
             else (let (r, reg) = send_agent_command_json f (agents st) agent_id cmd in (r, st\<lparr>agents := reg\<rparr>)));
          event = (case sent of
                     Inl denied \<Rightarrow> Some (denied_event f ''command_rejected'' agent_id denied
                       [(''cmd_type'', Str cmd_type), (''module'', json_opt json_module (denied_module denied))])
                   | Inr _ \<Rightarrow> None);
          st2 = (if is_remote_input cmd_type
                 then snd (audit_control_event st1 user agent_id ''control_command'' (is_err sent) (msg_clock q)) else st1)
      in (event, st2))"

definition viewer_message ::
  "Env \<Rightarrow> AppState \<Rightarrow> AuthUser \<Rightarrow> Uuid \<Rightarrow> string \<Rightarrow> CapabilityCache \<Rightarrow> Lookup \<Rightarrow> Value option \<times> AppState \<times> CapabilityCache" where
  "viewer_message env st user viewer_id text cache q =
     (if length text > MAX_VIEWER_WRITEFILE_MSG_BYTES then (None, st, cache)
      else case from_slice env (map of_char text) of
        None \<Rightarrow> (None, st, cache)
      | Some val \<Rightarrow>
          if as_str (v_index val ''type'') \<in> {Some ''control_acquire'', Some ''control_heartbeat'', Some ''control_release''} then
            (if length text > MAX_VIEWER_TEXT_BYTES then (None, st, cache)
             else viewer_lease_message env st user viewer_id val cache q)
          else if \<not> is_operator user then (None, st, cache)
          else if as_str (v_index val ''type'') \<noteq> Some ''control'' then (None, st, cache)
          else
            (let f = fmt env; cmd = v_index val ''cmd''; cmd_type = unwrap_or (as_str (v_index cmd ''type'')) [] in
             if length text > MAX_VIEWER_TEXT_BYTES \<and> cmd_type \<noteq> ''WriteFileChunk'' then (None, st, cache)
             else case uuid_field f val ''agent_id'' of
               None \<Rightarrow> (None, st, cache)
             | Some agent_id \<Rightarrow>
                 if \<not> is_valid cmd_type cmd then (None, st, cache)
                 else
                   (let (denial, cache') =
                      (case command_capability cmd_type of
                         Some capability \<Rightarrow> capability_denial st (conn_before q) (stored_info q) agent_id capability cache
                       | None \<Rightarrow> (None, cache))
                    in case denial of
                         Some denied \<Rightarrow>
                           (Some (denied_event f ''command_rejected'' agent_id denied [(''cmd_type'', Str cmd_type)]),
                            snd (audit_control_event st user agent_id ''control_command'' True (msg_clock q)), cache')
                       | None \<Rightarrow>
                           if cmd = Null then (None, st, cache')
                           else (let (event, st') = forward_command env st user viewer_id val agent_id cmd_type q
                                 in (event, st', cache')))))"

section \<open>The loop of a viewer's socket\<close>

record ViewerConn =
  vc_user :: AuthUser
  vc_session_hash :: "string option"
  vc_cache :: CapabilityCache

text \<open>\<open>answer\<close> is what \<open>dashboard_session_get_user\<close> returned in time for the session's hash, if anything.\<close>

definition refresh_viewer_session ::
  "Uuid_fmt \<Rightarrow> AppState \<Rightarrow> Uuid \<Rightarrow> AuthUser \<Rightarrow> string option \<Rightarrow> AuthUser option \<Rightarrow> bool \<times> AuthUser \<times> AppState" where
  "refresh_viewer_session f st viewer user session_hash answer =
     (let (valid, user') =
        (case (session_hash, answer) of
           (Some _, Some u) \<Rightarrow> if user_id u = user_id user then (True, u) else (False, user)
         | _ \<Rightarrow> (False, user))
      in (valid, user', if \<not> valid \<or> \<not> is_operator user' then revoke_viewer_control f st viewer else st))"

text \<open>What the three branches of the \<open>select!\<close> receive; \<open>sent\<close> of a branch that writes is whether the write succeeded.\<close>

datatype ViewerEvent =
    SessionTick "AuthUser option"
  | Received Broadcast bool
  | BroadcastClosed
  | Lagged
  | TextFrame string Lookup bool
  | CloseFrame
  | OtherFrame

text \<open>The socket after the event (\<open>None\<close> when the loop ended) and what was written to it; leaving the loop revokes
  the viewer's control.\<close>

definition leave :: "Uuid_fmt \<Rightarrow> AppState \<Rightarrow> Uuid \<Rightarrow> ViewerConn option \<times> Value option \<times> AppState" where
  "leave f st viewer_id = (None, None, revoke_viewer_control f st viewer_id)"

definition viewer_event ::
  "Env \<Rightarrow> AppState \<Rightarrow> Uuid \<Rightarrow> ViewerConn \<Rightarrow> ViewerEvent \<Rightarrow> ViewerConn option \<times> Value option \<times> AppState" where
  "viewer_event env st viewer_id vc ev =
     (case ev of
        SessionTick answer \<Rightarrow>
          (let (valid, user', st') = refresh_viewer_session (fmt env) st viewer_id (vc_user vc) (vc_session_hash vc) answer
           in if valid then (Some (vc\<lparr>vc_user := user'\<rparr>), None, st') else leave (fmt env) st' viewer_id)
      | Received (BroadcastText t) sent \<Rightarrow> if sent then (Some vc, Some t, st) else leave (fmt env) st viewer_id
      | Received (PrivateText owner t) sent \<Rightarrow>
          if owner \<noteq> viewer_id then (Some vc, None, st)
          else if sent then (Some vc, Some t, st) else leave (fmt env) st viewer_id
      | BroadcastClosed \<Rightarrow> leave (fmt env) st viewer_id
      | Lagged \<Rightarrow> (Some vc, None, st)
      | TextFrame text q sent \<Rightarrow>
          (let (event, st', cache') = viewer_message env st (vc_user vc) viewer_id text (vc_cache vc) q
           in if event = None \<or> sent then (Some (vc\<lparr>vc_cache := cache'\<rparr>), event, st')
              else leave (fmt env) st' viewer_id)
      | CloseFrame \<Rightarrow> leave (fmt env) st viewer_id
      | OtherFrame \<Rightarrow> (Some vc, None, st))"

section \<open>What every message keeps\<close>

text \<open>The contract of the control runtime with a viewer's socket: a property of the state that the five operations the
  socket calls keep is kept by every event of the socket. The lease operations are called for the socket's own
  connection and user only.\<close>

locale viewer_ops =
  fixes env :: Env and viewer uid :: Uuid and P :: "AppState \<Rightarrow> bool"
  assumes keep_audit: "P st \<Longrightarrow> P (snd (audit_control_event st user a action rej now))"
    and keep_lease: "P st \<Longrightarrow> user_id user = uid \<Longrightarrow> P (snd (control_lease_message env st viewer user v now clock fresh))"
    and keep_input: "P st \<Longrightarrow> user_id user = uid \<Longrightarrow> P (snd (send_viewer_input env st a viewer user token cmd now))"
    and keep_send: "P st \<Longrightarrow> P (st\<lparr>agents := snd (send_agent_command_json (fmt env) (agents st) a cmd)\<rparr>)"
    and keep_revoke: "P st \<Longrightarrow> P (revoke_viewer_control (fmt env) st viewer)"
begin

lemma keep_lease_message:
  "P st \<Longrightarrow> user_id user = uid \<Longrightarrow> P (fst (snd (viewer_lease_message env st user viewer val cache q)))"
  by (simp add: viewer_lease_message_def Let_def case_prod_unfold keep_audit keep_lease split: option.split)

lemma keep_forward: "P st \<Longrightarrow> user_id user = uid \<Longrightarrow> P (snd (forward_command env st user viewer val a t q))"
  by (simp add: forward_command_def Let_def case_prod_unfold keep_audit keep_input keep_send)

lemma keep_message: "P st \<Longrightarrow> user_id user = uid \<Longrightarrow> P (fst (snd (viewer_message env st user viewer text cache q)))"
  by (simp add: viewer_message_def Let_def case_prod_unfold keep_audit keep_lease_message keep_forward split: option.split)

lemma keep_refresh: "P st \<Longrightarrow> P (snd (snd (refresh_viewer_session (fmt env) st viewer user session_hash answer)))"
  by (simp add: refresh_viewer_session_def Let_def case_prod_unfold keep_revoke)

lemma keep_event:
  assumes "P st" "user_id (vc_user vc) = uid"
  shows "P (snd (snd (viewer_event env st viewer vc ev)))"
proof (cases ev)
  case (SessionTick answer)
  with keep_refresh [OF assms(1)] show ?thesis by (simp add: viewer_event_def leave_def Let_def case_prod_unfold keep_revoke)
next
  case (TextFrame line q sent)
  with keep_message [OF assms] show ?thesis by (simp add: viewer_event_def leave_def Let_def case_prod_unfold keep_revoke)
next
  case (Received b sent)
  with assms(1) show ?thesis by (cases b) (simp_all add: viewer_event_def leave_def keep_revoke)
qed (use assms(1) in \<open>simp_all add: viewer_event_def leave_def keep_revoke\<close>)

end

lemma refreshed_user:
  "fst (viewer_event env st viewer vc ev) = Some vc' \<Longrightarrow> user_id (vc_user vc') = user_id (vc_user vc)"
  by (cases ev) (auto simp: viewer_event_def leave_def refresh_viewer_session_def Let_def case_prod_unfold
      split: Broadcast.splits if_splits option.splits)

section \<open>Tables that agree\<close>

text \<open>
  C21. The tables of the viewer's socket agree with the protocol's: every command whose shape is accepted is gated by
  a module, one of remote input, files, system information, system control and software inventory, so that no viewer
  can send a protocol command or an unknown one; the commands that need a lease are exactly those gated by remote
  input; and the capability that is checked is the one of the command's module.
\<close>

theorem viewer_commands_are_gated:
  assumes "is_valid cmd_type cmd"
  shows "\<exists>m. command_module f cmd_type = Some m \<and> m \<in> {RemoteInput, Files, SystemInfo, SystemControl, SoftwareInventory}
    \<and> (is_remote_input cmd_type \<longleftrightarrow> m = RemoteInput)
    \<and> command_capability cmd_type = (if m = RemoteInput then Some ''remote_input'' else if m = SystemControl then Some ''system_control''
        else if m = SoftwareInventory then Some ''software_inventory'' else None)"
proof -
  have "cmd_type \<in> {''MouseMove'', ''MouseClick'', ''MouseDoubleClick'', ''MouseDown'', ''MouseUp'', ''MouseScroll'', ''TypeText'', ''KeyPress'',
      ''KeyDown'', ''KeyUp'', ''KeyChar'', ''Notify'', ''ListDir'', ''ReadFile'', ''Mkdir'', ''RenamePath'', ''CopyPath'', ''DeletePath'',
      ''WriteFileChunk'', ''RequestInfo'', ''RestartHost'', ''ShutdownHost'', ''LockHost'', ''CollectSoftware''}"
    using assms unfolding is_valid_def by (simp split: if_splits) auto
  then show ?thesis
    by (elim insertE emptyE) (simp_all add: command_module_def module_of_command_def from_kind_def parse_def parse_tagged_def Let_def
        is_remote_input_def command_capability_def)
qed

theorem viewer_commands_are_gated_witness:
  "is_valid ''KeyPress'' (json_obj [(''type'', Str ''KeyPress''), (''key'', Str ''enter'')]) \<and> command_module binary_fmt ''KeyPress'' = Some RemoteInput"
proof -
  have v: "is_valid ''KeyPress'' (json_obj [(''type'', Str ''KeyPress''), (''key'', Str ''enter'')])"
    by (simp add: is_valid_def named_keys_def)
  moreover have "is_remote_input ''KeyPress''" by (simp add: is_remote_input_def)
  ultimately show ?thesis using viewer_commands_are_gated [OF v, of binary_fmt] by auto
qed

section \<open>Viewers without the operator role\<close>

lemma control_lease_not_operator:
  assumes "\<not> is_operator user"
  shows "agents (snd (control_lease_message env st viewer user v now clock fresh)) = agents st"
    "sessions (control (snd (control_lease_message env st viewer user v now clock fresh))) = sessions (control st)"
    "capture (control (snd (control_lease_message env st viewer user v now clock fresh))) = capture (control st)"
    "clipboard (control (snd (control_lease_message env st viewer user v now clock fresh))) = clipboard (control st)"
    "media (snd (control_lease_message env st viewer user v now clock fresh)) = media st"
    "tx (snd (control_lease_message env st viewer user v now clock fresh)) = tx st"
  using assms by (simp_all add: control_lease_message_def control_lease_op_def current_control_owner_def audit_control_event_def
      Let_def split: option.split)

lemma message_not_operator:
  fixes env st user viewer_id line cache q
  assumes "\<not> is_operator user"
  defines "r \<equiv> viewer_message env st user viewer_id line cache q"
  shows "agents (fst (snd r)) = agents st" "sessions (control (fst (snd r))) = sessions (control st)"
    "capture (control (fst (snd r))) = capture (control st)" "clipboard (control (fst (snd r))) = clipboard (control st)"
    "media (fst (snd r)) = media st" "tx (fst (snd r)) = tx st" "snd (snd r) = cache"
proof -
  have "fst (snd r) = st \<or> (\<exists>v. fst (snd r) = snd (control_lease_message env st viewer_id user v (msg_now q) (msg_clock q) (msg_fresh q)))"
    "snd (snd r) = cache"
  proof -
    have "r = (None, st, cache) \<or> (\<exists>val. r = viewer_lease_message env st user viewer_id val cache q)"
      using assms(1) unfolding r_def viewer_message_def by (simp split: option.split) blast
    moreover have "viewer_lease_message env st user viewer_id val cache q =
        (let (event, st') = control_lease_message env st viewer_id user val (msg_now q) (msg_clock q) (msg_fresh q) in (Some event, st', cache))" for val
      using assms(1) by (simp add: viewer_lease_message_def Let_def split: option.split)
    ultimately show "fst (snd r) = st \<or> (\<exists>v. fst (snd r) = snd (control_lease_message env st viewer_id user v (msg_now q) (msg_clock q) (msg_fresh q)))"
      "snd (snd r) = cache" by (auto simp: Let_def case_prod_unfold)
  qed
  then show "agents (fst (snd r)) = agents st" "sessions (control (fst (snd r))) = sessions (control st)"
    "capture (control (fst (snd r))) = capture (control st)" "clipboard (control (fst (snd r))) = clipboard (control st)"
    "media (fst (snd r)) = media st" "tx (fst (snd r)) = tx st" "snd (snd r) = cache"
    using control_lease_not_operator [OF assms(1)] by auto
qed

text \<open>
  C20. A viewer without the operator role only watches: whatever it sends, no command is queued, and no lease, frozen
  display, clipboard request, stream or connection changes; the only trace a message can leave is the record that an
  audit row was written. Its messages never get a lease.
\<close>

theorem read_only_viewer:
  assumes "\<not> is_operator user" and "viewer_message env st user viewer_id line cache q = (event, st', cache')"
  shows "agents st' = agents st \<and> sessions (control st') = sessions (control st) \<and> capture (control st') = capture (control st)
    \<and> clipboard (control st') = clipboard (control st) \<and> media st' = media st \<and> tx st' = tx st \<and> cache' = cache"
  using message_not_operator [OF assms(1), of env st viewer_id line cache q] assms(2) by simp

text \<open>A member of the staff without the role asks for control.\<close>

definition acquire_message :: Value where
  "acquire_message = json_obj [(''type'', Str ''control_acquire''), (''agent_id'', json_uuid binary_fmt 9), (''request_id'', json_uuid binary_fmt 7)]"

definition message_env :: "Value \<Rightarrow> Env" where
  "message_env v = example_env\<lparr>from_slice := (\<lambda>_. Some v)\<rparr>"

definition no_lookup :: Lookup where
  "no_lookup = \<lparr> conn_before = None, stored_info = None, msg_now = 5, msg_clock = 5, msg_fresh = 8 \<rparr>"

theorem read_only_viewer_witness:
  "\<exists>event st'. viewer_message (message_env acquire_message) example_full \<lparr> user_id = 2, username = ''v'', role = ''viewer'' \<rparr> 3 ''{}'' [] no_lookup
      = (event, st', []) \<and> agents st' = agents example_full"
proof -
  let ?u = "\<lparr> user_id = 2, username = ''v'', role = ''viewer'' \<rparr>"
  obtain event st' cache' where run: "viewer_message (message_env acquire_message) example_full ?u 3 ''{}'' [] no_lookup = (event, st', cache')"
    by (metis prod_cases3)
  have "\<not> is_operator ?u" by (simp add: is_operator_def)
  from read_only_viewer [OF this run] run show ?thesis by blast
qed

section \<open>The cache of capabilities\<close>

text \<open>A socket's cache stays small, and of a device that was just looked up it holds only what belongs to the
  connection the lookup was for.\<close>

lemma capability_cache_bounded:
  assumes "length cache \<le> 4096" "capability_denial st conn info a cap cache = (d, cache')"
  shows "length cache' \<le> 4096"
proof (cases conn)
  case None
  with assms show ?thesis by (simp add: capability_denial_def)
next
  case (Some c)
  define kept where "kept = hm_retain (\<lambda>(i, x, _) _. i \<noteq> a \<or> x = c) (if length cache \<ge> 4096 then [] else cache)"
  have "length kept \<le> length (if length cache \<ge> 4096 then [] else cache)" unfolding kept_def by (rule hm_length_retain_le)
  then have kept: "length kept < 4096" by (auto split: if_splits)
  have "cache' = kept \<or> (\<exists>v. cache' = hm_insert (a, c, cap) v kept)"
    using assms(2) unfolding capability_denial_def Some Let_def option.case kept_def [symmetric] by (auto split: option.splits)
  moreover have "length (hm_insert (a, c, cap) v kept) \<le> 4096" for v
    using hm_length_insert_le [of "(a, c, cap)" v kept] kept by simp
  ultimately show ?thesis using kept by auto
qed

lemma viewer_message_cache:
  assumes "Q cache" "\<And>conn info a cap. Q (snd (capability_denial st conn info a cap cache))"
  shows "Q (snd (snd (viewer_message env st user viewer text cache q)))"
proof -
  have "Q (snd (snd (viewer_lease_message env st user viewer val cache q)))" for val
    using assms by (simp add: viewer_lease_message_def Let_def case_prod_unfold split: option.split)
  with assms show ?thesis by (simp add: viewer_message_def Let_def case_prod_unfold split: option.split)
qed

text \<open>
  The cache of a socket is bounded: whatever events its loop sees, it never holds more than 4096 statuses.
\<close>

theorem viewer_cache_bounded:
  assumes "length (vc_cache vc) \<le> 4096" and "viewer_event env st viewer_id vc ev = (Some vc', sent, st')"
  shows "length (vc_cache vc') \<le> 4096"
proof -
  have cap: "length (snd (capability_denial st conn info a cap (vc_cache vc))) \<le> 4096" for conn info a cap
    by (rule capability_cache_bounded [OF assms(1) prod.collapse [symmetric]])
  show ?thesis
  proof (cases ev)
    case (TextFrame line q ok)
    with assms(2) have "vc_cache vc' = snd (snd (viewer_message env st (vc_user vc) viewer_id line (vc_cache vc) q))"
      by (auto simp: viewer_event_def leave_def Let_def case_prod_unfold split: if_splits)
    with viewer_message_cache [where Q = "\<lambda>c. length c \<le> 4096", OF assms(1) cap] show ?thesis by simp
  qed (use assms in \<open>auto simp: viewer_event_def leave_def Let_def case_prod_unfold split: if_splits Broadcast.splits\<close>)
qed

end
