(* ===== verification/Transitions.thy ===== *)
theory Transitions
  imports Main
begin

text \<open>
  Labelled transition systems, their invariants and the relations their steps keep: what the server, the login guard and
  the device's permission store are instances of.
\<close>

text \<open>The states reached from a state by a sequence of labelled steps.\<close>

inductive reaches :: "('s \<Rightarrow> 'l \<Rightarrow> 's \<Rightarrow> bool) \<Rightarrow> 's \<Rightarrow> 's \<Rightarrow> bool" for step where
  reaches_refl: "reaches step s s"
| reaches_step: "reaches step s t \<Longrightarrow> step t l u \<Longrightarrow> reaches step s u"

text \<open>The contract between a system and its invariant.\<close>

locale safe_system =
  fixes step :: "'s \<Rightarrow> 'l \<Rightarrow> 's \<Rightarrow> bool" and start :: 's and inv :: "'s \<Rightarrow> bool"
  assumes inv_start: "inv start"
    and inv_step: "inv s \<Longrightarrow> step s l t \<Longrightarrow> inv t"
begin

lemma inv_reaches: "reaches step s t \<Longrightarrow> inv s \<Longrightarrow> inv t"
  by (induction rule: reaches.induct) (auto intro: inv_step)

lemma inv_reachable: "reaches step start t \<Longrightarrow> inv t"
  using inv_reaches inv_start by blast

end

text \<open>A relation between states that every step keeps holds across any number of steps.\<close>

locale monotone_system =
  fixes step :: "'s \<Rightarrow> 'l \<Rightarrow> 's \<Rightarrow> bool" and le :: "'s \<Rightarrow> 's \<Rightarrow> bool"
  assumes le_refl: "le s s" and le_trans: "le s t \<Longrightarrow> le t u \<Longrightarrow> le s u"
    and le_step: "step s l t \<Longrightarrow> le s t"
begin

lemma le_reaches: "reaches step s t \<Longrightarrow> le s t"
  by (induction rule: reaches.induct) (auto intro: le_refl le_trans le_step)

end

end
