(* ===== verification/System.thy ===== *)
theory System
  imports Enrollment ViewerSocket Transitions
begin

text \<open>
  The server as one transition system: every modelled operation of the control plane is a step, taken by any
  socket, viewer, operator or timer at any time, and what a device's socket writes is the label of a step.
\<close>

section \<open>The clipboard's invariant under the other components\<close>

lemma clip_inv_control [simp]:
  "clip_inv (snd (teardown_deliver f st op)) = clip_inv st"
  "clip_inv (snd (deliver_control_cleanup f st cs)) = clip_inv st"
  "clip_inv (set_sessions st s) = clip_inv st"
  "clip_inv (snd (audit_control_event st user a action rej now)) = clip_inv st"
  "clip_inv (commit_control_capture st a c) = clip_inv st"
  by (simp_all add: clip_inv_def audit_control_event_def commit_control_capture_def Let_def split: option.split)

lemma clip_inv_sync [simp]: "clip_inv (snd (sync_capture_locked env st a req fresh)) = clip_inv st"
  by (rule clip_inv_cong) (simp_all add: sync_shape_frame(1,4) [OF sync_capture_shape])

lemma clip_inv_sweeps [simp]:
  "clip_inv (expire_control f st now) = clip_inv st" "clip_inv (revoke_viewer_control f st viewer) = clip_inv st"
  by (simp_all add: expire_control_def revoke_viewer_control_def)

lemma clip_inv_freeze [simp]: "clip_inv (freeze_capture st a c) = clip_inv st"
  by (simp add: freeze_capture_def clip_inv_def)

lemma clip_inv_admit [simp]: "clip_inv (snd (admit_session env st a k s n fresh)) = clip_inv st"
  by (simp add: admit_session_def Let_def case_prod_unfold)

lemma clip_inv_streams [simp]:
  "clip_inv (snd (begin_mjpeg_session env st a k user prefs req now fresh)) = clip_inv st"
  "clip_inv (snd (end_mjpeg_session env st a k owner fresh)) = clip_inv st"
  "clip_inv (sync_mjpeg_capture env st a fresh) = clip_inv st"
  by (simp_all add: begin_mjpeg_session_def end_mjpeg_session_def sync_mjpeg_capture_def Let_def case_prod_unfold
      split: option.split sum.split)

lemma clip_inv_acquire [simp]:
  "clip_inv (snd (grant_control f st a owner frozen now fresh)) = clip_inv st"
  "clip_inv (snd (control_acquire env st a owner v now clock fresh)) = clip_inv st"
  by (simp_all add: grant_control_def control_acquire_def Let_def case_prod_unfold split: sum.split)

lemma clip_inv_lease_op [simp]: "clip_inv (snd (control_lease_op env st a viewer user kind v now clock fresh)) = clip_inv st"
  by (simp add: control_lease_op_def Let_def case_prod_unfold split: option.split sum.split)

lemma clip_inv_messages [simp]:
  "clip_inv (snd (control_lease_message env st viewer user v now clock fresh)) = clip_inv st"
  "clip_inv (snd (send_viewer_input env st a viewer user token cmd now)) = clip_inv st"
  by (simp_all add: control_lease_message_def send_viewer_input_def Let_def case_prod_unfold split: option.split sum.split)

lemma clip_inv_connections [simp]:
  "clip_inv (snd (register_authenticated_connection f st au name registered has_report fresh now at)) = clip_inv st"
  "clip_inv (cleanup_connection f st a conn at) = clip_inv st"
  "clip_inv (invalidate_agent_connection f st a reason at) = clip_inv st"
  "clip_inv (snd (binary_frame st a conn frame now)) = clip_inv st"
  by (simp_all add: register_authenticated_connection_def cleanup_connection_def invalidate_agent_connection_def binary_frame_def
      Let_def split: option.split sum.split)

lemma clip_inv_forget [simp]:
  "clip_inv (forget_tokens st keep) = clip_inv st" "clip_inv (forget_agent f st a) = clip_inv st"
  by (simp_all add: forget_tokens_def forget_agent_def)

lemma clip_inv_admin [inv_intros]:
  "clip_inv st \<Longrightarrow> clip_inv (snd (revoke_agent_credentials f st a user revoked at))"
  "clip_inv st \<Longrightarrow> clip_inv (snd (replace_agent_installation f st a user invite at))"
  "clip_inv st \<Longrightarrow> clip_inv (snd (delete_agents_bulk f st user ids rv deleted at))"
  by (auto simp: revoke_agent_credentials_def replace_agent_installation_def delete_agents_bulk_def Let_def
      split: sum.split option.split intro!: foldl_invariant [where P = clip_inv])

lemma clip_inv_approve:
  "clip_inv st \<Longrightarrow> clip_inv (fst (snd (approve_agent_enrollment_claim f st d c by nm g bound token h fresh t1 t2 ok1 ok2 at)))"
  by (auto simp: approve_agent_enrollment_claim_def Let_def case_prod_unfold split: option.splits sum.splits)

lemma clip_inv_endpoints:
  assumes "clip_inv st"
  shows "clip_inv (fst (snd (create_enrollment_claim f sha st d body ip now fresh ok bound bok token h fresh_agent t1 t2 ok1 ok2 at)))"
    "clip_inv (fst (snd (approve_enrollment_claim f st d user c nm g bound bok token h fresh t1 t2 ok1 ok2 at)))"
    "clip_inv (snd (poll_enrollment_claim f st d c ok))"
    "clip_inv (fst (snd (create_enrollment_token f sha add_hours jtime st d user tbody clock fresh draw oks at)))"
    "clip_inv (fst (snd (revoke_credentials_endpoint f st d a user now ok at)))"
    "clip_inv (fst (snd (delete_agents_endpoint f st d user ids now rv n at)))"
  using assms clip_inv_approve [OF assms] clip_inv_admin [OF assms]
  by (auto simp: create_enrollment_claim_def approve_enrollment_claim_def poll_enrollment_claim_def create_enrollment_token_def
      replace_installation_db_def revoke_credentials_endpoint_def delete_agents_endpoint_def Let_def case_prod_unfold
      split: option.split sum.split ClaimCreateReject.split)

lemma clip_inv_replay [simp]: "clip_inv (fst (snd (replay_each f st db a conn mark_ok now rqs))) = clip_inv st"
  by (rule clip_inv_cong) (simp_all add: replay_each_frame)

lemma clip_inv_reports [simp]:
  "clip_inv (apply_report_change f st a conn revoke screen) = clip_inv st"
  "clip_inv (fst (snd (accept_module_report f st db a conn v read_ok save_ok mark_ok now at))) = clip_inv st"
  by (simp_all add: apply_report_change_def reset_capture_generation_def accept_module_report_def replay_module_disables_def Let_def
      split: option.split sum.split)

lemma clip_inv_ack [simp]:
  "clip_inv (fst (snd (apply_ack f st db a conn ack report save_ok ok))) = clip_inv st"
  "clip_inv (fst (snd (accept_module_disable_ack f st db a conn v read_ok save_ok ok))) = clip_inv st"
  by (simp_all add: apply_ack_def accept_module_disable_ack_def Let_def split: option.split sum.split)

lemma clip_inv_disable [simp]:
  "clip_inv (snd (publish_request f st a rq retry now)) = clip_inv st"
  "clip_inv (fst (snd (send_request f st db a rq retry mark_ok now))) = clip_inv st"
  "clip_inv (fst (snd (disable_module f st db a user body known p1 p2 p3 p4 mark_ok p5 now))) = clip_inv st"
proof -
  show pub: "clip_inv (snd (publish_request f st a rq retry now)) = clip_inv st" for f st a rq retry now
    by (simp add: publish_request_def Let_def split: option.split)
  show send: "clip_inv (fst (snd (send_request f st db a rq retry mark_ok now))) = clip_inv st" for f st db a rq retry mark_ok now
    by (simp add: send_request_def replay_module_disables_def Let_def case_prod_unfold pub split: option.split sum.split)
  show "clip_inv (fst (snd (disable_module f st db a user body known p1 p2 p3 p4 mark_ok p5 now))) = clip_inv st"
    by (simp add: disable_module_def Let_def case_prod_unfold send split: option.split sum.split)
qed

section \<open>The server's steps\<close>

text \<open>\<open>viewers\<close> are the sockets of the dashboards, each with its loop's variables. \<open>deleted_agents\<close>, \<open>viewer_ids\<close> (the
  identifiers drawn so far) and \<open>credential\<close> (under which credential a device's connection was registered) record the
  past for the theorems; the operations do not read them.\<close>

record Server =
  app :: AppState
  db :: Db
  enroll :: EnrollDb
  deleted_agents :: "Uuid set"
  credential :: "Uuid \<Rightarrow> string option"
  viewers :: "(Uuid, ViewerConn) HashMap"
  viewer_ids :: "Uuid set"

definition Server_new :: Server where
  "Server_new = \<lparr> app = AppState_new, db = \<lparr> agent_module_reports = [], agent_module_disable_requests = [] \<rparr>, enroll = EnrollDb_new,
     deleted_agents = {}, credential = (\<lambda>_. None), viewers = [], viewer_ids = {} \<rparr>"

text \<open>\<open>DELETE FROM agents\<close>: both tables reference the device with \<open>ON DELETE CASCADE\<close>.\<close>

definition delete_agents_by_ids :: "Db \<Rightarrow> Uuid list \<Rightarrow> Db" where
  "delete_agents_by_ids d ids =
     \<lparr> agent_module_reports = hm_retain (\<lambda>a _. a \<notin> set ids) (agent_module_reports d),
       agent_module_disable_requests = filter (\<lambda>row. row_agent_id row \<notin> set ids) (agent_module_disable_requests d) \<rparr>"

text \<open>What the environment sees of a step: a line written to a device's socket, or the token handed out to
  whoever polls a claim.\<close>

datatype Label = Quiet | Wrote Uuid Uuid AgentControl Value | Handed Uuid string

definition poll_label :: "Uuid \<Rightarrow> Response \<Rightarrow> Label" where
  "poll_label c resp = (case as_str (v_index (snd resp) ''agent_token'') of Some token \<Rightarrow> Handed c token | None \<Rightarrow> Quiet)"

lemma poll_label_not_Wrote [simp]: "poll_label c resp \<noteq> Wrote a conn msg v" "Wrote a conn msg v \<noteq> poll_label c resp"
  by (simp_all add: poll_label_def split: option.split)

inductive server_step :: "Env \<Rightarrow> Server \<Rightarrow> Label \<Rightarrow> Server \<Rightarrow> bool" for env where
\<comment> \<open>connections\<close>
  register: "registered = register_authenticated_agent (enroll s) (auth_id au) (auth_token_hash au) session ok \<Longrightarrow>
    server_step env s Quiet (s\<lparr>app := snd (register_authenticated_connection (fmt env) (app s) au name registered has_report fresh now at),
      credential := (if registered = Ok (Some session) then (credential s)(auth_id au \<mapsto> auth_token_hash au) else credential s)\<rparr>)"
| socket_closed: "server_step env s Quiet (s\<lparr>app := cleanup_connection (fmt env) (app s) a conn at\<rparr>)"
| frame_received: "server_step env s Quiet (s\<lparr>app := snd (binary_frame (app s) a conn frame now)\<rparr>)"
| socket_reads_queue: "take_command (app s) a = Some (msg, st1) \<Longrightarrow> current_conn (agents (app s)) a = Some conn \<Longrightarrow>
    writer_recv (fmt env) st1 a conn msg t1 t2 = (act, st2) \<Longrightarrow>
    server_step env s (case act of WriteText c \<Rightarrow> Wrote a conn msg c | _ \<Rightarrow> Quiet) (s\<lparr>app := st2\<rparr>)"
| replaced_socket_reads: "current_conn (agents (app s)) a \<noteq> Some conn \<Longrightarrow>
    writer_recv (fmt env) (app s) a conn msg t1 t2 = (act, st2) \<Longrightarrow>
    server_step env s (case act of WriteText c \<Rightarrow> Wrote a conn msg c | _ \<Rightarrow> Quiet) (s\<lparr>app := st2\<rparr>)"
\<comment> \<open>administration\<close>
| credentials_revoked: "revoke_credentials_endpoint (fmt env) (app s) (enroll s) a user t ok at = (r, st', e') \<Longrightarrow>
    server_step env s Quiet (s\<lparr>app := st', enroll := e'\<rparr>)"
| agents_deleted: "delete_agents_endpoint (fmt env) (app s) (enroll s) user ids t rv n at = (r, st', e') \<Longrightarrow>
    server_step env s Quiet (if is_ok r
      then s\<lparr>app := st', db := delete_agents_by_ids (db s) ids, enroll := e', deleted_agents := deleted_agents s \<union> set ids\<rparr>
      else s\<lparr>app := st', enroll := e'\<rparr>)"
\<comment> \<open>enrollment\<close>
| code_issued: "fresh \<notin> inv_id ` set (invites (enroll s)) \<Longrightarrow>
    create_enrollment_token (fmt env) (sha256_hex env) (plus_hours env) (json_time env) (app s) (enroll s) user tbody clk fresh draw oks at
      = (tr, st', e') \<Longrightarrow>
    server_step env s Quiet (s\<lparr>app := st', enroll := e'\<rparr>)"
| code_revoked: "revoke_enrollment_token (enroll s) user i t ok = (r', e') \<Longrightarrow> server_step env s Quiet (s\<lparr>enroll := e'\<rparr>)"
| codes_revoked: "revoke_all_enrollment_tokens (enroll s) user t ok = (r', e') \<Longrightarrow> server_step env s Quiet (s\<lparr>enroll := e'\<rparr>)"
| claim_made: "fresh \<notin> cl_id ` set (claims (enroll s)) \<Longrightarrow> new_agent \<notin> ag_id ` set (agent_rows (enroll s)) \<union> deleted_agents s \<Longrightarrow>
    create_enrollment_claim (fmt env) (sha256_hex env) (app s) (enroll s) cbody ip t fresh ok bound bok token h new_agent t1 t2 ok1 ok2 at
      = (resp, st', e') \<Longrightarrow>
    server_step env s Quiet (s\<lparr>app := st', enroll := e'\<rparr>)"
| claim_approved: "new_agent \<notin> ag_id ` set (agent_rows (enroll s)) \<union> deleted_agents s \<Longrightarrow>
    approve_enrollment_claim (fmt env) (app s) (enroll s) user c nm g bound bok token h new_agent t1 t2 ok1 ok2 at = (r', st', e') \<Longrightarrow>
    server_step env s Quiet (s\<lparr>app := st', enroll := e'\<rparr>)"
| claim_rejected: "reject_enrollment_claim (enroll s) user c err ok = (r', e') \<Longrightarrow> server_step env s Quiet (s\<lparr>enroll := e'\<rparr>)"
| claim_polled: "poll_enrollment_claim (fmt env) (app s) (enroll s) c ok = (resp, st') \<Longrightarrow>
    server_step env s (poll_label c resp) (s\<lparr>app := st'\<rparr>)"
\<comment> \<open>control\<close>
| viewer_opened: "viewer \<notin> viewer_ids s \<Longrightarrow>
    server_step env s Quiet (s\<lparr>viewers := hm_insert viewer \<lparr> vc_user = user, vc_session_hash = hash, vc_cache = [] \<rparr> (viewers s),
      viewer_ids := insert viewer (viewer_ids s)\<rparr>)"
| viewer_served: "hm_get (viewers s) viewer = Some vc \<Longrightarrow> viewer_event env (app s) viewer vc ev = (vc', sent, st') \<Longrightarrow>
    server_step env s Quiet (s\<lparr>app := st',
      viewers := (case vc' of Some c \<Rightarrow> hm_insert viewer c (viewers s) | None \<Rightarrow> hm_remove viewer (viewers s))\<rparr>)"
| leases_swept: "server_step env s Quiet (s\<lparr>app := expire_control (fmt env) (app s) now\<rparr>)"
| command_sent: "server_step env s Quiet (s\<lparr>app := (app s)\<lparr>agents := snd (send_agent_command_json (fmt env) (agents (app s)) a cmd)\<rparr>\<rparr>)"
\<comment> \<open>live streams\<close>
| stream_opened: "server_step env s Quiet (s\<lparr>app := snd (begin_mjpeg_session env (app s) a k uid prefs req now fresh)\<rparr>)"
| stream_closed: "server_step env s Quiet (s\<lparr>app := snd (end_mjpeg_session env (app s) a k owner fresh)\<rparr>)"
| capture_synced: "server_step env s Quiet (s\<lparr>app := sync_mjpeg_capture env (app s) a fresh\<rparr>)"
\<comment> \<open>clipboard\<close>
| clipboard_asked: "hm_get (clipboard (control (app s))) fresh = None \<Longrightarrow> fresh \<notin> fst ` set (oneshots (app s)) \<Longrightarrow>
    server_step env s Quiet (s\<lparr>app := snd (exchange_begin (fmt env) (app s) a user rq fresh t0 t1 t2)\<rparr>)"
| clipboard_answered: "server_step env s Quiet (s\<lparr>app := complete_clipboard (fmt env) (app s) a conn v t1 t2\<rparr>)"
| clipboard_returned: "server_step env s Quiet (s\<lparr>app := snd (snd (exchange_reply (fmt env) (app s) rid reply au t1 t2))\<rparr>)"
| clipboard_polled: "server_step env s Quiet (s\<lparr>app := snd (exchange_tick (fmt env) (app s) rid t0 t1 t2)\<rparr>)"
| clipboard_dropped: "server_step env s Quiet (s\<lparr>app := waiter_drop (fmt env) (app s) rid\<rparr>)"
\<comment> \<open>modules\<close>
| report_received: "accept_module_report (fmt env) (app s) (db s) a conn v read_ok save_ok mark_ok now at = (r, st', db') \<Longrightarrow>
    server_step env s Quiet (s\<lparr>app := st', db := db'\<rparr>)"
| ack_received: "accept_module_disable_ack (fmt env) (app s) (db s) a conn v read_ok save_ok ok = (r, st', db') \<Longrightarrow>
    server_step env s Quiet (s\<lparr>app := st', db := db'\<rparr>)"
| disable_requested: "disable_module (fmt env) (app s) (db s) a user body known p1 p2 p3 p4 mark_ok p5 now = (dr, st', db') \<Longrightarrow>
    server_step env s Quiet (s\<lparr>app := st', db := db'\<rparr>)"

section \<open>The invariant of the server\<close>

lemma send_app_inv: "app_inv st \<Longrightarrow> app_inv (st\<lparr>agents := snd (send_agent_command_json f (agents st) a cmd)\<rparr>)"
proof (rule app_inv_agents)
  show "current_conn (snd (send_agent_command_json f (agents st) a cmd)) b = current_conn (agents st) b" for b
    by (simp add: send_agent_command_json_def Let_def split: sum.split option.split)
qed (simp_all add: send_registry_inv app_invD)

text \<open>What the sockets of the viewers keep.\<close>

interpretation viewer_app: viewer_ops env viewer uid app_inv for env viewer uid
  by unfold_locales (auto intro!: inv_intros send_app_inv)

lemma clip_inv_agents [simp]: "clip_inv (st\<lparr>agents := reg\<rparr>) = clip_inv st"
  by (simp add: clip_inv_def)

interpretation viewer_clip: viewer_ops env viewer uid clip_inv for env viewer uid
  by unfold_locales simp_all

definition server_inv :: "Server \<Rightarrow> bool" where
  "server_inv s \<longleftrightarrow> app_inv (app s) \<and> clip_inv (app s) \<and> db_inv (db s) \<and> enroll_inv (enroll s)"

lemma db_inv_delete [inv_intros]: "db_inv d \<Longrightarrow> db_inv (delete_agents_by_ids d ids)"
proof -
  have "distinct (pending_keys rows) \<Longrightarrow> distinct (pending_keys (filter P rows))" for rows P
    by (induction rows) (auto simp: pending_keys_def)
  then show "db_inv d \<Longrightarrow> db_inv (delete_agents_by_ids d ids)"
    by (auto simp: db_inv_def delete_agents_by_ids_def distinct_map_filter)
qed

lemma server_inv_app: "server_inv s \<Longrightarrow> app_inv st \<Longrightarrow> clip_inv st \<Longrightarrow> server_inv (s\<lparr>app := st\<rparr>)"
  by (simp add: server_inv_def)

lemma server_inv_both:
  "x = (r, st', db') \<Longrightarrow> server_inv s \<Longrightarrow> app_inv (fst (snd x)) \<Longrightarrow> clip_inv (fst (snd x)) \<Longrightarrow> db_inv (snd (snd x)) \<Longrightarrow>
     server_inv (s\<lparr>app := st', db := db'\<rparr>)"
  by (simp add: server_inv_def)

lemma server_inv_endpoint:
  "x = (r, st', e') \<Longrightarrow> app_inv (fst (snd x)) \<Longrightarrow> clip_inv (fst (snd x)) \<Longrightarrow> enroll_ok e (snd (snd x)) \<Longrightarrow>
     app_inv st' \<and> clip_inv st' \<and> enroll_inv e'"
  by (simp add: enroll_ok_def)

lemma approved_ok:
  "enroll_inv d \<Longrightarrow> fresh \<notin> ag_id ` set (agent_rows d) \<Longrightarrow>
     enroll_ok d (snd (snd (approve_enrollment_claim f st d user c nm g bound bok token h fresh t1 t2 ok1 ok2 at)))"
  using approve_endpoint_ok by (simp add: approve_enrollment_claim_def case_prod_unfold Let_def enroll_ok_refl)

lemma server_step_inv:
  assumes "server_step env s l t" "server_inv s"
  shows "server_inv t"
proof -
  have inv: "app_inv (app s)" "clip_inv (app s)" "db_inv (db s)" "enroll_inv (enroll s)" using assms(2) by (simp_all add: server_inv_def)
  show ?thesis
    using assms(1)
  proof cases
    case (socket_reads_queue a msg st1 conn t1 t2 act st2)
    then show ?thesis
      using take_command_inv [OF socket_reads_queue(3)] inv writer_recv_inv [of st1 "fmt env" a conn msg t1 t2] assms(2)
      by (auto intro!: server_inv_app)
  next
    case (replaced_socket_reads a conn msg t1 t2 act st2)
    then show ?thesis
      using inv writer_recv_inv [of "app s" "fmt env" a conn msg t1 t2] assms(2) by (auto intro!: server_inv_app)
  next
    case (agents_deleted user ids t' rv n at r st' e')
    from server_inv_endpoint [OF agents_deleted(3) endpoints_app_inv(6) [OF inv(1)] clip_inv_endpoints(6) [OF inv(2)]
        revoking_endpoints_ok(5) [OF inv(4)]] inv
    show ?thesis unfolding agents_deleted(2) by (simp add: server_inv_def db_inv_delete)
  next
    case (credentials_revoked a user t' ok at r st' e')
    from server_inv_endpoint [OF credentials_revoked(3) endpoints_app_inv(5) [OF inv(1)] clip_inv_endpoints(5) [OF inv(2)]
        revoking_endpoints_ok(4) [OF inv(4)]] inv
    show ?thesis unfolding credentials_revoked(2) by (simp add: server_inv_def)
  next
    case (code_issued fresh user tbody clk draw oks at tr st' e')
    from server_inv_endpoint [OF code_issued(4) endpoints_app_inv(4) [OF inv(1)] clip_inv_endpoints(4) [OF inv(2)]
        token_endpoint_ok [OF inv(4) code_issued(3)]] inv
    show ?thesis unfolding code_issued(2) by (simp add: server_inv_def)
  next
    case (claim_made fresh new_agent cbody ip t' ok bound bok token h t1 t2 ok1 ok2 at resp st' e')
    have "new_agent \<notin> ag_id ` set (agent_rows (enroll s))" using claim_made(4) by simp
    from server_inv_endpoint [OF claim_made(5) endpoints_app_inv(1) [OF inv(1)] clip_inv_endpoints(1) [OF inv(2)]
        claim_endpoint_ok [OF inv(4) claim_made(3) this]] inv
    show ?thesis unfolding claim_made(2) by (simp add: server_inv_def)
  next
    case (claim_approved new_agent user c nm g bound bok token h t1 t2 ok1 ok2 at r' st' e')
    have "new_agent \<notin> ag_id ` set (agent_rows (enroll s))" using claim_approved(3) by simp
    from server_inv_endpoint [OF claim_approved(4) endpoints_app_inv(2) [OF inv(1)] clip_inv_endpoints(2) [OF inv(2)]
        approved_ok [OF inv(4) this]] inv
    show ?thesis unfolding claim_approved(2) by (simp add: server_inv_def)
  next
    case (claim_polled c ok resp st')
    with endpoints_app_inv(3) [OF inv(1), of "fmt env" "enroll s" c ok] clip_inv_endpoints(3) [OF inv(2), of "fmt env" "enroll s" c ok] inv
    show ?thesis by (simp add: server_inv_def)
  next
    case (code_revoked user i t' ok r' e')
    with revoking_endpoints_ok(1) [OF inv(4), of user i t' ok] inv show ?thesis by (simp add: server_inv_def enroll_ok_def)
  next
    case (codes_revoked user t' ok r' e')
    with revoking_endpoints_ok(2) [OF inv(4), of user t' ok] inv show ?thesis by (simp add: server_inv_def enroll_ok_def)
  next
    case (claim_rejected user c err ok r' e')
    with revoking_endpoints_ok(3) [OF inv(4), of user c err ok] inv show ?thesis by (simp add: server_inv_def enroll_ok_def)
  next
    case (register registered au session ok name has_report fresh now at)
    with register_app_inv [OF inv(1)] inv show ?thesis by (simp add: server_inv_def)
  next
    case (viewer_opened viewer user hash)
    with assms(2) show ?thesis by (simp add: server_inv_def)
  next
    case (viewer_served viewer vc ev vc' sent st')
    with viewer_app.keep_event [OF inv(1) refl, of env viewer vc ev] viewer_clip.keep_event [OF inv(2) refl, of env viewer vc ev] inv
    show ?thesis by (simp add: server_inv_def)
  next
    case (report_received a conn v read_ok save_ok mark_ok now at r st' db')
    show ?thesis unfolding report_received(2)
      by (rule server_inv_both [OF report_received(3) assms(2)]) (simp_all add: inv accept_module_report_app_inv db_inv_operations)
  next
    case (ack_received a conn v read_ok save_ok ok r st' db')
    show ?thesis unfolding ack_received(2)
      by (rule server_inv_both [OF ack_received(3) assms(2)]) (simp_all add: inv accept_ack_app_inv db_inv_operations)
  next
    case (disable_requested a user body known p1 p2 p3 p4 mark_ok p5 now r' st' db')
    show ?thesis unfolding disable_requested(2)
      by (rule server_inv_both [OF disable_requested(3) assms(2)]) (simp_all add: inv disable_module_app_inv db_inv_operations)
  qed (use assms(2) inv in \<open>auto intro!: server_inv_app inv_intros send_app_inv\<close>)
qed

lemma server_inv_new: "server_inv Server_new"
  by (simp add: server_inv_def Server_new_def db_inv_def pending_keys_def enroll_inv_def EnrollDb_new_def pending_digests_def)

interpretation server: safe_system "server_step env" Server_new server_inv for env
  by unfold_locales (auto intro: server_inv_new server_step_inv)

text \<open>
  C3. Whatever viewers, operators, devices and timers do, in any order, from the moment the server starts: a
  device is controlled only over its current connection, with its display frozen for the same owner from a live
  stream of the same user; every stream belongs to its device's current connection and the viewer counts are
  exact; the report commands are authorized against is sound and came over the current connection; queues, streams
  and clipboard requests are bounded, with at most one clipboard request per device; and no device has two
  pending disable requests for a module.
\<close>

theorem reachable_server_is_sound:
  assumes "reaches (server_step env) Server_new s"
  shows "(\<forall>a l. lease_of (sessions (control (app s))) a = Some l \<longrightarrow>
      current_conn (agents (app s)) a = Some (agent_connection_id (grant_owner (grant l)))
      \<and> (\<exists>c m. hm_get (capture (control (app s))) a = Some c \<and> fc_owner c = grant_owner (grant l)
           \<and> hm_get (mjpeg_sessions (media (app s))) (fc_session_id c) = Some m \<and> mj_agent_id m = a
           \<and> mj_user_id m = owner_user_id (grant_owner (grant l))))
    \<and> (\<forall>k m. hm_get (mjpeg_sessions (media (app s))) k = Some m \<longrightarrow>
        current_conn (agents (app s)) (mj_agent_id m) = Some (mj_conn_id m))
    \<and> (\<forall>a. unwrap_or (hm_get (capture_viewers (media (app s))) a) 0 = of_nat (count_sessions (media (app s)) a)
        \<and> count_sessions (media (app s)) a \<le> 256)
    \<and> (\<forall>a rt. hm_get (modules (agents (app s))) a = Some rt \<longrightarrow>
        current_conn (agents (app s)) a = Some (rm_conn_id rt) \<and> validated (rm_report rt))
    \<and> (\<forall>a ch. hm_get (cmds (agents (app s))) a = Some ch \<longrightarrow> length (queue ch) \<le> AGENT_CMD_CHANNEL_CAPACITY)
    \<and> length (clipboard (control (app s))) \<le> 128
    \<and> (\<forall>i p j q. hm_get (clipboard (control (app s))) i = Some p \<longrightarrow> hm_get (clipboard (control (app s))) j = Some q
        \<longrightarrow> pc_agent p = pc_agent q \<longrightarrow> i = j)
    \<and> distinct (pending_keys (agent_module_disable_requests (db s)))"
    (is "?lease \<and> ?streams \<and> ?counts \<and> ?reports \<and> ?queues \<and> ?clip1 \<and> ?clip2 \<and> ?rows")
proof -
  have inv: "app_inv (app s)" "clip_inv (app s)" "db_inv (db s)"
    using server.inv_reachable [OF assms] by (simp_all add: server_inv_def)
  note r = registry_invD [OF app_invD(1) [OF inv(1)]] and c = control_invD [OF app_invD(2) [OF inv(1)]]
    and m = media_invD [OF app_invD(3) [OF inv(1)]]
  have ?lease
  proof (intro allI impI)
    fix a l assume l: "lease_of (sessions (control (app s))) a = Some l"
    then have owner: "lease_owner_of (sessions (control (app s))) a = Some (grant_owner (grant l))" by (simp add: lease_owner_of_def)
    obtain c' where c': "hm_get (capture (control (app s))) a = Some c'" "fc_owner c' = grant_owner (grant l)"
      using c(3) [of a] owner by auto
    with c(4) [OF owner] m(8) [OF c'(1)] show "current_conn (agents (app s)) a = Some (agent_connection_id (grant_owner (grant l)))
      \<and> (\<exists>c m. hm_get (capture (control (app s))) a = Some c \<and> fc_owner c = grant_owner (grant l)
           \<and> hm_get (mjpeg_sessions (media (app s))) (fc_session_id c) = Some m \<and> mj_agent_id m = a
           \<and> mj_user_id m = owner_user_id (grant_owner (grant l)))" by auto
  qed
  moreover have ?streams using m(3) by blast
  moreover have ?counts using m(5,6) by simp
  moreover have ?reports using r(6,7) by (auto simp: runtime_ok_def)
  moreover have ?queues
  proof (intro allI impI)
    fix a ch assume ch: "hm_get (cmds (agents (app s))) a = Some ch"
    then obtain cid where "current_conn (agents (app s)) a = Some cid" using r(4) [of a] by auto
    with r(5) [OF ch] show "length (queue ch) \<le> AGENT_CMD_CHANNEL_CAPACITY" by (auto simp: queue_ok_def)
  qed
  moreover have ?clip1 ?clip2 using inv(2) by (auto simp: clip_inv_def pending_ok_def)
  moreover have ?rows using inv(3) by (simp add: db_inv_def)
  ultimately show ?thesis by blast
qed

text \<open>A device that was enrolled with a pairing code and has connected.\<close>

definition example_auth :: AuthenticatedAgent where
  "example_auth = \<lparr> auth_id = 9, auth_token_hash = ''h'' \<rparr>"

definition example_admin :: AuthUser where
  "example_admin = \<lparr> user_id = 4, username = ''root'', role = ''admin'' \<rparr>"

definition example_invite :: Invite where
  "example_invite = \<lparr> inv_id = 1, secret_digest = code6 4217, inv_kind = ''quick_pair'', uses_remaining = 1, inv_expires_at = Some 600000000,
     auto_approve = True, bound_agent_id = None, inv_note = None, revoked_at = None \<rparr>"

definition example_claim_body :: CreateClaimBody where
  "example_claim_body = \<lparr> cb_pairing_code = Some (code6 4217), cb_requested_name = ''pc'', cb_hostname = None, cb_os = None,
     cb_agent_version = None, cb_install_id = ''pc'', cb_discovered_server = None \<rparr>"

definition example_claim :: EnrollmentClaimRow where
  "example_claim = (new_claim (\<lambda>s. s) (claim_input example_claim_body None) (Some 1) 2 5)\<lparr>cl_status := ''approved'',
     approved_by := Some ''pairing_code'', cl_agent_id := Some 9, issued_token_hash := Some ''h''\<rparr>"

definition example_token :: PendingEnrollmentToken where
  "example_token = \<lparr> pet_agent_id = 9, pet_agent_name = ''pc'', pet_agent_token = ''token'' \<rparr>"

definition coded :: Server where
  "coded = Server_new\<lparr>enroll := EnrollDb_new\<lparr>invites := [example_invite]\<rparr>\<rparr>"

definition enrolled :: Server where
  "enrolled = Server_new\<lparr>
     app := AppState_new\<lparr>agents := AgentRegistry_default\<lparr>pending_enrollment_tokens := [(2, example_token)]\<rparr>\<rparr>,
     enroll := \<lparr> invites = [example_invite\<lparr>uses_remaining := 0\<rparr>], claims = [example_claim],
       agent_rows = [\<lparr> ag_id = 9, ag_name = ''pc'', api_token_hash = Some ''h'' \<rparr>], group_members = [] \<rparr>\<rparr>"

lemma example_env_simps [simp]:
  "sha256_hex example_env = (\<lambda>s. s)" "json_time example_env = (\<lambda>_. Null)" "plus_hours example_env = (\<lambda>t h. Some (t + h * 3600000000))"
  "fmt example_env = binary_fmt"
  by (simp_all add: example_env_def)

lemma trim_pc [simp]: "trim ''pc'' = ''pc''"
  by (rule trim_visible) (auto simp: visible_def)

lemma code6_plain [simp]: "trim (code6 n) = code6 n" "normalize_enrollment_code_for_lookup (code6 n) = Some (code6 n)"
proof -
  have digit: "is_ascii_digit c \<Longrightarrow> p \<in> set white_space \<Longrightarrow> \<not> leads (c # s) p \<and> \<not> leads (c # s) (rev p)" for c s p
    by (auto simp: white_space_def leads_def is_ascii_digit_def)
  obtain c s where c: "code6 n = c # s" "is_ascii_digit c" using code6_digits(1) [of n] code6_digits(2) [where n = n] by (cases "code6 n") auto
  obtain e r where e: "rev (code6 n) = e # r" "is_ascii_digit e" using code6_digits(1) [of n] code6_digits(2) [where n = n]
    by (cases "code6 n" rule: rev_cases) auto
  have "strip_leading white_space (code6 n) = code6 n" by (rule strip_leading_id) (use digit [OF c(2)] c(1) in auto)
  moreover have "strip_leading (map rev white_space) (rev (code6 n)) = rev (code6 n)" by (rule strip_leading_id) (use digit [OF e(2)] e(1) in auto)
  ultimately show "trim (code6 n) = code6 n" by (simp add: trim_def trim_start_def trim_end_def)
  have "filter is_ascii_digit (code6 n) = code6 n" using code6_digits(2) by (simp add: filter_id_conv)
  then show "normalize_enrollment_code_for_lookup (code6 n) = Some (code6 n)"
    using code6_digits(1) by (simp add: normalize_enrollment_code_for_lookup_def)
qed

lemma code6_nonempty [simp]: "code6 n \<noteq> []"
  by (simp add: code6_def)

lemma coded_reachable: "reaches (server_step example_env) Server_new coded"
proof -
  have token: "create_agent_enrollment_token (\<lambda>s. s) EnrollDb_new 1 (Some 600000000) None 1 (\<lambda>_. 4217) (\<lambda>_. True)
      = (Ok (1, code6 4217), EnrollDb_new\<lparr>invites := [example_invite]\<rparr>)"
    unfolding create_agent_enrollment_token_def
    by (subst try_codes_collision_free [where r = "((1, code6 4217), EnrollDb_new\<lparr>invites := [example_invite]\<rparr>)"])
      (simp_all add: insert_invite_def example_invite_def EnrollDb_new_def)
  let ?body = "\<lparr> tb_uses = 1, tb_expires_in_hours = None, tb_note = None, tb_bound_agent_id = None \<rparr>"
  obtain r st' e' where run: "create_enrollment_token (fmt example_env) (sha256_hex example_env) (plus_hours example_env) (json_time example_env)
      (app Server_new) (enroll Server_new) example_admin ?body (\<lambda>_. 0) 1 (\<lambda>_. 4217) (\<lambda>_. True) Null = (r, st', e')"
    by (metis prod_cases3)
  then have st: "st' = app Server_new" "e' = EnrollDb_new\<lparr>invites := [example_invite]\<rparr>"
    by (auto simp: create_enrollment_token_def create_pairing_code_def code_expiry_def example_admin_def is_admin_def MINUTE_def
        Server_new_def token Let_def case_prod_unfold)
  have "server_step example_env Server_new Quiet (Server_new\<lparr>app := st', enroll := e'\<rparr>)"
    by (rule code_issued [OF _ run]) (simp add: Server_new_def EnrollDb_new_def)
  then have "server_step example_env Server_new Quiet coded" by (simp add: coded_def st)
  then show ?thesis by (rule reaches_step [OF reaches_refl])
qed

lemma coded_claims:
  "\<exists>r. create_enrollment_claim (fmt example_env) (sha256_hex example_env) (app coded) (enroll coded)
     example_claim_body None 5 2 True None True ''token'' (Some ''h'') 9 6 6 True True Null = (r, app enrolled, enroll enrolled)"
proof -
  obtain r st' e' where run: "create_enrollment_claim (fmt example_env) (sha256_hex example_env) (app coded) (enroll coded)
      example_claim_body None 5 2 True None True ''token'' (Some ''h'') 9 6 6 True True Null = (r, st', e')" by (metis prod_cases3)
  let ?row = "new_claim (\<lambda>s. s) (claim_input example_claim_body None) (Some 1) 2 5"
  let ?d = "\<lparr> invites = [example_invite\<lparr>uses_remaining := 0\<rparr>], claims = [?row], agent_rows = [], group_members = [] \<rparr>"
  have "check_code (\<lambda>s. s) (enroll coded) (code6 4217) 5 = Ok example_invite"
    by (simp add: check_code_def coded_def example_invite_def expired_def)
  then have made: "create_agent_enrollment_claim (\<lambda>s. s) (enroll coded) (claim_input example_claim_body None) 5 2 True = (Some (Ok (?row, True)), ?d)"
    by (simp add: create_agent_enrollment_claim_def claim_input_def example_claim_body_def install_digest_def coded_def EnrollDb_new_def
        name_taken_def use_invite_def update_where_def example_invite_def invite_auto_approves_def code6_nonempty Let_def)
  have "approve_claim_with_binding ?d 2 ''pairing_code'' None None None ''token'' (Some ''h'') 9 6 True
      = (Some (Ok (9, ''token'', ''pc'')), enroll enrolled)"
    by (simp add: approve_claim_with_binding_def lock_claim_for_approval_def claim_row_def new_claim_def invite_row_def example_invite_def
        expired_def issue_agent_credentials_def name_taken_def final_agent_name_def mark_claim_approved_def update_where_def enrolled_def
        example_claim_def claim_name_def claim_input_def example_claim_body_def is_utf8_continuation_def Let_def)
  moreover have "cl_id ?row = 2" "trim (cb_requested_name example_claim_body) \<noteq> []" "trim (cb_install_id example_claim_body) \<noteq> []"
    by (simp_all add: new_claim_def example_claim_body_def)
  moreover have "app enrolled = AppState_new\<lparr>agents := (agents AppState_new)\<lparr>pending_enrollment_tokens :=
      hm_insert 2 example_token (pending_enrollment_tokens (agents AppState_new))\<rparr>\<rparr>" "app coded = AppState_new"
    by (simp_all add: enrolled_def coded_def Server_new_def AppState_new_def AgentRegistry_default_def hm_insert_def)
  ultimately have "st' = app enrolled" "e' = enroll enrolled"
    using run made by (simp_all add: create_enrollment_claim_def approve_agent_enrollment_claim_def example_token_def Let_def)
  with run show ?thesis by blast
qed

lemma coded_pairs: "server_step example_env coded Quiet enrolled"
proof -
  obtain r where run: "create_enrollment_claim (fmt example_env) (sha256_hex example_env) (app coded) (enroll coded)
     example_claim_body None 5 2 True None True ''token'' (Some ''h'') 9 6 6 True True Null = (r, app enrolled, enroll enrolled)"
    using coded_claims by blast
  from claim_made [OF _ _ run] show ?thesis by (simp add: coded_def enrolled_def EnrollDb_new_def Server_new_def)
qed

lemma enrolled_reachable: "reaches (server_step example_env) Server_new enrolled"
  using coded_reachable coded_pairs by (rule reaches_step)

abbreviation connected :: Server where
  "connected \<equiv> enrolled\<lparr>app := snd (register_authenticated_connection (fmt example_env) (app enrolled) example_auth ''pc''
     (Ok (Some 1)) True 3 0 Null), credential := [9 \<mapsto> ''h'']\<rparr>"

lemma connected_reachable: "reaches (server_step example_env) Server_new connected"
proof -
  have reg: "Ok (Some 1) = register_authenticated_agent (enroll enrolled) (auth_id example_auth) (auth_token_hash example_auth) 1 True"
    by (simp add: register_authenticated_agent_def enrolled_def example_auth_def)
  have "server_step example_env enrolled Quiet connected"
    using register [OF reg, of example_env "''pc''" True 3 0 Null] by (simp add: example_auth_def enrolled_def Server_new_def)
  with enrolled_reachable show ?thesis by (rule reaches_step)
qed

theorem reachable_server_is_sound_witness:
  "hm_get (cmds (agents (app connected))) 9 = Some channel_new \<and> length (queue channel_new) \<le> AGENT_CMD_CHANNEL_CAPACITY"
proof -
  have "hm_get (cmds (agents (app connected))) 9 = Some channel_new"
    by (simp add: register_authenticated_connection_def example_auth_def Let_def broadcast_def detach_def split: option.split)
  with reachable_server_is_sound [OF connected_reachable] show ?thesis by blast
qed

section \<open>Settled requests are final\<close>

definition settled_kept :: "Db \<Rightarrow> Db \<Rightarrow> bool" where
  "settled_kept d d' \<longleftrightarrow> (\<forall>row \<in> set (rows_of d). \<not> row_pending row \<longrightarrow> row \<in> set (rows_of d'))"

lemma settled_kept_refl: "settled_kept d d" and settled_kept_trans: "settled_kept d d' \<Longrightarrow> settled_kept d' d'' \<Longrightarrow> settled_kept d d''"
  by (auto simp: settled_kept_def)

lemma settled_kept_statements:
  "settled_kept d (insert_disable d a m r c)" "settled_kept d (update_pending d a c g)" "settled_kept d (save_module_report d a conn rep)"
  by (auto simp: settled_kept_def insert_disable_def update_pending_def save_module_report_def)

lemma settled_kept_marks:
  "settled_kept d (mark_module_disable_sent d a c conn)" "settled_kept d (acknowledge_module_disable d a c s e t)"
  by (simp_all add: mark_module_disable_sent_def acknowledge_module_disable_def settled_kept_statements)

lemma settled_kept_replay: "settled_kept d (snd (snd (replay_each f st d a conn mark_ok now rqs)))"
proof (induction rqs arbitrary: st d)
  case (Cons rq rqs)
  show ?case
    using Cons.IH settled_kept_trans [OF settled_kept_marks(1) Cons.IH] by (simp add: case_prod_unfold Let_def settled_kept_refl)
qed (simp add: settled_kept_refl)

lemma settled_kept_operations:
  "settled_kept d (snd (snd (accept_module_report f st d a conn v read_ok save_ok mark_ok now at)))"
  "settled_kept d (snd (snd (accept_module_disable_ack f st d a conn v read_ok save_ok ok)))"
  "settled_kept d (snd (snd (disable_module f st d a user body known p1 p2 p3 p4 mark_ok p5 now)))"
proof -
  note basic = settled_kept_refl settled_kept_statements
  show "settled_kept d (snd (snd (accept_module_report f st d a conn v read_ok save_ok mark_ok now at)))"
    by (simp add: accept_module_report_def replay_module_disables_def Let_def basic settled_kept_trans [OF basic(4) settled_kept_replay]
        split: sum.split option.split)
  have "settled_kept d (snd (snd (apply_ack f st d a conn ack r save_ok ok)))" for ack r
    by (simp add: apply_ack_def Let_def basic settled_kept_marks settled_kept_trans [OF basic(4) settled_kept_marks(2)] split: option.split)
  then show "settled_kept d (snd (snd (accept_module_disable_ack f st d a conn v read_ok save_ok ok)))"
    by (simp add: accept_module_disable_ack_def basic split: sum.split option.split)
  have send: "settled_kept e (snd (snd (send_request f st e a rq retry mark_ok now)))" for e rq retry
    by (simp add: send_request_def replay_module_disables_def case_prod_unfold Let_def basic settled_kept_replay split: sum.split option.split)
  have "settled_kept d (snd (snd (send_request f st (insert_disable d a m r c) a rq retry mark_ok now)))" for m r c rq retry
    by (rule settled_kept_trans [OF basic(2) send])
  then show "settled_kept d (snd (snd (disable_module f st d a user body known p1 p2 p3 p4 mark_ok p5 now)))"
    by (simp add: disable_module_def create_module_disable_def case_prod_unfold Let_def basic split: sum.split option.split)
qed

definition settled_final :: "Server \<Rightarrow> Server \<Rightarrow> bool" where
  "settled_final s t \<longleftrightarrow> deleted_agents s \<subseteq> deleted_agents t
     \<and> (\<forall>row \<in> set (rows_of (db s)). \<not> row_pending row \<longrightarrow> row_agent_id row \<in> deleted_agents t \<or> row \<in> set (rows_of (db t)))"

lemma settled_final_both: "x = (r, st', db') \<Longrightarrow> settled_kept (db s) (snd (snd x)) \<Longrightarrow> settled_final s (s\<lparr>app := st', db := db'\<rparr>)"
  by (auto simp: settled_final_def settled_kept_def)

lemma server_step_settled:
  assumes "server_step env s l t"
  shows "settled_final s t"
  using assms
proof cases
  case (agents_deleted user ids t' rv n at r st' e')
  then show ?thesis by (auto simp: settled_final_def delete_agents_by_ids_def)
next
  case report_received
  then show ?thesis by (auto intro: settled_final_both settled_kept_operations)
next
  case ack_received
  then show ?thesis by (auto intro: settled_final_both settled_kept_operations)
next
  case disable_requested
  then show ?thesis by (auto intro: settled_final_both settled_kept_operations)
qed (simp_all add: settled_final_def)

interpretation server_rows: monotone_system "server_step env" settled_final for env
proof unfold_locales
  show "settled_final s s" for s by (simp add: settled_final_def)
  show "settled_final s u" if "settled_final s t" "settled_final t u" for s t u using that by (fastforce simp: settled_final_def)
  show "settled_final s t" if "server_step env s l t" for s l t by (rule server_step_settled [OF that])
qed

text \<open>
  Terminal results are immutable: once a disable request is settled, its row stays in the table as it is
  through every sequence of reports, acknowledgments, retries and new requests, until its device is deleted.
\<close>

theorem settled_requests_are_final:
  assumes "reaches (server_step env) s t" and "row \<in> set (agent_module_disable_requests (db s))" and "\<not> row_pending row"
  shows "row \<in> set (agent_module_disable_requests (db t)) \<or> row_agent_id row \<in> deleted_agents t"
  using server_rows.le_reaches [OF assms(1)] assms(2,3) by (auto simp: settled_final_def)

text \<open>The operator retries a request that the device has already answered.\<close>

abbreviation settled_server :: Server where
  "settled_server \<equiv> Server_new\<lparr>db := example_db\<rparr>"

abbreviation retried :: "(ModuleDisableRequest, ApiError) Result \<times> AppState \<times> Db" where
  "retried \<equiv> disable_module (fmt example_env) (app settled_server) (db settled_server) 1 example_user
     \<lparr> body_module = Module.Clipboard, body_expected_revision = 3, body_command_id = 21 \<rparr> (Some True) True True True True (\<lambda>_. True) True 5"

theorem settled_requests_are_final_witness:
  "example_row 21 Module.Clipboard ''disabled'' \<in> set (agent_module_disable_requests (snd (snd retried)))"
proof -
  obtain r st' db' where run: "retried = (r, st', db')" by (metis prod_cases3)
  have "reaches (server_step example_env) settled_server (settled_server\<lparr>app := st', db := db'\<rparr>)"
    by (rule reaches_step, rule reaches_refl, rule disable_requested, rule run)
  moreover have "example_row 21 Module.Clipboard ''disabled'' \<in> set (agent_module_disable_requests (db settled_server))"
    by (simp add: example_db_def)
  moreover have "\<not> row_pending (example_row 21 Module.Clipboard ''disabled'')" by (simp add: row_pending_def example_row_def)
  ultimately have "example_row 21 Module.Clipboard ''disabled'' \<in> set (agent_module_disable_requests (db (settled_server\<lparr>app := st', db := db'\<rparr>)))
      \<or> row_agent_id (example_row 21 Module.Clipboard ''disabled'') \<in> deleted_agents (settled_server\<lparr>app := st', db := db'\<rparr>)"
    by (rule settled_requests_are_final)
  moreover have "deleted_agents Server_new = {}" by (simp add: Server_new_def)
  ultimately show ?thesis by (simp only: run) simp
qed

section \<open>What reaches the devices\<close>


text \<open>A command that needs no module, sent to the connected device and read by its socket.\<close>

abbreviation informed :: Server where
  "informed \<equiv> connected\<lparr>app := (app connected)\<lparr>agents := snd (send_agent_command_json (fmt example_env) (agents (app connected)) 9 example_info)\<rparr>\<rparr>"

lemma connected_registry:
  "hm_get (cmds (agents (app connected))) 9 = Some channel_new" "hm_get (modules (agents (app connected))) 9 = None"
  "\<exists>c. conn_of (agents (app connected)) 9 = Some c \<and> conn_id c = 3 \<and> shutdown c = None"
  by (simp_all add: register_authenticated_connection_def example_auth_def Let_def broadcast_def detach_def split: option.split)

lemma example_info_ok: "conn_of reg a = Some c \<Longrightarrow> authorize_agent_command f reg a example_info = Ok example_info"
  by (simp add: authorize_agent_command_def example_info_def protocol_command_def from_kind_def parse_def parse_tagged_def Let_def)

lemma informed_writes: "\<exists>t. server_step example_env informed (Wrote 9 3 (Text example_info) example_info) t"
proof -
  obtain c where c: "conn_of (agents (app connected)) 9 = Some c" "conn_id c = 3" "shutdown c = None" using connected_registry(3) by blast
  have sent: "agents (app informed) = (agents (app connected))\<lparr>cmds := hm_insert 9 (channel_new\<lparr>queue := [Text example_info]\<rparr>) (cmds (agents (app connected)))\<rparr>"
    using c connected_registry(1)
    by (simp add: send_agent_command_json_def example_info_ok Let_def current_conn_def enqueue_authorized_command_def try_send_def
        channel_new_def AGENT_CMD_CHANNEL_CAPACITY_def)
      (simp add: example_info_def is_remote_input_def from_kind_def parse_def parse_tagged_def)
  obtain st1 where take: "take_command (app informed) 9 = Some (Text example_info, st1)"
    and st1: "conn_of (agents st1) 9 = Some c"
    using c sent by (simp add: take_command_def)
  have u: "v_remove (v_remove example_info ''__capture_generation'') ''__module_generation'' = example_info"
    by (simp add: example_info_def json_obj_def obj_remove_def)
  have "command_deliverable (fmt example_env) st1 9 3 example_info 5 5 = (True, st1)"
    using st1 c by (simp add: command_deliverable_def open_conn_def capture_current_def generation_current_def u example_info_ok Let_def)
      (simp add: example_info_def)
  then have "writer_recv (fmt example_env) st1 9 3 (Text example_info) 5 5 = (WriteText example_info, st1)" by (simp add: writer_recv_def)
  moreover have "current_conn (agents (app informed)) 9 = Some 3" using c sent by (simp add: current_conn_def)
  ultimately show ?thesis using socket_reads_queue [OF take, of 3 example_env 5 5 "WriteText example_info" st1] by auto
qed


end
