(* ===== verification/AgentPermissions.thy ===== *)
theory AgentPermissions
  imports System
begin

text \<open>
  The device's side of permissions: the grant store with its transactions and cache
  (\<open>agent/src/permissions/store.rs\<close>), grant generations and worker leases (\<open>workers.rs\<close>), and the fences on
  commands and outbound messages (\<open>fence.rs\<close>).

  The store is one file, replaced atomically under a lock shared by all processes of the device; its JSON text
  is not modelled, only the state it holds. What can fail outside the code's control (opening the
  lock, writing, the final synchronization of the directory) is an argument, with the error text. An error is its
  message.
\<close>

section \<open>Grants\<close>

record Grant =
  g_enabled :: bool
  g_revision :: u64

record Receipt =
  rc_module :: Module
  rc_expected_revision :: u64
  rc_revision :: u64

record GrantState =
  st_revision :: u64
  st_modules :: "(Module, Grant) HashMap"
  st_receipts :: "(string, Receipt) HashMap"

definition Grant_default :: Grant where
  "Grant_default = \<lparr> g_enabled = False, g_revision = 0 \<rparr>"

definition GrantState_default :: GrantState where
  "GrantState_default = \<lparr> st_revision = 0, st_modules = [], st_receipts = [] \<rparr>"

datatype DisableResult = Disabled | Duplicate | Stale | Conflict

definition state_enabled :: "GrantState \<Rightarrow> Module \<Rightarrow> bool" where
  "state_enabled s m = is_some_and (hm_get (st_modules s) m) g_enabled"

text \<open>\<open>checked_add(1)\<close>: \<open>- 1\<close> is \<open>u64::MAX\<close>.\<close>

definition state_local_set :: "GrantState \<Rightarrow> Module \<Rightarrow> bool \<Rightarrow> (unit, string) Result \<times> GrantState" where
  "state_local_set s m on =
     (if st_revision s = - 1 then (Err ''revision exhausted'', s)
      else (let r = st_revision s + 1
            in (Ok (), s\<lparr>st_revision := r, st_modules := hm_insert m \<lparr> g_enabled = on, g_revision = r \<rparr> (st_modules s)\<rparr>)))"

definition grant_revision :: "GrantState \<Rightarrow> Module \<Rightarrow> u64" where
  "grant_revision s m = (case hm_get (st_modules s) m of None \<Rightarrow> 0 | Some g \<Rightarrow> g_revision g)"

definition state_disable :: "GrantState \<Rightarrow> Module \<Rightarrow> u64 \<Rightarrow> string \<Rightarrow> (DisableResult, string) Result \<times> GrantState" where
  "state_disable s m expected i =
     (if \<not> (i \<noteq> [] \<and> length i \<le> 128) then (Err ''invalid command_id'', s)
      else case hm_get (st_receipts s) i of
        Some r \<Rightarrow> (Ok (if rc_module r = m \<and> rc_expected_revision r = expected then Duplicate else Conflict), s)
      | None \<Rightarrow>
          if grant_revision s m \<noteq> expected then (Ok Stale, s)
          else if \<not> length (st_receipts s) < 100000 then (Err ''receipt capacity reached'', s)
          else
            (case state_local_set s m False of
               (Inl e, s1) \<Rightarrow> (Err e, s1)
             | (Inr _, s1) \<Rightarrow> (Ok Disabled,
                 s1\<lparr>st_receipts := hm_insert i \<lparr> rc_module = m, rc_expected_revision = expected, rc_revision = st_revision s1 \<rparr>
                      (st_receipts s1)\<rparr>)))"

text \<open>\<open>clip\<close> is \<open>input::clipboard::available()\<close>, which asks the desktop.\<close>

definition module_available :: "bool \<Rightarrow> Module \<Rightarrow> bool" where
  "module_available clip m = (m \<noteq> Clipboard \<or> clip)"

definition wire_module :: "bool \<Rightarrow> GrantState \<Rightarrow> Module \<Rightarrow> Value" where
  "wire_module clip s m =
     (let g = unwrap_or (hm_get (st_modules s) m) Grant_default in
      json_obj [(''module'', json_module m), (''available'', Bool (module_available clip m)),
        (''enabled'', Bool (g_enabled g \<and> module_available clip m)), (''revision'', json_u64 (g_revision g)),
        (''authorization_required'', Bool (\<not> g_enabled g))])"

definition state_wire :: "bool \<Rightarrow> GrantState \<Rightarrow> Value" where
  "state_wire clip s =
     json_obj [(''type'', Str ''module_states''), (''schema_version'', json_u64 1), (''revision'', json_u64 (st_revision s)),
       (''modules'', Arr (map (wire_module clip s) MODULES))]"

section \<open>The store\<close>

datatype StoreFile = NotFound | Unreadable string | Stored GrantState

datatype WriteOutcome = Written | FailedBefore string | FailedAfter string

fun read_store :: "StoreFile \<Rightarrow> (GrantState, string) Result" where
  "read_store (Stored s) = Ok s"
| "read_store NotFound = Ok GrantState_default"
| "read_store (Unreadable e) = Err e"

text \<open>\<open>lock\<close>: the error of creating the directory, opening or taking the lock, if any. The new file replaces
  the old one in one step; a failure before it changes nothing, one after it (\<open>sync_all\<close> of the directory)
  leaves the new state.\<close>

definition transaction_at ::
  "StoreFile \<Rightarrow> string option \<Rightarrow> WriteOutcome \<Rightarrow> (GrantState \<Rightarrow> ('a, string) Result \<times> GrantState) \<Rightarrow> bool
    \<Rightarrow> (GrantState \<times> 'a, string) Result \<times> StoreFile" where
  "transaction_at file lock out f write =
     (case lock of
        Some e \<Rightarrow> (Err e, file)
      | None \<Rightarrow>
     (case read_store file of
        Inl e \<Rightarrow> (Err e, file)
      | Inr state \<Rightarrow>
          (case f state of
             (Inl e, _) \<Rightarrow> (Err e, file)
           | (Inr x, state') \<Rightarrow>
               if \<not> write then (Ok (state', x), file)
               else case out of
                      Written \<Rightarrow> (Ok (state', x), Stored state')
                    | FailedBefore e \<Rightarrow> (Err e, file)
                    | FailedAfter e \<Rightarrow> (Err e, Stored state'))))"

definition load_store :: "StoreFile \<Rightarrow> string option \<Rightarrow> (GrantState, string) Result" where
  "load_store file lock =
     (case fst (transaction_at file lock Written (\<lambda>s. (Ok (), s)) False) of Inl e \<Rightarrow> Err e | Inr (s, _) \<Rightarrow> Ok s)"

definition load_or_default :: "StoreFile \<Rightarrow> string option \<Rightarrow> GrantState" where
  "load_or_default file lock = (case load_store file lock of Inl _ \<Rightarrow> GrantState_default | Inr s \<Rightarrow> s)"

section \<open>A process of the device\<close>

record Generation =
  gen_module :: Module
  gen_revision :: u64

record Device =
  store_file :: StoreFile
  CACHE :: "(Instant \<times> GrantState) option"
  WORKERS :: "(Generation, nat) HashMap"

definition with_cached :: "Device \<Rightarrow> string option \<Rightarrow> Instant \<Rightarrow> Instant \<Rightarrow> GrantState \<times> Device" where
  "with_cached d lock t1 t2 =
     (let d1 = (if is_none_or (CACHE d) (\<lambda>(at, _). duration_since t1 at \<ge> from_millis 100)
                then d\<lparr>CACHE := Some (t2, load_or_default (store_file d) lock)\<rparr> else d)
      in (snd (the (CACHE d1)), d1))"

definition allowed :: "Device \<Rightarrow> string option \<Rightarrow> Instant \<Rightarrow> Instant \<Rightarrow> Module \<Rightarrow> bool \<times> Device" where
  "allowed d lock t1 t2 m = (let (s, d1) = with_cached d lock t1 t2 in (state_enabled s m, d1))"

definition local_set :: "Device \<Rightarrow> string option \<Rightarrow> WriteOutcome \<Rightarrow> Module \<Rightarrow> bool \<Rightarrow> (GrantState, string) Result \<times> Device" where
  "local_set d lock out m on =
     (let (r, file') = transaction_at (store_file d) lock out (\<lambda>s. state_local_set s m on) True
      in (case r of Inl e \<Rightarrow> Err e | Inr (s, _) \<Rightarrow> Ok s, d\<lparr>store_file := file', CACHE := None\<rparr>))"

text \<open>\<open>format!("{r:?}").to_lowercase()\<close>\<close>

fun result_status :: "DisableResult \<Rightarrow> string" where
  "result_status Disabled = ''disabled''"
| "result_status Duplicate = ''duplicate''"
| "result_status Stale = ''stale''"
| "result_status Conflict = ''conflict''"

definition disable_ack :: "bool \<Rightarrow> Value \<Rightarrow> GrantState \<Rightarrow> DisableResult \<Rightarrow> Value" where
  "disable_ack clip v s r =
     (let applied = (r = Disabled \<or> r = Duplicate) in
      json_obj [(''type'', Str ''module_disable_ack''), (''command_id'', v_index v ''command_id''), (''module'', v_index v ''module''),
        (''ok'', Bool applied), (''status'', Str (result_status r)), (''persisted'', Bool applied), (''stopped'', Bool False),
        (''stop_status'', Str ''unconfirmed''), (''state'', state_wire clip s)])"

definition disable_failed :: "Value \<Rightarrow> string \<Rightarrow> Value" where
  "disable_failed v e =
     json_obj [(''type'', Str ''module_disable_ack''), (''command_id'', v_index v ''command_id''), (''module'', v_index v ''module''),
       (''ok'', Bool False), (''status'', Str ''error''), (''error'', Str e)]"

text \<open>\<open>bad\<close> is the message of a module that does not decode.\<close>

definition remote_disable ::
  "Device \<Rightarrow> string option \<Rightarrow> WriteOutcome \<Rightarrow> bool \<Rightarrow> string \<Rightarrow> Value \<Rightarrow> Value \<times> Device" where
  "remote_disable d lock out clip bad v =
     (let (r, file') =
            (case module_of_value (v_index v ''module'') of
               None \<Rightarrow> (Err bad, store_file d)
             | Some m \<Rightarrow>
            (case as_u64 (v_index v ''expected_revision'') of
               None \<Rightarrow> (Err ''expected_revision required'', store_file d)
             | Some revision \<Rightarrow>
            (case as_str (v_index v ''command_id'') of
               None \<Rightarrow> (Err ''command_id required'', store_file d)
             | Some i \<Rightarrow> transaction_at (store_file d) lock out (\<lambda>s. state_disable s m revision i) True)))
      in (case r of Inl e \<Rightarrow> disable_failed v e | Inr (s, res) \<Rightarrow> disable_ack clip v s res,
          d\<lparr>store_file := file', CACHE := None\<rparr>))"

section \<open>Generations and workers\<close>

definition generation_from_state :: "GrantState \<Rightarrow> Module \<Rightarrow> Generation option" where
  "generation_from_state s m =
     map_option (\<lambda>g. \<lparr> gen_module = m, gen_revision = g_revision g \<rparr>) (option_filter g_enabled (hm_get (st_modules s) m))"

definition generation_matches :: "Generation \<Rightarrow> GrantState \<Rightarrow> bool" where
  "generation_matches g s = (generation_from_state s (gen_module g) = Some g)"

definition generation_capture :: "Device \<Rightarrow> string option \<Rightarrow> Module \<Rightarrow> Generation option" where
  "generation_capture d lock m =
     (case load_store (store_file d) lock of Inl _ \<Rightarrow> None | Inr s \<Rightarrow> generation_from_state s m)"

definition valid_fresh :: "Device \<Rightarrow> string option \<Rightarrow> Generation \<Rightarrow> bool" where
  "valid_fresh d lock g = (case load_store (store_file d) lock of Inl _ \<Rightarrow> False | Inr s \<Rightarrow> generation_matches g s)"

definition generation_valid :: "Device \<Rightarrow> string option \<Rightarrow> Instant \<Rightarrow> Instant \<Rightarrow> Generation \<Rightarrow> bool \<times> Device" where
  "generation_valid d lock t1 t2 g = (let (s, d1) = with_cached d lock t1 t2 in (generation_matches g s, d1))"

definition worker_new :: "Device \<Rightarrow> Generation \<Rightarrow> Device" where
  "worker_new d g = d\<lparr>WORKERS := hm_insert g (unwrap_or (hm_get (WORKERS d) g) 0 + 1) (WORKERS d)\<rparr>"

text \<open>\<open>Drop\<close>; \<open>None\<close> is the panic of \<open>*n -= 1\<close> at zero.\<close>

definition worker_drop :: "Device \<Rightarrow> Generation \<Rightarrow> Device option" where
  "worker_drop d g =
     (case hm_get (WORKERS d) g of
        None \<Rightarrow> Some d
      | Some 0 \<Rightarrow> None
      | Some (Suc n) \<Rightarrow> Some (d\<lparr>WORKERS := (if n = 0 then hm_remove g (WORKERS d) else hm_insert g n (WORKERS d))\<rparr>))"

definition active_workers :: "Device \<Rightarrow> Generation \<Rightarrow> nat" where
  "active_workers d g = unwrap_or (hm_get (WORKERS d) g) 0"

text \<open>The lease is dropped again when the grant is gone.\<close>

definition command_worker :: "Device \<Rightarrow> string option \<Rightarrow> Generation \<Rightarrow> Module \<Rightarrow> (Generation, string) Result \<times> Device option" where
  "command_worker d lock g m =
     (if gen_module g \<noteq> m then (Err ''wrong command module'', Some d)
      else
        (let d1 = worker_new d g in
         if valid_fresh d1 lock g then (Ok g, Some d1)
         else (Err ''command grant revoked or replaced'', worker_drop d1 g)))"

text \<open>The end of \<open>disable_and_wait\<close>: \<open>pending\<close> is \<open>active_workers\<close> after the loop, which waits for zero or two seconds.\<close>

definition finish_ack :: "Value \<Rightarrow> nat \<Rightarrow> Value" where
  "finish_ack ack pending =
     (let a1 = v_set ack ''local_workers_pending'' (json_nat pending);
          a2 = v_set a1 ''local_registered_workers_stopped'' (Bool (pending = 0))
      in v_set a2 ''stop_status'' (Str (if pending = 0 then ''registered_local_workers_drained_global_unconfirmed''
                                         else ''local_barrier_timeout'')))"

definition disable_and_wait ::
  "Device \<Rightarrow> string option \<Rightarrow> WriteOutcome \<Rightarrow> bool \<Rightarrow> string \<Rightarrow> Value \<Rightarrow> nat \<Rightarrow> Value \<times> Device" where
  "disable_and_wait d lock out clip bad v pending =
     (let (ack, d1) = remote_disable d lock out clip bad v in
      if v_index ack ''status'' \<noteq> Str ''disabled'' then (ack, d1)
      else if module_of_value (v_index v ''module'') = None then (ack, d1)
      else (finish_ack ack pending, d1))"

section \<open>Fences\<close>

definition json_generation :: "Generation \<Rightarrow> Value" where
  "json_generation g = json_obj [(''module'', json_module (gen_module g)), (''revision'', json_u64 (gen_revision g))]"

text \<open>Unknown fields are ignored.\<close>

definition generation_of_value :: "Value \<Rightarrow> Generation option" where
  "generation_of_value v =
     Option.bind (open_struct_fields [''module'', ''revision''] v)
       (\<lambda>kvs. case (Option.bind (map_of kvs ''module'') module_of_value, Option.bind (map_of kvs ''revision'') as_u64) of
          (Some m, Some r) \<Rightarrow> Some \<lparr> gen_module = m, gen_revision = r \<rparr>
        | _ \<Rightarrow> None)"

definition stamp :: "Value \<Rightarrow> Generation option \<Rightarrow> Value" where
  "stamp v gen = (case gen of None \<Rightarrow> v | Some g \<Rightarrow> v_set v ''__module_generation'' (json_generation g))"

definition command_allowed_in :: "Uuid_fmt \<Rightarrow> GrantState \<Rightarrow> Value \<Rightarrow> bool" where
  "command_allowed_in f s v =
     (let kind = unwrap_or (as_str (v_index v ''type'')) [];
          fenced = (case v_get v ''__module_generation'' of
                      None \<Rightarrow> True
                    | Some x \<Rightarrow>
                        (case generation_of_value x of
                           None \<Rightarrow> False
                         | Some g \<Rightarrow> command_module f kind = Some (gen_module g) \<and> generation_matches g s))
      in fenced \<and> (case gate (from_kind f kind) of
                     GateModule m \<Rightarrow> state_enabled s m
                   | GateProtocol \<Rightarrow> True
                   | GateDisableModule \<Rightarrow> True
                   | GateDenied \<Rightarrow> False))"

definition admit_command_in :: "Uuid_fmt \<Rightarrow> GrantState \<Rightarrow> Value \<Rightarrow> Value option" where
  "admit_command_in f s v =
     (if \<not> command_allowed_in f s v then None
      else if v_get v ''__module_generation'' \<noteq> None then Some v
      else Some (stamp v (Option.bind (command_module f (unwrap_or (as_str (v_index v ''type'')) [])) (generation_from_state s))))"

definition admit_command :: "Uuid_fmt \<Rightarrow> Device \<Rightarrow> string option \<Rightarrow> Value \<Rightarrow> Value option" where
  "admit_command f d lock v = admit_command_in f (load_or_default (store_file d) lock) v"

definition event_module :: "Value \<Rightarrow> Module option" where
  "event_module v =
     (let t = unwrap_or (as_str (v_index v ''type'')) [] in
      if t = ''keys'' then Some KeyboardText
      else if t \<in> {''afk'', ''active''} then Some IdleActivity
      else if t \<in> {''window_focus'', ''app_icon''} then Some WindowActivity
      else if t \<in> {''url'', ''url_session''} then Some BrowserUrls
      else if t = ''software_inventory'' then Some SoftwareInventory
      else if t \<in> {''metrics'', ''resource_metrics''} then Some ResourceMetrics
      else if t = ''app_block_kill'' then Some AppPolicy
      else if t = ''terminal_output'' then Some Terminal
      else if t = ''script_result'' then Some Scripts
      else if t = ''clipboard_result'' then Some Clipboard
      else if t \<in> {''dir_list'', ''file_chunk'', ''file_upload_result'', ''fs_op_result''} then Some Files
      else if t \<in> {''log_tail'', ''log_sources''} then Some Logs
      else if t = ''agent_info'' \<and> \<not> is_null (v_index v ''hostname'') then Some SystemInfo
      else None)"

text \<open>A batch is nested events; an element of an array inside a value is smaller than the value.\<close>

lemma size_map_of: "map_of kvs k = Some v \<Longrightarrow> size v < Suc (size_list (size_prod (\<lambda>_. 0) size) kvs)"
  by (induction kvs) (auto split: if_splits)

lemma size_v_get: "v_get v k = Some x \<Longrightarrow> size x < size v"
  using size_map_of by (cases v) (auto simp: less_Suc_eq_le)

lemma size_event: "as_array (v_index v k) = Some es \<Longrightarrow> e \<in> set es \<Longrightarrow> size e < size v"
proof -
  assume es: "as_array (v_index v k) = Some es" and e: "e \<in> set es"
  from es have "v_index v k = Arr es" by (cases "v_index v k") simp_all
  then have "v_get v k = Some (Arr es)" by (cases "v_get v k") (simp_all add: v_index_def)
  from size_v_get [OF this] size_list_estimation' [OF e order_refl, of size] show "size e < size v" by simp
qed

text \<open>\<open>clip_current\<close> is \<open>input::clipboard::reply_session_current\<close>.\<close>

function outbound_allowed_in :: "(Value \<Rightarrow> bool) \<Rightarrow> GrantState \<Rightarrow> Value \<Rightarrow> bool" where
  "outbound_allowed_in clip_current s v =
     (if v_index v ''type'' = Str ''clipboard_result'' \<and> \<not> clip_current v then False
      else if v_index v ''type'' = Str ''batch'' then
        (case as_array (v_index v ''events'') of
           None \<Rightarrow> False
         | Some es \<Rightarrow> list_all (outbound_allowed_in clip_current s) es)
      else if is_null (v_index v ''__module_generation'') then event_module v = None
      else
        (case generation_of_value (v_index v ''__module_generation'') of
           None \<Rightarrow> False
         | Some g \<Rightarrow> generation_matches g s \<and> is_none_or (event_module v) (\<lambda>m. gen_module g = m)))"
  by pat_completeness auto
termination
  by (relation "measure (\<lambda>(_, _, v). size v)") (auto intro: size_event)

declare outbound_allowed_in.simps [simp del]

definition outbound_allowed :: "(Value \<Rightarrow> bool) \<Rightarrow> Device \<Rightarrow> string option \<Rightarrow> Value \<Rightarrow> bool" where
  "outbound_allowed clip_current d lock v = outbound_allowed_in clip_current (load_or_default (store_file d) lock) v"

section \<open>Messages\<close>

datatype Message = MText string | MBinary "u8 list" | MOther

text \<open>\<open>serde_json\<close> on text and bytes.\<close>

record Codec =
  from_str :: "string \<Rightarrow> Value option"
  to_string :: "Value \<Rightarrow> string"
  from_bytes :: "u8 list \<Rightarrow> Value option"
  to_vec :: "Value \<Rightarrow> u8 list"

definition to_le_bytes :: "u32 \<Rightarrow> u8 list" where
  "to_le_bytes w = [ucast w, ucast (drop_bit 8 w), ucast (drop_bit 16 w), ucast (drop_bit 24 w)]"

definition from_le_bytes :: "u8 list \<Rightarrow> u32" where
  "from_le_bytes b = foldr (\<lambda>x n. ucast x + 256 * n) b 0"

definition VGN1 :: "u8 list" where "VGN1 = [0x56, 0x47, 0x4E, 0x31]"

definition starts_with :: "'a list \<Rightarrow> 'a list \<Rightarrow> bool" where
  "starts_with b p = (take (length p) b = p)"

text \<open>\<open>b.get(i..j)\<close> and \<open>b.get(i..)\<close>\<close>

definition slice :: "'a list \<Rightarrow> nat \<Rightarrow> nat \<Rightarrow> 'a list option" where
  "slice b i j = (if i \<le> j \<and> j \<le> length b then Some (take (j - i) (drop i b)) else None)"

definition slice_from :: "'a list \<Rightarrow> nat \<Rightarrow> 'a list option" where
  "slice_from b i = (if i \<le> length b then Some (drop i b) else None)"

definition tag_binary :: "Codec \<Rightarrow> u8 list \<Rightarrow> Generation option \<Rightarrow> u8 list" where
  "tag_binary c b gen =
     (case gen of
        None \<Rightarrow> b
      | Some g \<Rightarrow> (let header = to_vec c (json_generation g)
                   in VGN1 @ to_le_bytes (of_nat (length header)) @ header @ b))"

definition payload_module :: "u8 list \<Rightarrow> Module" where
  "payload_module payload =
     (if starts_with payload HISTORY_FRAME_MAGIC then Recall
      else if starts_with payload AUDIO_FRAME_MAGIC then LiveAudio
      else LiveScreen)"

definition binary_allowed :: "Codec \<Rightarrow> Device \<Rightarrow> string option \<Rightarrow> u8 list \<Rightarrow> bool" where
  "binary_allowed c d lock b =
     (case slice b 4 8 of
        None \<Rightarrow> False
      | Some len \<Rightarrow>
     (let n = unat (from_le_bytes len) in
      case Option.bind (Option.bind (slice b 8 (8 + n)) (from_bytes c)) generation_of_value of
        None \<Rightarrow> False
      | Some g \<Rightarrow>
     (case slice_from b (8 + n) of
        None \<Rightarrow> False
      | Some payload \<Rightarrow> gen_module g = payload_module payload \<and> valid_fresh d lock g)))"

definition message_allowed :: "Codec \<Rightarrow> (Value \<Rightarrow> bool) \<Rightarrow> Device \<Rightarrow> string option \<Rightarrow> Message \<Rightarrow> bool" where
  "message_allowed c clip_current d lock msg =
     (case msg of
        MText t \<Rightarrow> is_some_and (from_str c t) (outbound_allowed clip_current d lock)
      | MBinary b \<Rightarrow> starts_with b VGN1 \<and> binary_allowed c d lock b
      | MOther \<Rightarrow> True)"

text \<open>\<open>strip\<close> of \<open>prepare_message\<close>; \<open>fresh\<close> is \<open>valid_fresh\<close>. The fields it blanks and removes are not \<open>events\<close>.\<close>

definition context_ok :: "(Generation \<Rightarrow> bool) \<Rightarrow> Value \<Rightarrow> bool" where
  "context_ok fresh v =
     is_some_and (generation_of_value (v_index v ''__window_generation'')) (\<lambda>g. gen_module g = WindowActivity \<and> fresh g)"

definition strip_fields :: "(Generation \<Rightarrow> bool) \<Rightarrow> Value \<Rightarrow> Value" where
  "strip_fields fresh v =
     (let v1 = (if v_index v ''type'' = Str ''keys'' \<and> \<not> context_ok fresh v
                then foldl (\<lambda>x field. v_set x field (Str [])) v [''app'', ''app_display'', ''window''] else v)
      in foldl v_remove v1 [''__module_generation'', ''__clipboard_session'', ''__window_generation''])"

function strip :: "(Generation \<Rightarrow> bool) \<Rightarrow> Value \<Rightarrow> Value" where
  "strip fresh v =
     (case as_array (v_index v ''events'') of
        None \<Rightarrow> strip_fields fresh v
      | Some es \<Rightarrow> v_set (strip_fields fresh v) ''events'' (Arr (map (strip fresh) es)))"
  by pat_completeness auto
termination
  by (relation "measure (\<lambda>(_, v). size v)") (auto intro: size_event)

declare strip.simps [simp del]

definition prepare_text :: "Codec \<Rightarrow> (Value \<Rightarrow> bool) \<Rightarrow> Device \<Rightarrow> string option \<Rightarrow> string \<Rightarrow> Message option" where
  "prepare_text c clip_current d lock t =
     (if \<not> message_allowed c clip_current d lock (MText t) then None
      else map_option (\<lambda>v. MText (to_string c (strip (valid_fresh d lock) v))) (from_str c t))"

section \<open>Invariants of the grants\<close>

definition grants_wf :: "GrantState \<Rightarrow> bool" where
  "grants_wf s \<longleftrightarrow> hm_wf (st_modules s) \<and> hm_wf (st_receipts s)
     \<and> (\<forall>m. grant_revision s m \<le> st_revision s)
     \<and> (\<forall>i r. hm_get (st_receipts s) i = Some r \<longrightarrow>
          rc_expected_revision r < rc_revision r \<and> rc_revision r \<le> grant_revision s (rc_module r))
     \<and> length (st_receipts s) \<le> 100000"

lemma grants_wf_default [simp]: "grants_wf GrantState_default"
  by (simp add: grants_wf_def GrantState_default_def grant_revision_def)

inductive grant_step :: "GrantState \<Rightarrow> unit \<Rightarrow> GrantState \<Rightarrow> bool" where
  owner_sets: "grant_step s () (snd (state_local_set s m on))"
| server_disables: "grant_step s () (snd (state_disable s m e i))"

text \<open>How grants may change over time.\<close>

definition evolves :: "GrantState \<Rightarrow> GrantState \<Rightarrow> bool" where
  "evolves s t \<longleftrightarrow> st_revision s \<le> st_revision t
     \<and> (\<forall>m. grant_revision s m \<le> grant_revision t m)
     \<and> (\<forall>m. grant_revision s m = grant_revision t m \<longrightarrow> hm_get (st_modules s) m = hm_get (st_modules t) m)
     \<and> (st_revision s = st_revision t \<longrightarrow> (\<forall>m. grant_revision s m = grant_revision t m))
     \<and> (\<forall>i r. hm_get (st_receipts s) i = Some r \<longrightarrow> hm_get (st_receipts t) i = Some r)"

definition grants_le :: "GrantState \<Rightarrow> GrantState \<Rightarrow> bool" where
  "grants_le s t \<longleftrightarrow> (grants_wf s \<longrightarrow> grants_wf t \<and> evolves s t)"

lemma evolves_refl: "evolves s s"
  by (simp add: evolves_def)

lemma evolves_trans:
  assumes "evolves s t" "evolves t u"
  shows "evolves s u"
  using assms unfolding evolves_def by (metis order.antisym order.trans)

lemma succ_less: "w \<noteq> - 1 \<Longrightarrow> w < w + (1 :: u64)"
  using unatSuc [of w] by (simp add: word_less_nat_alt add.commute add_eq_0_iff)

lemma local_set_le: "grants_le s (snd (state_local_set s m on))"
proof (cases "st_revision s = - 1")
  case True
  then show ?thesis by (simp add: state_local_set_def grants_le_def evolves_refl)
next
  case False
  show ?thesis
    unfolding grants_le_def
  proof (rule impI)
    assume wf: "grants_wf s"
    let ?t = "snd (state_local_set s m on)"
    have t: "st_revision ?t = st_revision s + 1" "st_receipts ?t = st_receipts s"
      "hm_get (st_modules ?t) n = (if n = m then Some \<lparr> g_enabled = on, g_revision = st_revision s + 1 \<rparr> else hm_get (st_modules s) n)"
      "grant_revision ?t n = (if n = m then st_revision s + 1 else grant_revision s n)" for n
      using False by (simp_all add: state_local_set_def grant_revision_def Let_def)
    have less: "st_revision s < st_revision s + 1" using False by (rule succ_less)
    have below: "grant_revision s n < st_revision s + 1" for n
      using wf less by (meson grants_wf_def order.strict_trans1)
    have "hm_wf (st_modules ?t)" using wf False by (auto simp: state_local_set_def Let_def grants_wf_def)
    moreover have "rc_revision r \<le> grant_revision ?t (rc_module r)" if "hm_get (st_receipts s) i = Some r" for i r
    proof -
      have "rc_revision r \<le> grant_revision s (rc_module r)" using wf that by (auto simp: grants_wf_def)
      with below [of "rc_module r"] show ?thesis by (auto simp: t)
    qed
    ultimately have "grants_wf ?t"
      using wf below by (auto simp: t grants_wf_def less_imp_le)
    moreover have "evolves s ?t"
      using less below by (auto simp: evolves_def t less_imp_le) (metis order.irrefl)+
    ultimately show "grants_wf ?t \<and> evolves s ?t" ..
  qed
qed

lemma grants_wfD:
  assumes "grants_wf s"
  shows "grant_revision s m \<le> st_revision s" "hm_get (st_receipts s) i = Some r \<Longrightarrow> rc_expected_revision r < rc_revision r"
    "hm_get (st_receipts s) i = Some r \<Longrightarrow> rc_revision r \<le> grant_revision s (rc_module r)"
  using assms by (auto simp: grants_wf_def)

text \<open>The cases of \<open>disable\<close>.\<close>

lemma state_disable_cases:
  obtains (refused) e where "state_disable s m e0 i = (Err e, s)"
  | (known) r where "hm_get (st_receipts s) i = Some r"
      "state_disable s m e0 i = (Ok (if rc_module r = m \<and> rc_expected_revision r = e0 then Duplicate else Conflict), s)"
  | (stale) "grant_revision s m \<noteq> e0" "state_disable s m e0 i = (Ok Stale, s)"
  | (disabled) s1 where "grant_revision s m = e0" "hm_get (st_receipts s) i = None" "length (st_receipts s) < 100000"
      "state_local_set s m False = (Ok (), s1)" "st_revision s \<noteq> - 1"
      "state_disable s m e0 i = (Ok Disabled, s1\<lparr>st_receipts :=
         hm_insert i \<lparr> rc_module = m, rc_expected_revision = e0, rc_revision = st_revision s1 \<rparr> (st_receipts s1)\<rparr>)"
proof (cases "i \<noteq> [] \<and> length i \<le> 128")
  case False
  then show thesis using refused by (auto simp: state_disable_def)
next
  case True
  show thesis
  proof (cases "hm_get (st_receipts s) i")
    case (Some r)
    with True show thesis by (intro known [of r]) (simp_all add: state_disable_def)
  next
    case None
    show thesis
    proof (cases "grant_revision s m = e0 \<and> length (st_receipts s) < 100000 \<and> st_revision s \<noteq> - 1")
      case True
      with None \<open>i \<noteq> [] \<and> length i \<le> 128\<close> show thesis
        by (intro disabled [of "snd (state_local_set s m False)"]) (simp_all add: state_disable_def state_local_set_def Let_def)
    next
      case False
      show thesis
      proof (cases "grant_revision s m = e0")
        case eq: True
        have "\<exists>e. state_disable s m e0 i = (Err e, s)"
          using False None True eq by (auto simp: state_disable_def state_local_set_def)
        then show thesis using refused by blast
      next
        case neq: False
        with None True show thesis by (intro stale) (simp_all add: state_disable_def)
      qed
    qed
  qed
qed

lemma disable_le: "grants_le s (snd (state_disable s m e i))"
proof (cases rule: state_disable_cases [of s m e i])
  case (disabled s1)
  show ?thesis
    unfolding grants_le_def
  proof (rule impI)
    assume wf: "grants_wf s"
    let ?t = "snd (state_disable s m e i)"
    have "s1 = snd (state_local_set s m False)" using disabled(4) by simp
    with local_set_le [of s m False] wf have s1: "grants_wf s1" "evolves s s1" by (simp_all add: grants_le_def)
    have rev: "st_revision s1 = st_revision s + 1" "grant_revision s1 m = st_revision s + 1" "st_receipts s1 = st_receipts s"
      using disabled(4,5) by (auto simp: state_local_set_def Let_def grant_revision_def)
    have same: "grant_revision ?t n = grant_revision s1 n" for n by (simp add: disabled(6) grant_revision_def)
    have "e < st_revision s + 1"
      using grants_wfD(1) [OF wf, of m] succ_less [OF disabled(5)] disabled(1) by (simp add: order.strict_trans1)
    with s1(1) rev have "grants_wf ?t"
      using hm_length_insert_fresh [OF disabled(2)] disabled(3) unfolding grants_wf_def same by (auto simp: disabled(6))
    moreover have "evolves s ?t"
      using s1(2) disabled(2) rev(3) unfolding evolves_def same by (auto simp: disabled(6))
    ultimately show "grants_wf ?t \<and> evolves s ?t" ..
  qed
qed (simp_all add: grants_le_def evolves_refl)

interpretation device_grants: monotone_system grant_step grants_le
proof unfold_locales
  show "grants_le s s" for s by (simp add: grants_le_def evolves_refl)
  show "grants_le s u" if "grants_le s t" "grants_le t u" for s t u
    using that evolves_trans by (auto simp: grants_le_def)
  show "grants_le s t" if "grant_step s l t" for s l t
    using that by cases (simp_all add: local_set_le disable_le)
qed

section \<open>What the device reports\<close>

definition device_state :: "bool \<Rightarrow> GrantState \<Rightarrow> Module \<Rightarrow> ModuleState" where
  "device_state clip s m =
     (let g = unwrap_or (hm_get (st_modules s) m) Grant_default
      in \<lparr> ms_module = m, available = module_available clip m, enabled = (g_enabled g \<and> module_available clip m),
           ms_revision = g_revision g, authorization_required = (\<not> g_enabled g) \<rparr>)"

definition device_report :: "bool \<Rightarrow> GrantState \<Rightarrow> ModuleReport" where
  "device_report clip s = \<lparr> report_kind = ''module_states'', schema_version = 1, report_revision = st_revision s,
     report_modules = map (device_state clip s) MODULES \<rparr>"

lemma device_state_fields:
  "ms_module (device_state clip s m) = m" "ms_revision (device_state clip s m) = grant_revision s m"
  "authorization_required (device_state clip s m) = (\<not> state_enabled s m)"
  "enabled (device_state clip s m) = (state_enabled s m \<and> module_available clip m)"
  "available (device_state clip s m) = module_available clip m"
  by (cases "hm_get (st_modules s) m"; simp add: device_state_def grant_revision_def state_enabled_def Let_def Grant_default_def)+

lemma state_wire_report: "state_wire clip s = json_report (device_report clip s)"
proof -
  have "wire_module clip s = (\<lambda>m. json_module_state (device_state clip s m))"
    by (simp add: fun_eq_iff wire_module_def json_module_state_def device_state_def Let_def)
  then show ?thesis by (simp add: state_wire_def json_report_def device_report_def comp_def)
qed

lemma device_report_validated:
  assumes "grants_wf s"
  shows "validated (device_report clip s)"
proof -
  have "map ms_module (map (device_state clip s) MODULES) = MODULES" by (simp add: comp_def device_state_fields)
  with distinct_MODULES have "distinct (map ms_module (report_modules (device_report clip s)))" by (simp add: device_report_def)
  with grants_wfD(1) [OF assms] show ?thesis
    by (auto simp: validated_def device_report_def device_state_fields grant_consistent_def)
qed

lemma device_report_get:
  assumes "grants_wf s"
  shows "report_get (device_report clip s) m = device_state clip s m"
proof -
  have "device_state clip s m \<in> set (report_modules (device_report clip s))" by (simp add: device_report_def set_MODULES)
  from report_get_eq [OF device_report_validated [OF assms] this] show ?thesis by (simp add: device_state_fields)
qed

lemma device_report_parses: "grants_wf s \<Longrightarrow> ModuleReport_parse (state_wire clip s) = Ok (device_report clip s)"
  unfolding state_wire_report by (rule validated_parse [OF device_report_validated])

lemma state_enabled_evolves:
  "evolves s t \<Longrightarrow> grant_revision s m = grant_revision t m \<Longrightarrow> state_enabled s m = state_enabled t m"
  by (simp add: evolves_def state_enabled_def)

lemma evolved_report_follows:
  assumes "grants_wf t" "grants_wf s" "evolves s t"
  shows "follows (device_report clip' t) (device_report clip s)"
proof -
  have "st_revision s \<le> st_revision t" using assms(3) by (simp add: evolves_def)
  moreover have "grant_revision s m \<le> grant_revision t m"
    "grant_revision t m = grant_revision s m \<Longrightarrow> state_enabled t m = state_enabled s m"
    "st_revision t = st_revision s \<Longrightarrow> grant_revision t m = grant_revision s m" for m
    using assms(3) state_enabled_evolves [OF assms(3), of m] by (auto simp: evolves_def)
  ultimately show ?thesis
    unfolding follows_get [OF device_report_validated [OF assms(1)]] device_report_get [OF assms(1)] device_report_get [OF assms(2)]
    by (simp add: device_state_fields) (simp add: device_report_def)
qed

text \<open>
  C17. Device and server agree on reports: through any sequence of local grants and remote disables, starting with
  an empty store, and however the availability of the clipboard changes, every report the device sends
  parses on the server to exactly the device's grants, and a later report follows an earlier one, so
  that the server never refuses an honest device.
\<close>

theorem device_reports_are_accepted:
  assumes "reaches grant_step GrantState_default s" and "reaches grant_step s t"
  shows "\<exists>r r'. ModuleReport_parse (state_wire clip s) = Ok r \<and> ModuleReport_parse (state_wire clip' t) = Ok r' \<and> follows r' r
    \<and> (\<forall>m. enabled (report_get r' m) = (state_enabled t m \<and> module_available clip' m)
         \<and> ms_revision (report_get r' m) = grant_revision t m)"
proof -
  have s: "grants_wf s" using device_grants.le_reaches [OF assms(1)] by (simp add: grants_le_def)
  with device_grants.le_reaches [OF assms(2)] have t: "grants_wf t" "evolves s t" by (simp_all add: grants_le_def)
  show ?thesis
    using device_report_parses [OF s] device_report_parses [OF t(1)] evolved_report_follows [OF t(1) s t(2)]
    by (intro exI [of _ "device_report clip s"] exI [of _ "device_report clip' t"])
      (simp add: device_report_get [OF t(1)] device_state_fields)
qed

abbreviation owner_enabled :: GrantState where
  "owner_enabled \<equiv> snd (state_local_set GrantState_default RemoteInput True)"

lemma owner_enabled_reachable: "reaches grant_step GrantState_default owner_enabled"
  by (rule reaches_step, rule reaches_refl, rule owner_sets)

theorem device_reports_are_accepted_witness:
  "\<exists>r. ModuleReport_parse (state_wire True owner_enabled) = Ok r \<and> enabled (report_get r RemoteInput)"
proof -
  have "state_enabled owner_enabled RemoteInput" "module_available True RemoteInput"
    by (simp_all add: state_enabled_def state_local_set_def GrantState_default_def module_available_def Let_def)
  with device_reports_are_accepted [OF owner_enabled_reachable reaches_refl, of True True] show ?thesis by auto
qed

section \<open>The handshake\<close>

lemma disable_command_fields:
  "v_index (to_value f (disable_command rq)) ''module'' = json_module (req_module rq)"
  "v_index (to_value f (disable_command rq)) ''expected_revision'' = json_u64 (req_expected_revision rq)"
  "v_index (to_value f (disable_command rq)) ''command_id'' = json_uuid f (req_command_id rq)"
  by (simp_all add: disable_command_def to_value_def DisableModule_new_def opt_field_def)

lemma ack_decodes:
  assumes "uuid_fmt_ok f" "is_obj x" "v_get x ''type'' = Some (Str k)" "v_get x ''command_id'' = Some (json_uuid f c)"
    "v_get x ''module'' = Some (json_module m)" "v_get x ''ok'' = Some (Bool b)" "v_get x ''status'' = Some (Str s)"
    "v_get x ''state'' = sv" "sv \<noteq> Some Null" "v_get x ''error'' = map_option Str e" "v_get x ''persisted'' = map_option Bool p"
    "v_get x ''stopped'' = map_option Bool q" "v_get x ''stop_status'' = map_option Str t"
  shows "disable_ack_of_value f x = Some \<lparr> ack_kind = k, ack_command_id = c, ack_module = m, ack_ok = b, ack_status = s, ack_state = sv,
    ack_error = e, ack_persisted = unwrap_or p False, ack_stopped = unwrap_or q False, ack_stop_status = t \<rparr>"
proof -
  obtain kvs where x: "x = Obj kvs" using assms(2) by (cases x) simp_all
  have "as_str (json_uuid f c) = Some (to_str f c)" "parse_str f (to_str f c) = Some c"
    using assms(1) by (simp_all add: json_uuid_def uuid_fmt_ok_def)
  moreover have "default_opt_string (map_option Str y) = Some y" for y by (cases y) (simp_all add: default_opt_string_def is_null_def)
  moreover have "default_bool (map_option Bool y) = Some (unwrap_or y False)" for y by (cases y) (simp_all add: default_bool_def)
  moreover have "default_opt_value sv = sv" using assms(9) by (cases sv) (auto simp: default_opt_value_def is_null_def)
  ultimately show ?thesis
    using assms(3-8,10-13) by (simp add: x disable_ack_of_value_def)
qed

lemma disable_ack_decodes:
  assumes "uuid_fmt_ok f"
  shows "disable_ack_of_value f (disable_ack clip (to_value f (disable_command rq)) s r) =
    Some \<lparr> ack_kind = ''module_disable_ack'', ack_command_id = req_command_id rq, ack_module = req_module rq,
      ack_ok = (r = Disabled \<or> r = Duplicate), ack_status = result_status r, ack_state = Some (state_wire clip s), ack_error = None,
      ack_persisted = (r = Disabled \<or> r = Duplicate), ack_stopped = False, ack_stop_status = Some ''unconfirmed'' \<rparr>"
  by (subst ack_decodes [OF assms, where p = "Some (r = Disabled \<or> r = Duplicate)" and q = "Some False" and t = "Some ''unconfirmed''"])
    (simp_all add: disable_ack_def disable_command_fields Let_def state_wire_def json_obj_def)

lemma finished_ack_decodes:
  assumes "uuid_fmt_ok f"
  shows "\<exists>t. length t \<le> 256 \<and> disable_ack_of_value f (finish_ack (disable_ack clip (to_value f (disable_command rq)) s Disabled) n) =
    Some \<lparr> ack_kind = ''module_disable_ack'', ack_command_id = req_command_id rq, ack_module = req_module rq, ack_ok = True,
      ack_status = ''disabled'', ack_state = Some (state_wire clip s), ack_error = None, ack_persisted = True, ack_stopped = False,
      ack_stop_status = Some t \<rparr>"
proof -
  obtain kvs where x: "disable_ack clip (to_value f (disable_command rq)) s Disabled = Obj kvs"
    by (simp add: disable_ack_def json_obj_def Let_def)
  have get: "map_of kvs = v_get (disable_ack clip (to_value f (disable_command rq)) s Disabled)" by (simp add: x fun_eq_iff)
  let ?t = "if n = 0 then ''registered_local_workers_drained_global_unconfirmed'' else ''local_barrier_timeout''"
  have "disable_ack_of_value f (finish_ack (disable_ack clip (to_value f (disable_command rq)) s Disabled) n) =
    Some \<lparr> ack_kind = ''module_disable_ack'', ack_command_id = req_command_id rq, ack_module = req_module rq, ack_ok = True,
      ack_status = ''disabled'', ack_state = Some (state_wire clip s), ack_error = None, ack_persisted = unwrap_or (Some True) False,
      ack_stopped = unwrap_or (Some False) False, ack_stop_status = Some ?t \<rparr>"
    unfolding x finish_ack_def Let_def
    by (rule ack_decodes [OF assms]) (simp_all add: get disable_ack_def disable_command_fields Let_def state_wire_def json_obj_def)
  then show ?thesis by (intro exI [of _ ?t]) simp
qed

lemma failed_ack_decodes:
  assumes "uuid_fmt_ok f"
  shows "disable_ack_of_value f (disable_failed (to_value f (disable_command rq)) e) =
    Some \<lparr> ack_kind = ''module_disable_ack'', ack_command_id = req_command_id rq, ack_module = req_module rq, ack_ok = False,
      ack_status = ''error'', ack_state = None, ack_error = Some e, ack_persisted = False, ack_stopped = False, ack_stop_status = None \<rparr>"
  by (subst ack_decodes [OF assms, where b = False and p = None and q = None and t = None and e = "Some e"])
    (simp_all add: disable_failed_def disable_command_fields)

text \<open>When the server accepts an acknowledgment.\<close>

lemma accept_ack_ok:
  assumes "disable_ack_of_value f x = Some ack" "ack_kind ack = ''module_disable_ack''" "current_conn (agents st) a = Some conn"
    "module_disable_request tbl a (ack_command_id ack) = Some (Some rq)" "req_pending rq" "check_ack (agents st) a conn ack rq = None"
    "case ack_state ack of None \<Rightarrow> ack_status ack = ''error''
       | Some v \<Rightarrow> (\<exists>r. ModuleReport_parse v = Ok r \<and> check_ack_report (agents st) a conn ack rq r = None)"
  shows "fst (accept_module_disable_ack f st tbl a conn x True True True) = Ok ()"
  using assms by (cases "ack_state ack") (auto simp: accept_module_disable_ack_def apply_ack_def Let_def)

text \<open>What the device answers to a disable command.\<close>

lemma disable_and_wait_cases:
  assumes "uuid_fmt_ok f" "to_str f (req_command_id rq) \<noteq> []" "length (to_str f (req_command_id rq)) \<le> 128" "store_file d = Stored s"
  obtains (failed) e where "fst (disable_and_wait d lock out clip bad (to_value f (disable_command rq)) n) =
        disable_failed (to_value f (disable_command rq)) e"
  | (answered) r t where "state_disable s (req_module rq) (req_expected_revision rq) (to_str f (req_command_id rq)) = (Ok r, t)"
      "store_file (snd (disable_and_wait d lock out clip bad (to_value f (disable_command rq)) n)) = Stored t"
      "fst (disable_and_wait d lock out clip bad (to_value f (disable_command rq)) n) =
         (if r = Disabled then finish_ack (disable_ack clip (to_value f (disable_command rq)) t r) n
          else disable_ack clip (to_value f (disable_command rq)) t r)"
proof -
  let ?v = "to_value f (disable_command rq)" and ?i = "to_str f (req_command_id rq)"
  have v: "module_of_value (v_index ?v ''module'') = Some (req_module rq)" "as_u64 (v_index ?v ''expected_revision'') = Some (req_expected_revision rq)"
    "as_str (v_index ?v ''command_id'') = Some ?i"
    by (simp_all add: disable_command_fields json_u64_def json_uuid_def)
  have status: "v_index (disable_ack clip ?v t r) ''status'' = Str (result_status r)" for t r by (simp add: disable_ack_def Let_def)
  have failed_status: "v_index (disable_failed ?v e) ''status'' = Str ''error''" for e by (simp add: disable_failed_def)
  have is_disabled: "result_status r = ''disabled'' \<longleftrightarrow> r = Disabled" for r by (cases r) simp_all
  obtain r t where dis: "state_disable s (req_module rq) (req_expected_revision rq) ?i = (r, t)" by force
  show thesis
  proof (cases "\<exists>r'. lock = None \<and> r = Ok r' \<and> out = Written")
    case True
    then obtain r' where r': "lock = None" "r = Ok r'" "out = Written" by blast
    show thesis
      by (rule answered [of r' t])
        (use r' dis in \<open>simp_all add: disable_and_wait_def remote_disable_def v transaction_at_def assms(4) status is_disabled Let_def\<close>)
  next
    case False
    have "\<exists>e. fst (disable_and_wait d lock out clip bad ?v n) = disable_failed ?v e"
      using False dis by (cases lock; cases r; cases out)
        (auto simp: disable_and_wait_def remote_disable_def v transaction_at_def assms(4) failed_status Let_def)
    with failed show thesis by blast
  qed
qed

text \<open>What each result says about the grant afterwards.\<close>

lemma state_disable_result:
  assumes "grants_wf s" "state_disable s m e i = (Ok r, t)"
  shows "r = Disabled \<or> r = Duplicate \<Longrightarrow> e < grant_revision t m" "r = Disabled \<Longrightarrow> \<not> state_enabled t m"
    "r = Stale \<Longrightarrow> grant_revision t m \<noteq> e"
proof -
  have "(r = Disabled \<or> r = Duplicate \<longrightarrow> e < grant_revision t m) \<and> (r = Disabled \<longrightarrow> \<not> state_enabled t m) \<and> (r = Stale \<longrightarrow> grant_revision t m \<noteq> e)"
  proof (cases rule: state_disable_cases [of s m e i])
    case (known rc)
    with assms grants_wfD(2,3) [OF assms(1) known(1)] show ?thesis by (auto split: if_splits)
  next
    case (disabled s1)
    have "grant_revision t m = st_revision s + 1" "\<not> state_enabled t m"
      using disabled(4-6) assms(2) by (auto simp: state_local_set_def Let_def grant_revision_def state_enabled_def)
    moreover have "e < st_revision s + 1"
      using grants_wfD(1) [OF assms(1), of m] succ_less [OF disabled(5)] disabled(1) by (simp add: order.strict_trans1)
    ultimately show ?thesis using disabled(6) assms(2) by auto
  qed (use assms in auto)
  then show "r = Disabled \<or> r = Duplicate \<Longrightarrow> e < grant_revision t m" "r = Disabled \<Longrightarrow> \<not> state_enabled t m"
    "r = Stale \<Longrightarrow> grant_revision t m \<noteq> e" by simp_all
qed

lemma device_ack_accepted:
  assumes "grants_wf s" "grants_wf s0" "evolves s0 s" "state_disable s m (req_expected_revision rq) i = (Ok r, t)"
    and "hm_get (modules reg) a = Some rt" "rm_conn_id rt = conn" "rm_report rt = device_report clip0 s0"
    and "ack_module ack = m" "ack_status ack = result_status r"
  shows "check_ack_report reg a conn ack rq (device_report clip t) = None"
proof -
  have t: "grants_wf t" "evolves s t" using disable_le [of s m "req_expected_revision rq" i] assms(1,4) by (auto simp: grants_le_def)
  note res = state_disable_result [OF assms(1,4)]
  have "follows (device_report clip t) (device_report clip0 s0)"
    by (rule evolved_report_follows [OF t(1) assms(2) evolves_trans [OF assms(3) t(2)]])
  then have "report_follows_current reg a conn (device_report clip t)"
    using assms(5-7) by (simp add: report_follows_current_def)
  with res assms(8,9) show ?thesis
    by (cases r) (auto simp: check_ack_report_def ack_success_def Let_def device_report_get [OF t(1)] device_state_fields)
qed

text \<open>
  C15. The disable handshake between server and device completes: when a device answers a disable command that is
  pending and was sent on its connection, the server accepts the answer, whatever the result (applied, replayed,
  stale, conflicting, or failed for any reason on the device), provided the report the server last had came from an
  earlier state of the device's own store. If the answer says disabled, the module is off in the
  device's stored grants.
\<close>

theorem disable_handshake_completes:
  assumes "uuid_fmt_ok f" and "to_str f (req_command_id rq) \<noteq> []" and "length (to_str f (req_command_id rq)) \<le> 128"
    and "current_conn (agents st) a = Some conn" and "hm_get (modules (agents st)) a = Some rt" and "rm_conn_id rt = conn"
    and "req_command_id rq \<in> rm_sent rt" and "module_disable_request tbl a (req_command_id rq) = Some (Some rq)" and "req_pending rq"
    and "reaches grant_step GrantState_default s0" and "ModuleReport_parse (state_wire clip0 s0) = Ok (rm_report rt)"
    and "reaches grant_step s0 s" and "store_file d = Stored s"
    and "disable_and_wait d lock out clip bad (to_value f (disable_command rq)) n = (ack, d')"
  shows "fst (accept_module_disable_ack f st tbl a conn ack True True True) = Ok ()
    \<and> (v_index ack ''status'' = Str ''disabled'' \<longrightarrow> (\<exists>t. store_file d' = Stored t \<and> \<not> state_enabled t (req_module rq)))"
proof -
  have s0: "grants_wf s0" using device_grants.le_reaches [OF assms(10)] by (simp add: grants_le_def)
  with device_grants.le_reaches [OF assms(12)] have s: "grants_wf s" "evolves s0 s" by (simp_all add: grants_le_def)
  have rt: "rm_report rt = device_report clip0 s0" using assms(11) device_report_parses [OF s0, of clip0] by simp
  have check: "check_ack (agents st) a conn x rq = None"
    if "ack_command_id x = req_command_id rq" "ack_module x = req_module rq" "ack_ok x = ack_success x" "ack_success x \<longrightarrow> ack_persisted x"
      "ack_status x \<in> {''disabled'', ''duplicate'', ''stale'', ''conflict'', ''error''}" "\<not> ack_stopped x" "length (ack_stop_text x) \<le> 256" for x
    using that assms(5-7) by (simp add: check_ack_def)
  have status: "result_status r \<in> {''disabled'', ''duplicate'', ''stale'', ''conflict'', ''error''}" for r by (cases r) simp_all
  show ?thesis
  proof (rule disable_and_wait_cases [OF assms(1-3,13), of lock out clip bad n])
    fix e
    assume failed: "fst (disable_and_wait d lock out clip bad (to_value f (disable_command rq)) n) = disable_failed (to_value f (disable_command rq)) e"
    have "fst (accept_module_disable_ack f st tbl a conn (disable_failed (to_value f (disable_command rq)) e) True True True) = Ok ()"
      by (rule accept_ack_ok [OF failed_ack_decodes [OF assms(1)] _ assms(4) _ assms(9)])
        (use assms(8) in \<open>auto intro!: check simp: ack_success_def ack_stop_text_def\<close>)
    with failed assms(14) show ?thesis by (simp add: disable_failed_def)
  next
    fix r t
    assume answered: "state_disable s (req_module rq) (req_expected_revision rq) (to_str f (req_command_id rq)) = (Ok r, t)"
      "store_file (snd (disable_and_wait d lock out clip bad (to_value f (disable_command rq)) n)) = Stored t"
      "fst (disable_and_wait d lock out clip bad (to_value f (disable_command rq)) n) =
         (if r = Disabled then finish_ack (disable_ack clip (to_value f (disable_command rq)) t r) n
          else disable_ack clip (to_value f (disable_command rq)) t r)"
    let ?x = "disable_ack clip (to_value f (disable_command rq)) t r"
    have t: "grants_wf t" using disable_le [of s "req_module rq"] answered(1) s(1) by (metis grants_le_def snd_conv)
    obtain x where x: "disable_ack_of_value f ack = Some x" "ack_kind x = ''module_disable_ack''" "ack_command_id x = req_command_id rq"
      "ack_module x = req_module rq" "ack_ok x = (r = Disabled \<or> r = Duplicate)" "ack_persisted x = (r = Disabled \<or> r = Duplicate)"
      "ack_status x = result_status r" "ack_state x = Some (state_wire clip t)" "\<not> ack_stopped x" "length (ack_stop_text x) \<le> 256"
      using answered(3) assms(14) finished_ack_decodes [OF assms(1), of clip rq t n] disable_ack_decodes [OF assms(1), of clip rq t r]
      by (cases "r = Disabled") (auto simp: ack_stop_text_def)
    have succ: "ack_success x = (r = Disabled \<or> r = Duplicate)" using x(7) by (cases r) (simp_all add: ack_success_def)
    have checked: "check_ack (agents st) a conn x rq = None"
      using x(3-7,9,10) succ status [of r] by (intro check) simp_all
    have "case ack_state x of None \<Rightarrow> ack_status x = ''error''
        | Some v \<Rightarrow> (\<exists>rep. ModuleReport_parse v = Ok rep \<and> check_ack_report (agents st) a conn x rq rep = None)"
      using x(8) device_report_parses [OF t] device_ack_accepted [OF s(1) s0 s(2) answered(1) assms(5,6) rt x(4,7)] by simp
    from accept_ack_ok [OF x(1,2) assms(4) _ assms(9) checked this] x(3) assms(8)
    have "fst (accept_module_disable_ack f st tbl a conn ack True True True) = Ok ()" by simp
    moreover have "v_index ?x ''status'' = Str (result_status r)" by (simp add: disable_ack_def Let_def)
    then have "v_index ack ''status'' = Str ''disabled'' \<Longrightarrow> r = Disabled"
      using answered(3) assms(14) by (cases r) auto
    ultimately show ?thesis
      using answered(2) assms(14) state_disable_result(2) [OF s(1) answered(1)] by auto
  qed
qed

definition example_rt :: RuntimeModules where
  "example_rt = \<lparr> rm_conn_id = 3, rm_report = device_report True owner_enabled, rm_pending = [], rm_sent = {30}, rm_last_sent = [] \<rparr>"

abbreviation example_waiting :: AppState where
  "example_waiting \<equiv> example_full\<lparr>agents := example_registry\<lparr>modules := [(9, example_rt)]\<rparr>\<rparr>"

definition example_device :: Device where
  "example_device = \<lparr> store_file = Stored owner_enabled, CACHE = None, WORKERS = [] \<rparr>"

theorem disable_handshake_completes_witness:
  "\<exists>rq. module_disable_request (insert_disable no_requests 9 RemoteInput 1 30) 9 30 = Some (Some rq)
     \<and> fst (accept_module_disable_ack binary_fmt example_waiting (insert_disable no_requests 9 RemoteInput 1 30) 9 3
         (fst (disable_and_wait example_device None Written True [] (to_value binary_fmt (disable_command rq)) 0)) True True True) = Ok ()"
proof -
  let ?tbl = "insert_disable no_requests 9 RemoteInput 1 30"
  obtain rq where rq: "module_disable_request ?tbl 9 30 = Some (Some rq)" "req_pending rq" "req_command_id rq = 30"
    by (simp add: insert_disable_def module_disable_request_def disable_row_def request_def row_pending_def del: module_as_str.simps)
  have wf: "grants_wf owner_enabled" using device_grants.le_reaches [OF owner_enabled_reachable] by (simp add: grants_le_def)
  have "fst (accept_module_disable_ack binary_fmt example_waiting ?tbl 9 3
         (fst (disable_and_wait example_device None Written True [] (to_value binary_fmt (disable_command rq)) 0)) True True True) = Ok ()"
  proof (rule conjunct1 [OF disable_handshake_completes])
    show "to_str binary_fmt (req_command_id rq) \<noteq> []" "length (to_str binary_fmt (req_command_id rq)) \<le> 128"
      by (auto simp: binary_fmt_def simp del: bits_of.simps dest: arg_cong [of _ _ length])
    show "hm_get (modules (agents example_waiting)) 9 = Some example_rt" by simp
    show "req_command_id rq \<in> rm_sent example_rt" "rm_conn_id example_rt = 3" by (simp_all add: example_rt_def rq)
    show "ModuleReport_parse (state_wire True owner_enabled) = Ok (rm_report example_rt)"
      using device_report_parses [OF wf] by (simp add: example_rt_def)
    show "store_file example_device = Stored owner_enabled" by (simp add: example_device_def)
    show "current_conn (agents example_waiting) 9 = Some 3" by (simp add: example_registry_def example_conn_def current_conn_def)
    show "module_disable_request ?tbl 9 (req_command_id rq) = Some (Some rq)" using rq by simp
    show "disable_and_wait example_device None Written True [] (to_value binary_fmt (disable_command rq)) 0 =
        (fst (disable_and_wait example_device None Written True [] (to_value binary_fmt (disable_command rq)) 0),
         snd (disable_and_wait example_device None Written True [] (to_value binary_fmt (disable_command rq)) 0))" by simp
  qed (use binary_fmt_ok rq owner_enabled_reachable in \<open>auto intro: reaches_refl\<close>)
  with rq(1) show ?thesis by blast
qed

section \<open>Commands at the device\<close>

lemma generation_roundtrip: "generation_of_value (json_generation g) = Some g"
  by (simp add: generation_of_value_def json_generation_def json_u64_def json_obj_def)

lemma generation_matches_iff:
  "generation_matches g s \<longleftrightarrow> state_enabled s (gen_module g) \<and> grant_revision s (gen_module g) = gen_revision g"
  by (cases g) (auto simp: generation_matches_def generation_from_state_def state_enabled_def grant_revision_def option_filter_def
      split: option.splits)

lemma server_stamp: "module_generation m r = json_generation \<lparr> gen_module = m, gen_revision = r \<rparr>"
  by (simp add: module_generation_def json_generation_def)

lemma admit_stamped:
  assumes "gate (parse f c) = GateModule m" "v_get c ''__module_generation'' = Some (json_generation g)"
  shows "admit_command_in f s c = (if gen_module g = m \<and> generation_matches g s then Some c else None)"
proof -
  let ?kind = "unwrap_or (as_str (v_index c ''type'')) []"
  have g: "gate (from_kind f ?kind) = GateModule m"
    using assms(1) by (simp add: gate_parse_kind)
  then have "command_module f ?kind = Some m" by (simp add: command_module_def module_of_command_eq)
  with g assms(2) show ?thesis
    by (auto simp: admit_command_in_def command_allowed_in_def generation_roundtrip generation_matches_iff Let_def)
qed

text \<open>
  C16. The two fences agree: a command the server authorized against a device's report is admitted by the device
  exactly when the module's grant has not changed since that report, through any sequence of local grants
  and remote disables. In particular neither a revocation nor a later re-grant lets it through.
\<close>

theorem device_admits_exactly_current:
  assumes "authorize_agent_command f reg a cmd = Ok c" and "gate (parse f cmd) = GateModule m" and "module_authorized reg a m"
    and "hm_get (modules reg) a = Some rt" and "ModuleReport_parse (state_wire clip s0) = Ok (rm_report rt)"
    and "reaches grant_step GrantState_default s0" and "reaches grant_step s0 s"
  shows "admit_command_in f s c = (if grant_revision s m = grant_revision s0 m then Some c else None)"
proof -
  have s0: "grants_wf s0" using device_grants.le_reaches [OF assms(6)] by (simp add: grants_le_def)
  with device_grants.le_reaches [OF assms(7)] have ev: "evolves s0 s" by (simp add: grants_le_def)
  have report: "rm_report rt = device_report clip s0" using assms(5) device_report_parses [OF s0, of clip] by simp
  have on: "state_enabled s0 m"
    using assms(3,4) report by (auto simp: module_authorized_def grants_def Let_def device_report_get [OF s0] device_state_fields split: option.splits)
  have "v_get cmd ''__module_generation'' = None" "v_get cmd ''__capture_generation'' = None"
    using assms(1) by (cases rule: authorize_ok_cases; simp)+
  from authorize_granted [OF assms(2,3) this] assms(1,4)
  have c: "c = v_set cmd ''__module_generation'' (json_generation \<lparr> gen_module = m, gen_revision = grant_revision s0 m \<rparr>)"
    by (metis Inr_inject device_report_get [OF s0] device_state_fields(2) option.inject report server_stamp)
  have obj: "is_obj cmd" by (rule gated_is_obj [of f]) (simp add: assms(2))
  then obtain kvs where kvs: "cmd = Obj kvs" by (cases cmd) simp_all
  have "gate (parse f c) = GateModule m" using assms(2) by (simp add: gate_parse_kind c kvs)
  moreover have "v_get c ''__module_generation'' = Some (json_generation \<lparr> gen_module = m, gen_revision = grant_revision s0 m \<rparr>)"
    by (simp add: c kvs)
  ultimately have "admit_command_in f s c = (if state_enabled s m \<and> grant_revision s m = grant_revision s0 m then Some c else None)"
    by (simp add: admit_stamped generation_matches_iff)
  with state_enabled_evolves [OF ev, of m] on show ?thesis by auto
qed

theorem device_admits_exactly_current_witness:
  "\<exists>c. authorize_agent_command binary_fmt (agents example_waiting) 9 example_move = Ok c
     \<and> admit_command_in binary_fmt owner_enabled c = Some c
     \<and> admit_command_in binary_fmt (snd (state_local_set owner_enabled RemoteInput True)) c = None"
proof -
  have wf: "grants_wf owner_enabled" using device_grants.le_reaches [OF owner_enabled_reachable] by (simp add: grants_le_def)
  let ?later = "snd (state_local_set owner_enabled RemoteInput True)"
  have rt: "hm_get (modules (agents example_waiting)) 9 = Some example_rt" by simp
  have parse: "ModuleReport_parse (state_wire True owner_enabled) = Ok (rm_report example_rt)"
    using device_report_parses [OF wf] by (simp add: example_rt_def)
  have "state_enabled owner_enabled RemoteInput" by (simp add: state_enabled_def state_local_set_def GrantState_default_def Let_def)
  then have "grants example_rt RemoteInput"
    by (simp add: grants_def example_rt_def device_report_get [OF wf] device_state_fields module_available_def Let_def)
  moreover have "\<not> disable_pending example_rt RemoteInput" by (simp add: disable_pending_def example_rt_def hm_values_def)
  ultimately have auth: "module_authorized (agents example_waiting) 9 RemoteInput"
    by (simp add: module_authorized_def example_registry_def example_conn_def) (simp add: example_rt_def)
  moreover have "v_get example_move ''__module_generation'' = None" "v_get example_move ''__capture_generation'' = None"
    by (simp_all add: example_move_def)
  ultimately obtain c where c: "authorize_agent_command binary_fmt (agents example_waiting) 9 example_move = Ok c"
    using authorize_granted [OF example_move_gate] by metis
  note admits = device_admits_exactly_current [OF c example_move_gate auth rt parse owner_enabled_reachable]
  have later: "reaches grant_step owner_enabled ?later" by (rule reaches_step, rule reaches_refl, rule owner_sets)
  have "grant_revision owner_enabled RemoteInput = 1" "grant_revision ?later RemoteInput = 2"
    by (simp_all add: grant_revision_def state_local_set_def GrantState_default_def Let_def)
  with admits [OF reaches_refl] admits [OF later] c show ?thesis by auto
qed

section \<open>What leaves the device\<close>

text \<open>The events of a message: those of its nested batches, or itself.\<close>

function leaf_events :: "Value \<Rightarrow> Value list" where
  "leaf_events v =
     (if v_index v ''type'' = Str ''batch'' then
        (case as_array (v_index v ''events'') of None \<Rightarrow> [] | Some es \<Rightarrow> concat (map leaf_events es))
      else [v])"
  by pat_completeness auto
termination
  by (relation "measure size") (auto intro: size_event)

declare leaf_events.simps [simp del]

lemma outbound_leaf:
  assumes "outbound_allowed_in clip_current s v" "v_index v ''type'' \<noteq> Str ''batch''" "event_module v = Some m"
  shows "state_enabled s m
    \<and> generation_of_value (v_index v ''__module_generation'') = Some \<lparr> gen_module = m, gen_revision = grant_revision s m \<rparr>
    \<and> (m = Clipboard \<longrightarrow> clip_current v)"
proof -
  have clip: "v_index v ''type'' = Str ''clipboard_result''" if "m = Clipboard"
    using assms(3) that by (cases "v_index v ''type''") (auto simp: event_module_def Let_def split: if_splits)
  from assms(1) have *: "v_index v ''type'' = Str ''clipboard_result'' \<Longrightarrow> clip_current v"
    by (subst (asm) outbound_allowed_in.simps) (auto split: if_splits)
  from assms obtain g where g: "generation_of_value (v_index v ''__module_generation'') = Some g" "generation_matches g s" "gen_module g = m"
    by (subst (asm) outbound_allowed_in.simps) (auto split: if_splits option.splits)
  have "g = \<lparr> gen_module = m, gen_revision = grant_revision s m \<rparr>" using g(2,3) by (cases g) (simp add: generation_matches_iff)
  with g clip * show ?thesis by (auto simp: generation_matches_iff)
qed

text \<open>
  No telemetry without its grant: when the device's last filter lets a text message out, every event in
  it, however deeply batches are nested, that belongs to a module carries the generation of that module's
  grant, and the module is granted at that revision in the store at that moment. A clipboard reply moreover
  belongs to the current session.
\<close>

theorem outbound_events_are_granted:
  assumes "outbound_allowed_in clip_current s v" and "e \<in> set (leaf_events v)" and "event_module e = Some m"
  shows "state_enabled s m
    \<and> generation_of_value (v_index e ''__module_generation'') = Some \<lparr> gen_module = m, gen_revision = grant_revision s m \<rparr>
    \<and> (m = Clipboard \<longrightarrow> clip_current e)"
  using assms
proof (induction v rule: leaf_events.induct)
  case (1 v)
  show ?case
  proof (cases "v_index v ''type'' = Str ''batch''")
    case True
    with 1(2) obtain es where es: "as_array (v_index v ''events'') = Some es" "list_all (outbound_allowed_in clip_current s) es"
      by (subst (asm) outbound_allowed_in.simps) (auto split: option.splits)
    from 1(3) True es(1) obtain x where "x \<in> set es" "e \<in> set (leaf_events x)"
      by (subst (asm) leaf_events.simps) auto
    with es 1(1) [OF True es(1)] 1(4) show ?thesis by (auto simp: list_all_iff)
  next
    case False
    then have "e = v" using 1(3) by (subst (asm) leaf_events.simps) simp
    with outbound_leaf [OF 1(2) False] 1(4) show ?thesis by blast
  qed
qed

theorem outbound_events_are_granted_witness:
  "state_enabled owner_enabled RemoteInput \<and> outbound_allowed_in (\<lambda>_. True) (snd (state_local_set owner_enabled KeyboardText True))
     (stamp (json_obj [(''type'', Str ''keys'')]) (Some \<lparr> gen_module = KeyboardText, gen_revision = 2 \<rparr>))
   \<and> state_enabled (snd (state_local_set owner_enabled KeyboardText True)) KeyboardText"
proof -
  let ?s = "snd (state_local_set owner_enabled KeyboardText True)"
  let ?g = "\<lparr> gen_module = KeyboardText, gen_revision = 2 \<rparr>"
  let ?v = "stamp (json_obj [(''type'', Str ''keys'')]) (Some ?g)"
  have v: "v_index ?v ''type'' = Str ''keys''" "v_index ?v ''__module_generation'' = json_generation ?g"
    by (simp_all add: stamp_def json_obj_def)
  have on: "state_enabled owner_enabled RemoteInput" "generation_matches ?g ?s"
    by (simp_all add: generation_matches_iff state_enabled_def grant_revision_def state_local_set_def GrantState_default_def Let_def)
  have ev: "event_module ?v = Some KeyboardText" by (simp add: event_module_def v)
  have "json_generation ?g \<noteq> Null" by (simp add: json_generation_def json_obj_def)
  with on(2) ev have out: "outbound_allowed_in (\<lambda>_. True) ?s ?v"
    by (subst outbound_allowed_in.simps) (simp add: v generation_roundtrip is_null_def)
  have "?v \<in> set (leaf_events ?v)" by (subst leaf_events.simps) (simp add: v)
  from outbound_events_are_granted [OF out this ev] on(1) out show ?thesis by blast
qed

section \<open>Binary frames\<close>

lemma unat_byte: "unat (ucast (ucast (x :: u32) :: u8) :: u32) = unat x mod 256"
proof -
  have "unat (ucast (x :: u32) :: u8) = unat x mod 256"
    by (simp add: unsigned_ucast_eq [of x] take_bit_eq_mod unat_mod_distrib)
  moreover have "unat (ucast y :: u32) = unat y" for y :: u8
    by transfer (simp add: take_bit_eq_mod mod_mod_cancel nat_mod_distrib)
  ultimately show ?thesis by simp
qed

lemma byte_of: "(ucast (ucast (drop_bit k w :: u32) :: u8) :: u32) = of_nat (unat w div 2 ^ k mod 256)"
proof -
  have "unat (ucast (ucast (drop_bit k w) :: u8) :: u32) = unat w div 2 ^ k mod 256"
    unfolding unat_byte by (simp only: unat_drop_bit_eq drop_bit_eq_div [of k "unat w"])
  then have "of_nat (unat (ucast (ucast (drop_bit k w) :: u8) :: u32)) = (of_nat (unat w div 2 ^ k mod 256) :: u32)" by (rule arg_cong)
  then show ?thesis by (simp only: of_nat_unat ucast_id)
qed

lemma base256: "(n :: nat) < 2 ^ 32 \<Longrightarrow>
  n mod 256 + 256 * (n div 2 ^ 8 mod 256 + 256 * (n div 2 ^ 16 mod 256 + 256 * (n div 2 ^ 24 mod 256))) = n"
proof -
  assume n: "n < 2 ^ 32"
  have "n div 2 ^ 24 mod 256 = n div 2 ^ 24" using n by (intro mod_less) (simp add: div_less_iff_less_mult)
  moreover have "n div 2 ^ 16 = n div 2 ^ 16 mod 256 + 256 * (n div 2 ^ 24)"
    using mod_mult_div_eq [of "n div 2 ^ 16" 256] by (simp add: div_mult2_eq [symmetric])
  moreover have "n div 2 ^ 8 = n div 2 ^ 8 mod 256 + 256 * (n div 2 ^ 16)"
    using mod_mult_div_eq [of "n div 2 ^ 8" 256] by (simp add: div_mult2_eq [symmetric])
  moreover have "n = n mod 256 + 256 * (n div 2 ^ 8)"
    using mod_mult_div_eq [of n 256] by simp
  ultimately show ?thesis by simp
qed

lemma le_bytes_roundtrip: "from_le_bytes (to_le_bytes w) = w"
proof -
  let ?n = "unat w"
  have "from_le_bytes (to_le_bytes w) =
      of_nat (?n mod 256) + 256 * (of_nat (?n div 2 ^ 8 mod 256) + 256 * (of_nat (?n div 2 ^ 16 mod 256) + 256 * of_nat (?n div 2 ^ 24 mod 256)))"
    unfolding byte_of [symmetric] using byte_of [of 0 w] by (simp add: from_le_bytes_def to_le_bytes_def)
  also have "\<dots> = of_nat (?n mod 256 + 256 * (?n div 2 ^ 8 mod 256 + 256 * (?n div 2 ^ 16 mod 256 + 256 * (?n div 2 ^ 24 mod 256))))"
    by simp
  also have "\<dots> = of_nat ?n"
  proof -
    have "?n < 2 ^ 32" using unsigned_less [of w, where 'a = nat] by simp
    then show ?thesis by (simp only: base256)
  qed
  finally show ?thesis by simp
qed

text \<open>
  A frame's fence works: a frame tagged with a generation passes the device's last filter exactly when the
  generation is of the module the frame's own bytes belong to and the store still grants it at that
  revision; a frame that was never tagged passes under no circumstances.
\<close>

theorem tagged_frame_needs_its_grant:
  assumes "from_bytes c (to_vec c (json_generation g)) = Some (json_generation g)" and "length (to_vec c (json_generation g)) < 2 ^ 32" and "\<not> starts_with b VGN1"
  shows "message_allowed c clip_current d lock (MBinary (tag_binary c b (Some g)))
      = (gen_module g = payload_module b \<and> valid_fresh d lock g)
    \<and> \<not> message_allowed c clip_current d lock (MBinary (tag_binary c b None))"
proof -
  let ?h = "to_vec c (json_generation g)" and ?t = "tag_binary c b (Some g)"
  let ?len = "to_le_bytes (of_nat (length ?h))"
  have t: "?t = VGN1 @ ?len @ ?h @ b" by (simp add: tag_binary_def Let_def)
  have l: "length VGN1 = 4" "length ?len = 4" by (simp_all add: VGN1_def to_le_bytes_def)
  have "starts_with ?t VGN1" by (simp add: t starts_with_def)
  moreover have "slice ?t 4 8 = Some ?len" using l by (simp add: t slice_def)
  moreover have n: "unat (from_le_bytes ?len) = length ?h"
    using assms(2) by (simp add: le_bytes_roundtrip unat_of_nat)
  moreover have "slice ?t 8 (8 + length ?h) = Some ?h" using l by (simp add: t slice_def)
  moreover have "slice_from ?t (8 + length ?h) = Some b" using l by (simp add: t slice_from_def)
  moreover note assms(1)
  ultimately have "message_allowed c clip_current d lock (MBinary ?t) = (gen_module g = payload_module b \<and> valid_fresh d lock g)"
    by (simp add: message_allowed_def binary_allowed_def generation_roundtrip Let_def)
  with assms(3) show ?thesis by (simp add: message_allowed_def tag_binary_def)
qed

text \<open>A codec that knows one generation.\<close>

definition example_codec :: Codec where
  "example_codec = \<lparr> from_str = (\<lambda>_. None), to_string = (\<lambda>_. []),
     from_bytes = (\<lambda>b. if b = [0x7B, 0x7D] then Some (json_generation \<lparr> gen_module = LiveScreen, gen_revision = 1 \<rparr>) else None),
     to_vec = (\<lambda>_. [0x7B, 0x7D]) \<rparr>"

theorem tagged_frame_needs_its_grant_witness:
  "message_allowed example_codec (\<lambda>_. True)
     (example_device\<lparr>store_file := Stored (snd (state_local_set GrantState_default LiveScreen True))\<rparr>) None
     (MBinary (tag_binary example_codec [0xFF, 0xD8] (Some \<lparr> gen_module = LiveScreen, gen_revision = 1 \<rparr>)))"
proof -
  let ?g = "\<lparr> gen_module = LiveScreen, gen_revision = 1 \<rparr>"
  let ?d = "example_device\<lparr>store_file := Stored (snd (state_local_set GrantState_default LiveScreen True))\<rparr>"
  have c: "from_bytes example_codec (to_vec example_codec (json_generation ?g)) = Some (json_generation ?g)"
    "length (to_vec example_codec (json_generation ?g)) < 2 ^ 32" "\<not> starts_with [0xFF, 0xD8] VGN1"
    by (simp_all add: example_codec_def starts_with_def VGN1_def)
  have "valid_fresh ?d None ?g"
    by (simp add: valid_fresh_def load_store_def transaction_at_def generation_matches_iff state_enabled_def grant_revision_def
        state_local_set_def GrantState_default_def Let_def)
  moreover have "payload_module [0xFF, 0xD8] = LiveScreen"
    by (simp add: payload_module_def starts_with_def HISTORY_FRAME_MAGIC_def AUDIO_FRAME_MAGIC_def)
  ultimately show ?thesis
    using tagged_frame_needs_its_grant [OF c, of "\<lambda>_. True" ?d None] by simp
qed

section \<open>The cache and the workers of one process\<close>

text \<open>What a process has cached is what the store holds, or nothing is granted: its own changes drop the cache
  (another process's change is seen within 100 ms).\<close>

definition cache_coherent :: "Device \<Rightarrow> bool" where
  "cache_coherent d \<longleftrightarrow>
     (\<forall>at s. CACHE d = Some (at, s) \<longrightarrow> s = GrantState_default \<or> read_store (store_file d) = Ok s)"

lemma load_or_default_cases: "load_or_default file lock = GrantState_default \<or> read_store file = Ok (load_or_default file lock)"
  by (cases lock; cases "read_store file")
    (simp_all add: load_or_default_def load_store_def transaction_at_def)

lemma cache_coherent_ops [inv_intros]:
  "cache_coherent d \<Longrightarrow> cache_coherent (snd (with_cached d lock t1 t2))"
  "cache_coherent (snd (local_set d lock out m on))"
  "cache_coherent (snd (remote_disable d lock out clip bad v))"
  "cache_coherent d \<Longrightarrow> cache_coherent (worker_new d g)"
  using load_or_default_cases [of "store_file d" lock]
  by (auto simp: cache_coherent_def with_cached_def local_set_def remote_disable_def worker_new_def case_prod_unfold Let_def)

lemma allowed_needs_grant:
  assumes "cache_coherent d" "fst (allowed d lock t1 t2 m)"
  shows "\<exists>s. read_store (store_file d) = Ok s \<and> state_enabled s m"
proof -
  let ?s = "fst (with_cached d lock t1 t2)"
  have on: "state_enabled ?s m" using assms(2) by (simp add: allowed_def case_prod_unfold Let_def)
  then have "?s \<noteq> GrantState_default" by (auto simp: state_enabled_def GrantState_default_def)
  moreover have "?s = GrantState_default \<or> read_store (store_file d) = Ok ?s"
    using assms(1) load_or_default_cases [of "store_file d" lock]
    by (cases "CACHE d") (auto simp: with_cached_def cache_coherent_def Let_def)
  ultimately show ?thesis using on by blast
qed

text \<open>The counts are those of the leases that are held: registering adds one, dropping takes one away and never panics.\<close>

definition workers_ok :: "Device \<Rightarrow> bool" where
  "workers_ok d \<longleftrightarrow> hm_wf (WORKERS d) \<and> (\<forall>g n. hm_get (WORKERS d) g = Some n \<longrightarrow> 0 < n)"

lemma worker_new_ok:
  assumes "workers_ok d"
  shows "workers_ok (worker_new d g)" "active_workers (worker_new d g) h = active_workers d h + (if h = g then 1 else 0)"
  using assms by (auto simp: workers_ok_def worker_new_def active_workers_def)

lemma worker_drop_ok:
  assumes "workers_ok d"
  shows "\<exists>d'. worker_drop d g = Some d' \<and> workers_ok d' \<and> (\<forall>h. active_workers d' h = active_workers d h - (if h = g then 1 else 0))"
proof (cases "hm_get (WORKERS d) g")
  case None
  with assms show ?thesis by (simp add: worker_drop_def active_workers_def)
next
  case (Some n)
  with assms obtain k where "n = Suc k" by (metis gr0_implies_Suc workers_ok_def)
  with Some assms show ?thesis by (auto simp: worker_drop_def active_workers_def workers_ok_def)
qed

end
