(* ===== verification/Credentials.thy ===== *)
theory Credentials
  imports System
begin

text \<open>
  Who holds the credentials of a device: the server's transition system seen from the tokens that are waiting to be
  handed out (\<open>pending_enrollment_tokens\<close>), the hashes in the \<open>agents\<close> table and the connections. Enrollment and the
  administrator's operations are the only ones that touch them.
\<close>

section \<open>Operations that touch no credential\<close>

definition reg_view :: "AgentRegistry \<Rightarrow> (Uuid, PendingEnrollmentToken) HashMap \<times> (Uuid \<Rightarrow> Uuid option)" where
  "reg_view reg = (pending_enrollment_tokens reg, current_conn reg)"

abbreviation cred_view :: "AppState \<Rightarrow> (Uuid, PendingEnrollmentToken) HashMap \<times> (Uuid \<Rightarrow> Uuid option)" where
  "cred_view st \<equiv> reg_view (agents st)"

lemma reg_view_cong:
  "pending_enrollment_tokens reg' = pending_enrollment_tokens reg \<Longrightarrow> (\<And>a. current_conn reg' a = current_conn reg a) \<Longrightarrow>
     reg_view reg' = reg_view reg"
  by (auto simp: reg_view_def)

lemma reg_view_operations [simp]:
  "reg_view (snd (enqueue_authorized_command reg a c cmd)) = reg_view reg"
  "reg_view (snd (send_agent_command_json f reg a cmd)) = reg_view reg"
  "reg_view (close_conn reg a conn r) = reg_view reg"
  by (rule reg_view_cong; simp add: send_agent_command_json_def Let_def split: sum.split option.split)+

lemma reg_view_updates [simp]:
  "reg_view (clear_live reg a) = reg_view reg"
  "reg_view (reg\<lparr>modules := m\<rparr>) = reg_view reg" "reg_view (reg\<lparr>cmds := q\<rparr>) = reg_view reg"
  by (rule reg_view_cong; simp add: clear_live_def current_conn_def)+

lemma cred_view_sends [simp]:
  "cred_view (broadcast st v) = cred_view st" "cred_view (set_sessions st s) = cred_view st" "cred_view (freeze_capture st a fc) = cred_view st"
  "cred_view (set_clipboard st cl) = cred_view st"
  "cred_view (snd (teardown_deliver f st op)) = cred_view st" "cred_view (snd (deliver_control_cleanup f st cs)) = cred_view st"
  by (rule reg_view_cong; simp add: broadcast_def set_sessions_def freeze_capture_def set_clipboard_def)+

lemma cred_view_control [simp]:
  "cred_view (expire_control f st now) = cred_view st" "cred_view (revoke_viewer_control f st viewer) = cred_view st"
  "cred_view (revoke_agent_control_locked f st a conn) = cred_view st"
  "cred_view (snd (audit_control_event st user a action rej now)) = cred_view st" "cred_view (commit_control_capture st a c) = cred_view st"
  by (simp_all add: expire_control_def revoke_viewer_control_def revoke_agent_control_locked_def audit_control_event_def
      commit_control_capture_def Let_def split: option.split)

lemma cred_view_capture [simp]:
  "cred_view (snd (sync_capture_locked env st a req fresh)) = cred_view st"
  by (rule reg_view_cong) (simp_all add: sync_shape_frame [OF sync_capture_shape])

lemma cred_view_streams [simp]:
  "cred_view (snd (admit_session env st a k s n fresh)) = cred_view st"
  "cred_view (snd (begin_mjpeg_session env st a k user prefs req now fresh)) = cred_view st"
  "cred_view (snd (end_mjpeg_session env st a k owner fresh)) = cred_view st"
  "cred_view (sync_mjpeg_capture env st a fresh) = cred_view st"
  by (simp_all add: admit_session_def begin_mjpeg_session_def end_mjpeg_session_def sync_mjpeg_capture_def Let_def case_prod_unfold
      split: option.split sum.split)

lemma cred_view_messages [simp]:
  "cred_view (snd (grant_control f st a owner frozen now fresh)) = cred_view st"
  "cred_view (snd (control_acquire env st a owner v now clock fresh)) = cred_view st"
  "cred_view (snd (control_lease_op env st a viewer user kind v now clock fresh)) = cred_view st"
  "cred_view (snd (control_lease_message env st viewer user v now clock fresh)) = cred_view st"
  "cred_view (snd (send_viewer_input env st a viewer user token cmd now)) = cred_view st"
  by (simp_all add: grant_control_def control_acquire_def control_lease_op_def control_lease_message_def send_viewer_input_def
      Let_def case_prod_unfold split: option.split sum.split)

lemma cred_view_clipboard [simp]:
  "cred_view (snd (clipboard_valid_locked f st p t1 t2)) = cred_view st"
  "cred_view (waiter_drop f st rid) = cred_view st"
  "cred_view (complete_clipboard f st a conn v t1 t2) = cred_view st"
  "cred_view (snd (exchange_begin f st a user rq fresh t0 t1 t2)) = cred_view st"
  "cred_view (snd (snd (exchange_reply f st rid reply au t1 t2))) = cred_view st"
  "cred_view (snd (exchange_tick f st rid t0 t1 t2)) = cred_view st"
  by (simp_all add: clipboard_valid_locked_def waiter_drop_def complete_clipboard_def exchange_begin_def exchange_admit_def
      exchange_reply_def exchange_tick_def Let_def case_prod_unfold split: option.split sum.split)

lemma cred_view_delivery [simp]:
  "cred_view (snd (clipboard_deliverable_locked f st a conn cmd t1 t2)) = cred_view st"
  "cred_view (snd (command_deliverable f st a conn cmd t1 t2)) = cred_view st"
  "cred_view (snd (writer_recv f st a conn msg t1 t2)) = cred_view st"
  by (simp_all add: clipboard_deliverable_locked_def command_deliverable_def writer_recv_def Let_def case_prod_unfold
      split: option.split AgentControl.split)

lemma cred_view_take: "take_command st a = Some (msg, st') \<Longrightarrow> cred_view st' = cred_view st"
  by (auto simp: take_command_def split: option.splits list.splits)

lemma reg_view_sent [simp]: "reg_view (note_sent reg a conn c now) = reg_view reg"
  by (simp add: note_sent_def split: option.split)

lemma cred_view_replay [simp]: "cred_view (fst (snd (replay_each f st d a conn mark_ok now rqs))) = cred_view st"
  by (induction rqs arbitrary: st d) (simp_all add: case_prod_unfold Let_def send_command_def)

lemma cred_view_change [simp]: "cred_view (apply_report_change f st a conn revoke screen) = cred_view st"
  by (simp add: apply_report_change_def reset_capture_generation_def Let_def)

lemma cred_view_reports [simp]:
  "cred_view (fst (snd (accept_module_report f st d a conn v read_ok save_ok mark_ok now at))) = cred_view st"
  "cred_view (fst (snd (accept_module_disable_ack f st d a conn v read_ok save_ok ok))) = cred_view st"
  "cred_view (fst (snd (disable_module f st d a user body known p1 p2 p3 p4 mark_ok p5 now))) = cred_view st"
proof -
  show "cred_view (fst (snd (accept_module_report f st d a conn v read_ok save_ok mark_ok now at))) = cred_view st"
    by (simp add: accept_module_report_def replay_module_disables_def store_report_def Let_def case_prod_unfold split: sum.split option.split)
  have "cred_view (fst (snd (apply_ack f st d a conn ack r save_ok ok))) = cred_view st" for ack r
    by (simp add: apply_ack_def settle_request_def store_report_def Let_def case_prod_unfold split: option.split)
  then show "cred_view (fst (snd (accept_module_disable_ack f st d a conn v read_ok save_ok ok))) = cred_view st"
    by (simp add: accept_module_disable_ack_def split: sum.split option.split)
  have "cred_view (fst (snd (send_request f st d a rq retry mark_ok now))) = cred_view st" for d rq retry
    by (simp add: send_request_def publish_request_def replay_module_disables_def case_prod_unfold Let_def split: sum.split option.split)
  then show "cred_view (fst (snd (disable_module f st d a user body known p1 p2 p3 p4 mark_ok p5 now))) = cred_view st"
    by (simp add: disable_module_def case_prod_unfold Let_def split: sum.split option.split)
qed

lemma cred_view_frames [simp]:
  "cred_view (snd (binary_frame st a conn frame now)) = cred_view st"
  "cred_view (clear_capture_connection_locked st a conn) = cred_view st"
  "cred_view (retire_connection f st a) = cred_view st"
  "cred_view (drop_frame st a) = cred_view st" "cred_view (detach st c r) = cred_view st"
  by (simp_all add: binary_frame_def retire_connection_def drop_frame_def detach_def split: option.split)

interpretation viewer_cred: viewer_ops env viewer uid "\<lambda>st. cred_view st = view" for env viewer uid view
  by unfold_locales simp_all

lemma cred_view_event [simp]: "cred_view (snd (snd (viewer_event env st viewer vc ev))) = cred_view st"
  by (rule viewer_cred.keep_event [OF refl refl])

section \<open>Tokens, hashes and codes that belong together\<close>

definition hash_of :: "EnrollDb \<Rightarrow> Uuid \<Rightarrow> string option" where
  "hash_of d a = Option.bind (agent_row d a) api_token_hash"

text \<open>A code that can still lead to a new credential for an existing device: it can be used, or it was and its claim is
  pending.\<close>

definition live_invite :: "EnrollDb \<Rightarrow> Uuid \<Rightarrow> Invite \<Rightarrow> bool" where
  "live_invite d a r \<longleftrightarrow> r \<in> set (invites d) \<and> bound_agent_id r = Some a \<and> revoked_at r = None
     \<and> (0 < uses_remaining r \<or> (\<exists>c \<in> set (claims d). cl_status c = ''pending'' \<and> cl_invite_id c = Some (inv_id r)))"

definition token_ok :: "EnrollDb \<Rightarrow> Uuid \<Rightarrow> PendingEnrollmentToken \<Rightarrow> bool" where
  "token_ok d c t \<longleftrightarrow> (\<exists>row ag. claim_row d c = Some row \<and> cl_status row = ''approved'' \<and> cl_agent_id row = Some (pet_agent_id t)
     \<and> agent_row d (pet_agent_id t) = Some ag \<and> ag_name ag = pet_agent_name t \<and> api_token_hash ag \<in> {None, issued_token_hash row})"

definition tokens_ok :: "(Uuid, PendingEnrollmentToken) HashMap \<Rightarrow> EnrollDb \<Rightarrow> bool" where
  "tokens_ok T d \<longleftrightarrow> (\<forall>c t. hm_get T c = Some t \<longrightarrow> token_ok d c t)
     \<and> (\<forall>a r. live_invite d a r \<longrightarrow> hash_of d a = None \<and> (\<forall>c t. hm_get T c = Some t \<longrightarrow> pet_agent_id t \<noteq> a))"

text \<open>Changes of the tables that give no device of \<open>K\<close> a new credential.\<close>

definition weaker :: "Uuid set \<Rightarrow> EnrollDb \<Rightarrow> EnrollDb \<Rightarrow> bool" where
  "weaker K d d' \<longleftrightarrow> (\<forall>a r. live_invite d' a r \<longrightarrow> (\<exists>r. live_invite d a r))
     \<and> (\<forall>c row. claim_row d c = Some row \<and> cl_status row = ''approved'' \<and> (\<exists>a \<in> K. cl_agent_id row = Some a) \<longrightarrow>
          (\<exists>row'. claim_row d' c = Some row' \<and> cl_status row' = ''approved'' \<and> cl_agent_id row' = cl_agent_id row
             \<and> issued_token_hash row' = issued_token_hash row))
     \<and> (\<forall>a \<in> K. \<forall>ag. agent_row d a = Some ag \<longrightarrow>
          (\<exists>ag'. agent_row d' a = Some ag' \<and> ag_name ag' = ag_name ag \<and> api_token_hash ag' \<in> {None, api_token_hash ag}))
     \<and> (\<forall>a. agent_row d a = None \<longrightarrow> agent_row d' a = None) \<and> (\<forall>a. hash_of d a = None \<longrightarrow> hash_of d' a = None)"

lemma weaker_live: "weaker K d d' \<Longrightarrow> live_invite d' a r \<Longrightarrow> \<exists>r. live_invite d a r"
  unfolding weaker_def by (elim conjE) blast

lemma weaker_rows:
  assumes "weaker K d d'"
  shows "agent_row d a = None \<Longrightarrow> agent_row d' a = None" "hash_of d a = None \<Longrightarrow> hash_of d' a = None"
  using assms unfolding weaker_def by (elim conjE, blast)+

lemma weaker_refl: "weaker K d d"
  by (auto simp: weaker_def)

lemma weaker_trans:
  assumes "weaker K d d'" "weaker K d' d''"
  shows "weaker K d d''"
  unfolding weaker_def
proof (intro conjI allI impI ballI)
  show "\<exists>r. live_invite d a r" if "live_invite d'' a r" for a r
    using weaker_live [OF assms(1)] weaker_live [OF assms(2) that] by blast
  show "\<exists>row'. claim_row d'' c = Some row' \<and> cl_status row' = ''approved'' \<and> cl_agent_id row' = cl_agent_id row
      \<and> issued_token_hash row' = issued_token_hash row"
    if ap: "claim_row d c = Some row \<and> cl_status row = ''approved'' \<and> (\<exists>a \<in> K. cl_agent_id row = Some a)" for c row
  proof -
    obtain row' where r': "claim_row d' c = Some row'" "cl_status row' = ''approved''" "cl_agent_id row' = cl_agent_id row"
      "issued_token_hash row' = issued_token_hash row" using ap assms(1) unfolding weaker_def by blast
    with ap have "\<exists>a \<in> K. cl_agent_id row' = Some a" by simp
    with r' assms(2) obtain row'' where "claim_row d'' c = Some row''" "cl_status row'' = ''approved''" "cl_agent_id row'' = cl_agent_id row'"
      "issued_token_hash row'' = issued_token_hash row'" unfolding weaker_def by blast
    with r' show ?thesis by auto
  qed
  show "\<exists>ag'. agent_row d'' a = Some ag' \<and> ag_name ag' = ag_name ag \<and> api_token_hash ag' \<in> {None, api_token_hash ag}"
    if ag: "a \<in> K" "agent_row d a = Some ag" for a ag
  proof -
    obtain g where g: "agent_row d' a = Some g" "ag_name g = ag_name ag" "api_token_hash g \<in> {None, api_token_hash ag}"
      using ag assms(1) unfolding weaker_def by blast
    with ag assms(2) obtain g' where "agent_row d'' a = Some g'" "ag_name g' = ag_name g" "api_token_hash g' \<in> {None, api_token_hash g}"
      unfolding weaker_def by blast
    with g show ?thesis by auto
  qed
qed (use weaker_rows [OF assms(1)] weaker_rows [OF assms(2)] in blast)+

lemma tokens_ok_weaker:
  assumes "tokens_ok T d" "weaker K d d'" "\<And>c t. hm_get T' c = Some t \<Longrightarrow> hm_get T c = Some t \<and> pet_agent_id t \<in> K"
  shows "tokens_ok T' d'"
  unfolding tokens_ok_def
proof (intro conjI allI impI)
  show "token_ok d' c t" if "hm_get T' c = Some t" for c t
  proof -
    note K = assms(3) [OF that]
    then have "token_ok d c t" using assms(1) unfolding tokens_ok_def by blast
    then obtain row ag where row: "claim_row d c = Some row" "cl_status row = ''approved''" "cl_agent_id row = Some (pet_agent_id t)"
      and ag: "agent_row d (pet_agent_id t) = Some ag" "ag_name ag = pet_agent_name t" "api_token_hash ag \<in> {None, issued_token_hash row}"
      unfolding token_ok_def by blast
    obtain row' where r': "claim_row d' c = Some row'" "cl_status row' = ''approved''" "cl_agent_id row' = cl_agent_id row"
      "issued_token_hash row' = issued_token_hash row" using row K assms(2) unfolding weaker_def by blast
    obtain g where g: "agent_row d' (pet_agent_id t) = Some g" "ag_name g = ag_name ag" "api_token_hash g \<in> {None, api_token_hash ag}"
      using ag K assms(2) unfolding weaker_def by blast
    from row ag r' g show ?thesis by (auto simp: token_ok_def)
  qed
  fix a r assume "live_invite d' a r"
  then obtain r0 where "live_invite d a r0" using weaker_live [OF assms(2)] by blast
  with assms(1) have "hash_of d a = None" "\<forall>c t. hm_get T c = Some t \<longrightarrow> pet_agent_id t \<noteq> a" unfolding tokens_ok_def by blast+
  with weaker_rows [OF assms(2)] assms(3)
  show "hash_of d' a = None" "\<And>c t. hm_get T' c = Some t \<Longrightarrow> pet_agent_id t \<noteq> a" by blast+
qed

lemma live_inviteI:
  assumes "live_invite d' a s" "r \<in> set (invites d)" "bound_agent_id r = bound_agent_id s" "revoked_at s = None \<Longrightarrow> revoked_at r = None"
    and "0 < uses_remaining s \<Longrightarrow> 0 < uses_remaining r"
    and "\<And>c. c \<in> set (claims d') \<Longrightarrow> cl_status c = ''pending'' \<Longrightarrow> cl_invite_id c = Some (inv_id s) \<Longrightarrow>
      0 < uses_remaining r \<or> (\<exists>c \<in> set (claims d). cl_status c = ''pending'' \<and> cl_invite_id c = Some (inv_id r))"
  shows "\<exists>r. live_invite d a r"
  using assms by (intro exI [of _ r]) (auto simp: live_invite_def)

lemma weaker_same_agents:
  assumes "agent_rows d' = agent_rows d" "\<And>a r. live_invite d' a r \<Longrightarrow> \<exists>r. live_invite d a r"
    "\<And>c row. claim_row d c = Some row \<Longrightarrow> cl_status row = ''approved'' \<Longrightarrow> claim_row d' c = Some row"
  shows "weaker K d d'"
proof -
  have "agent_row d' a = agent_row d a" "hash_of d' a = hash_of d a" for a using assms(1) by (simp_all add: agent_row_def hash_of_def)
  with assms(2,3) show ?thesis unfolding weaker_def by auto
qed

lemma claim_row_update:
  "(\<And>r. cl_id (g r) = cl_id r) \<Longrightarrow>
     claim_row (d\<lparr>claims := update_where p g (claims d)\<rparr>) c = map_option (\<lambda>r. if p r then g r else r) (claim_row d c)"
  by (simp add: claim_row_def find_update_where)

lemma weaker_revoke_rows: "weaker K d (d\<lparr>invites := update_where p (revoke_row now) (invites d)\<rparr>)"
proof (rule weaker_same_agents)
  let ?d = "d\<lparr>invites := update_where p (revoke_row now) (invites d)\<rparr>"
  fix a s assume s: "live_invite ?d a s"
  then obtain r where "r \<in> set (invites d)" "s = (if p r then revoke_row now r else r)" by (auto simp: live_invite_def in_update_where)
  with s show "\<exists>r. live_invite d a r"
    by (intro live_inviteI [OF s, of r]) (auto simp: live_invite_def revoke_row_def split: if_splits)
qed (simp_all add: claim_row_def)

lemma weaker_reject: "weaker K d (snd (reject_agent_enrollment_claim d c by err))"
proof (rule weaker_same_agents)
  let ?d = "snd (reject_agent_enrollment_claim d c by err)"
  fix a s assume s: "live_invite ?d a s"
  then show "\<exists>r. live_invite d a r"
    by (intro live_inviteI [OF s, of s]) (auto simp: live_invite_def reject_agent_enrollment_claim_def Let_def in_update_where split: if_splits)
qed (simp_all add: reject_agent_enrollment_claim_def Let_def claim_row_update)

lemma weaker_insert:
  assumes "insert_invite d row = Some d'" "bound_agent_id row = None"
  shows "weaker K d d'"
proof (rule weaker_same_agents)
  fix a s assume s: "live_invite d' a s"
  then show "\<exists>r. live_invite d a r"
    using assms by (intro live_inviteI [OF s, of s]) (auto simp: live_invite_def insert_invite_Some)
qed (use assms in \<open>simp_all add: insert_invite_Some claim_row_def\<close>)

lemma agent_row_id: "agent_row d a = Some r \<Longrightarrow> ag_id r = a"
  by (auto simp: agent_row_def dest!: find_in_set)

lemma agent_row_clear: "agent_row (clear_token_hash d a) b = map_option (\<lambda>r. if ag_id r = a then r\<lparr>api_token_hash := None\<rparr> else r) (agent_row d b)"
  by (simp add: agent_row_def clear_token_hash_def find_update_where)

lemma hash_of_clear: "hash_of (clear_token_hash d a) b = (if b = a then None else hash_of d b)"
  by (cases "agent_row d b") (auto simp: hash_of_def agent_row_clear dest: agent_row_id)

lemma weaker_clear: "weaker K d (clear_token_hash d a)"
proof -
  have "live_invite (clear_token_hash d a) b r = live_invite d b r" for b r by (simp add: live_invite_def)
  then show ?thesis unfolding weaker_def by (auto simp: hash_of_clear agent_row_clear claim_row_def)
qed

lemma weaker_revoke_credentials: "weaker K d (revoke_credentials_db d a now)"
  unfolding revoke_credentials_db_def revoke_bound_invites_def by (rule weaker_trans [OF weaker_revoke_rows weaker_clear])

lemma hash_of_revoke_credentials: "hash_of (revoke_credentials_db d a now) b = (if b = a then None else hash_of d b)"
  by (simp add: revoke_credentials_db_def hash_of_clear) (simp add: hash_of_def agent_row_def revoke_bound_invites_def)

lemma weaker_revoke_each: "weaker K d (revoke_each d ids now ok)"
  unfolding revoke_each_def
proof (induction "takeWhile ok ids" arbitrary: d ids)
  case (Cons x xs)
  have "weaker K e (foldl (\<lambda>d i. revoke_credentials_db d i now) e xs)" for e xs
    by (induction xs arbitrary: e) (auto simp: weaker_refl intro: weaker_trans [OF weaker_revoke_credentials])
  then show ?case by blast
qed (simp add: weaker_refl)

lemma hash_of_revoke_each: "hash_of (revoke_each d ids now ok) b \<in> {None, hash_of d b}"
proof -
  have "hash_of (foldl (\<lambda>d i. revoke_credentials_db d i now) d xs) b \<in> {None, hash_of d b}" for xs
  proof (induction xs arbitrary: d)
    case (Cons x xs)
    from Cons [of "revoke_credentials_db d x now"] show ?case by (auto simp: hash_of_revoke_credentials split: if_splits)
  qed simp
  then show ?thesis by (simp add: revoke_each_def)
qed

lemma refresh_claim_pending:
  assumes "c \<in> set (claims (snd (refresh_claim d input row iv)))" "cl_status c = ''pending''" "cl_invite_id c = Some i"
  shows "iv = Some i \<or> (\<exists>c0 \<in> set (claims d). cl_status c0 = ''pending'' \<and> cl_invite_id c0 = Some i)"
proof -
  obtain c0 where c0: "c0 \<in> set (claims d)" "cl_status c0 = cl_status c" "cl_invite_id c \<in> {cl_invite_id c0, iv}"
    using assms(1) by (auto simp: refresh_claim_def Let_def in_update_where)
  with assms(2,3) show ?thesis by auto
qed

lemma refresh_claim_approved:
  assumes "enroll_inv d" "row \<in> set (claims d)" "cl_status row = ''pending''" "claim_row d c = Some x" "cl_status x = ''approved''"
  shows "claim_row (snd (refresh_claim d input row iv)) c = Some x"
proof -
  have "x \<in> set (claims d)" using assms(4) by (auto simp: claim_row_def dest!: find_in_set)
  then have "cl_id x \<noteq> cl_id row" using keys_inj [OF enroll_invD(3) [OF assms(1)], of x row] assms(2,3,5) by auto
  with assms(4) show ?thesis by (simp add: refresh_claim_def Let_def claim_row_update)
qed

lemma weaker_create_claim:
  assumes "enroll_inv d" "create_agent_enrollment_claim sha d input now fresh ok = (r, d')" "fresh \<notin> cl_id ` set (claims d)"
  shows "weaker K d d'"
  using assms(2)
proof (cases rule: create_claim_cases)
  case refused
  then show ?thesis by (simp add: weaker_refl)
next
  case (refreshed row)
  show ?thesis
  proof (rule weaker_same_agents)
    show "\<exists>r. live_invite d a r" if s: "live_invite d' a s" for a s
    proof (rule live_inviteI [OF s, of s])
      show "s \<in> set (invites d)" using s by (simp add: live_invite_def refreshed)
    qed (use refresh_claim_pending [of _ d input row None] refreshed in auto)
    show "claim_row d' c = Some x" if "claim_row d c = Some x" "cl_status x = ''approved''" for c x
      unfolding refreshed(3) by (rule refresh_claim_approved [OF assms(1) refreshed(1,2) that])
  qed (simp add: refreshed)
next
  case (refreshed_code row invite)
  note ok = check_code_Ok [OF refreshed_code(3)]
  let ?u = "use_invite d (inv_id invite)"
  have "claim_row (snd (refresh_claim ?u input row iv)) c = claim_row (snd (refresh_claim d input row iv)) c" for iv c
    by (simp add: claim_row_def refresh_claim_def Let_def)
  note rows = this
  show ?thesis
  proof (rule weaker_same_agents)
    show "\<exists>r. live_invite d a r" if s: "live_invite d' a s" for a s
    proof -
      obtain r where r: "r \<in> set (invites d)" "s = (if inv_id r = inv_id invite then r\<lparr>uses_remaining := uses_remaining r - 1\<rparr> else r)"
        using s by (auto simp: live_invite_def refreshed_code use_invite_def in_update_where)
      have used: "0 < uses_remaining r" if "inv_id r = inv_id invite"
        using keys_inj [OF enroll_invD(1) [OF assms(1)] r(1) ok(1) that] ok(2) by simp
      show ?thesis
      proof (rule live_inviteI [OF s r(1)])
        fix c assume c: "c \<in> set (claims d')" "cl_status c = ''pending''" "cl_invite_id c = Some (inv_id s)"
        have "Some (inv_id invite) = Some (inv_id s) \<or> (\<exists>c0 \<in> set (claims ?u). cl_status c0 = ''pending'' \<and> cl_invite_id c0 = Some (inv_id s))"
          by (rule refresh_claim_pending [OF c(1) [unfolded refreshed_code(4)] c(2,3)])
        with used r(2) show "0 < uses_remaining r \<or> (\<exists>c \<in> set (claims d). cl_status c = ''pending'' \<and> cl_invite_id c = Some (inv_id r))"
          by (auto split: if_splits)
      qed (use r used in \<open>auto split: if_splits\<close>)
    qed
    show "claim_row d' c = Some x" if "claim_row d c = Some x" "cl_status x = ''approved''" for c x
      unfolding refreshed_code(4) rows by (rule refresh_claim_approved [OF assms(1) refreshed_code(1,2) that])
  qed (simp add: refreshed_code)
next
  case created
  show ?thesis
    by (rule weaker_same_agents)
      (auto simp: created live_invite_def new_claim_def claim_row_def find_append)
next
  case (created_code invite)
  note ok = check_code_Ok [OF created_code(2)]
  show ?thesis
  proof (rule weaker_same_agents)
    show "\<exists>r. live_invite d a r" if s: "live_invite d' a s" for a s
    proof -
      obtain r where "r \<in> set (invites d)" "s = (if inv_id r = inv_id invite then r\<lparr>uses_remaining := uses_remaining r - 1\<rparr> else r)"
        using s by (auto simp: live_invite_def created_code use_invite_def in_update_where)
      with s ok(1,2) keys_inj [OF enroll_invD(1) [OF assms(1)], of r invite] show ?thesis
        by (intro live_inviteI [OF s, of r]) (auto simp: live_invite_def created_code new_claim_def split: if_splits)
    qed
  qed (simp_all add: created_code claim_row_def find_append)
qed

section \<open>New credentials\<close>

lemma mark_approved_rows:
  "agent_rows (mark_claim_approved d c by a g h) = agent_rows d" "invites (mark_claim_approved d c by a g h) = invites d"
  "claim_row (mark_claim_approved d c by a g h) b = map_option (\<lambda>r. if cl_id r = c then r\<lparr>cl_status := ''approved'', approved_by := Some by,
     cl_agent_id := Some a, issued_token_hash := Some h, cl_error := None\<rparr> else r) (claim_row d b)"
  by (simp_all add: mark_claim_approved_def claim_row_def find_update_where)

lemma mark_approved_pending:
  assumes "x \<in> set (claims (mark_claim_approved d c by a g h))" "cl_status x = ''pending''"
  shows "x \<in> set (claims d) \<and> cl_id x \<noteq> c"
proof -
  obtain r where "r \<in> set (claims d)" "x = (if cl_id r = c then r\<lparr>cl_status := ''approved'', approved_by := Some by,
      cl_agent_id := Some a, issued_token_hash := Some h, cl_error := None\<rparr> else r)"
    using assms(1) by (auto simp: mark_claim_approved_def in_update_where)
  with assms(2) show ?thesis by (cases "cl_id r = c") auto
qed

lemma mark_approved_live:
  "live_invite (mark_claim_approved d c by a g h) b r \<Longrightarrow> live_invite d b r"
  using mark_approved_pending by (fastforce simp: live_invite_def mark_approved_rows)

lemma token_ok_kept:
  assumes "token_ok d x t" "x \<noteq> c" "agent_row e (pet_agent_id t) = agent_row d (pet_agent_id t)" "claims e = claims d"
  shows "token_ok (mark_claim_approved e c by a g h) x t"
proof -
  obtain w ag where w: "claim_row d x = Some w" "cl_status w = ''approved''" "cl_agent_id w = Some (pet_agent_id t)"
    "agent_row d (pet_agent_id t) = Some ag" "ag_name ag = pet_agent_name t" "api_token_hash ag \<in> {None, issued_token_hash w}"
    using assms(1) unfolding token_ok_def by blast
  have "claim_row e x = Some w" using w(1) assms(4) by (simp add: claim_row_def)
  moreover have "cl_id w \<noteq> c" using w(1) assms(2) by (auto simp: claim_row_def dest!: find_in_set)
  ultimately have "claim_row (mark_claim_approved e c by a g h) x = Some w" by (simp add: mark_approved_rows)
  moreover have "agent_row (mark_claim_approved e c by a g h) (pet_agent_id t) = Some ag"
    using w(4) assms(3) by (simp add: agent_row_def mark_approved_rows)
  ultimately show ?thesis using w by (auto simp: token_ok_def)
qed

lemma token_ok_new:
  assumes "claim_row e c = Some row" "agent_row e a = Some ag" "ag_name ag = name" "api_token_hash ag = Some h"
  shows "token_ok (mark_claim_approved e c by a g h) c \<lparr> pet_agent_id = a, pet_agent_name = name, pet_agent_token = tok \<rparr>"
proof -
  have "cl_id row = c" using assms(1) by (auto simp: claim_row_def dest!: find_in_set)
  with assms show ?thesis by (simp add: token_ok_def mark_approved_rows agent_row_def)
qed

lemma claim_row_id: "claim_row d c = Some r \<Longrightarrow> cl_id r = c \<and> r \<in> set (claims d)"
  by (auto simp: claim_row_def dest!: find_in_set)

lemma invite_row_in: "invite_row d i = Some r \<Longrightarrow> inv_id r = i \<and> r \<in> set (invites d)"
  by (auto simp: invite_row_def dest!: find_in_set)

text \<open>A code bound to a device is used up by its one claim.\<close>

lemma bound_claim_unique:
  assumes "enroll_inv d" "r \<in> set (invites d)" "bound_agent_id r = Some a" "c \<in> set (claims d)" "cl_invite_id c = Some (inv_id r)"
  shows "uses_remaining r = 0" "\<And>x. x \<in> set (claims d) \<Longrightarrow> cl_invite_id x = Some (inv_id r) \<Longrightarrow> x = c"
proof -
  note D = enroll_invD(7,10) [OF assms(1)] assms(2,3)
  have c: "c \<in> set (filter (\<lambda>c. cl_invite_id c = Some (inv_id r)) (claims d))" using assms(4,5) by simp
  then have one: "1 \<le> claims_under d (inv_id r)" unfolding claims_under_def by (metis One_nat_def Suc_leI length_pos_if_in_set)
  with D(1) [OF assms(2)] D(2) [OF assms(2,3)] show "uses_remaining r = 0" by linarith
  have "claims_under d (inv_id r) \<le> 1" using D(1) [OF assms(2)] D(2) [OF assms(2,3)] by linarith
  with c have only: "filter (\<lambda>c. cl_invite_id c = Some (inv_id r)) (claims d) = [c]"
    unfolding claims_under_def by (cases "filter (\<lambda>c. cl_invite_id c = Some (inv_id r)) (claims d)") auto
  show "x = c" if "x \<in> set (claims d)" "cl_invite_id x = Some (inv_id r)" for x
  proof -
    have "x \<in> set (filter (\<lambda>c. cl_invite_id c = Some (inv_id r)) (claims d))" using that by simp
    then show ?thesis unfolding only by simp
  qed
qed

lemma tokens_ok_insert:
  assumes T: "tokens_ok T d" and old: "\<And>x t. hm_get T x = Some t \<Longrightarrow> x \<noteq> c \<Longrightarrow> token_ok d' x t" and "token_ok d' c t"
    and live: "\<And>b r. live_invite d' b r \<Longrightarrow> (\<exists>r. live_invite d b r) \<and> b \<noteq> pet_agent_id t"
    and hash: "\<And>b. b \<noteq> pet_agent_id t \<Longrightarrow> hash_of d' b = hash_of d b"
  shows "tokens_ok (hm_insert c t T) d'"
  unfolding tokens_ok_def
proof (intro conjI allI impI)
  show "token_ok d' x u" if "hm_get (hm_insert c t T) x = Some u" for x u using that old assms(3) by (auto split: if_splits)
  fix b r assume l: "live_invite d' b r"
  then obtain r0 where "live_invite d b r0" and b: "b \<noteq> pet_agent_id t" using live by blast
  with T have "hash_of d b = None" and no: "\<And>x u. hm_get T x = Some u \<Longrightarrow> pet_agent_id u \<noteq> b" unfolding tokens_ok_def by blast+
  with hash b show "hash_of d' b = None" by simp
  show "pet_agent_id u \<noteq> b" if "hm_get (hm_insert c t T) x = Some u" for x u using that no b by (auto split: if_splits)
qed

lemma approve_tokens_ok:
  assumes inv: "enroll_inv d" and T: "tokens_ok T d" and fresh: "fresh \<notin> ag_id ` set (agent_rows d)"
    and run: "approve_claim_with_binding d c by nm g bound token h fresh now ok = (Some (Ok (a, tok, name)), d')"
  shows "tokens_ok (hm_insert c \<lparr> pet_agent_id = a, pet_agent_name = name, pet_agent_token = tok \<rparr> T) d'
    \<and> (\<forall>b. b \<noteq> a \<longrightarrow> hash_of d' b = hash_of d b) \<and> hash_of d' a = h \<and> hash_of d a = None"
  using run
proof (cases rule: approve_cases)
  case (rotated a' row invite ag h')
  then have a': "a' = a" by simp
  let ?rows = "update_where (\<lambda>r. ag_id r = a) (api_token_hash_update (\<lambda>_. Some h')) (agent_rows d)"
  note cr = claim_row_id [OF rotated(2)]
  obtain i where i: "cl_invite_id row = Some i" "invite_row d i = Some invite" using rotated(4) by (auto simp: bind_eq_Some_conv)
  note iv = invite_row_in [OF i(2)]
  have bound: "bound_agent_id invite = Some a" "cl_invite_id row = Some (inv_id invite)" using rotated(5) i(1) iv by (simp_all add: a')
  have live: "live_invite d a invite" using iv bound cr rotated(3,6) by (auto simp: live_invite_def)
  have old: "hash_of d a = None" "\<And>c t. hm_get T c = Some t \<Longrightarrow> pet_agent_id t \<noteq> a"
    using T live unfolding tokens_ok_def by blast+
  have row: "agent_row d' b = map_option (\<lambda>r. if ag_id r = a then r\<lparr>api_token_hash := Some h'\<rparr> else r) (agent_row d b)" for b
    by (simp add: rotated(11) a' agent_row_def mark_approved_rows find_update_where)
  have hash: "hash_of d' b = (if b = a then Some h' else hash_of d b)" for b
    using rotated(8) by (cases "agent_row d b") (auto simp: hash_of_def row a' dest: agent_row_id)
  have live': "\<exists>r. live_invite d b r \<and> b \<noteq> a" if l: "live_invite d' b r" for b r
  proof -
    have r: "r \<in> set (invites d)" "bound_agent_id r = Some b" "revoked_at r = None"
      using l by (simp_all add: live_invite_def rotated(11) mark_approved_rows)
    have "r \<noteq> invite"
    proof
      assume "r = invite"
      then obtain x where x: "x \<in> set (claims d')" "cl_status x = ''pending''" "cl_invite_id x = Some (inv_id invite)"
        using l bound_claim_unique(1) [OF inv _ bound(1) _ bound(2)] iv cr by (auto simp: live_invite_def)
      with mark_approved_pending [OF x(1) [unfolded rotated(11)] x(2)] have "x \<in> set (claims d)" "cl_id x \<noteq> c" by auto
      with bound_claim_unique(2) [OF inv _ bound(1) _ bound(2), of x] x iv cr show False by auto
    qed
    then have "b \<noteq> a" using enroll_invD(11) [OF inv r(1) _ _ bound(1) r(3)] iv rotated(6) r(2) by auto
    moreover have "live_invite d b r" using mark_approved_live [OF l [unfolded rotated(11)]] by (simp add: live_invite_def)
    ultimately show ?thesis by blast
  qed
  have "token_ok d' x t" if t: "hm_get T x = Some t" "x \<noteq> c" for x t
    unfolding rotated(11)
  proof (rule token_ok_kept [OF _ t(2)])
    show "token_ok d x t" using t(1) T by (simp add: tokens_ok_def)
    show "agent_row (d\<lparr>agent_rows := update_where (\<lambda>r. ag_id r = a') (api_token_hash_update (\<lambda>_. Some h')) (agent_rows d)\<rparr>) (pet_agent_id t)
        = agent_row d (pet_agent_id t)"
      using old(2) [OF t(1)] by (cases "agent_row d (pet_agent_id t)") (auto simp: agent_row_def find_update_where a' dest!: find_in_set)
  qed simp
  moreover have "token_ok d' c \<lparr> pet_agent_id = a, pet_agent_name = name, pet_agent_token = tok \<rparr>"
    unfolding rotated(11) a'
    by (rule token_ok_new [of _ _ row _ "ag\<lparr>api_token_hash := Some h'\<rparr>"])
      (use rotated(2,8,10) agent_row_id [OF rotated(8)] in \<open>auto simp: claim_row_def agent_row_def find_update_where a'\<close>)
  ultimately have "tokens_ok (hm_insert c \<lparr> pet_agent_id = a, pet_agent_name = name, pet_agent_token = tok \<rparr> T) d'"
    by (rule tokens_ok_insert [OF T]) (use live' hash in auto)
  with hash old rotated(9) show ?thesis by simp
next
  case (enrolled row name' h')
  then have a: "a = fresh" "name' = name" by simp_all
  let ?e = "d\<lparr>agent_rows := agent_rows d @ [\<lparr> ag_id = fresh, ag_name = name, api_token_hash = Some h' \<rparr>]\<rparr>"
  have none: "agent_row d fresh = None" using fresh by (auto simp: agent_row_def find_None_iff)
  have row: "agent_row ?e b = (if b = fresh then Some \<lparr> ag_id = fresh, ag_name = name, api_token_hash = Some h' \<rparr> else agent_row d b)" for b
    using none by (auto simp: agent_row_def find_append split: option.split)
  have d': "d' = mark_claim_approved ?e c by fresh g h'" using enrolled(9) a by simp
  have hash: "hash_of d' b = (if b = fresh then Some h' else hash_of d b)" for b
    using row [of b] by (simp add: hash_of_def d' agent_row_def mark_approved_rows)
  have live': "live_invite d b r \<and> b \<noteq> fresh" if l: "live_invite d' b r" for b r
  proof -
    have "live_invite d b r" using mark_approved_live [OF l [unfolded d']] by (simp add: live_invite_def)
    with enroll_invD(9) [OF inv, of r b] fresh show ?thesis by (auto simp: live_invite_def)
  qed
  have "token_ok d' x t" if t: "hm_get T x = Some t" "x \<noteq> c" for x t
  proof -
    have ok: "token_ok d x t" using t(1) T by (simp add: tokens_ok_def)
    then have "pet_agent_id t \<noteq> fresh" using none by (auto simp: token_ok_def)
    with row show ?thesis unfolding d' by (intro token_ok_kept [OF ok t(2)]) simp_all
  qed
  moreover have "token_ok d' c \<lparr> pet_agent_id = a, pet_agent_name = name, pet_agent_token = tok \<rparr>"
    unfolding d' a
    by (rule token_ok_new [of _ _ row _ "\<lparr> ag_id = fresh, ag_name = name, api_token_hash = Some h' \<rparr>"])
      (use enrolled(2) row in \<open>simp_all add: claim_row_def\<close>)
  ultimately have "tokens_ok (hm_insert c \<lparr> pet_agent_id = a, pet_agent_name = name, pet_agent_token = tok \<rparr> T) d'"
    by (rule tokens_ok_insert [OF T]) (use live' hash a in auto)
  with hash a enrolled(6) none show ?thesis by (simp add: hash_of_def)
next
  case refused
  then show ?thesis by blast
qed

section \<open>The invariant of credentials\<close>

definition cred_inv :: "Server \<Rightarrow> bool" where
  "cred_inv s \<longleftrightarrow> hm_wf (pending_enrollment_tokens (agents (app s))) \<and> tokens_ok (pending_enrollment_tokens (agents (app s))) (enroll s)
     \<and> (\<forall>a c. current_conn (agents (app s)) a = Some c \<longrightarrow> credential s a \<noteq> None \<and> hash_of (enroll s) a = credential s a)"

lemma cred_inv_step:
  assumes "cred_inv s" "weaker K (enroll s) (enroll t)" "credential t = credential s" "hm_wf (pending_enrollment_tokens (agents (app t)))"
    and "\<And>c p. hm_get (pending_enrollment_tokens (agents (app t))) c = Some p \<Longrightarrow>
      hm_get (pending_enrollment_tokens (agents (app s))) c = Some p \<and> pet_agent_id p \<in> K"
    and "\<And>a c. current_conn (agents (app t)) a = Some c \<Longrightarrow>
      current_conn (agents (app s)) a = Some c \<and> hash_of (enroll t) a = hash_of (enroll s) a"
  shows "cred_inv t"
  unfolding cred_inv_def
proof (intro conjI allI impI)
  show "tokens_ok (pending_enrollment_tokens (agents (app t))) (enroll t)"
    by (rule tokens_ok_weaker [OF _ assms(2,5)]) (use assms(1) in \<open>simp add: cred_inv_def\<close>)
  fix a c assume "current_conn (agents (app t)) a = Some c"
  with assms(1,3) assms(6) [OF this] show "credential t a \<noteq> None" "hash_of (enroll t) a = credential t a"
    by (auto simp: cred_inv_def)
qed (rule assms(4))

lemma cred_inv_view:
  assumes "cred_inv s" "reg_view (agents (app t)) = reg_view (agents (app s))" "weaker UNIV (enroll s) (enroll t)"
    "\<And>a. hash_of (enroll t) a = hash_of (enroll s) a" "credential t = credential s"
  shows "cred_inv t"
  using assms(1,2,4) by (intro cred_inv_step [OF assms(1,3,5)]) (auto simp: reg_view_def cred_inv_def)

lemma invalidate_view:
  "pending_enrollment_tokens (agents (invalidate_agent_connection f st a r at)) = pending_enrollment_tokens (agents st)"
  "current_conn (agents (invalidate_agent_connection f st a r at)) b = (if b = a then None else current_conn (agents st) b)"
proof -
  have "reg_view (agents (retire_connection f st a)) = reg_view (agents st)" by simp
  then have "pending_enrollment_tokens (agents (retire_connection f st a)) = pending_enrollment_tokens (agents st)" by (simp add: reg_view_def)
  then show "pending_enrollment_tokens (agents (invalidate_agent_connection f st a r at)) = pending_enrollment_tokens (agents st)"
    by (simp add: invalidate_agent_connection_def Let_def remove_agent_def clear_live_def split: option.split)
  show "current_conn (agents (invalidate_agent_connection f st a r at)) b = (if b = a then None else current_conn (agents st) b)"
    by (simp add: invalidate_agent_connection_def Let_def split: option.split)
qed

lemma forget_view:
  "pending_enrollment_tokens (agents (forget_tokens st keep)) = hm_retain (\<lambda>_ t. keep (pet_agent_id t)) (pending_enrollment_tokens (agents st))"
  "current_conn (agents (forget_tokens st keep)) b = current_conn (agents st) b"
  by (simp_all add: forget_tokens_def current_conn_def)

section \<open>Every step keeps it\<close>

lemma register_view:
  assumes "registered = Ok (Some session)"
  shows "reg_view (agents (snd (register_authenticated_connection f st au name registered has_report fresh now at)))
    = (pending_enrollment_tokens (agents st), (current_conn (agents st))(auth_id au \<mapsto> fresh))"
proof -
  have "reg_view (agents (retire_connection f st (auth_id au))) = reg_view (agents st)" by simp
  then have "pending_enrollment_tokens (agents (retire_connection f st (auth_id au))) = pending_enrollment_tokens (agents st)"
    "current_conn (agents (retire_connection f st (auth_id au))) = current_conn (agents st)" by (simp_all add: reg_view_def)
  moreover have "current_conn (reg\<lparr>connections := hm_insert a c (connections reg), modules := m, cmds := q\<rparr>) = (current_conn reg)(a \<mapsto> conn_id c)"
    for reg a c m q by (auto simp: current_conn_def fun_eq_iff)
  ultimately show ?thesis by (simp add: assms register_authenticated_connection_def Let_def reg_view_def)
qed

lemma register_refused:
  "registered \<noteq> Ok (Some session) \<Longrightarrow> registered \<in> {Err (), Ok None, Ok (Some session)} \<Longrightarrow>
     snd (register_authenticated_connection f st au name registered has_report fresh now at) = st"
  by (auto simp: register_authenticated_connection_def)

lemma register_authenticated_agent_cases:
  "register_authenticated_agent d a h session ok \<in> {Err (), Ok None, Ok (Some session)}"
  "enroll_inv d \<Longrightarrow> register_authenticated_agent d a h session ok = Ok (Some session) \<Longrightarrow> hash_of d a = Some h"
proof -
  show "register_authenticated_agent d a h session ok \<in> {Err (), Ok None, Ok (Some session)}" by (simp add: register_authenticated_agent_def)
  assume inv: "enroll_inv d" and "register_authenticated_agent d a h session ok = Ok (Some session)"
  then obtain r where r: "r \<in> set (agent_rows d)" "ag_id r = a" "api_token_hash r = Some h"
    by (auto simp: register_authenticated_agent_def list_ex_iff split: if_splits)
  then have "agent_row d a = Some r" using find_key_Some [OF enroll_invD(4) [OF inv]] by (simp add: agent_row_def)
  with r show "hash_of d a = Some h" by (simp add: hash_of_def)
qed

lemma cred_inv_register:
  assumes "cred_inv s" "enroll_inv (enroll s)" "registered = register_authenticated_agent (enroll s) (auth_id au) (auth_token_hash au) session ok"
  shows "cred_inv (s\<lparr>app := snd (register_authenticated_connection f (app s) au name registered has_report fresh now at),
      credential := (if registered = Ok (Some session) then (credential s)(auth_id au \<mapsto> auth_token_hash au) else credential s)\<rparr>)"
proof (cases "registered = Ok (Some session)")
  case True
  have "hash_of (enroll s) (auth_id au) = Some (auth_token_hash au)"
    by (rule register_authenticated_agent_cases(2) [OF assms(2)]) (use True assms(3) in simp)
  moreover note register_view [OF True, of f "app s" au name has_report fresh now at]
  ultimately show ?thesis using assms(1) True by (simp add: cred_inv_def reg_view_def)
next
  case False
  have "registered \<in> {Err (), Ok None, Ok (Some session)}" unfolding assms(3) by (rule register_authenticated_agent_cases(1))
  from register_refused [OF False this] False assms(1) show ?thesis by simp
qed

lemma cred_inv_cleanup:
  assumes "cred_inv s"
  shows "cred_inv (s\<lparr>app := cleanup_connection f (app s) a conn at\<rparr>)"
proof -
  let ?st = "clear_capture_connection_locked (revoke_agent_control_locked f (app s) a conn) a conn"
  have "reg_view (agents ?st) = reg_view (agents (app s))" by simp
  then have v: "pending_enrollment_tokens (agents ?st) = pending_enrollment_tokens (agents (app s))"
    "current_conn (agents ?st) = current_conn (agents (app s))" by (simp_all add: reg_view_def)
  have "pending_enrollment_tokens (agents (cleanup_connection f (app s) a conn at)) = pending_enrollment_tokens (agents (app s))"
    using v by (simp add: cleanup_connection_def Let_def remove_agent_def clear_live_def)
  moreover have "current_conn (agents (app s)) b = Some c" if "current_conn (agents (cleanup_connection f (app s) a conn at)) b = Some c" for b c
    using v that by (simp add: cleanup_connection_def Let_def split: if_splits)
  ultimately show ?thesis
    using assms by (intro cred_inv_step [OF assms, of UNIV]) (auto simp: cred_inv_def weaker_refl)
qed

lemma cred_inv_credentials_revoked:
  assumes "cred_inv s" "revoke_credentials_endpoint f (app s) (enroll s) a user t ok at = (r, st', e')"
  shows "cred_inv (s\<lparr>app := st', enroll := e'\<rparr>)"
proof (cases "is_admin user")
  case False
  with assms show ?thesis by (auto simp: revoke_credentials_endpoint_def revoke_agent_credentials_def)
next
  case True
  let ?i = "invalidate_agent_connection f (app s) a ''agent_credentials_revoked'' at"
  have wf: "hm_wf (pending_enrollment_tokens (agents (app s)))" using assms(1) by (simp add: cred_inv_def)
  have "weaker UNIV (enroll s) e'"
    using assms(2) True by (auto simp: revoke_credentials_endpoint_def case_prod_unfold Let_def weaker_refl weaker_revoke_credentials)
  moreover have "st' = (if ok then forget_tokens ?i (\<lambda>x. x \<noteq> a) else ?i)" "e' = (if ok then revoke_credentials_db (enroll s) a t else enroll s)"
    using assms(2) True by (auto simp: revoke_credentials_endpoint_def revoke_agent_credentials_def case_prod_unfold Let_def)
  ultimately show ?thesis
    using wf by (intro cred_inv_step [OF assms(1), of UNIV])
      (auto simp: invalidate_view forget_view hm_get_retain option_filter_eq_Some hash_of_revoke_credentials split: if_splits)
qed

lemma fold_invalidate_view:
  "pending_enrollment_tokens (agents (foldl (\<lambda>s i. invalidate_agent_connection f s i r at) st ids)) = pending_enrollment_tokens (agents st)"
  "current_conn (agents (foldl (\<lambda>s i. invalidate_agent_connection f s i r at) st ids)) b = (if b \<in> set ids then None else current_conn (agents st) b)"
  by (induction ids arbitrary: st) (auto simp: invalidate_view)

lemma fold_forget_view: "reg_view (agents (foldl (forget_agent f) st ids)) = reg_view (agents st)"
  by (induction ids arbitrary: st) (simp_all add: forget_agent_def)

lemma hash_of_revoke_each_other: "b \<notin> set ids \<Longrightarrow> hash_of (revoke_each d ids now ok) b = hash_of d b"
proof -
  have "b \<notin> set xs \<Longrightarrow> hash_of (foldl (\<lambda>d i. revoke_credentials_db d i now) d xs) b = hash_of d b" for xs
    by (induction xs arbitrary: d) (auto simp: hash_of_revoke_credentials)
  then show "b \<notin> set ids \<Longrightarrow> ?thesis" by (simp add: revoke_each_def) (metis set_takeWhileD)
qed

lemma agent_row_delete: "agent_row (delete_agent_rows d ids) a = (if a \<in> set ids then None else agent_row d a)"
proof -
  have "find (\<lambda>r. ag_id r = a) (filter (\<lambda>r. ag_id r \<notin> set ids) rows) = (if a \<in> set ids then None else find (\<lambda>r. ag_id r = a) rows)"
    for rows :: "AgentRow list" by (induction rows) auto
  then show ?thesis by (simp add: agent_row_def delete_agent_rows_def)
qed

lemma weaker_delete: "weaker (- set ids) d (delete_agent_rows d ids)"
  unfolding weaker_def
proof (intro conjI allI impI ballI)
  show "\<exists>r. live_invite d a r" if l: "live_invite (delete_agent_rows d ids) a s" for a s
  proof -
    obtain r where r: "r \<in> set (invites d)" "s = (if is_some_and (bound_agent_id r) (\<lambda>a. a \<in> set ids) then r\<lparr>bound_agent_id := None\<rparr> else r)"
      using l by (auto simp: live_invite_def delete_agent_rows_def in_update_where)
    have "s = r" using l r(2) by (auto simp: live_invite_def split: if_splits)
    with r show ?thesis
      by (intro live_inviteI [OF l, of r]) (fastforce simp: delete_agent_rows_def in_update_where split: if_splits)+
  qed
  show "\<exists>row'. claim_row (delete_agent_rows d ids) c = Some row' \<and> cl_status row' = ''approved'' \<and> cl_agent_id row' = cl_agent_id row
      \<and> issued_token_hash row' = issued_token_hash row"
    if "claim_row d c = Some row \<and> cl_status row = ''approved'' \<and> (\<exists>a \<in> - set ids. cl_agent_id row = Some a)" for c row
    using that by (auto simp: delete_agent_rows_def claim_row_def find_update_where)
qed (auto simp: agent_row_delete hash_of_def)

lemma cred_inv_deleted:
  assumes "cred_inv s" "delete_agents_endpoint f (app s) (enroll s) user ids t rv n at = (r, st', e')"
  shows "cred_inv (s\<lparr>app := st', db := d', enroll := e', deleted_agents := x\<rparr>)"
proof (cases "\<not> is_admin user \<or> ids = [] \<or> length ids > 128")
  case True
  then have "st' = app s" "e' = enroll s"
    using assms(2) by (auto simp: delete_agents_endpoint_def delete_agents_bulk_def Let_def case_prod_unfold split: if_splits)
  with assms(1) show ?thesis by (simp add: cred_inv_def)
next
  case False
  let ?st1 = "foldl (\<lambda>s i. invalidate_agent_connection f s i ''agent_deleted'' at) (app s) (remdups_adj (sort ids))"
  let ?d1 = "revoke_each (enroll s) ids t rv"
  let ?st2 = "forget_tokens ?st1 (\<lambda>a. a \<notin> set ids)"
  have wf: "hm_wf (pending_enrollment_tokens (agents (app s)))" using assms(1) by (simp add: cred_inv_def)
  have st1: "pending_enrollment_tokens (agents ?st1) = pending_enrollment_tokens (agents (app s))"
    "current_conn (agents ?st1) b = (if b \<in> set ids then None else current_conn (agents (app s)) b)" for b
    by (simp_all add: fold_invalidate_view)
  have st2: "reg_view (agents ?st2) = (hm_retain (\<lambda>_ t. pet_agent_id t \<notin> set ids) (pending_enrollment_tokens (agents (app s))),
      \<lambda>b. if b \<in> set ids then None else current_conn (agents (app s)) b)"
    by (simp add: reg_view_def forget_view st1 fun_eq_iff)
  consider (failed) "st' = ?st1" "e' = ?d1" | (kept) "st' = ?st2" "e' = ?d1"
    | (deleted) "st' = foldl (forget_agent f) ?st2 ids" "e' = delete_agent_rows ?d1 ids"
    using assms(2) False by (auto simp: delete_agents_endpoint_def delete_agents_bulk_def Let_def case_prod_unfold split: if_splits)
  then show ?thesis
  proof cases
    case failed
    then show ?thesis
      using wf by (intro cred_inv_step [OF assms(1), of UNIV]) (auto simp: st1 weaker_revoke_each hash_of_revoke_each_other split: if_splits)
  next
    case kept
    then show ?thesis
      using wf st2 by (intro cred_inv_step [OF assms(1), of UNIV])
        (auto simp: reg_view_def hm_get_retain option_filter_eq_Some weaker_revoke_each hash_of_revoke_each_other split: if_splits)
  next
    case deleted
    have "weaker (- set ids) (enroll s) e'" unfolding deleted(2) by (rule weaker_trans [OF weaker_revoke_each weaker_delete])
    moreover have "hash_of e' b = hash_of (enroll s) b" if "b \<notin> set ids" for b
      using that hash_of_revoke_each_other [OF that] by (simp add: deleted(2) hash_of_def agent_row_delete)
    moreover have "reg_view (agents st') = reg_view (agents ?st2)" unfolding deleted(1) by (rule fold_forget_view)
    ultimately show ?thesis
      using wf st2 by (intro cred_inv_step [OF assms(1), of "- set ids"])
        (auto simp: reg_view_def hm_get_retain option_filter_eq_Some split: if_splits)
  qed
qed

text \<open>Issuing a code for a replacement installation takes the device's credential away.\<close>

lemma replacement_tokens_ok:
  assumes "tokens_ok T d" "insert_invite (revoke_credentials_db d a now) row = Some d'" "bound_agent_id row = Some a"
    "\<And>c t. hm_get T' c = Some t \<Longrightarrow> hm_get T c = Some t \<and> pet_agent_id t \<noteq> a"
  shows "tokens_ok T' d' \<and> (\<forall>b. hash_of d' b = (if b = a then None else hash_of d b))"
proof -
  let ?r = "revoke_credentials_db d a now"
  have d': "d' = ?r\<lparr>invites := invites ?r @ [row]\<rparr>" using assms(2) by (simp add: insert_invite_Some)
  have ok: "tokens_ok T' ?r" by (rule tokens_ok_weaker [OF assms(1) weaker_revoke_credentials [of UNIV]]) (use assms(4) in auto)
  have hash: "hash_of d' b = (if b = a then None else hash_of d b)" for b
    using hash_of_revoke_credentials [of d a now b] by (simp add: d' hash_of_def agent_row_def)
  have token: "token_ok d' c t = token_ok ?r c t" for c t by (simp add: d' token_ok_def claim_row_def agent_row_def)
  have live: "b = a \<or> (\<exists>r. live_invite ?r b r)" if "live_invite d' b r" for b r
    using that assms(3) by (auto simp: d' live_invite_def)
  have "tokens_ok T' d'"
    unfolding tokens_ok_def
  proof (intro conjI allI impI)
    show "token_ok d' c t" if "hm_get T' c = Some t" for c t using ok that by (simp add: token tokens_ok_def)
    fix b r assume l: "live_invite d' b r"
    show "hash_of d' b = None" using live [OF l] ok by (auto simp: hash tokens_ok_def hash_of_revoke_credentials split: if_splits)
    show "pet_agent_id t \<noteq> b" if "hm_get T' c = Some t" for c t 
      using live [OF l] ok assms(4) [OF that] that unfolding tokens_ok_def by blast
  qed
  with hash show ?thesis by simp
qed

lemma cred_inv_replaced:
  assumes "cred_inv s" "replace_installation_db f sha jtime (app s) (enroll s) user a clock fresh draw oks at = (r, st', e')"
  shows "cred_inv (s\<lparr>app := st', enroll := e'\<rparr>)"
proof (cases "is_admin user")
  case False
  with assms show ?thesis by (auto simp: replace_installation_db_def replace_agent_installation_def Let_def)
next
  case True
  let ?i = "invalidate_agent_connection f (app s) a ''agent_credentials_revoked'' at"
  have inv: "hm_wf (pending_enrollment_tokens (agents (app s)))" "tokens_ok (pending_enrollment_tokens (agents (app s))) (enroll s)"
    "\<And>b c. current_conn (agents (app s)) b = Some c \<Longrightarrow> credential s b \<noteq> None \<and> hash_of (enroll s) b = credential s b"
    using assms(1) by (auto simp: cred_inv_def)
  obtain answer where run: "create_agent_replacement_token sha (enroll s) a clock fresh draw oks = (answer, e')"
    using assms(2) True by (auto simp: replace_installation_db_def Let_def case_prod_unfold prod_eq_iff)
  show ?thesis
  proof (cases "\<exists>x. answer = Ok (Some x)")
    case False
    then have "answer = Ok None \<or> (\<exists>e. answer = Err e)" by (metis not_None_eq sum.exhaust)
    moreover have "e' = enroll s" using replacement_token_result [OF run] False by blast
    ultimately have "st' = ?i" "e' = enroll s"
      using assms(2) True run by (auto simp: replace_installation_db_def replace_agent_installation_def Let_def case_prod_unfold)
    with inv(1) show ?thesis
      by (intro cred_inv_step [OF assms(1), of UNIV]) (auto simp: invalidate_view weaker_refl split: if_splits)
  next
    case ok: True
    then have st': "st' = forget_tokens ?i (\<lambda>x. x \<noteq> a)"
      using assms(2) True run by (auto simp: replace_installation_db_def replace_agent_installation_def Let_def case_prod_unfold)
    obtain row now where row: "insert_invite (revoke_credentials_db (enroll s) a now) row = Some e'" "bound_agent_id row = Some a"
      using replacement_token_result [OF run] ok by blast
    have "tokens_ok (pending_enrollment_tokens (agents st')) e' \<and> (\<forall>b. hash_of e' b = (if b = a then None else hash_of (enroll s) b))"
      by (rule replacement_tokens_ok [OF inv(2) row]) (use inv(1) in \<open>auto simp: st' forget_view invalidate_view hm_get_retain option_filter_eq_Some\<close>)
    with inv(1,3) show ?thesis
      by (auto simp: cred_inv_def st' forget_view invalidate_view split: if_splits)
  qed
qed

lemma cred_inv_code_issued:
  assumes "cred_inv s" "create_enrollment_token f sha add_hours jtime (app s) (enroll s) user body clock fresh draw oks at = (r, st', e')"
  shows "cred_inv (s\<lparr>app := st', enroll := e'\<rparr>)"
proof (cases "is_admin user")
  case False
  with assms show ?thesis by (auto simp: create_enrollment_token_def)
next
  case True
  show ?thesis
  proof (cases "tb_bound_agent_id body")
    case (Some a)
    with assms(2) True have "replace_installation_db f sha jtime (app s) (enroll s) user a clock fresh draw oks at = (the r, st', e')"
      by (auto simp: create_enrollment_token_def map_prod_def case_prod_unfold prod_eq_iff)
    from cred_inv_replaced [OF assms(1) this] show ?thesis .
  next
    case None
    have "weaker UNIV (enroll s) (snd (create_agent_enrollment_token sha (enroll s) u e n fresh draw oks))
        \<and> agent_rows (snd (create_agent_enrollment_token sha (enroll s) u e n fresh draw oks)) = agent_rows (enroll s)" for u e n
      using enrollment_token_result [OF prod.collapse [symmetric], of sha "enroll s" u e n fresh draw oks] weaker_insert weaker_refl
      by (auto simp: insert_invite_Some)
    with assms(2) True None have "st' = app s" "weaker UNIV (enroll s) e'" "agent_rows e' = agent_rows (enroll s)"
      by (auto simp: create_enrollment_token_def create_pairing_code_def Let_def case_prod_unfold weaker_refl prod_eq_iff
          split: option.splits sum.splits)
    then show ?thesis by (intro cred_inv_view [OF assms(1)]) (simp_all add: hash_of_def agent_row_def)
  qed
qed

lemma approve_view:
  assumes "cred_inv s" "enroll_inv d" "weaker UNIV (enroll s) d" "agent_rows d = agent_rows (enroll s)" "fresh \<notin> ag_id ` set (agent_rows d)"
    and run: "approve_agent_enrollment_claim f (app s) d c by nm g bound token h fresh t1 t2 ok1 ok2 at = (r, st', e')"
  shows "cred_inv (s\<lparr>app := st', enroll := e'\<rparr>)"
proof -
  let ?s = "s\<lparr>enroll := d\<rparr>"
  have s: "cred_inv ?s"
    by (rule cred_inv_view [OF assms(1)]) (use assms(3,4) in \<open>simp_all add: hash_of_def agent_row_def\<close>)
  note inv = s [unfolded cred_inv_def]
  let ?i = "case bound of Some i \<Rightarrow> invalidate_agent_connection f (app s) i ''agent_credentials_revoked'' at | None \<Rightarrow> app s"
  have i: "pending_enrollment_tokens (agents ?i) = pending_enrollment_tokens (agents (app s))"
    "current_conn (agents ?i) b = (if bound = Some b then None else current_conn (agents (app s)) b)" for b
    by (auto simp: invalidate_view split: option.split)
  have idle: "cred_inv (s\<lparr>app := ?i, enroll := d\<rparr>)"
    using inv i by (intro cred_inv_step [OF s, of UNIV]) (auto simp: weaker_refl split: if_splits)
  obtain outcome d' where o: "approve_claim_with_binding d c by nm g bound token h fresh t2 ok2 = (outcome, d')" by fastforce
  consider (same) "st' = app s" "e' = d" | (refused) "st' = ?i" "e' = d'" "\<And>x. outcome \<noteq> Some (Ok x)"
    | (issued) a tok name where "outcome = Some (Ok (a, tok, name))" "e' = d'"
        "st' = ?i\<lparr>agents := (agents ?i)\<lparr>pending_enrollment_tokens := hm_insert c
           \<lparr> pet_agent_id = a, pet_agent_name = name, pet_agent_token = tok \<rparr> (pending_enrollment_tokens (agents ?i))\<rparr>\<rparr>"
    using run o by (auto simp: approve_agent_enrollment_claim_def Let_def split: if_splits option.splits sum.splits)
  then show ?thesis
  proof cases
    case same
    with s show ?thesis by simp
  next
    case refused
    then have "d' = d" using o by (elim approve_cases) auto
    with refused idle show ?thesis by simp
  next
    case (issued a tok name)
    have "tokens_ok (hm_insert c \<lparr> pet_agent_id = a, pet_agent_name = name, pet_agent_token = tok \<rparr> (pending_enrollment_tokens (agents (app s)))) d'
        \<and> (\<forall>b. b \<noteq> a \<longrightarrow> hash_of d' b = hash_of d b) \<and> hash_of d' a = h \<and> hash_of d a = None"
      by (rule approve_tokens_ok [OF assms(2) _ assms(5) o [unfolded issued(1)]]) (use inv in simp)
    moreover have "b \<noteq> a" if "current_conn (agents (app s)) b = Some x" for b x using that inv calculation by auto
    ultimately show ?thesis using inv i unfolding issued cred_inv_def by (auto simp: current_conn_def)
  qed
qed

lemma cred_inv_claim_made:
  assumes "cred_inv s" "enroll_inv (enroll s)" "fresh \<notin> cl_id ` set (claims (enroll s))" "fresh_agent \<notin> ag_id ` set (agent_rows (enroll s))"
    and run: "create_enrollment_claim f sha (app s) (enroll s) body ip now fresh ok bound bok token h fresh_agent t1 t2 ok1 ok2 at = (r, st', e')"
  shows "cred_inv (s\<lparr>app := st', enroll := e'\<rparr>)"
proof (cases "trim (cb_requested_name body) = [] \<or> trim (cb_install_id body) = []")
  case True
  with assms(1) run show ?thesis by (auto simp: create_enrollment_claim_def)
next
  case False
  obtain res d1 where c: "create_agent_enrollment_claim sha (enroll s) (claim_input body ip) now fresh ok = (res, d1)" by fastforce
  have w: "weaker UNIV (enroll s) d1" by (rule weaker_create_claim [OF assms(2) c assms(3)])
  have rows: "agent_rows d1 = agent_rows (enroll s)" by (rule agent_rows_refresh [OF c])
  have inv: "enroll_inv d1" using create_claim_inv [OF assms(2) c assms(3)] by simp
  have plain: "cred_inv (s\<lparr>enroll := d1\<rparr>)"
    by (rule cred_inv_view [OF assms(1)]) (use w rows in \<open>simp_all add: hash_of_def agent_row_def\<close>)
  show ?thesis
  proof (cases "\<exists>claim. res = Some (Ok (claim, True)) \<and> bok")
    case True
    then obtain claim where claim: "res = Some (Ok (claim, True))" bok by blast
    obtain out where "approve_agent_enrollment_claim f (app s) d1 (cl_id claim) ''pairing_code'' None None bound token h fresh_agent t1 t2 ok1 ok2 at
        = (out, st', e')"
      using run False c claim by (auto simp: create_enrollment_claim_def Let_def case_prod_unfold prod_eq_iff)
    from approve_view [OF assms(1) inv w rows _ this] assms(4) rows show ?thesis by simp
  next
    case no: False
    then have "st' = app s \<and> e' = d1"
      using run False c by (auto simp: create_enrollment_claim_def Let_def split: option.splits sum.splits if_splits ClaimCreateReject.splits)
    with plain show ?thesis by simp
  qed
qed

lemma cred_inv_approved:
  assumes "cred_inv s" "enroll_inv (enroll s)" "fresh \<notin> ag_id ` set (agent_rows (enroll s))"
    and run: "approve_enrollment_claim f (app s) (enroll s) user c nm g bound bok token h fresh t1 t2 ok1 ok2 at = (r, st', e')"
  shows "cred_inv (s\<lparr>app := st', enroll := e'\<rparr>)"
proof (cases "is_admin user \<and> bok")
  case True
  obtain out where "approve_agent_enrollment_claim f (app s) (enroll s) c (username user) nm g bound token h fresh t1 t2 ok1 ok2 at = (out, st', e')"
    using run True by (auto simp: approve_enrollment_claim_def Let_def case_prod_unfold prod_eq_iff)
  from approve_view [OF assms(1,2) weaker_refl refl assms(3) this] show ?thesis .
next
  case False
  with assms(1) run show ?thesis by (auto simp: approve_enrollment_claim_def split: if_splits)
qed

lemma cred_inv_polled:
  assumes "cred_inv s" "poll_enrollment_claim f (app s) (enroll s) c ok = (resp, st')"
  shows "cred_inv (s\<lparr>app := st'\<rparr>)"
proof -
  have "st' = app s \<or> st' = (app s)\<lparr>agents := (agents (app s))\<lparr>pending_enrollment_tokens :=
      hm_remove c (pending_enrollment_tokens (agents (app s)))\<rparr>\<rparr>"
    using assms(2) by (auto simp: poll_enrollment_claim_def split: if_splits option.splits)
  then have "hm_wf (pending_enrollment_tokens (agents st'))" "\<And>a. current_conn (agents st') a = current_conn (agents (app s)) a"
    "\<And>x t. hm_get (pending_enrollment_tokens (agents st')) x = Some t \<Longrightarrow> hm_get (pending_enrollment_tokens (agents (app s))) x = Some t"
    using assms(1) by (auto simp: cred_inv_def current_conn_def split: if_splits)
  then show ?thesis by (intro cred_inv_step [OF assms(1), of UNIV]) (simp_all add: weaker_refl)
qed

lemma server_step_cred:
  assumes "server_step env s l t" "server_inv s" "cred_inv s"
  shows "cred_inv t"
proof -
  have e: "enroll_inv (enroll s)" using assms(2) by (simp add: server_inv_def)
  note view = cred_inv_view [OF assms(3)]
  show ?thesis
    using assms(1)
  proof cases
    case register
    from cred_inv_register [OF assms(3) e register(3)] show ?thesis unfolding register(2) .
  next
    case socket_closed
    show ?thesis unfolding socket_closed(2) by (rule cred_inv_cleanup [OF assms(3)])
  next
    case (socket_reads_queue a msg st1 conn t1 t2 act st2)
    have "cred_view st2 = cred_view (app s)"
      using cred_view_take [OF socket_reads_queue(3)] cred_view_delivery(3) [of "fmt env" st1 a conn msg t1 t2] socket_reads_queue(5) by simp
    then show ?thesis unfolding socket_reads_queue(2) by (intro view) (simp_all add: weaker_refl)
  next
    case (replaced_socket_reads a conn msg t1 t2 act st2)
    have "cred_view st2 = cred_view (app s)"
      using cred_view_delivery(3) [of "fmt env" "app s" a conn msg t1 t2] replaced_socket_reads(4) by simp
    then show ?thesis unfolding replaced_socket_reads(2) by (intro view) (simp_all add: weaker_refl)
  next
    case credentials_revoked
    from cred_inv_credentials_revoked [OF assms(3) credentials_revoked(3)] show ?thesis unfolding credentials_revoked(2) .
  next
    case (agents_deleted user ids t' rv n at r st' e')
    note del = cred_inv_deleted [OF assms(3) agents_deleted(3)]
    from del [where d' = "db s" and x = "deleted_agents s"] have "cred_inv (s\<lparr>app := st', enroll := e'\<rparr>)" by (simp add: cred_inv_def)
    with del show ?thesis unfolding agents_deleted(2) by simp
  next
    case code_issued
    from cred_inv_code_issued [OF assms(3) code_issued(4)] show ?thesis unfolding code_issued(2) .
  next
    case (code_revoked user i t' ok r' e')
    then show ?thesis
      by (intro view) (auto simp: revoke_enrollment_token_def revoke_agent_enrollment_token_def weaker_refl weaker_revoke_rows
          hash_of_def agent_row_def split: if_splits)
  next
    case (codes_revoked user t' ok r' e')
    then show ?thesis
      by (intro view) (auto simp: revoke_all_enrollment_tokens_def revoke_all_agent_enrollment_tokens_def weaker_refl weaker_revoke_rows
          hash_of_def agent_row_def split: if_splits)
  next
    case (claim_made fresh new_agent cbody ip t' ok bound bok token h t1 t2 ok1 ok2 at resp st' e')
    have "new_agent \<notin> ag_id ` set (agent_rows (enroll s))" using claim_made(4) by simp
    from cred_inv_claim_made [OF assms(3) e claim_made(3) this claim_made(5)] show ?thesis unfolding claim_made(2) .
  next
    case (claim_approved new_agent user c nm g bound bok token h t1 t2 ok1 ok2 at r' st' e')
    have "new_agent \<notin> ag_id ` set (agent_rows (enroll s))" using claim_approved(3) by simp
    from cred_inv_approved [OF assms(3) e this claim_approved(4)] show ?thesis unfolding claim_approved(2) .
  next
    case (claim_rejected user c err ok r' e')
    have "weaker UNIV (enroll s) e'" "agent_rows e' = agent_rows (enroll s)"
      using claim_rejected weaker_reject [of UNIV "enroll s" c "username user" err]
      by (auto simp: reject_enrollment_claim_def reject_agent_enrollment_claim_def Let_def weaker_refl split: if_splits bool.splits)
    with claim_rejected show ?thesis by (intro view) (simp_all add: hash_of_def agent_row_def)
  next
    case (claim_polled c ok resp st')
    from cred_inv_polled [OF assms(3) claim_polled(3)] show ?thesis unfolding claim_polled(2) .
  next
    case (viewer_served viewer vc ev vc' sent st')
    with cred_view_event [of env "app s" viewer vc ev] show ?thesis by (intro view) (simp_all add: weaker_refl)
  next
    case (report_received a conn v read_ok save_ok mark_ok now at r st' db')
    with cred_view_reports(1) [of "fmt env" "app s" "db s" a conn v read_ok save_ok mark_ok now at] show ?thesis
      by (intro view) (simp_all add: weaker_refl)
  next
    case (ack_received a conn v read_ok save_ok ok r st' db')
    with cred_view_reports(2) [of "fmt env" "app s" "db s" a conn v read_ok save_ok ok] show ?thesis
      by (intro view) (simp_all add: weaker_refl)
  next
    case (disable_requested a user body known p1 p2 p3 p4 mark_ok p5 now dr st' db')
    with cred_view_reports(3) [of "fmt env" "app s" "db s" a user body known p1 p2 p3 p4 mark_ok p5 now] show ?thesis
      by (intro view) (simp_all add: weaker_refl)
  qed (simp_all add: view weaker_refl)
qed

lemma cred_inv_new: "cred_inv Server_new"
  by (simp add: cred_inv_def Server_new_def AppState_new_def AgentRegistry_default_def tokens_ok_def live_invite_def EnrollDb_new_def
      current_conn_def hm_wf_def)

interpretation credentials: safe_system "server_step env" Server_new "\<lambda>s. server_inv s \<and> cred_inv s" for env
  by unfold_locales (auto intro: server_inv_new cred_inv_new server_step_inv server_step_cred)

section \<open>Tokens are handed out once\<close>

text \<open>What a claim that has been decided keeps: it stays decided, and it never gets a token again.\<close>

definition decided :: "EnrollDb \<Rightarrow> Uuid \<Rightarrow> bool" where
  "decided d c \<longleftrightarrow> (\<exists>row. claim_row d c = Some row \<and> cl_status row \<noteq> ''pending'')"

abbreviation tokens_of :: "AppState \<Rightarrow> (Uuid, PendingEnrollmentToken) HashMap" where
  "tokens_of st \<equiv> pending_enrollment_tokens (agents st)"

definition spent_kept :: "AppState \<Rightarrow> EnrollDb \<Rightarrow> AppState \<Rightarrow> EnrollDb \<Rightarrow> bool" where
  "spent_kept st d st' d' \<longleftrightarrow> (\<forall>c. decided d c \<longrightarrow> decided d' c \<and> (hm_get (tokens_of st) c = None \<longrightarrow> hm_get (tokens_of st') c = None))"

lemma decided_update:
  assumes "claims d' = update_where p g (claims d)" "decided d c" "\<And>r. cl_id (g r) = cl_id r"
    "\<And>r. p r \<Longrightarrow> cl_status r \<noteq> ''pending'' \<Longrightarrow> cl_status (g r) \<noteq> ''pending''"
  shows "decided d' c"
proof -
  obtain row where row: "claim_row d c = Some row" "cl_status row \<noteq> ''pending''" using assms(2) by (auto simp: decided_def)
  with assms have "claim_row d' c = Some (if p row then g row else row)" "cl_status (if p row then g row else row) \<noteq> ''pending''"
    by (simp_all add: claim_row_def find_update_where)
  then show ?thesis unfolding decided_def by blast
qed

lemma decided_same: "claims d' = claims d \<Longrightarrow> decided d' c = decided d c"
  by (simp add: decided_def claim_row_def)

lemma decided_create:
  assumes "create_agent_enrollment_claim sha d input now fresh ok = (r, d')" "decided d c"
  shows "decided d' c"
  using assms(1)
proof (cases rule: create_claim_cases)
  case (refreshed row)
  show ?thesis by (rule decided_update [OF _ assms(2)], simp add: refreshed refresh_claim_def Let_def) simp_all
next
  case (refreshed_code row invite)
  show ?thesis by (rule decided_update [OF _ assms(2)], simp add: refreshed_code refresh_claim_def Let_def) simp_all
qed (use assms(2) in \<open>auto simp: decided_def claim_row_def find_append\<close>)

lemma approve_spent:
  assumes "approve_agent_enrollment_claim f st d c by nm g bound token h fresh t1 t2 ok1 ok2 at = (r, st', e')"
  shows "spent_kept st d st' e'"
proof -
  let ?i = "case bound of Some i \<Rightarrow> invalidate_agent_connection f st i ''agent_credentials_revoked'' at | None \<Rightarrow> st"
  have i: "tokens_of ?i = tokens_of st" by (simp add: invalidate_view split: option.split)
  obtain outcome d' where o: "approve_claim_with_binding d c by nm g bound token h fresh t2 ok2 = (outcome, d')" by fastforce
  have db: "decided d x \<Longrightarrow> decided d' x" for x
    using o
  proof (cases rule: approve_cases)
    case (rotated a row invite ag h')
    show "decided d x \<Longrightarrow> decided d' x" by (rule decided_update, simp add: rotated(11) mark_claim_approved_def) simp_all
  next
    case (enrolled row name h')
    show "decided d x \<Longrightarrow> decided d' x" by (rule decided_update, simp add: enrolled(9) mark_claim_approved_def) simp_all
  qed simp
  have new: "\<not> decided d c" if "outcome = Some (Ok x)" for x
    using o that by (elim approve_cases) (auto simp: decided_def)
  show ?thesis
    using assms o i db new unfolding spent_kept_def
    by (auto simp: approve_agent_enrollment_claim_def Let_def split: if_splits option.splits sum.splits)
qed

lemma spent_kept_refl: "spent_kept st d st d" and spent_kept_trans: "spent_kept st d st' d' \<Longrightarrow> spent_kept st' d' st'' d'' \<Longrightarrow> spent_kept st d st'' d''"
  by (auto simp: spent_kept_def)

lemma spent_keptI:
  "(\<And>c. decided d c \<Longrightarrow> decided d' c) \<Longrightarrow> (\<And>c. hm_get (tokens_of st) c = None \<Longrightarrow> hm_get (tokens_of st') c = None) \<Longrightarrow> spent_kept st d st' d'"
  by (simp add: spent_kept_def)

lemma retain_None: "hm_get T c = None \<Longrightarrow> hm_get (hm_retain p T) c = None"
  by (auto simp: hm_retain_def map_of_eq_None_iff)

lemma claims_revoke_each [simp]: "claims (revoke_each d ids now ok) = claims d"
proof -
  have "claims (foldl (\<lambda>d i. revoke_credentials_db d i now) d xs) = claims d" for xs
    by (induction xs arbitrary: d) (simp_all add: revoke_credentials_rows)
  then show ?thesis by (simp add: revoke_each_def)
qed

lemma spent_kept_claims:
  "claims d' = claims d \<Longrightarrow> (\<And>c. hm_get (tokens_of st) c = None \<Longrightarrow> hm_get (tokens_of st') c = None) \<Longrightarrow> spent_kept st d st' d'"
  by (simp add: spent_kept_def decided_def claim_row_def)

lemma admin_spent:
  "revoke_credentials_endpoint f st d a user t ok at = (r, st', e') \<Longrightarrow> spent_kept st d st' e'"
  "delete_agents_endpoint f st d user ids t rv n at = (r2, st', e') \<Longrightarrow> spent_kept st d st' e'"
  "replace_installation_db f sha jtime st d user a clock fresh draw oks at = (r3, st', e') \<Longrightarrow> spent_kept st d st' e'"
proof -
  show "spent_kept st d st' e'" if "revoke_credentials_endpoint f st d a user t ok at = (r, st', e')"
    by (rule spent_kept_claims) (use that in \<open>auto simp: revoke_credentials_endpoint_def revoke_agent_credentials_def Let_def
        case_prod_unfold invalidate_view forget_view retain_None revoke_credentials_rows split: if_splits\<close>)
  have del: "decided d c \<Longrightarrow> decided (delete_agent_rows (revoke_each d ids t rv) ids) c" for c
    by (rule decided_update, simp add: delete_agent_rows_def) simp_all
  have fr: "tokens_of (foldl (forget_agent f) x ids) = tokens_of x" for x using fold_forget_view [of f x ids] by (simp add: reg_view_def)
  show "spent_kept st d st' e'" if run: "delete_agents_endpoint f st d user ids t rv n at = (r2, st', e')"
  proof (rule spent_keptI)
    have "e' = d \<or> e' = revoke_each d ids t rv \<or> e' = delete_agent_rows (revoke_each d ids t rv) ids"
      using run by (auto simp: delete_agents_endpoint_def Let_def case_prod_unfold split: if_splits)
    with del show "decided d c \<Longrightarrow> decided e' c" for c using decided_same [OF claims_revoke_each, of d ids t rv c] by metis
    show "hm_get (tokens_of st) c = None \<Longrightarrow> hm_get (tokens_of st') c = None" for c
      using run by (auto simp: delete_agents_endpoint_def delete_agents_bulk_def Let_def case_prod_unfold fold_invalidate_view forget_view
          retain_None fr split: if_splits)
  qed
  have "claims (snd (create_agent_replacement_token sha d a clock fresh draw oks)) = claims d"
    using replacement_token_result [OF prod.collapse [symmetric], of sha d a clock fresh draw oks]
    by (auto simp: insert_invite_Some revoke_credentials_rows)
  then show "spent_kept st d st' e'" if "replace_installation_db f sha jtime st d user a clock fresh draw oks at = (r3, st', e')"
    by (intro spent_kept_claims) (use that in \<open>auto simp: replace_installation_db_def replace_agent_installation_def Let_def case_prod_unfold
        invalidate_view forget_view retain_None split: if_splits sum.splits option.splits\<close>)
qed

lemma claim_made_spent:
  assumes "create_enrollment_claim f sha st d body ip now fresh ok bound bok token h fresh_agent t1 t2 ok1 ok2 at = (r, st', e')"
  shows "spent_kept st d st' e'"
proof (cases "trim (cb_requested_name body) = [] \<or> trim (cb_install_id body) = []")
  case True
  with assms show ?thesis by (auto simp: create_enrollment_claim_def spent_kept_refl)
next
  case False
  obtain res d1 where c: "create_agent_enrollment_claim sha d (claim_input body ip) now fresh ok = (res, d1)" by fastforce
  have made: "spent_kept st d st d1" by (rule spent_keptI) (use decided_create [OF c] in simp_all)
  show ?thesis
  proof (cases "\<exists>claim. res = Some (Ok (claim, True)) \<and> bok")
    case True
    then obtain claim where claim: "res = Some (Ok (claim, True))" bok by blast
    obtain out where "approve_agent_enrollment_claim f st d1 (cl_id claim) ''pairing_code'' None None bound token h fresh_agent t1 t2 ok1 ok2 at
        = (out, st', e')"
      using assms False c claim by (auto simp: create_enrollment_claim_def Let_def case_prod_unfold prod_eq_iff)
    from spent_kept_trans [OF made approve_spent [OF this]] show ?thesis .
  next
    case no: False
    then have "st' = st \<and> e' = d1"
      using assms False c by (auto simp: create_enrollment_claim_def Let_def split: option.splits sum.splits if_splits ClaimCreateReject.splits)
    with made show ?thesis by simp
  qed
qed

lemma endpoints_spent:
  "create_enrollment_token f sha add_hours jtime st d user body clock fresh draw oks at = (r, st', e') \<Longrightarrow> spent_kept st d st' e'"
  "approve_enrollment_claim f st d user c nm g bound bok token h fresh t1 t2 ok1 ok2 at = (r2, st', e') \<Longrightarrow> spent_kept st d st' e'"
  "reject_enrollment_claim d user c err ok = (r3, e') \<Longrightarrow> spent_kept st d st e'"
  "poll_enrollment_claim f st d c ok = (resp, st') \<Longrightarrow> spent_kept st d st' d"
proof -
  have codes: "claims (snd (create_agent_enrollment_token sha d u e n fresh draw oks)) = claims d" for u e n
    using enrollment_token_result [OF prod.collapse [symmetric], of sha d u e n fresh draw oks] by (auto simp: insert_invite_Some)
  show "spent_kept st d st' e'" if run: "create_enrollment_token f sha add_hours jtime st d user body clock fresh draw oks at = (r, st', e')"
  proof (cases "is_admin user \<and> tb_bound_agent_id body \<noteq> None")
    case True
    then obtain a where "replace_installation_db f sha jtime st d user a clock fresh draw oks at = (the r, st', e')"
      using run by (auto simp: create_enrollment_token_def map_prod_def case_prod_unfold prod_eq_iff)
    then show ?thesis by (rule admin_spent(3))
  next
    case False
    then have "st' = st" "claims e' = claims d"
      using run codes by (auto simp: create_enrollment_token_def create_pairing_code_def Let_def case_prod_unfold prod_eq_iff
          split: if_splits option.splits sum.splits)
    then show ?thesis by (intro spent_kept_claims) simp_all
  qed
  show "spent_kept st d st' e'" if "approve_enrollment_claim f st d user c nm g bound bok token h fresh t1 t2 ok1 ok2 at = (r2, st', e')"
    using that approve_spent [of f st d c "username user" nm g bound token h fresh t1 t2 ok1 ok2 at]
    by (cases "is_admin user \<and> bok") (auto simp: approve_enrollment_claim_def Let_def case_prod_unfold prod_eq_iff spent_kept_refl split: if_splits)
  have "decided d x \<Longrightarrow> decided (snd (reject_agent_enrollment_claim d c (username user) err)) x" for x
    by (rule decided_update, simp add: reject_agent_enrollment_claim_def Let_def) simp_all
  then show "spent_kept st d st e'" if "reject_enrollment_claim d user c err ok = (r3, e')"
    by (intro spent_keptI) (use that in \<open>auto simp: reject_enrollment_claim_def case_prod_unfold split: if_splits bool.splits\<close>)
  show "spent_kept st d st' d" if "poll_enrollment_claim f st d c ok = (resp, st')"
    by (rule spent_kept_claims) (use that in \<open>auto simp: poll_enrollment_claim_def split: if_splits option.splits\<close>)
qed

lemma server_step_spent:
  assumes "server_step env s l t"
  shows "spent_kept (app s) (enroll s) (app t) (enroll t)"
proof -
  have view: "spent_kept st d st' d" if "cred_view st' = cred_view st" for st st' d
    using that by (intro spent_kept_claims) (simp_all add: reg_view_def)
  show ?thesis
    using assms
  proof cases
    case (register registered au session ok name has_report fresh now at)
    show ?thesis
    proof (cases "registered = Ok (Some session)")
      case True
      from register_view [OF True, of "fmt env" "app s" au name has_report fresh now at] register show ?thesis
        by (intro spent_kept_claims) (simp_all add: reg_view_def)
    next
      case False
      have "registered \<in> {Err (), Ok None, Ok (Some session)}" unfolding register(3) by (rule register_authenticated_agent_cases(1))
      from register_refused [OF False this] register show ?thesis by (simp add: spent_kept_refl)
    qed
  next
    case (socket_closed a conn at)
    have "cred_view (clear_capture_connection_locked (revoke_agent_control_locked (fmt env) (app s) a conn) a conn) = cred_view (app s)" by simp
    with socket_closed show ?thesis
      by (intro spent_kept_claims) (simp_all add: cleanup_connection_def Let_def remove_agent_def clear_live_def reg_view_def)
  next
    case (socket_reads_queue a msg st1 conn t1 t2 act st2)
    have "cred_view st2 = cred_view (app s)"
      using cred_view_take [OF socket_reads_queue(3)] cred_view_delivery(3) [of "fmt env" st1 a conn msg t1 t2] socket_reads_queue(5) by simp
    with socket_reads_queue show ?thesis by (simp add: view)
  next
    case (replaced_socket_reads a conn msg t1 t2 act st2)
    with cred_view_delivery(3) [of "fmt env" "app s" a conn msg t1 t2] show ?thesis by (simp add: view)
  next
    case (agents_deleted user ids t' rv n at r st' e')
    with admin_spent(2) [OF agents_deleted(3)] show ?thesis by simp
  next
    case (code_revoked user i t' ok r' e')
    then show ?thesis by (intro spent_kept_claims)
      (auto simp: revoke_enrollment_token_def revoke_agent_enrollment_token_def split: if_splits)
  next
    case (codes_revoked user t' ok r' e')
    then show ?thesis by (intro spent_kept_claims)
      (auto simp: revoke_all_enrollment_tokens_def revoke_all_agent_enrollment_tokens_def split: if_splits)
  next
    case (viewer_served viewer vc ev vc' sent st')
    with cred_view_event [of env "app s" viewer vc ev] show ?thesis by (simp add: view)
  next
    case (report_received a conn v read_ok save_ok mark_ok now at r st' db')
    with cred_view_reports(1) [of "fmt env" "app s" "db s" a conn v read_ok save_ok mark_ok now at] show ?thesis by (simp add: view)
  next
    case (ack_received a conn v read_ok save_ok ok r st' db')
    with cred_view_reports(2) [of "fmt env" "app s" "db s" a conn v read_ok save_ok ok] show ?thesis by (simp add: view)
  next
    case (disable_requested a user body known p1 p2 p3 p4 mark_ok p5 now dr st' db')
    with cred_view_reports(3) [of "fmt env" "app s" "db s" a user body known p1 p2 p3 p4 mark_ok p5 now] show ?thesis by (simp add: view)
  qed (simp_all add: view admin_spent endpoints_spent claim_made_spent)
qed

interpretation decisions: monotone_system "server_step env" "\<lambda>s t. spent_kept (app s) (enroll s) (app t) (enroll t)" for env
  by unfold_locales (auto intro: spent_kept_refl spent_kept_trans server_step_spent)

end
