(* ===== verification/Pairing.thy ===== *)
theory Pairing
  imports Credentials
begin

text \<open>
  What enrollment promises, over any run of the server: whose credential a connection holds, which token a poll hands
  out and how often, what a pairing code is worth, and which changes give a device a new credential.
\<close>

section \<open>Tokens and connections\<close>

text \<open>
  C6. A device is connected only under the credential the server holds for it: in every reachable state, the device
  of a current connection has its row in the \<open>agents\<close> table, with the token hash the connection was registered
  under. Revoking, replacing or deleting it cuts the connection off in the same step.
\<close>

theorem connected_device_holds_credential:
  assumes "reaches (server_step env) Server_new s" and "current_conn (agents (app s)) a = Some conn"
  shows "\<exists>row h. agent_row (enroll s) a = Some row \<and> api_token_hash row = Some h \<and> credential s a = Some h"
  using credentials.inv_reachable [OF assms(1)] assms(2) by (cases "agent_row (enroll s) a") (auto simp: cred_inv_def hash_of_def)

lemma connected_conn: "current_conn (agents (app connected)) 9 = Some 3"
  using connected_registry(3) by (auto simp: current_conn_def)

theorem connected_device_holds_credential_witness:
  "current_conn (agents (app connected)) 9 = Some 3 \<and> (\<exists>row. agent_row (enroll connected) 9 = Some row \<and> api_token_hash row = Some ''h'')"
  using connected_device_holds_credential [OF connected_reachable connected_conn] connected_conn by auto

lemma poll_hands_out:
  assumes "poll_enrollment_claim f st d c ok = (resp, st')" "as_str (v_index (snd resp) ''agent_token'') = Some tok"
  obtains row p where "claim_row d c = Some row" "cl_status row = ''approved''" "hm_get (tokens_of st) c = Some p" "resp = token_response f p"
    "st' = st\<lparr>agents := (agents st)\<lparr>pending_enrollment_tokens := hm_remove c (tokens_of st)\<rparr>\<rparr>"
proof (cases "claim_row d c")
  case None
  with assms show ?thesis by (cases ok) (auto simp: poll_enrollment_claim_def error_response_def json_obj_def v_index_def)
next
  case (Some row)
  show ?thesis
  proof (cases "ok \<and> cl_status row = ''approved''")
    case True
    show ?thesis
    proof (cases "hm_get (tokens_of st) c")
      case None
      with assms Some True have "resp = (200, json_obj [(''status'', Str ''approved''), (''agent_id'', json_opt (json_uuid f) (cl_agent_id row)),
          (''agent_name'', Str (cl_requested_name row)),
          (''error'', Str ''credential was already retrieved; start a new pairing if this device did not save it'')])"
        by (simp add: poll_enrollment_claim_def)
      with assms(2) show ?thesis by (simp add: json_obj_def v_index_def)
    next
      case (Some p)
      with assms(1) True \<open>claim_row d c = Some row\<close> show ?thesis by (intro that) (auto simp: poll_enrollment_claim_def)
    qed
  next
    case False
    then have "resp \<in> {error_response 500 ''could not load claim'', (200, json_obj [(''status'', Str ''pending''), (''poll_after_secs'', json_nat 2)]),
      (200, json_obj [(''status'', Str (cl_status row)), (''error'', Str (unwrap_or (cl_error row) ''Rejected by admin''))]),
      (200, json_obj [(''status'', Str (cl_status row)), (''poll_after_secs'', json_nat 5)])}"
      using assms(1) Some by (simp add: poll_enrollment_claim_def split: if_splits)
    with assms(2) show ?thesis by (auto simp: error_response_def json_obj_def v_index_def)
  qed
qed

text \<open>What a poll that hands out a token finds and leaves.\<close>

lemma handed_step:
  assumes "server_step env s (Handed c tok) t"
  obtains p row where "hm_get (tokens_of (app s)) c = Some p" "pet_agent_token p = tok" "claim_row (enroll s) c = Some row"
    "cl_status row = ''approved''" "hm_get (tokens_of (app t)) c = None" "enroll t = enroll s"
  using assms
proof cases
  case (socket_reads_queue a msg st1 conn t1 t2 act st2)
  then show ?thesis by (simp split: WriterAction.splits)
next
  case (replaced_socket_reads a conn msg t1 t2 act st2)
  then show ?thesis by (simp split: WriterAction.splits)
next
  case (claim_polled c' ok resp st')
  note run = claim_polled(3)
  have label: "as_str (v_index (snd resp) ''agent_token'') = Some tok" "c' = c"
    using claim_polled(1) by (auto simp: poll_label_def split: option.splits)
  obtain row p where "claim_row (enroll s) c = Some row" "cl_status row = ''approved''" "hm_get (tokens_of (app s)) c = Some p"
    "resp = token_response (fmt env) p"
    "st' = (app s)\<lparr>agents := (agents (app s))\<lparr>pending_enrollment_tokens := hm_remove c (tokens_of (app s))\<rparr>\<rparr>"
    by (rule poll_hands_out [OF run label(1), unfolded label(2)])
  moreover have "pet_agent_token p = tok" using label calculation(4) by (simp add: token_response_def json_obj_def v_index_def)
  ultimately show ?thesis using claim_polled(2) by (intro that) auto
qed

text \<open>
  The token a poll hands out is the one issued when that claim was approved: the claim was approved for the
  device the token is for, under the device's name, and unless the device's credentials were revoked in between, the
  hash the server authenticates it against is the one stored with the approval. The poll takes the token out of memory.
\<close>

theorem handed_token_is_the_credential:
  assumes "reaches (server_step env) Server_new s" and "server_step env s (Handed c tok) t"
  shows "\<exists>p row ag. hm_get (tokens_of (app s)) c = Some p \<and> pet_agent_token p = tok
    \<and> claim_row (enroll t) c = Some row \<and> cl_status row = ''approved'' \<and> cl_agent_id row = Some (pet_agent_id p)
    \<and> agent_row (enroll t) (pet_agent_id p) = Some ag \<and> ag_name ag = pet_agent_name p
    \<and> api_token_hash ag \<in> {None, issued_token_hash row} \<and> hm_get (tokens_of (app t)) c = None"
proof -
  obtain p row where h: "hm_get (tokens_of (app s)) c = Some p" "pet_agent_token p = tok" "claim_row (enroll s) c = Some row"
    "cl_status row = ''approved''" "hm_get (tokens_of (app t)) c = None" "enroll t = enroll s" by (rule handed_step [OF assms(2)])
  have "token_ok (enroll s) c p" using credentials.inv_reachable [OF assms(1)] h(1) by (auto simp: cred_inv_def tokens_ok_def)
  with h show ?thesis by (auto simp: token_ok_def)
qed

text \<open>The device of the example polls its claim.\<close>

abbreviation paired :: Server where
  "paired \<equiv> enrolled\<lparr>app := (app enrolled)\<lparr>agents := (agents (app enrolled))\<lparr>pending_enrollment_tokens := []\<rparr>\<rparr>\<rparr>"

lemma enrolled_polls: "server_step example_env enrolled (Handed 2 ''token'') paired"
proof -
  have "poll_enrollment_claim (fmt example_env) (app enrolled) (enroll enrolled) 2 True = (token_response (fmt example_env) example_token, app paired)"
    by (simp add: poll_enrollment_claim_def enrolled_def claim_row_def example_claim_def new_claim_def hm_remove_def)
  from claim_polled [OF this] show ?thesis
    by (simp add: poll_label_def token_response_def example_token_def json_obj_def v_index_def)
qed

theorem handed_token_is_the_credential_witness:
  "\<exists>t. server_step example_env enrolled (Handed 2 ''token'') t \<and> hm_get (tokens_of (app t)) 2 = None"
  using handed_token_is_the_credential [OF enrolled_reachable enrolled_polls] enrolled_polls by blast

text \<open>
  A token is handed out once: after a poll has returned the token of a claim, no later poll of that claim
  returns a token, whatever happens in between.
\<close>

theorem token_handed_out_once:
  assumes "server_step env s (Handed c tok) t" and "reaches (server_step env) t u"
  shows "\<not> server_step env u (Handed c tok') v"
proof
  assume again: "server_step env u (Handed c tok') v"
  obtain p row where h: "claim_row (enroll s) c = Some row" "cl_status row = ''approved''" "hm_get (tokens_of (app t)) c = None"
    "enroll t = enroll s" by (rule handed_step [OF assms(1)])
  then have "decided (enroll t) c" by (simp add: decided_def)
  with h decisions.le_reaches [OF assms(2)] have "hm_get (tokens_of (app u)) c = None" by (simp add: spent_kept_def)
  then show False using again by (elim handed_step) simp
qed

theorem token_handed_out_once_witness:
  "server_step example_env enrolled (Handed 2 ''token'') paired \<and> \<not> server_step example_env paired (Handed 2 ''token'') paired"
  using token_handed_out_once [OF enrolled_polls reaches_refl] enrolled_polls by blast

section \<open>What a pairing code is worth\<close>

lemma server_step_codes:
  assumes "server_step env s l t" "server_inv s"
  shows "codes_kept (enroll s) (enroll t)"
proof -
  have e: "enroll_inv (enroll s)" using assms(2) by (simp add: server_inv_def)
  have kept: "codes_kept (enroll s) e'" if "x = (r, st', e')" "enroll_ok (enroll s) (snd (snd x))" for x :: "'x \<times> 'y \<times> EnrollDb" and r st' e'
    using that by (simp add: enroll_ok_def)
  show ?thesis
    using assms(1)
  proof cases
    case (agents_deleted user ids t' rv n at r st' e')
    with kept [OF agents_deleted(3) revoking_endpoints_ok(5) [OF e]] show ?thesis by simp
  next
    case (credentials_revoked a user t' ok at r st' e')
    with kept [OF credentials_revoked(3) revoking_endpoints_ok(4) [OF e]] show ?thesis by simp
  next
    case (code_issued fresh user tbody clk draw oks at tr st' e')
    with kept [OF code_issued(4) token_endpoint_ok [OF e code_issued(3)]] show ?thesis by simp
  next
    case (claim_made fresh new_agent cbody ip t' ok bound bok token h t1 t2 ok1 ok2 at resp st' e')
    have "new_agent \<notin> ag_id ` set (agent_rows (enroll s))" using claim_made(4) by simp
    with claim_made(2) kept [OF claim_made(5) claim_endpoint_ok [OF e claim_made(3)]] show ?thesis by simp
  next
    case (claim_approved new_agent user c nm g bound bok token h t1 t2 ok1 ok2 at r' st' e')
    have "new_agent \<notin> ag_id ` set (agent_rows (enroll s))" using claim_approved(3) by simp
    with claim_approved(2) kept [OF claim_approved(4) approved_ok [OF e]] show ?thesis by simp
  next
    case (code_revoked user i t' ok r' e')
    with revoking_endpoints_ok(1) [OF e, of user i t' ok] show ?thesis by (simp add: enroll_ok_def)
  next
    case (codes_revoked user t' ok r' e')
    with revoking_endpoints_ok(2) [OF e, of user t' ok] show ?thesis by (simp add: enroll_ok_def)
  next
    case (claim_rejected user c err ok r' e')
    with revoking_endpoints_ok(3) [OF e, of user c err ok] show ?thesis by (simp add: enroll_ok_def)
  qed (simp_all add: codes_kept_refl)
qed

interpretation codes: monotone_system "server_step env" "\<lambda>s t. server_inv s \<longrightarrow> server_inv t \<and> codes_kept (enroll s) (enroll t)" for env
  by unfold_locales (auto intro: codes_kept_refl codes_kept_trans server_step_codes server_step_inv)

text \<open>
  A pairing code is worth no more claims than it was issued for: from any reachable state on, the uses a code
  has left and the claims made with it never add up to more than they do now; in particular no more claims are ever
  made with it than that sum, and once it is revoked it stays revoked.
\<close>

theorem code_budget:
  assumes "reaches (server_step env) Server_new s" and "reaches (server_step env) s t" and "r \<in> set (invites (enroll s))"
  shows "\<exists>r' \<in> set (invites (enroll t)). inv_id r' = inv_id r \<and> secret_digest r' = secret_digest r \<and> 0 \<le> uses_remaining r'
    \<and> uses_remaining r' + int (claims_under (enroll t) (inv_id r)) \<le> uses_remaining r + int (claims_under (enroll s) (inv_id r))
    \<and> (revoked_at r \<noteq> None \<longrightarrow> revoked_at r' \<noteq> None)"
proof -
  have "server_inv t" "codes_kept (enroll s) (enroll t)"
    using codes.le_reaches [OF assms(2)] server.inv_reachable [OF assms(1)] by simp_all
  moreover have "\<forall>r' \<in> set (invites (enroll t)). 0 \<le> uses_remaining r'" using calculation(1) by (simp add: server_inv_def enroll_inv_def)
  ultimately show ?thesis using assms(3) unfolding codes_kept_def code_le_def by blast
qed

theorem code_budget_witness:
  "\<exists>r' \<in> set (invites (enroll enrolled)). inv_id r' = 1 \<and> uses_remaining r' + int (claims_under (enroll enrolled) 1) \<le> 1"
proof -
  have "example_invite \<in> set (invites (enroll coded))" "claims_under (enroll coded) 1 = 0"
    by (simp_all add: coded_def claims_under_def EnrollDb_new_def)
  moreover have "inv_id example_invite = 1" "uses_remaining example_invite = 1" by (simp_all add: example_invite_def)
  moreover have pairs: "reaches (server_step example_env) coded enrolled" by (rule reaches_step, rule reaches_refl, rule coded_pairs)
  ultimately show ?thesis using code_budget [OF coded_reachable pairs, of example_invite] by force
qed

section \<open>New credentials for old devices\<close>

definition no_new_hash :: "EnrollDb \<Rightarrow> EnrollDb \<Rightarrow> bool" where
  "no_new_hash d d' \<longleftrightarrow> (\<forall>a. agent_row d a \<noteq> None \<longrightarrow> hash_of d' a \<in> {None, hash_of d a} \<or> (\<exists>r. live_invite d a r))"

lemma no_new_hash_rows: "agent_rows d' = agent_rows d \<Longrightarrow> no_new_hash d d'"
  by (simp add: no_new_hash_def hash_of_def agent_row_def)

lemma no_new_hash_admin:
  "no_new_hash d (snd (snd (revoke_credentials_endpoint f st d a user t ok at)))"
  "no_new_hash d (snd (snd (delete_agents_endpoint f st d user ids t rv n at)))"
  "no_new_hash d (snd (snd (create_enrollment_token f sha add_hours jtime st d user body clock fresh draw oks at)))"
proof -
  show "no_new_hash d (snd (snd (revoke_credentials_endpoint f st d a user t ok at)))"
    by (simp add: revoke_credentials_endpoint_def Let_def case_prod_unfold no_new_hash_def hash_of_revoke_credentials)
  have del: "hash_of (delete_agent_rows e ids) b = (if b \<in> set ids then None else hash_of e b)" for e b
    by (simp add: hash_of_def agent_row_delete)
  have "no_new_hash d (revoke_each d ids t rv)" "no_new_hash d (delete_agent_rows (revoke_each d ids t rv) ids)"
    using hash_of_revoke_each [of d ids t rv] by (auto simp: no_new_hash_def del) (metis option.distinct(1))
  then show "no_new_hash d (snd (snd (delete_agents_endpoint f st d user ids t rv n at)))"
    by (simp add: delete_agents_endpoint_def Let_def case_prod_unfold no_new_hash_rows)
  have "agent_rows (snd (create_agent_enrollment_token sha d u e n fresh draw oks)) = agent_rows d" for u e n
    using enrollment_token_result [OF prod.collapse [symmetric], of sha d u e n fresh draw oks] by (auto simp: insert_invite_Some)
  moreover have "no_new_hash d (snd (create_agent_replacement_token sha d a clock fresh draw oks))" for a
    using replacement_token_result [OF prod.collapse [symmetric], of sha d a clock fresh draw oks] hash_of_revoke_credentials [of d a]
    by (auto simp: insert_invite_Some no_new_hash_rows) (auto simp: no_new_hash_def hash_of_def agent_row_def)
  ultimately show "no_new_hash d (snd (snd (create_enrollment_token f sha add_hours jtime st d user body clock fresh draw oks at)))"
    by (simp add: create_enrollment_token_def create_pairing_code_def replace_installation_db_def Let_def case_prod_unfold no_new_hash_rows
        split: option.split sum.split)
qed

lemma no_new_hash_approve:
  assumes "enroll_inv d" "fresh \<notin> ag_id ` set (agent_rows d)"
  shows "no_new_hash d (snd (approve_claim_with_binding d c by nm g bound token h fresh now ok))"
proof -
  obtain r d' where run: "approve_claim_with_binding d c by nm g bound token h fresh now ok = (r, d')" by fastforce
  have "no_new_hash d d'"
    using run
  proof (cases rule: approve_cases)
    case refused
    then show ?thesis by (simp add: no_new_hash_rows)
  next
    case (rotated a row invite ag h')
    obtain i where i: "cl_invite_id row = Some i" "invite_row d i = Some invite" using rotated(4) by (auto simp: bind_eq_Some_conv)
    have "live_invite d a invite"
      using invite_row_in [OF i(2)] i claim_row_id [OF rotated(2)] rotated(3,5,6) by (auto simp: live_invite_def)
    moreover have "hash_of d' b = hash_of d b" if "b \<noteq> a" for b
      using that by (cases "agent_row d b") (auto simp: rotated(11) hash_of_def agent_row_def mark_approved_rows find_update_where dest!: find_in_set)
    ultimately show ?thesis by (fastforce simp: no_new_hash_def)
  next
    case (enrolled row name h')
    have "agent_row d' b = agent_row d b" if "agent_row d b \<noteq> None" for b
      using that by (auto simp: enrolled(9) agent_row_def mark_approved_rows find_append)
    then show ?thesis by (simp add: no_new_hash_def hash_of_def)
  qed
  with run show ?thesis by simp
qed

lemma no_new_hash_claims:
  assumes "enroll_inv d" "fresh_agent \<notin> ag_id ` set (agent_rows d)"
  shows "no_new_hash d (snd (snd (approve_agent_enrollment_claim f st d c by nm g bound token h fresh_agent t1 t2 ok1 ok2 at)))"
    "no_new_hash d (snd (snd (approve_enrollment_claim f st d user c nm g bound bok token h fresh_agent t1 t2 ok1 ok2 at)))"
proof -
  have approve: "no_new_hash d (snd (snd (approve_agent_enrollment_claim f st d c who nm g bound token h fresh_agent t1 t2 ok1 ok2 at)))"
    for f st c who nm g bound token h t1 t2 ok1 ok2 at
    using no_new_hash_approve [OF assms] by (simp add: approve_agent_enrollment_claim_def Let_def case_prod_unfold no_new_hash_rows)
  then show "no_new_hash d (snd (snd (approve_agent_enrollment_claim f st d c by nm g bound token h fresh_agent t1 t2 ok1 ok2 at)))" .
  show "no_new_hash d (snd (snd (approve_enrollment_claim f st d user c nm g bound bok token h fresh_agent t1 t2 ok1 ok2 at)))"
    by (simp add: approve_enrollment_claim_def Let_def case_prod_unfold approve no_new_hash_rows)
qed

lemma no_new_hash_weaker:
  "no_new_hash d1 d' \<Longrightarrow> weaker UNIV d d1 \<Longrightarrow> agent_rows d1 = agent_rows d \<Longrightarrow> no_new_hash d d'"
  unfolding no_new_hash_def using weaker_live [of UNIV d d1] by (simp add: hash_of_def agent_row_def) blast

lemma no_new_hash_made:
  assumes "enroll_inv d" "fresh \<notin> cl_id ` set (claims d)" "fresh_agent \<notin> ag_id ` set (agent_rows d)"
  shows "no_new_hash d (snd (snd (create_enrollment_claim f sha st d body ip now fresh ok bound bok token h fresh_agent t1 t2 ok1 ok2 at)))"
proof -
  obtain res d1 where c: "create_agent_enrollment_claim sha d (claim_input body ip) now fresh ok = (res, d1)" by fastforce
  have w: "weaker UNIV d d1" by (rule weaker_create_claim [OF assms(1) c assms(2)])
  have rows: "agent_rows d1 = agent_rows d" by (rule agent_rows_refresh [OF c])
  have "enroll_inv d1" using create_claim_inv [OF assms(1) c assms(2)] by simp
  note approve = no_new_hash_weaker [OF no_new_hash_claims(1) [OF this, unfolded rows, OF assms(3)] w rows]
  show ?thesis
    by (simp add: create_enrollment_claim_def c Let_def case_prod_unfold approve rows no_new_hash_rows split: option.split sum.split ClaimCreateReject.split)
qed

lemma server_step_hash:
  assumes "server_step env s l t" "server_inv s"
  shows "no_new_hash (enroll s) (enroll t)"
proof -
  have e: "enroll_inv (enroll s)" using assms(2) by (simp add: server_inv_def)
  have out: "no_new_hash (enroll s) e'" if "x = (r, st', e')" "no_new_hash (enroll s) (snd (snd x))" for x :: "'x \<times> 'y \<times> EnrollDb" and r st' e'
    using that by simp
  show ?thesis
    using assms(1)
  proof cases
    case (agents_deleted user ids t' rv n at r st' e')
    with out [OF agents_deleted(3) no_new_hash_admin(2)] show ?thesis by simp
  next
    case (credentials_revoked a user t' ok at r st' e')
    with out [OF credentials_revoked(3) no_new_hash_admin(1)] show ?thesis by simp
  next
    case (code_issued fresh user tbody clk draw oks at tr st' e')
    with out [OF code_issued(4) no_new_hash_admin(3)] show ?thesis by simp
  next
    case (claim_made fresh new_agent cbody ip t' ok bound bok token h t1 t2 ok1 ok2 at resp st' e')
    have "new_agent \<notin> ag_id ` set (agent_rows (enroll s))" using claim_made(4) by simp
    with claim_made(2) out [OF claim_made(5) no_new_hash_made [OF e claim_made(3)]] show ?thesis by simp
  next
    case (claim_approved new_agent user c nm g bound bok token h t1 t2 ok1 ok2 at r' st' e')
    have "new_agent \<notin> ag_id ` set (agent_rows (enroll s))" using claim_approved(3) by simp
    with claim_approved(2) out [OF claim_approved(4) no_new_hash_claims(2) [OF e]] show ?thesis by simp
  next
    case (code_revoked user i t' ok r' e')
    then show ?thesis
      by (intro no_new_hash_rows) (auto simp: revoke_enrollment_token_def revoke_agent_enrollment_token_def split: if_splits)
  next
    case (codes_revoked user t' ok r' e')
    then show ?thesis
      by (intro no_new_hash_rows) (auto simp: revoke_all_enrollment_tokens_def revoke_all_agent_enrollment_tokens_def split: if_splits)
  next
    case (claim_rejected user c err ok r' e')
    then show ?thesis
      by (intro no_new_hash_rows) (auto simp: reject_enrollment_claim_def reject_agent_enrollment_claim_def Let_def split: if_splits bool.splits)
  qed (simp_all add: no_new_hash_rows)
qed

text \<open>
  C8. Nothing but a code bound to a device gives that device a new credential: when a step changes the token hash
  of a device that already has a row to a new one, an unrevoked code bound to that device was in use, and before
  the step the device held no credential, was not connected and had no token waiting to be picked up.
\<close>

theorem new_credential_needs_bound_code:
  assumes "reaches (server_step env) Server_new s" and "server_step env s l t" and "agent_row (enroll s) a = Some ag"
    and "agent_row (enroll t) a = Some ag'" and "api_token_hash ag' = Some h" and "api_token_hash ag \<noteq> Some h"
  shows "api_token_hash ag = None \<and> current_conn (agents (app s)) a = None
    \<and> (\<forall>c p. hm_get (tokens_of (app s)) c = Some p \<longrightarrow> pet_agent_id p \<noteq> a)
    \<and> (\<exists>r \<in> set (invites (enroll s)). bound_agent_id r = Some a \<and> revoked_at r = None)"
proof -
  note inv = credentials.inv_reachable [OF assms(1)]
  from inv have "no_new_hash (enroll s) (enroll t)" by (intro server_step_hash [OF assms(2)]) simp
  then obtain r where r: "live_invite (enroll s) a r" using assms(3-6) by (auto simp: no_new_hash_def hash_of_def)
  with inv have "hash_of (enroll s) a = None" "\<forall>c p. hm_get (tokens_of (app s)) c = Some p \<longrightarrow> pet_agent_id p \<noteq> a"
    unfolding cred_inv_def tokens_ok_def by blast+
  moreover from calculation(1) inv have "current_conn (agents (app s)) a = None"
    by (cases "current_conn (agents (app s)) a") (auto simp: cred_inv_def)
  ultimately show ?thesis using r assms(3) by (auto simp: live_invite_def hash_of_def)
qed

text \<open>The administrator replaces the installation of the example's device; the new installation claims the device with the code.\<close>

definition replacement_invite :: Invite where
  "replacement_invite = \<lparr> inv_id = 5, secret_digest = code6 7, inv_kind = ''re_enroll'', uses_remaining = 1, inv_expires_at = Some 600000000,
     auto_approve = True, bound_agent_id = Some 9, inv_note = None, revoked_at = None \<rparr>"

definition replaced_db :: EnrollDb where
  "replaced_db = \<lparr> invites = [example_invite\<lparr>uses_remaining := 0\<rparr>, replacement_invite], claims = [example_claim],
     agent_rows = [\<lparr> ag_id = 9, ag_name = ''pc'', api_token_hash = None \<rparr>], group_members = [] \<rparr>"

definition replacement_body :: CreateClaimBody where
  "replacement_body = example_claim_body\<lparr>cb_pairing_code := Some (code6 7)\<rparr>"

lemma replaced_reachable: "\<exists>st. reaches (server_step example_env) Server_new (enrolled\<lparr>app := st, enroll := replaced_db\<rparr>)"
proof -
  let ?body = "\<lparr> tb_uses = 1, tb_expires_in_hours = None, tb_note = None, tb_bound_agent_id = Some 9 \<rparr>"
  obtain r st' e' where run: "create_enrollment_token (fmt example_env) (sha256_hex example_env) (plus_hours example_env) (json_time example_env)
      (app enrolled) (enroll enrolled) example_admin ?body (\<lambda>_. 0) 5 (\<lambda>_. 7) (\<lambda>_. True) Null = (r, st', e')" by (metis prod_cases3)
  have "code6 4217 \<noteq> code6 7" by (simp add: code6_def char_of_def bit_0)
  then have "insert_invite (revoke_credentials_db (enroll enrolled) 9 0) replacement_invite = Some replaced_db"
    by (simp add: insert_invite_def replacement_invite_def replaced_db_def revoke_credentials_db_def revoke_bound_invites_def
        clear_token_hash_def update_where_def enrolled_def example_invite_def)
  then have "create_agent_replacement_token (\<lambda>s. s) (enroll enrolled) 9 (\<lambda>_. 0) 5 (\<lambda>_. 7) (\<lambda>_. True)
      = (Ok (Some (5, code6 7, 600000000)), replaced_db)"
    unfolding create_agent_replacement_token_def
    by (subst try_codes_collision_free [where r = "(Some (5, code6 7, 600000000), replaced_db)"])
      (simp_all add: replacement_invite_def MINUTE_def agent_row_def Let_def enrolled_def)
  with run have e': "e' = replaced_db"
    by (auto simp: create_enrollment_token_def replace_installation_db_def example_admin_def is_admin_def case_prod_unfold Let_def prod_eq_iff)
  have "server_step example_env enrolled Quiet (enrolled\<lparr>app := st', enroll := replaced_db\<rparr>)"
    using code_issued [OF _ run] by (simp add: e' enrolled_def example_invite_def)
  with enrolled_reachable show ?thesis using reaches_step by metis
qed

lemma replacement_claimed:
  assumes "s = enrolled\<lparr>app := st, enroll := replaced_db\<rparr>"
  shows "\<exists>t. server_step example_env s Quiet t \<and> agent_row (enroll t) 9 = Some \<lparr> ag_id = 9, ag_name = ''pc'', api_token_hash = Some ''k'' \<rparr>"
proof -
  obtain r st' e' where run: "create_enrollment_claim (fmt example_env) (sha256_hex example_env) (app s) (enroll s)
      replacement_body None 5 6 True (Some 9) True ''other'' (Some ''k'') 10 6 6 True True Null = (r, st', e')" by (metis prod_cases3)
  let ?row = "new_claim (\<lambda>s. s) (claim_input replacement_body None) (Some 5) 6 5"
  let ?d = "replaced_db\<lparr>invites := [example_invite\<lparr>uses_remaining := 0\<rparr>, replacement_invite\<lparr>uses_remaining := 0\<rparr>], claims := [example_claim, ?row]\<rparr>"
  have "code6 4217 \<noteq> code6 7" by (simp add: code6_def char_of_def bit_0)
  then have "check_code (\<lambda>s. s) replaced_db (code6 7) 5 = Ok replacement_invite"
    by (simp add: check_code_def replaced_db_def example_invite_def replacement_invite_def expired_def)
  then have made: "create_agent_enrollment_claim (\<lambda>s. s) replaced_db (claim_input replacement_body None) 5 6 True = (Some (Ok (?row, True)), ?d)"
    by (simp add: create_agent_enrollment_claim_def claim_input_def replacement_body_def example_claim_body_def install_digest_def replaced_db_def
        use_invite_def update_where_def example_invite_def replacement_invite_def invite_auto_approves_def code6_nonempty
        example_claim_def new_claim_def Let_def)
  have lock: "lock_claim_for_approval ?d 6 (Some 9) 6 = Ok (cl_requested_name ?row, Some 9)" 
    by (simp add: lock_claim_for_approval_def claim_row_def new_claim_def invite_row_def example_invite_def replacement_invite_def
        expired_def example_claim_def)
  have "enrollment_claim_bound_agent_id ?d 6 6 = Some 9"
    by (simp add: enrollment_claim_bound_agent_id_def claim_row_def new_claim_def invite_row_def example_invite_def replacement_invite_def
        expired_def example_claim_def)
  moreover have rows: "agent_rows replaced_db = [\<lparr> ag_id = 9, ag_name = ''pc'', api_token_hash = None \<rparr>]" by (simp add: replaced_db_def)
  moreover have "agent_row (snd (approve_claim_with_binding ?d 6 ''pairing_code'' None None (Some 9) ''other'' (Some ''k'') 10 6 True)) 9
      = Some \<lparr> ag_id = 9, ag_name = ''pc'', api_token_hash = Some ''k'' \<rparr>"
    by (simp add: approve_claim_with_binding_def lock issue_agent_credentials_def mark_claim_approved_def update_where_def
        rows agent_row_def)
  moreover have "cl_id ?row = 6" "trim (cb_requested_name replacement_body) \<noteq> []" "trim (cb_install_id replacement_body) \<noteq> []"
    by (simp_all add: new_claim_def replacement_body_def example_claim_body_def)
  ultimately have "agent_row e' 9 = Some \<lparr> ag_id = 9, ag_name = ''pc'', api_token_hash = Some ''k'' \<rparr>"
    using run made by (simp add: create_enrollment_claim_def approve_agent_enrollment_claim_def case_prod_unfold assms Let_def prod_eq_iff)
  moreover have "server_step example_env s Quiet (s\<lparr>app := st', enroll := e'\<rparr>)"
    by (rule claim_made [OF _ _ run]) (simp_all add: assms replaced_db_def example_claim_def new_claim_def enrolled_def Server_new_def)
  ultimately show ?thesis by (intro exI [of _ "s\<lparr>app := st', enroll := e'\<rparr>"]) simp
qed

theorem new_credential_needs_bound_code_witness:
  "\<exists>s :: Server. agent_row (enroll s) 9 = Some \<lparr> ag_id = 9, ag_name = ''pc'', api_token_hash = None \<rparr>
     \<and> current_conn (agents (app s)) 9 = None \<and> (\<exists>r \<in> set (invites (enroll s)). bound_agent_id r = Some 9 \<and> revoked_at r = None)"
proof -
  obtain st where reach: "reaches (server_step example_env) Server_new (enrolled\<lparr>app := st, enroll := replaced_db\<rparr>)" (is "reaches _ _ ?s")
    using replaced_reachable by blast
  obtain t where t: "server_step example_env ?s Quiet t"
    "agent_row (enroll t) 9 = Some \<lparr> ag_id = 9, ag_name = ''pc'', api_token_hash = Some ''k'' \<rparr>" using replacement_claimed [OF refl] by blast
  have row: "agent_row (enroll ?s) 9 = Some \<lparr> ag_id = 9, ag_name = ''pc'', api_token_hash = None \<rparr>" by (simp add: agent_row_def replaced_db_def)
  have "current_conn (agents (app ?s)) 9 = None \<and> (\<exists>r \<in> set (invites (enroll ?s)). bound_agent_id r = Some 9 \<and> revoked_at r = None)"
    using new_credential_needs_bound_code [OF reach t(1) row t(2), of "''k''"] by simp
  with row show ?thesis by blast
qed

section \<open>Pairing end to end\<close>

lemma invite_row_use:
  assumes "enroll_inv d" "invite \<in> set (invites d)"
  shows "invite_row (use_invite d (inv_id invite)) (inv_id invite) = Some (invite\<lparr>uses_remaining := uses_remaining invite - 1\<rparr>)"
proof -
  have "invite_row d (inv_id invite) = Some invite"
    using enroll_invD(1) [OF assms(1)] assms(2) by (simp add: invite_row_def find_key_Some)
  then show ?thesis by (simp add: invite_row_def use_invite_def find_update_where)
qed

lemma claim_with_code:
  assumes "enroll_inv d" "fresh \<notin> cl_id ` set (claims d)" and x: "in_pairing_code input = Some x" "check_code sha d (trim x) now = Ok invite"
    and "bound_agent_id invite = None" "\<not> name_taken d (claim_name input)"
  obtains row d' where "create_agent_enrollment_claim sha d input now fresh True = (Some (Ok (row, invite_auto_approves invite)), d')"
    "claim_row d' (cl_id row) = Some row" "cl_status row = ''pending''" "cl_invite_id row = Some (inv_id invite)"
    "cl_requested_name row = claim_name input" "agent_rows d' = agent_rows d"
    "invite_row d' (inv_id invite) = Some (invite\<lparr>uses_remaining := uses_remaining invite - 1\<rparr>)"
proof -
  have code: "trim x \<noteq> []" using x(2) by (auto simp: check_code_def normalize_enrollment_code_for_lookup_def)
  note use = invite_row_use [OF assms(1) check_code_Ok(1) [OF x(2)]]
  define active where "active = (case install_digest sha input of None \<Rightarrow> None
     | Some digest \<Rightarrow> find (\<lambda>r. install_id_digest r = Some digest \<and> cl_status r = ''pending'') (claims d))"
  show ?thesis
  proof (cases active)
    case (Some row)
    then have row: "row \<in> set (claims d)" "cl_status row = ''pending''"
      by (auto simp: active_def split: option.splits dest!: find_in_set)
    let ?c = "refresh_claim (use_invite d (inv_id invite)) input row (Some (inv_id invite))"
    have "claim_row d (cl_id row) = Some row" using enroll_invD(3) [OF assms(1)] row by (simp add: claim_row_def find_key_Some)
    then have "claim_row (snd ?c) (cl_id (fst ?c)) = Some (fst ?c)"
      by (simp add: refresh_claim_def Let_def claim_row_def use_invite_def find_update_where)
    moreover have "create_agent_enrollment_claim sha d input now fresh True = (Some (Ok (fst ?c, invite_auto_approves invite)), snd ?c)"
      using x code assms(5,6) Some by (simp add: create_agent_enrollment_claim_def active_def [symmetric] case_prod_unfold Let_def)
    ultimately show ?thesis
      using use row(2) by (intro that) (assumption | simp add: refresh_claim_def Let_def use_invite_def invite_row_def)+
  next
    case None
    let ?row = "new_claim sha input (Some (inv_id invite)) fresh now" and ?d = "use_invite d (inv_id invite)"
    have "find (\<lambda>r. cl_id r = fresh) (claims d) = None" using assms(2) by (auto simp: find_None_iff)
    then have "claim_row (?d\<lparr>claims := claims ?d @ [?row]\<rparr>) (cl_id ?row) = Some ?row"
      by (simp add: claim_row_def use_invite_def find_append new_claim_def)
    moreover have "create_agent_enrollment_claim sha d input now fresh True = (Some (Ok (?row, invite_auto_approves invite)), ?d\<lparr>claims := claims ?d @ [?row]\<rparr>)"
      using x code assms(5,6) None by (simp add: create_agent_enrollment_claim_def active_def [symmetric] Let_def)
    ultimately show ?thesis
      using use by (intro that) (assumption | simp add: new_claim_def use_invite_def invite_row_def)+
  qed
qed

text \<open>
  C7. Pairing works end to end: a device that claims with a usable code under a name that is free is approved at
  once; its first poll returns the token; and with that name and token it authenticates, as the new device and under
  the stored hash, and its connection is registered.
\<close>

theorem paired_device_can_connect:
  assumes d: "enroll_inv d" "fresh \<notin> cl_id ` set (claims d)" "agent \<notin> ag_id ` set (agent_rows d)"
    and body: "trim (cb_requested_name body) \<noteq> []" "trim (cb_install_id body) \<noteq> []" "cb_pairing_code body = Some x"
    and code: "check_code sha d (trim x) now = Ok invite" "bound_agent_id invite = None" "invite_auto_approves invite"
      "\<not> expired (inv_expires_at invite) t2"
    and name: "\<not> name_taken d (claim_name (claim_input body ip))"
    and token: "token \<noteq> []" "verify h token"
    and run: "create_enrollment_claim f sha st d body ip now fresh True None True token (Some h) agent t1 t2 True True at = (resp, st', d')"
  shows "\<exists>c name st''. resp = (200, json_obj [(''claim_id'', json_uuid f c), (''status'', Str ''approved''), (''poll_after_secs'', json_nat 1)])
    \<and> poll_enrollment_claim f st' d' c True
        = (token_response f \<lparr> pet_agent_id = agent, pet_agent_name = name, pet_agent_token = token \<rparr>, st'')
    \<and> authenticate_agent verify (Some (get_agent_auth_by_name d' name)) token = Some \<lparr> auth_id = agent, auth_token_hash = h \<rparr>
    \<and> register_authenticated_agent d' agent h session True = Ok (Some session)"
proof -
  let ?input = "claim_input body ip"
  obtain row d1 where made: "create_agent_enrollment_claim sha d ?input now fresh True = (Some (Ok (row, invite_auto_approves invite)), d1)"
    and row: "claim_row d1 (cl_id row) = Some row" "cl_status row = ''pending''" "cl_invite_id row = Some (inv_id invite)"
      "cl_requested_name row = claim_name ?input"
    and rows: "agent_rows d1 = agent_rows d"
    and invite: "invite_row d1 (inv_id invite) = Some (invite\<lparr>uses_remaining := uses_remaining invite - 1\<rparr>)"
    by (rule claim_with_code [OF d(1,2) _ code(1,2) name]) (simp_all add: claim_input_def body(3))
  let ?name = "claim_name ?input" and ?e = "\<lparr> ag_id = agent, ag_name = claim_name ?input, api_token_hash = Some h \<rparr>"
  let ?d = "mark_claim_approved (d1\<lparr>agent_rows := agent_rows d1 @ [?e]\<rparr>) (cl_id row) ''pairing_code'' agent None h"
  have final: "final_agent_name None ?name = ?name" by (simp add: final_agent_name_def claim_name_def Let_def take_chars_idem)
  note ok = check_code_Ok [OF code(1)]
  have "lock_claim_for_approval d1 (cl_id row) None t2 = Ok (?name, None)"
    using ok(3,5) code(2,4) by (auto simp: lock_claim_for_approval_def row invite)
  moreover have "\<not> name_taken d1 ?name" using name by (simp add: name_taken_def rows)
  ultimately have "approve_claim_with_binding d1 (cl_id row) ''pairing_code'' None None None token (Some h) agent t2 True
      = (Some (Ok (agent, token, ?name)), ?d)"
    by (simp add: approve_claim_with_binding_def issue_agent_credentials_def final)
  then have out: "resp = (200, json_obj [(''claim_id'', json_uuid f (cl_id row)), (''status'', Str ''approved''), (''poll_after_secs'', json_nat 1)])"
    "hm_get (tokens_of st') (cl_id row) = Some \<lparr> pet_agent_id = agent, pet_agent_name = ?name, pet_agent_token = token \<rparr>" "d' = ?d"
    using run made code(3) body by (auto simp: create_enrollment_claim_def approve_agent_enrollment_claim_def auto_approve_response_def)
  have "claim_row d' (cl_id row) = Some (row\<lparr>cl_status := ''approved'', approved_by := Some ''pairing_code'', cl_agent_id := Some agent,
      issued_token_hash := Some h, cl_error := None\<rparr>)"
    using row(1) by (simp add: out(3) claim_row_def mark_claim_approved_def find_update_where)
  then obtain st'' where poll: "poll_enrollment_claim f st' d' (cl_id row) True
      = (token_response f \<lparr> pet_agent_id = agent, pet_agent_name = ?name, pet_agent_token = token \<rparr>, st'')"
    by (simp add: poll_enrollment_claim_def out(2))
  have new: "agent_rows d' = agent_rows d @ [?e]" by (simp add: out(3) mark_claim_approved_def rows)
  have "find (\<lambda>r. ag_name r = ?name) (agent_rows d) = None" using name by (auto simp: find_None_iff name_taken_def list_ex_iff)
  then have "get_agent_auth_by_name d' ?name = Some (agent, Some h)" by (simp add: get_agent_auth_by_name_def new find_append)
  with poll out(1) token show ?thesis
    by (intro exI [of _ "cl_id row"] exI [of _ ?name] exI [of _ st'']) (simp add: authenticate_agent_def register_authenticated_agent_def new)
qed

theorem paired_device_can_connect_witness:
  "\<exists>c name st''. poll_enrollment_claim binary_fmt (app enrolled) (enroll enrolled) c True
      = (token_response binary_fmt \<lparr> pet_agent_id = 9, pet_agent_name = name, pet_agent_token = ''token'' \<rparr>, st'')
    \<and> authenticate_agent (\<lambda>h t. h = ''h'' \<and> t = ''token'') (Some (get_agent_auth_by_name (enroll enrolled) name)) ''token''
        = Some \<lparr> auth_id = 9, auth_token_hash = ''h'' \<rparr>"
proof -
  obtain r where run: "create_enrollment_claim binary_fmt (\<lambda>s. s) (app coded) (enroll coded)
      example_claim_body None 5 2 True None True ''token'' (Some ''h'') 9 6 6 True True Null = (r, app enrolled, enroll enrolled)"
    using coded_claims by auto
  have "enroll_inv (enroll coded)" using server.inv_reachable [OF coded_reachable] by (simp add: server_inv_def)
  moreover have "check_code (\<lambda>s. s) (enroll coded) (trim (code6 4217)) 5 = Ok example_invite"
    by (simp add: check_code_def coded_def example_invite_def expired_def)
  moreover have "bound_agent_id example_invite = None" "invite_auto_approves example_invite" "\<not> expired (inv_expires_at example_invite) 6"
    by (simp_all add: example_invite_def invite_auto_approves_def expired_def)
  ultimately have "\<exists>c name st''. r = (200, json_obj [(''claim_id'', json_uuid binary_fmt c), (''status'', Str ''approved''), (''poll_after_secs'', json_nat 1)])
    \<and> poll_enrollment_claim binary_fmt (app enrolled) (enroll enrolled) c True
        = (token_response binary_fmt \<lparr> pet_agent_id = 9, pet_agent_name = name, pet_agent_token = ''token'' \<rparr>, st'')
    \<and> authenticate_agent (\<lambda>h t. h = ''h'' \<and> t = ''token'') (Some (get_agent_auth_by_name (enroll enrolled) name)) ''token''
        = Some \<lparr> auth_id = 9, auth_token_hash = ''h'' \<rparr>
    \<and> register_authenticated_agent (enroll enrolled) 9 ''h'' 0 True = Ok (Some 0)"
    by (intro paired_device_can_connect [OF _ _ _ _ _ _ _ _ _ _ _ _ _ run])
      (auto simp: example_claim_body_def coded_def EnrollDb_new_def name_taken_def)
  then show ?thesis by blast
qed

end
