(* ===== verification/ViewerControl.thy ===== *)
theory ViewerControl
  imports System
begin

text \<open>
  Whose control it is: over any run of the server, a device is controlled by nobody but an open viewer socket whose
  user was an operator when its session was last checked.
\<close>

section \<open>Owners of leases\<close>

definition owned :: "LeaseOwner set \<Rightarrow> AppState \<Rightarrow> bool" where
  "owned S st \<longleftrightarrow> sessions_wf (sessions (control st)) \<and> (\<forall>a lo. lease_owner_of (sessions (control st)) a = Some lo \<longrightarrow> lo \<in> S)"

lemma owned_mono: "owned S st \<Longrightarrow> S \<subseteq> T \<Longrightarrow> owned T st"
  unfolding owned_def by blast

lemma owned_cong: "sessions (control st') = sessions (control st) \<Longrightarrow> owned S st' = owned S st"
  by (simp add: owned_def)

lemma owned_updates [simp]:
  "owned S (st\<lparr>agents := reg\<rparr>) = owned S st" "owned S (st\<lparr>media := md\<rparr>) = owned S st" "owned S (st\<lparr>tx := x\<rparr>) = owned S st"
  "owned S (st\<lparr>detached := dt\<rparr>) = owned S st" "owned S (st\<lparr>oneshots := os\<rparr>) = owned S st" "owned S (broadcast st v) = owned S st"
  "owned S (st\<lparr>control := (control st)\<lparr>clipboard := cl\<rparr>\<rparr>) = owned S st"
  "owned S (st\<lparr>control := (control st)\<lparr>capture := cp\<rparr>\<rparr>) = owned S st"
  "owned S (set_clipboard st cl) = owned S st" "owned S (freeze_capture st a fc) = owned S st"
  "owned S (commit_control_capture st a fc) = owned S st"
  "owned S (snd (audit_control_event st user a action rej now)) = owned S st"
  "owned S (detach st c r) = owned S st"
  by (auto intro!: owned_cong simp: broadcast_def audit_control_event_def detach_def Let_def split: option.split)

lemma owned_cleans:
  "owned S st \<Longrightarrow> cleans (sessions (control st)) cs s' \<Longrightarrow> owned S (snd (deliver_control_cleanup f (set_sessions st s') cs'))"
  by (auto simp: owned_def cleans_def set_sessions_def split: if_splits)

lemma owned_wf: "owned S st \<Longrightarrow> sessions_wf (sessions (control st))"
  by (simp add: owned_def)

context teardown
begin

lemma owned_teardown: "owned S st \<Longrightarrow> owned S (snd (teardown_deliver f st op))"
  using owned_cleans [OF _ op_cleans [OF _ prod.collapse [symmetric]], of S st f] owned_wf [of S st]
  by (simp add: teardown_deliver_def case_prod_unfold Let_def)

end

lemmas owned_teardowns = expiry.owned_teardown viewer_revocation.owned_teardown agent_expiry.owned_teardown agent_revocation.owned_teardown

lemma owned_revocations:
  assumes "owned S st"
  shows "owned S (expire_control f st now)" "owned S (revoke_viewer_control f st viewer)" "owned S (revoke_agent_control_locked f st a conn)"
  using assms by (auto simp: expire_control_def revoke_viewer_control_def revoke_agent_control_locked_def intro: owned_teardowns)

lemma owned_clear [simp]: "owned S (clear_capture_connection_locked st a conn) = owned S st"
  by (simp add: clear_capture_connection_locked_def Let_def)

lemma owned_sync [simp]: "owned S (snd (sync_capture_locked env st a req fresh)) = owned S st"
  by (rule owned_cong) (simp add: sync_shape_frame(1) [OF sync_capture_shape])

lemma owned_frames [simp]:
  "owned S (snd (admit_session env st a k s n fresh)) = owned S st" "owned S (sync_mjpeg_capture env st a fresh) = owned S st"
  "owned S (snd (binary_frame st a conn frame now)) = owned S st"
  by (simp_all add: admit_session_def sync_mjpeg_capture_def binary_frame_def Let_def case_prod_unfold split: option.split)

lemma owned_streams:
  assumes "owned S st"
  shows "owned S (snd (begin_mjpeg_session env st a k user prefs req now fresh))" "owned S (snd (end_mjpeg_session env st a k owner fresh))"
  using assms owned_teardowns [OF assms]
  by (simp_all add: owned_revocations begin_mjpeg_session_def end_mjpeg_session_def Let_def case_prod_unfold split: option.split sum.split)

lemma owned_grant:
  assumes "owned S st"
  shows "owned (insert owner S) (snd (grant_control f st a owner frozen now fresh))"
proof -
  let ?s = "sessions (control st)"
  have wf: "sessions_wf ?s" by (rule owned_wf [OF assms])
  obtain t s' where run: "acquire ?s a owner DEFAULT_LEASE_TTL now fresh = (t, s')" by fastforce
  let ?x = "snd (expire_agent ?s a now)"
  have x: "sessions_wf ?x" "\<And>b lo. lease_owner_of ?x b = Some lo \<Longrightarrow> lo \<in> S"
    using agent_expiry.op_cleans [OF wf prod.collapse [symmetric], of a now] assms by (auto simp: cleans_def owned_def split: if_splits)
  have ins: "lease_owner_of (?x\<lparr>leases := hm_insert a l (leases ?x)\<rparr>) b = (if b = a then Some (grant_owner (grant l)) else lease_owner_of ?x b)" for l b
    by (simp add: lease_owner_of_def)
  have "s' = ?x \<or> (\<exists>l. s' = ?x\<lparr>leases := hm_insert a l (leases ?x)\<rparr> \<and> grant_owner (grant l) = owner \<and> held_wf (held l))"
    using run by (auto simp: acquire_def Let_def case_prod_unfold split: option.splits if_splits)
  then have "sessions_wf s' \<and> (\<forall>b lo. lease_owner_of s' b = Some lo \<longrightarrow> lo \<in> insert owner S)"
    using x ins by (auto intro: sessions_wf_insert split: if_splits)
  then have set: "owned (insert owner S) (snd (deliver_control_cleanup f (set_sessions st s') cs))" for cs
    by (simp add: owned_def set_sessions_def)
  then show ?thesis
    using agent_revocation.owned_teardown [OF set] run by (simp add: grant_control_def Let_def case_prod_unfold split: sum.split)
qed

lemma owned_lease_message:
  assumes "owned S st" "\<And>lo. viewer_connection_id lo = viewer \<Longrightarrow> owner_user_id lo = user_id user \<Longrightarrow> lo \<in> S"
  shows "owned S (snd (control_lease_message env st viewer user v now clock fresh))"
proof -
  note wf = owned_wf [OF assms(1)]
  have acquire: "owned S (snd (control_acquire env st a owner val now clock fresh))" if "owner \<in> S" for a owner val
  proof -
    have "owned S (snd (grant_control f st' a owner frozen now fresh))" if "owned S st'" for f st' frozen
      using owned_grant [OF that, of owner] \<open>owner \<in> S\<close> by (simp add: insert_absorb)
    with agent_expiry.owned_teardown [OF assms(1)] show ?thesis
      by (simp add: control_acquire_def Let_def case_prod_unfold split: sum.split)
  qed
  have "owned S (snd (control_lease_op env st a viewer user kind val now clock fresh))" for a kind val
  proof (cases "current_control_owner st a viewer user")
    case (Inl e)
    with assms(1) show ?thesis by (simp add: control_lease_op_def)
  next
    case (Inr owner)
    have "owner \<in> S" using current_control_owner_ok(3,4) [OF Inr] assms(2) by simp
    with Inr acquire assms(1) owned_cleans [OF assms(1) heartbeat_cleans [OF wf prod.collapse [symmetric]]]
      owned_cleans [OF assms(1) release_cleans [OF wf prod.collapse [symmetric]]]
    show ?thesis by (simp add: control_lease_op_def Let_def case_prod_unfold split: sum.split option.split)
  qed
  then show ?thesis using assms(1) by (simp add: control_lease_message_def Let_def case_prod_unfold split: option.split)
qed

lemma owned_input:
  assumes "owned S st"
  shows "owned S (snd (send_viewer_input env st a viewer user token cmd now))"
proof -
  note track = owned_cleans [OF assms authorize_and_track_cleans [OF owned_wf [OF assms] prod.collapse [symmetric]]]
  show ?thesis using assms track
    by (simp add: send_viewer_input_def Let_def case_prod_unfold agent_revocation.owned_teardown split: sum.split option.split)
qed

interpretation viewer_owned: viewer_ops env viewer uid "\<lambda>st. owned (S \<union> {lo. viewer_connection_id lo = viewer \<and> owner_user_id lo = uid}) st" for env viewer uid S
  by unfold_locales (auto intro: owned_lease_message owned_input owned_revocations)

section \<open>The other operations give no lease\<close>

lemma owned_clipboard:
  assumes "owned S st"
  shows "owned S (snd (clipboard_valid_locked f st p t1 t2))" "owned S (waiter_drop f st rid)"
    "owned S (complete_clipboard f st a conn v t1 t2)" "owned S (snd (exchange_begin f st a user rq fresh t0 t1 t2))"
    "owned S (snd (snd (exchange_reply f st rid reply au t1 t2)))" "owned S (snd (exchange_tick f st rid t0 t1 t2))"
proof -
  have valid: "owned S (snd (clipboard_valid_locked f st p t1 t2))" if "owned S st" for st p
    using that owned_cleans [OF that authorize_cleans [OF owned_wf [OF that] prod.collapse [symmetric]]]
    by (simp add: clipboard_valid_locked_def Let_def case_prod_unfold owned_revocations split: option.split sum.split)
  then show "owned S (snd (clipboard_valid_locked f st p t1 t2))" using assms by blast
  have drop: "owned S (waiter_drop f st rid)" if "owned S st" for st rid using that by (simp add: waiter_drop_def Let_def split: option.split)
  with assms show "owned S (waiter_drop f st rid)" by blast
  show "owned S (complete_clipboard f st a conn v t1 t2)" "owned S (snd (exchange_begin f st a user rq fresh t0 t1 t2))"
    "owned S (snd (snd (exchange_reply f st rid reply au t1 t2)))" "owned S (snd (exchange_tick f st rid t0 t1 t2))"
    using assms valid drop
    by (simp_all add: complete_clipboard_def exchange_begin_def exchange_admit_def exchange_reply_def exchange_tick_def Let_def case_prod_unfold
        owned_teardowns split: option.split sum.split)
qed

lemma owned_delivery:
  assumes "owned S st"
  shows "owned S (snd (writer_recv f st a conn msg t1 t2))" "take_command st a = Some (msg', st') \<Longrightarrow> owned S st'"
proof -
  show "owned S (snd (writer_recv f st a conn msg t1 t2))"
    using assms by (simp add: owned_clipboard writer_recv_def command_deliverable_def clipboard_deliverable_locked_def Let_def case_prod_unfold
        split: option.split AgentControl.split)
  show "owned S st'" if "take_command st a = Some (msg', st')"
    using that assms by (auto simp: take_command_def split: option.splits list.splits)
qed

lemma owned_connections:
  assumes "owned S st"
  shows "owned S (retire_connection f st a)" "owned S (snd (register_authenticated_connection f st au name registered has_report fresh now at))"
    "owned S (cleanup_connection f st a conn at)" "owned S (invalidate_agent_connection f st a reason at)"
proof -
  show retire: "owned S (retire_connection f st a)" using assms by (simp add: retire_connection_def owned_revocations split: option.split)
  show "owned S (snd (register_authenticated_connection f st au name registered has_report fresh now at))"
    "owned S (cleanup_connection f st a conn at)" "owned S (invalidate_agent_connection f st a reason at)"
    using assms retire
    by (simp_all add: retire_connection_def register_authenticated_connection_def cleanup_connection_def invalidate_agent_connection_def
        drop_frame_def Let_def owned_revocations split: option.split sum.split)
qed

lemma owned_forget [simp]:
  "owned S (forget_tokens st keep) = owned S st" "owned S (forget_agent f st a) = owned S st"
  by (simp_all add: forget_tokens_def forget_agent_def drop_frame_def)

lemma owned_endpoints:
  assumes "owned S st"
  shows "owned S (fst (snd (create_enrollment_claim f sha st d body ip now fresh ok bound bok token h fresh_agent t1 t2 ok1 ok2 at)))"
    "owned S (fst (snd (approve_enrollment_claim f st d user c nm g bound bok token h fresh_agent t1 t2 ok1 ok2 at)))"
    "owned S (snd (poll_enrollment_claim f st d c ok))"
    "owned S (fst (snd (create_enrollment_token f sha add_hours jtime st d user tbody clock fresh draw oks at)))"
    "owned S (fst (snd (revoke_credentials_endpoint f st d a user now ok at)))"
    "owned S (fst (snd (delete_agents_endpoint f st d user ids now rv n at)))"
proof -
  note inval = owned_connections(4)
  have approve: "owned S (fst (snd (approve_agent_enrollment_claim f st d c who nm g bound token h fresh_agent t1 t2 ok1 ok2 at)))" for d c who nm g
    using assms inval [OF assms] by (simp add: approve_agent_enrollment_claim_def Let_def case_prod_unfold split: option.split sum.split)
  have "owned S (foldl (\<lambda>s i. invalidate_agent_connection f s i r at) st xs)" for r xs
    using assms inval by (intro foldl_invariant [where P = "owned S"])
  moreover have "owned S (foldl (forget_agent f) st' xs)" if "owned S st'" for st' xs
    using that by (intro foldl_invariant [where P = "owned S"]) simp_all
  ultimately show "owned S (fst (snd (delete_agents_endpoint f st d user ids now rv n at)))"
    using assms by (simp add: delete_agents_endpoint_def delete_agents_bulk_def Let_def case_prod_unfold)
  show "owned S (fst (snd (create_enrollment_claim f sha st d body ip now fresh ok bound bok token h fresh_agent t1 t2 ok1 ok2 at)))"
    "owned S (fst (snd (approve_enrollment_claim f st d user c nm g bound bok token h fresh_agent t1 t2 ok1 ok2 at)))"
    "owned S (snd (poll_enrollment_claim f st d c ok))"
    "owned S (fst (snd (create_enrollment_token f sha add_hours jtime st d user tbody clock fresh draw oks at)))"
    "owned S (fst (snd (revoke_credentials_endpoint f st d a user now ok at)))"
    using assms approve inval [OF assms]
    by (simp_all add: create_enrollment_claim_def approve_enrollment_claim_def poll_enrollment_claim_def create_enrollment_token_def
        replace_installation_db_def replace_agent_installation_def revoke_credentials_endpoint_def revoke_agent_credentials_def
        Let_def case_prod_unfold split: option.split sum.split ClaimCreateReject.split)
qed

lemma owned_reports:
  assumes "owned S st"
  shows "owned S (fst (snd (accept_module_report f st d a conn v read_ok save_ok mark_ok now at)))"
    "owned S (fst (snd (accept_module_disable_ack f st d a conn v read_ok save_ok ok)))"
    "owned S (fst (snd (disable_module f st d a user body known p1 p2 p3 p4 mark_ok p5 now)))"
proof -
  have replay: "owned S (fst (snd (replay_each f st d a conn mark_ok now rqs)))" if "owned S st" for st d conn rqs
    using that by (simp add: owned_def replay_each_frame)
  have change: "owned S (apply_report_change f st a conn revoke screen)" if "owned S st" for st conn revoke screen
    using that by (simp add: apply_report_change_def reset_capture_generation_def Let_def owned_revocations)
  show "owned S (fst (snd (accept_module_report f st d a conn v read_ok save_ok mark_ok now at)))"
    using assms replay change
    by (simp add: accept_module_report_def replay_module_disables_def store_report_def Let_def case_prod_unfold split: sum.split option.split)
  have "owned S (fst (snd (apply_ack f st d a conn ack r save_ok ok)))" for ack r
    using assms change by (simp add: apply_ack_def settle_request_def store_report_def Let_def case_prod_unfold split: option.split)
  then show "owned S (fst (snd (accept_module_disable_ack f st d a conn v read_ok save_ok ok)))"
    using assms by (simp add: accept_module_disable_ack_def split: sum.split option.split)
  have "owned S (fst (snd (send_request f st d a rq retry mark_ok now)))" for d rq retry
    using assms replay change
    by (simp add: send_request_def publish_request_def replay_module_disables_def case_prod_unfold Let_def owned_revocations
        split: sum.split option.split)
  then show "owned S (fst (snd (disable_module f st d a user body known p1 p2 p3 p4 mark_ok p5 now)))"
    using assms by (simp add: disable_module_def case_prod_unfold Let_def split: sum.split option.split)
qed

section \<open>The invariant\<close>

definition entitled :: "(Uuid, ViewerConn) HashMap \<Rightarrow> LeaseOwner set" where
  "entitled vs = {lo. \<exists>vc. hm_get vs (viewer_connection_id lo) = Some vc \<and> user_id (vc_user vc) = owner_user_id lo \<and> is_operator (vc_user vc)}"

definition own_inv :: "Server \<Rightarrow> bool" where
  "own_inv s \<longleftrightarrow> (\<forall>k vc. hm_get (viewers s) k = Some vc \<longrightarrow> k \<in> viewer_ids s) \<and> hm_wf (viewers s) \<and> owned (entitled (viewers s)) (app s)"

text \<open>After a revocation the viewer owns nothing.\<close>

lemma owned_revoked:
  assumes "owned S st" "\<And>lo. lo \<in> S \<Longrightarrow> viewer_connection_id lo \<noteq> viewer \<Longrightarrow> lo \<in> T"
  shows "owned T (revoke_viewer_control f st viewer)"
proof -
  let ?s = "sessions (control st)" and ?st = "revoke_viewer_control f st viewer"
  have wf: "sessions_wf ?s" by (rule owned_wf [OF assms(1)])
  have S: "owned S ?st" by (rule owned_revocations(2) [OF assms(1)])
  have sess: "sessions (control ?st) = snd (revoke_viewer ?s viewer)" by (simp add: revoke_viewer_control_def teardown_deliver_sessions)
  have "viewer_connection_id lo \<noteq> viewer" if "lease_owner_of (sessions (control ?st)) a = Some lo" for a lo
    using that viewer_revocation.hit_gone [OF wf prod.collapse [symmetric], of viewer a] by (auto simp: lease_owner_of_def sess)
  with S assms(2) show ?thesis unfolding owned_def by blast
qed

text \<open>What is left of the viewer's control after one of its own events.\<close>

lemma served_owned:
  assumes "owned (entitled vs) st" "hm_get vs viewer = Some vc" "viewer_event env st viewer vc ev = (vc', sent, st')"
  shows "owned (entitled (case vc' of Some c \<Rightarrow> hm_insert viewer c vs | None \<Rightarrow> hm_remove viewer vs)) st'"
proof -
  let ?T = "entitled vs \<union> {lo. viewer_connection_id lo = viewer \<and> owner_user_id lo = user_id (vc_user vc)}"
  have T: "owned ?T st" by (rule owned_mono [OF assms(1)]) simp
  have st': "owned ?T st'" using viewer_owned.keep_event [OF T refl, of env ev] assms(3) by simp
  have gone: "owned (entitled (hm_remove viewer vs)) (revoke_viewer_control (fmt env) st0 viewer)" if "owned ?T st0" for st0
    by (rule owned_revoked [OF that]) (auto simp: entitled_def)
  have kept: "owned (entitled (hm_insert viewer c vs)) (revoke_viewer_control (fmt env) st0 viewer)" if "owned ?T st0" for st0 c
    by (rule owned_revoked [OF that]) (auto simp: entitled_def)
  show ?thesis
  proof (cases vc')
    case None
    then obtain st0 where "st' = revoke_viewer_control (fmt env) st0 viewer" "owned ?T st0"
    proof (cases ev)
      case (SessionTick answer)
      with None assms(3) viewer_owned.keep_refresh [OF T, of env "vc_user vc" "vc_session_hash vc" answer] that show ?thesis
        by (auto simp: viewer_event_def leave_def Let_def case_prod_unfold split: if_splits)
    next
      case (TextFrame line q ok)
      with None assms(3) viewer_owned.keep_message [OF T refl, of env line "vc_cache vc" q] that show ?thesis
        by (auto simp: viewer_event_def leave_def Let_def case_prod_unfold split: if_splits)
    qed (use None assms(3) T that in \<open>auto simp: viewer_event_def leave_def split: if_splits Broadcast.splits\<close>)
    with gone None show ?thesis by simp
  next
    case (Some c)
    have uid: "user_id (vc_user c) = user_id (vc_user vc)" using refreshed_user [of env st viewer vc ev c] assms(3) Some by simp
    show ?thesis
    proof (cases "is_operator (vc_user c)")
      case True
      then have "?T \<subseteq> entitled (hm_insert viewer c vs)" using uid assms(2) by (auto simp: entitled_def)
      with owned_mono [OF st'] Some show ?thesis by simp
    next
      case False
      have same: "owned (entitled (case vc' of Some c \<Rightarrow> hm_insert viewer c vs | None \<Rightarrow> hm_remove viewer vs)) st'"
        if "vc_user c = vc_user vc" "sessions (control st') = sessions (control st)"
      proof -
        have "entitled vs \<subseteq> entitled (hm_insert viewer c vs)" using False assms(2) that(1) by (auto simp: entitled_def)
        with Some owned_mono [OF assms(1)] owned_cong [OF that(2)] show ?thesis by simp
      qed
      show ?thesis
      proof (cases ev)
        case (SessionTick answer)
        with False Some assms(3) have "st' = revoke_viewer_control (fmt env) st viewer"
          by (auto simp: viewer_event_def leave_def refresh_viewer_session_def Let_def case_prod_unfold split: if_splits option.splits)
        with kept [OF T] Some show ?thesis by simp
      next
        case (TextFrame line q ok)
        with Some assms(3) have c: "vc_user c = vc_user vc" "st' = fst (snd (viewer_message env st (vc_user vc) viewer line (vc_cache vc) q))"
          by (auto simp: viewer_event_def leave_def Let_def case_prod_unfold split: if_splits)
        have "sessions (control st') = sessions (control st)"
          using False message_not_operator [of "vc_user vc" env st viewer line "vc_cache vc" q] c by simp
        with c(1) show ?thesis by (rule same)
      qed (rule same; use Some assms(3) in \<open>auto simp: viewer_event_def leave_def split: if_splits Broadcast.splits\<close>)+
    qed
  qed
qed

lemma own_inv_app:
  assumes "own_inv s" "owned (entitled (viewers s)) st"
  shows "own_inv (s\<lparr>app := st\<rparr>)" "own_inv (s\<lparr>app := st, db := d\<rparr>)" "own_inv (s\<lparr>app := st, enroll := e\<rparr>)"
    "own_inv (s\<lparr>app := st, db := d, enroll := e, deleted_agents := x\<rparr>)" "own_inv (s\<lparr>app := st, credential := cr\<rparr>)"
  using assms by (simp_all add: own_inv_def)

lemma own_inv_enroll: "own_inv s \<Longrightarrow> own_inv (s\<lparr>enroll := e\<rparr>)"
  by (simp add: own_inv_def)

lemma server_step_own:
  assumes "server_step env s l t" "own_inv s"
  shows "own_inv t"
proof -
  have o: "owned (entitled (viewers s)) (app s)" using assms(2) by (simp add: own_inv_def)
  note app = own_inv_app [OF assms(2)]
  have out: "owned (entitled (viewers s)) st'" if "x = (r, st', e')" "owned (entitled (viewers s)) (fst (snd x))"
    for x :: "'x \<times> AppState \<times> 'y" and r st' e'
    using that by simp
  show ?thesis
    using assms(1)
  proof cases
    case (viewer_opened viewer user hash)
    have "entitled (viewers s) \<subseteq> entitled (hm_insert viewer vc (viewers s))" for vc
      using viewer_opened(3) assms(2) by (auto simp: entitled_def own_inv_def)
    from owned_mono [OF o this] assms(2) viewer_opened(2) show ?thesis by (auto simp: own_inv_def)
  next
    case (viewer_served viewer vc ev vc' sent st')
    have v: "viewer \<in> viewer_ids s" using viewer_served(3) assms(2) by (auto simp: own_inv_def)
    from served_owned [OF o viewer_served(3,4)] assms(2) v viewer_served(2) show ?thesis
      by (auto simp: own_inv_def split: option.splits)
  next
    case (socket_reads_queue a msg st1 conn t1 t2 act st2)
    have "owned (entitled (viewers s)) st2"
      using owned_delivery(1) [OF owned_delivery(2) [OF o socket_reads_queue(3)], of "fmt env" a conn msg t1 t2] socket_reads_queue(5) by simp
    then show ?thesis unfolding socket_reads_queue(2) by (rule app)
  next
    case (replaced_socket_reads a conn msg t1 t2 act st2)
    with owned_delivery(1) [OF o, of "fmt env" a conn msg t1 t2] show ?thesis by (simp add: app)
  next
    case (credentials_revoked a user t' ok at r st' e')
    with out [OF credentials_revoked(3) owned_endpoints(5) [OF o]] show ?thesis by (simp add: app)
  next
    case (agents_deleted user ids t' rv n at r st' e')
    with out [OF agents_deleted(3) owned_endpoints(6) [OF o]] show ?thesis by (simp add: app)
  next
    case (code_issued fresh user tbody clk draw oks at tr st' e')
    with out [OF code_issued(4) owned_endpoints(4) [OF o]] show ?thesis by (simp add: app)
  next
    case (claim_made fresh new_agent cbody ip t' ok bound bok token h t1 t2 ok1 ok2 at resp st' e')
    with out [OF claim_made(5) owned_endpoints(1) [OF o]] show ?thesis by (simp add: app)
  next
    case (claim_approved new_agent user c nm g bound bok token h t1 t2 ok1 ok2 at r' st' e')
    with out [OF claim_approved(4) owned_endpoints(2) [OF o]] show ?thesis by (simp add: app)
  next
    case (claim_polled c ok resp st')
    with owned_endpoints(3) [OF o, of "fmt env" "enroll s" c ok] show ?thesis by (simp add: app)
  next
    case (report_received a conn v read_ok save_ok mark_ok now at r st' db')
    with out [OF report_received(3) owned_reports(1) [OF o]] show ?thesis by (simp add: app)
  next
    case (ack_received a conn v read_ok save_ok ok r st' db')
    with out [OF ack_received(3) owned_reports(2) [OF o]] show ?thesis by (simp add: app)
  next
    case (disable_requested a user body known p1 p2 p3 p4 mark_ok p5 now dr st' db')
    with out [OF disable_requested(3) owned_reports(3) [OF o]] show ?thesis by (simp add: app)
  qed (simp_all add: app o assms(2) own_inv_enroll owned_connections owned_revocations owned_streams owned_clipboard)
qed

lemma own_inv_start: "viewers s = [] \<Longrightarrow> sessions (control (app s)) = ControlSessions_default \<Longrightarrow> own_inv s"
  by (simp add: own_inv_def owned_def lease_owner_of_def) (simp add: ControlSessions_default_def)

interpretation viewer_control: safe_system "server_step env" Server_new own_inv for env
proof unfold_locales
  show "own_inv Server_new" by (rule own_inv_start) (simp_all add: Server_new_def AppState_new_def ControlRuntime_default_def)
qed (rule server_step_own)

text \<open>
  C5. Only an open dashboard of an operator holds control: whatever happens after a state with no viewer and no lease,
  such as the one the server starts in, the lease of a device belongs to a viewer socket that is open now, to the
  user who signed in there, and at the last check of the session that user was an operator. Closing the socket, an
  expired session and a lost role all end the control in the same step.
\<close>

theorem control_held_by_open_operator:
  assumes "viewers s = []" and "sessions (control (app s)) = ControlSessions_default"
    and "reaches (server_step env) s t" and "lease_of (sessions (control (app t))) a = Some l"
  shows "\<exists>vc. hm_get (viewers t) (viewer_connection_id (grant_owner (grant l))) = Some vc
    \<and> user_id (vc_user vc) = owner_user_id (grant_owner (grant l)) \<and> is_operator (vc_user vc)"
proof -
  have "own_inv s" by (rule own_inv_start [OF assms(1,2)])
  then have "owned (entitled (viewers t)) (app t)" using viewer_control.inv_reaches [OF assms(3)] by (simp add: own_inv_def)
  with assms(4) show ?thesis by (auto simp: owned_def lease_owner_of_def entitled_def)
qed

text \<open>An operator opens the dashboard and takes control of a device whose screen is being streamed.\<close>

definition watched :: Server where
  "watched = Server_new\<lparr>app := example_live\<rparr>"

definition acquire_env :: Env where
  "acquire_env = example_env\<lparr>from_slice := (\<lambda>b. if b = [] then from_slice example_env [] else Some example_acquire)\<rparr>"

definition operator_socket :: ViewerConn where
  "operator_socket = \<lparr> vc_user = example_user, vc_session_hash = Some ''h'', vc_cache = [] \<rparr>"

lemma acquired_lease:
  assumes "app_inv st" "control_lease_op env st a viewer user ''control_acquire'' val now clock fresh = (Ok r, st')"
  shows "\<exists>l. lease_of (sessions (control st')) a = Some l \<and> viewer_connection_id (grant_owner (grant l)) = viewer"
proof -
  obtain owner where owner: "current_control_owner st a viewer user = Ok owner"
    using assms(2) by (cases "current_control_owner st a viewer user") (auto simp: control_lease_op_def)
  then have "control_acquire env st a owner val now clock fresh = (Ok r, st')"
    using assms(2) by (cases "authorize_agent_command (fmt env) (agents st) a probe_move") (auto simp: control_lease_op_def)
  from control_acquire_ok [OF assms(1) this] current_control_owner_ok(3) [OF owner] show ?thesis by auto
qed

lemma watched_controlled:
  "\<exists>t l. reaches (server_step acquire_env) watched t \<and> lease_of (sessions (control (app t))) 9 = Some l
     \<and> viewer_connection_id (grant_owner (grant l)) = 1"
proof -
  let ?q = "\<lparr> conn_before = None, stored_info = None, msg_now = 5, msg_clock = 7, msg_fresh = 13 \<rparr>"
  have env: "reads_example acquire_env" "fmt acquire_env = binary_fmt" by (simp_all add: reads_example_def acquire_env_def example_env_def)
  obtain r st1 where op: "control_lease_op acquire_env example_live 9 1 example_user ''control_acquire'' example_acquire 5 7 13 = (Ok r, st1)"
    using example_acquired [OF env(1)] by blast
  obtain l where l: "lease_of (sessions (control st1)) 9 = Some l" "viewer_connection_id (grant_owner (grant l)) = 1"
    using acquired_lease [OF example_live_inv op] by blast
  let ?open = "watched\<lparr>viewers := hm_insert 1 operator_socket (viewers watched), viewer_ids := insert 1 (viewer_ids watched)\<rparr>"
  have opened: "server_step acquire_env watched Quiet ?open"
    unfolding operator_socket_def by (rule viewer_opened) (simp add: watched_def Server_new_def)
  obtain vc' sent st' where ev: "viewer_event acquire_env (app ?open) 1 operator_socket (TextFrame ''{'' ?q True) = (vc', sent, st')"
    by (metis prod_cases3)
  have fields: "uuid_field binary_fmt example_acquire ''agent_id'' = Some 9" "uuid_field binary_fmt example_acquire ''request_id'' = Some 8"
    unfolding example_acquire_def by (rule binary_uuid_field, simp)+
  have kind: "v_index example_acquire ''type'' = Str ''control_acquire''" by (simp add: example_acquire_def)
  have "is_operator example_user" by (simp add: example_user_def is_operator_def)
  then have "viewer_lease_message acquire_env example_live example_user 1 example_acquire [] ?q =
      (let (event, st') = control_lease_message acquire_env example_live 1 example_user example_acquire 5 7 13 in (Some event, st', []))"
    by (simp add: viewer_lease_message_def env fields kind capability_denial_def)
  moreover have "from_slice acquire_env (map of_char ''{'') = Some example_acquire" by (simp add: acquire_env_def)
  ultimately have "viewer_message acquire_env example_live example_user 1 ''{'' [] ?q =
      (let (event, st') = control_lease_message acquire_env example_live 1 example_user example_acquire 5 7 13 in (Some event, st', []))"
    by (simp add: viewer_message_def kind MAX_VIEWER_WRITEFILE_MSG_BYTES_def MAX_VIEWER_TEXT_BYTES_def)
  then have "st' = snd (control_lease_message acquire_env example_live 1 example_user example_acquire 5 7 13)"
    using ev by (simp add: viewer_event_def operator_socket_def watched_def case_prod_unfold Let_def)
  then have same: "sessions (control st') = sessions (control st1)"
    using op by (simp add: control_lease_message_def env fields kind Let_def) (simp add: audit_control_event_def Let_def)
  have "server_step acquire_env ?open Quiet (?open\<lparr>app := st', viewers := (case vc' of Some c \<Rightarrow> hm_insert 1 c (viewers ?open)
      | None \<Rightarrow> hm_remove 1 (viewers ?open))\<rparr>)" (is "server_step _ _ _ ?t")
    by (rule viewer_served [OF _ ev]) simp
  with opened have "reaches (server_step acquire_env) watched ?t" by (blast intro: reaches.intros)
  with l same show ?thesis by (intro exI [of _ ?t] exI [of _ l]) simp
qed

theorem control_held_by_open_operator_witness:
  "\<exists>t vc. lease_of (sessions (control (app t))) 9 \<noteq> None \<and> hm_get (viewers (t :: Server)) 1 = Some vc \<and> is_operator (vc_user vc)"
proof -
  obtain t l where t: "reaches (server_step acquire_env) watched t" "lease_of (sessions (control (app t))) 9 = Some l"
    "viewer_connection_id (grant_owner (grant l)) = 1" using watched_controlled by blast
  have "viewers watched = []" "sessions (control (app watched)) = ControlSessions_default"
    by (simp_all add: watched_def Server_new_def example_live_def AppState_new_def ControlRuntime_default_def)
  from control_held_by_open_operator [OF this t(1,2)] t(2,3) show ?thesis by auto
qed

end
