(* ===== verification/CaptureGeometry.thy ===== *)
theory CaptureGeometry
  imports CaptureArbitration Transitions
begin

text \<open>
  The device's side of a live frame's geometry (\<open>agent/src/capture/geometry.rs\<close>): the rectangle of the desktop a frame
  shows, the mapping of a point of the frame to that rectangle, the revision that fences commands against older
  frames, and the JPEG segment that tells the geometry to the server. An \<open>i32\<close> is a 32-bit word read with \<open>sint\<close>; the
  \<open>i64\<close> arithmetic of the code is done on integers, and \<open>axis_fits\<close> shows that it never leaves the type.
\<close>

section \<open>Rectangles and points\<close>

type_synonym i32 = "32 word"

record DesktopRect =
  rect_x :: i32
  rect_y :: i32
  physical_width :: u32
  physical_height :: u32

definition rect_valid :: "DesktopRect \<Rightarrow> bool" where
  "rect_valid r \<longleftrightarrow> physical_width r > 0 \<and> physical_height r > 0
     \<and> sint (rect_x r) + uint (physical_width r) - 1 \<le> i32_max
     \<and> sint (rect_y r) + uint (physical_height r) - 1 \<le> i32_max"

definition axis_product :: "u32 \<Rightarrow> u32 \<Rightarrow> i32 \<Rightarrow> int" where
  "axis_product extent frame p =
     clamp (sint p) 0 (uint frame - 1) * (uint extent - 1) + (uint frame - 1) div 2"

definition axis :: "i32 \<Rightarrow> u32 \<Rightarrow> u32 \<Rightarrow> i32 \<Rightarrow> i32" where
  "axis origin extent frame p =
     (let offset = (if frame = 1 then 0 else axis_product extent frame p div (uint frame - 1))
      in word_of_int (sint origin + offset))"

definition rect_map :: "DesktopRect \<Rightarrow> u32 \<Rightarrow> u32 \<Rightarrow> i32 \<Rightarrow> i32 \<Rightarrow> (i32 \<times> i32) option" where
  "rect_map r frame_width frame_height x y =
     (if \<not> rect_valid r \<or> frame_width = 0 \<or> frame_height = 0 then None
      else Some (axis (rect_x r) (physical_width r) frame_width x, axis (rect_y r) (physical_height r) frame_height y))"

section \<open>The selection\<close>

record FrameGeometry =
  fg_capture_id :: string
  geometry_revision :: u64
  monitor_index :: "u64 option"
  desktop :: "DesktopRect option"
  frame_width :: u32
  frame_height :: u32

record Selection =
  sel_id :: "string option"
  sel_revision :: u64
  sel_frame :: "FrameGeometry option"
  legacy_primary :: bool

definition Selection_default :: Selection where
  "Selection_default = \<lparr> sel_id = None, sel_revision = 0, sel_frame = None, legacy_primary = False \<rparr>"

definition sel_begin :: "string \<Rightarrow> bool \<Rightarrow> Selection" where
  "sel_begin i legacy = \<lparr> sel_id = Some i, sel_revision = 0, sel_frame = None, legacy_primary = legacy \<rparr>"

text \<open>\<open>checked_add\<close> fails at the largest revision; nothing has been changed then.\<close>

definition publish ::
  "Selection \<Rightarrow> string \<Rightarrow> u64 option \<Rightarrow> DesktopRect option \<Rightarrow> u32 \<Rightarrow> u32 \<Rightarrow> FrameGeometry option \<times> Selection" where
  "publish s i mon rect w h =
     (if sel_id s \<noteq> Some i \<or> w = 0 \<or> h = 0 then (None, s)
      else
        (let d = option_filter rect_valid rect;
             changed = is_none_or (sel_frame s)
               (\<lambda>f. monitor_index f \<noteq> mon \<or> desktop f \<noteq> d \<or> frame_width f \<noteq> w \<or> frame_height f \<noteq> h)
         in if changed \<and> sel_revision s = - 1 then (None, s)
            else
              (let r = (if changed then sel_revision s + 1 else sel_revision s);
                   f = \<lparr> fg_capture_id = i, geometry_revision = r, monitor_index = mon, desktop = d,
                         frame_width = w, frame_height = h \<rparr>
               in (Some f, s\<lparr>sel_revision := r, sel_frame := Some f\<rparr>))))"

definition i32_of_value :: "Value \<Rightarrow> string \<Rightarrow> i32 option" where
  "i32_of_value v k = map_option word_of_int (Option.bind (as_i64 (v_index v k)) i32_try_from)"

definition pointer_kinds :: "string list" where
  "pointer_kinds = [''MouseMove'', ''MouseClick'', ''MouseDoubleClick'', ''MouseDown'', ''MouseUp'']"

definition stamped :: "Value \<Rightarrow> bool" where
  "stamped v \<longleftrightarrow> v_get v ''capture_id'' \<noteq> None \<or> v_get v ''geometry_revision'' \<noteq> None"

definition stamp_current :: "Selection \<Rightarrow> Value \<Rightarrow> bool" where
  "stamp_current s v = is_some_and (sel_frame s) (\<lambda>f.
     Option.bind (v_get v ''capture_id'') as_str = Some (fg_capture_id f)
     \<and> Option.bind (v_get v ''geometry_revision'') as_u64 = Some (geometry_revision f))"

definition map_point :: "Selection \<Rightarrow> i32 \<Rightarrow> i32 \<Rightarrow> (i32 \<times> i32) option" where
  "map_point s x y = Option.bind (sel_frame s) (\<lambda>f.
     Option.bind (desktop f) (\<lambda>d. rect_map d (frame_width f) (frame_height f) x y))"

text \<open>\<open>map_command\<close> writes into the command; the result here is the command it leaves.\<close>

definition map_command :: "Selection \<Rightarrow> Value \<Rightarrow> (Value, string) Result" where
  "map_command s v =
     (if stamped v \<and> \<not> stamp_current s v then Err ''stale capture geometry''
      else if \<not> is_some_and (as_str (v_index v ''type'')) (\<lambda>t. t \<in> set pointer_kinds) then Ok v
      else case i32_of_value v ''x'' of
        None \<Rightarrow> Err ''invalid x''
      | Some x \<Rightarrow>
          (case i32_of_value v ''y'' of
             None \<Rightarrow> Err ''invalid y''
           | Some y \<Rightarrow>
               (case map_point s x y of
                  Some (px, py) \<Rightarrow> Ok (v_set (v_set v ''x'' (json_int (sint px))) ''y'' (json_int (sint py)))
                | None \<Rightarrow>
                    if \<not> stamped v \<and> (sel_id s = None \<or> (legacy_primary s \<and> sel_frame s \<noteq> None)) then Ok v
                    else Err ''capture geometry unavailable'')))"

section \<open>Capture sessions\<close>

definition session_invalidate :: "Selection \<Rightarrow> string \<Rightarrow> Selection" where
  "session_invalidate s i = (if sel_id s = Some i then s\<lparr>sel_frame := None\<rparr> else s)"

definition session_current :: "Selection \<Rightarrow> string \<Rightarrow> bool" where
  "session_current s i \<longleftrightarrow> sel_id s = Some i"

definition session_drop :: "Selection \<Rightarrow> string \<Rightarrow> Selection" where
  "session_drop s i = (if sel_id s = Some i then Selection_default else s)"

definition json_rect :: "DesktopRect \<Rightarrow> Value" where
  "json_rect r = json_obj [(''x'', json_int (sint (rect_x r))), (''y'', json_int (sint (rect_y r))),
     (''physical_width'', json_u64 (ucast (physical_width r))), (''physical_height'', json_u64 (ucast (physical_height r)))]"

definition json_geometry :: "FrameGeometry \<Rightarrow> Value" where
  "json_geometry f = json_obj [(''capture_id'', Str (fg_capture_id f)), (''geometry_revision'', json_u64 (geometry_revision f)),
     (''monitor_index'', json_opt json_u64 (monitor_index f)), (''desktop'', json_opt json_rect (desktop f)),
     (''frame_width'', json_u64 (ucast (frame_width f))), (''frame_height'', json_u64 (ucast (frame_height f)))]"

definition geometry_value :: "FrameGeometry \<Rightarrow> Value" where
  "geometry_value f = json_obj [(''type'', Str ''capture_geometry''), (''schema_version'', json_nat 1), (''geometry'', json_geometry f)]"

definition to_be_bytes :: "nat \<Rightarrow> u8 list" where
  "to_be_bytes n = [of_nat (n div 256), of_nat n]"

text \<open>\<open>to_vec\<close> is \<open>serde_json::to_vec\<close>, which cannot fail on a \<open>Value\<close>. The geometry is published even when the JPEG is
  then refused.\<close>

definition session_frame ::
  "(Value \<Rightarrow> u8 list) \<Rightarrow> Selection \<Rightarrow> string \<Rightarrow> u64 option \<Rightarrow> DesktopRect option \<Rightarrow> u32 \<Rightarrow> u32 \<Rightarrow> u8 list
    \<Rightarrow> u8 list option \<times> Selection" where
  "session_frame to_vec s i mon rect w h img =
     (case publish s i mon rect w h of
        (None, s') \<Rightarrow> (None, s')
      | (Some f, s') \<Rightarrow>
          (let data = GEOMETRY_TAG @ to_vec (geometry_value f); n = length data + 2 in
           if n > 65535 then (None, s')
           else if take 2 img \<noteq> [0xff, 0xd8] then (None, s')
           else (Some (take 2 img @ [0xff, 0xef] @ to_be_bytes n @ data @ drop 2 img), s')))"

section \<open>Points stay on the display\<close>

lemma clamp_int: "1 \<le> n \<Longrightarrow> 0 \<le> clamp x 0 (n - 1) \<and> clamp x 0 (n - 1) \<le> (n - 1 :: int)"
  using clamp_bounds [of 0 "n - 1" x] by simp

lemma i32_bounds: "- (2 ^ 31) \<le> sint (x :: i32)" "sint (x :: i32) < 2 ^ 31"
  using sint_greater_eq [of x] sint_lt [of x] by simp_all

lemma sint_i32: "- (2 ^ 31) \<le> n \<Longrightarrow> n < 2 ^ 31 \<Longrightarrow> sint (word_of_int n :: i32) = n"
  by (simp add: sint_sbintrunc' signed_take_bit_int_eq_self)

lemma word_pos_uint: "(0 :: 32 word) < w \<longleftrightarrow> 1 \<le> uint w"
  by (metis int_one_le_iff_zero_less uint_0_iff uint_ge_0 word_greater_zero_iff order_less_le)

text \<open>The products of the code stay within \<open>i64\<close>.\<close>

lemma axis_fits:
  assumes "0 < extent" "0 < frame"
  shows "0 \<le> axis_product extent frame p" "axis_product extent frame p < 2 ^ 63"
proof -
  let ?c = "clamp (sint p) 0 (uint frame - 1)"
  have s: "1 \<le> uint extent" "uint extent < 2 ^ 32" and f: "1 \<le> uint frame" "uint frame < 2 ^ 32"
    using assms uint_bounded [of extent] uint_bounded [of frame] by (simp_all add: word_pos_uint)
  have c: "0 \<le> ?c" "?c \<le> 2 ^ 31 - 1" using clamp_int [OF f(1), of "sint p"] i32_bounds [of p] f(1)
    by (auto simp: clamp_def)
  then show "0 \<le> axis_product extent frame p" using s f by (simp add: axis_product_def)
  have "?c * (uint extent - 1) \<le> (2 ^ 31 - 1) * (2 ^ 32 - 2)" using c s by (intro mult_mono) auto
  moreover have "(uint frame - 1) div 2 < 2 ^ 31" using f by simp
  ultimately show "axis_product extent frame p < 2 ^ 63" by (simp add: axis_product_def)
qed

lemma int_div_less:
  assumes "m < q * n" "(0 :: int) < n"
  shows "m div n < q"
proof (rule ccontr)
  assume "\<not> m div n < q"
  then have "q * n \<le> m div n * n" using assms(2) by (intro mult_right_mono) auto
  also have "\<dots> \<le> m" using div_mult_mod_eq [of m n] pos_mod_sign [OF assms(2), of m] by linarith
  finally show False using assms(1) by simp
qed

definition axis_offset :: "u32 \<Rightarrow> u32 \<Rightarrow> i32 \<Rightarrow> int" where
  "axis_offset extent frame p = (if frame = 1 then 0 else axis_product extent frame p div (uint frame - 1))"

lemma uint_eq_1_iff: "uint (w :: 32 word) = 1 \<longleftrightarrow> w = 1"
  by (simp add: word_uint_eq_iff)

lemma axis_offset_bounds:
  assumes "0 < extent" "0 < frame"
  shows "0 \<le> axis_offset extent frame p \<and> axis_offset extent frame p \<le> uint extent - 1"
proof (cases "frame = 1")
  case True
  with assms show ?thesis by (simp add: axis_offset_def word_pos_uint)
next
  case False
  let ?n = "uint frame - 1" and ?c = "clamp (sint p) 0 (uint frame - 1)"
  have n: "1 \<le> ?n" using assms(2) False by (simp add: word_pos_uint uint_eq_1_iff [symmetric])
  have s: "0 \<le> uint extent - 1" using assms(1) by (simp add: word_pos_uint)
  have c: "?c \<le> ?n" "0 \<le> ?c" using clamp_int [of "uint frame" "sint p"] n by auto
  then have "?c * (uint extent - 1) \<le> ?n * (uint extent - 1)" using s by (intro mult_right_mono) auto
  then have "axis_product extent frame p < (uint extent - 1) * ?n + ?n"
    using n by (simp add: axis_product_def mult.commute)
  then have "axis_product extent frame p < (uint extent - 1 + 1) * ?n" by (simp add: algebra_simps)
  then have "axis_product extent frame p div ?n < uint extent - 1 + 1" using n by (intro int_div_less) auto
  moreover have "0 \<le> axis_product extent frame p div ?n" using axis_fits(1) [OF assms, of p] n by (simp add: pos_imp_zdiv_nonneg_iff)
  ultimately show ?thesis using False by (simp add: axis_offset_def)
qed

lemma sint_axis:
  assumes "0 < extent" "0 < frame" "sint origin + uint extent - 1 \<le> i32_max"
  shows "sint (axis origin extent frame p) = sint origin + axis_offset extent frame p"
proof -
  have "- (2 ^ 31) \<le> sint origin + axis_offset extent frame p" "sint origin + axis_offset extent frame p < 2 ^ 31"
    using axis_offset_bounds [OF assms(1,2), of p] i32_bounds [of origin] assms(3) by (auto simp: i32_max_def)
  from sint_i32 [OF this] show ?thesis by (simp only: axis_def axis_offset_def Let_def)
qed


lemma axis_offset_mono:
  assumes "0 < extent" "0 < frame" "sint p \<le> sint q"
  shows "axis_offset extent frame p \<le> axis_offset extent frame q"
proof (cases "frame = 1")
  case False
  then have n: "0 < uint frame - 1" using assms(2) by (simp add: word_pos_uint uint_eq_1_iff [symmetric])
  have "clamp (sint p) 0 (uint frame - 1) \<le> clamp (sint q) 0 (uint frame - 1)" using assms(3) n by (auto simp: clamp_def)
  moreover have "0 \<le> uint extent - 1" using assms(1) by (simp add: word_pos_uint)
  ultimately have "axis_product extent frame p \<le> axis_product extent frame q" by (simp add: axis_product_def mult_right_mono)
  with False n show ?thesis by (simp add: axis_offset_def zdiv_mono1)
qed (simp add: axis_offset_def)

lemma axis_offset_edges:
  assumes "0 < extent" "0 < frame"
  shows "sint p \<le> 0 \<Longrightarrow> axis_offset extent frame p = 0"
    and "frame \<noteq> 1 \<Longrightarrow> uint frame - 1 \<le> sint p \<Longrightarrow> axis_offset extent frame p = uint extent - 1"
    and "frame = extent \<Longrightarrow> axis_offset extent frame p = clamp (sint p) 0 (uint frame - 1)"
proof -
  let ?n = "uint frame - 1"
  have n0: "0 \<le> ?n" using assms(2) by (simp add: word_pos_uint)
  have half: "(k * ?n + ?n div 2) div ?n = k" if "frame \<noteq> 1" for k
  proof -
    have "0 < ?n" using n0 that by (simp add: uint_eq_1_iff [symmetric])
    then have "?n div 2 div ?n = 0" by (intro div_pos_pos_trivial) auto
    with \<open>0 < ?n\<close> show ?thesis by simp
  qed
  show "sint p \<le> 0 \<Longrightarrow> axis_offset extent frame p = 0"
  proof -
    assume "sint p \<le> 0"
    then have "clamp (sint p) 0 ?n = 0" using n0 by (auto simp: clamp_def)
    with half [of 0] show ?thesis by (auto simp: axis_offset_def axis_product_def)
  qed
  show "frame \<noteq> 1 \<Longrightarrow> ?n \<le> sint p \<Longrightarrow> axis_offset extent frame p = uint extent - 1"
  proof -
    assume f: "frame \<noteq> 1" and "?n \<le> sint p"
    then have "clamp (sint p) 0 ?n = ?n" using n0 by (auto simp: clamp_def)
    with half [OF f, of "uint extent - 1"] f show ?thesis by (simp add: axis_offset_def axis_product_def mult.commute)
  qed
  show "frame = extent \<Longrightarrow> axis_offset extent frame p = clamp (sint p) 0 ?n"
    using half [of "clamp (sint p) 0 ?n"] by (auto simp: axis_offset_def axis_product_def clamp_def)
qed

text \<open>
  C35. Wherever an operator points in a frame, the pointer stays on the display the frame shows: the point the device
  computes lies in the display's rectangle, the four edges of the frame (and everything outside of it) go to the four
  edges of the display, moving further right in the frame never moves left on the display, and a frame at the
  display's own size maps each of its points to exactly that pixel. No intermediate product overflows.
\<close>

theorem mapped_point_on_display:
  assumes "rect_map r fw fh x y = Some (px, py)"
  shows "sint (rect_x r) \<le> sint px \<and> sint px \<le> sint (rect_x r) + uint (physical_width r) - 1
    \<and> sint (rect_y r) \<le> sint py \<and> sint py \<le> sint (rect_y r) + uint (physical_height r) - 1
    \<and> (sint x \<le> 0 \<longrightarrow> sint px = sint (rect_x r))
    \<and> (fw \<noteq> 1 \<and> uint fw - 1 \<le> sint x \<longrightarrow> sint px = sint (rect_x r) + uint (physical_width r) - 1)
    \<and> (\<forall>x' px' py'. sint x \<le> sint x' \<and> rect_map r fw fh x' y = Some (px', py') \<longrightarrow> sint px \<le> sint px' \<and> py' = py)
    \<and> (fw = physical_width r \<and> 0 \<le> sint x \<and> sint x < uint fw \<longrightarrow> sint px = sint (rect_x r) + sint x)
    \<and> axis_product (physical_width r) fw x < 2 ^ 63 \<and> axis_product (physical_height r) fh y < 2 ^ 63"
proof -
  have v: "0 < physical_width r" "0 < physical_height r" "sint (rect_x r) + uint (physical_width r) - 1 \<le> i32_max"
    "sint (rect_y r) + uint (physical_height r) - 1 \<le> i32_max" and f: "0 < fw" "0 < fh"
    and p: "px = axis (rect_x r) (physical_width r) fw x" "py = axis (rect_y r) (physical_height r) fh y"
    using assms by (auto simp: rect_map_def rect_valid_def word_greater_zero_iff split: if_splits)
  note X = sint_axis [OF v(1) f(1) v(3)] and Y = sint_axis [OF v(2) f(2) v(4)]
  have other: "px' = axis (rect_x r) (physical_width r) fw x' \<and> py' = py" if "rect_map r fw fh x' y = Some (px', py')" for x' px' py'
    using that p by (auto simp: rect_map_def split: if_splits)
  have mono: "sint px \<le> sint px' \<and> py' = py" if "sint x \<le> sint x'" "rect_map r fw fh x' y = Some (px', py')" for x' px' py'
    using other [OF that(2)] that(1) axis_offset_mono [OF v(1) f(1), of x x'] by (simp add: p X)
  have same: "sint px = sint (rect_x r) + sint x" if "fw = physical_width r" "0 \<le> sint x" "sint x < uint fw"
    using that(2,3) axis_offset_edges(3) [OF v(1) f(1) that(1), of x] X [of x] by (simp add: p)
  show ?thesis
    using axis_offset_bounds [OF v(1) f(1), of x] axis_offset_bounds [OF v(2) f(2), of y]
      axis_offset_edges(1,2) [OF v(1) f(1), of x] axis_fits(2) [OF v(1) f(1), of x] axis_fits(2) [OF v(2) f(2), of y] mono same
    by (auto simp: p X Y)
qed

definition portrait_display :: DesktopRect where
  "portrait_display = \<lparr> rect_x = - 1080, rect_y = - 200, physical_width = 1080, physical_height = 1920 \<rparr>"

theorem mapped_point_on_display_witness:
  "rect_map portrait_display 540 960 539 9999 = Some (- 1, 1719) \<and> sint (- 1 :: i32) = sint (- 1080 :: i32) + 1080 - 1"
proof -
  have m: "rect_map portrait_display 540 960 539 9999 = Some (- 1, 1719)"
    by (simp add: rect_map_def rect_valid_def portrait_display_def axis_def axis_product_def clamp_def i32_max_def)
  from mapped_point_on_display [OF m] m show ?thesis by (simp add: portrait_display_def)
qed


section \<open>Revisions fence old frames\<close>

text \<open>The selection together with all geometries that were published so far. A new session draws an identifier no
  published geometry carries (\<open>Uuid::new_v4\<close>).\<close>

record CaptureTrace =
  trace_sel :: Selection
  published :: "FrameGeometry list"

inductive capture_step :: "CaptureTrace \<Rightarrow> unit \<Rightarrow> CaptureTrace \<Rightarrow> bool" where
  started: "i \<notin> fg_capture_id ` set (published t) \<Longrightarrow> capture_step t () (t\<lparr>trace_sel := sel_begin i legacy\<rparr>)"
| framed: "publish (trace_sel t) i mon rect w h = (Some f, s') \<Longrightarrow>
    capture_step t () \<lparr> trace_sel = s', published = f # published t \<rparr>"
| invalidated: "capture_step t () (t\<lparr>trace_sel := session_invalidate (trace_sel t) i\<rparr>)"
| dropped: "capture_step t () (t\<lparr>trace_sel := session_drop (trace_sel t) i\<rparr>)"

definition trace_new :: CaptureTrace where
  "trace_new = \<lparr> trace_sel = Selection_default, published = [] \<rparr>"

text \<open>Geometries with the same identifier and revision are the same, and no revision is ahead of the selection's.\<close>

definition trace_inv :: "CaptureTrace \<Rightarrow> bool" where
  "trace_inv t \<longleftrightarrow>
     (\<forall>f \<in> set (published t). \<forall>g \<in> set (published t).
        fg_capture_id f = fg_capture_id g \<longrightarrow> geometry_revision f = geometry_revision g \<longrightarrow> f = g)
   \<and> (\<forall>f \<in> set (published t). sel_id (trace_sel t) = Some (fg_capture_id f) \<longrightarrow> geometry_revision f \<le> sel_revision (trace_sel t))
   \<and> (\<forall>f. sel_frame (trace_sel t) = Some f \<longrightarrow> f \<in> set (published t) \<and> sel_id (trace_sel t) = Some (fg_capture_id f)
        \<and> geometry_revision f = sel_revision (trace_sel t))"

lemma publish_SomeD:
  assumes "publish s i mon rect w h = (Some f, s')"
  shows "sel_id s = Some i \<and> fg_capture_id f = i \<and> s' = s\<lparr>sel_revision := geometry_revision f, sel_frame := Some f\<rparr>"
  using assms by (auto simp: publish_def Let_def split: if_splits)

lemma u64_suc: "(r :: u64) \<noteq> - 1 \<Longrightarrow> r < r + 1"
proof -
  assume "r \<noteq> - 1"
  then have "unat r \<noteq> unat (- 1 :: u64)" by (simp only: word_unat_eq_iff not_False_eq_True)
  then have "unat r < 2 ^ 64 - 1" using unsigned_less [where 'a = nat, of r] by (simp add: unsigned_minus_1_eq_mask mask_eq_exp_minus_1)
  then have "unat (r + 1) = unat r + 1" by (simp add: unat_word_ariths)
  then show ?thesis by (simp add: word_less_nat_alt)
qed


lemma publish_cases:
  assumes "publish s i mon rect w h = (Some f, s')" and "\<forall>g. sel_frame s = Some g \<longrightarrow> fg_capture_id g = i \<and> geometry_revision g = sel_revision s"
  shows "sel_frame s = Some f \<and> s' = s \<or> geometry_revision f = sel_revision s + 1 \<and> sel_revision s < sel_revision s + 1"
proof (cases "sel_frame s")
  case None
  with assms(1) u64_suc [of "sel_revision s"] show ?thesis by (auto simp: publish_def Let_def split: if_splits)
next
  case (Some g)
  with assms u64_suc [of "sel_revision s"] show ?thesis by (cases g; cases s) (auto simp: publish_def Let_def split: if_splits)
qed

lemma capture_step_inv:
  assumes "capture_step t l u" "trace_inv t"
  shows "trace_inv u"
  using assms(1)
proof cases
  case (started i legacy)
  with assms(2) show ?thesis by (force simp: trace_inv_def sel_begin_def)
next
  case (framed i mon rect w h f s')
  note p = publish_SomeD [OF framed(3)]
  have inv: "fg_capture_id g = i \<and> geometry_revision g = sel_revision (trace_sel t) \<and> g \<in> set (published t)"
    if "sel_frame (trace_sel t) = Some g" for g using assms(2) p that by (auto simp: trace_inv_def)
  from publish_cases [OF framed(3)] inv
  consider "sel_frame (trace_sel t) = Some f" "s' = trace_sel t"
    | "geometry_revision f = sel_revision (trace_sel t) + 1" "sel_revision (trace_sel t) < sel_revision (trace_sel t) + 1" by blast
  then show ?thesis
  proof cases
    case 1
    with inv [OF 1(1)] assms(2) framed(2) show ?thesis by (simp add: trace_inv_def insert_absorb)
  next
    case 2
    have older: "geometry_revision g < geometry_revision f" if "g \<in> set (published t)" "fg_capture_id g = fg_capture_id f" for g
      using assms(2) p that 2 by (auto simp: trace_inv_def intro: le_less_trans)
    with assms(2) framed(2) p show ?thesis by (fastforce simp: trace_inv_def)
  qed
next
  case (invalidated i)
  with assms(2) show ?thesis by (auto simp: trace_inv_def session_invalidate_def)
next
  case (dropped i)
  with assms(2) show ?thesis by (auto simp: trace_inv_def session_drop_def Selection_default_def)
qed

interpretation captures: safe_system capture_step trace_new trace_inv
proof unfold_locales
  show "trace_inv trace_new" by (simp add: trace_inv_def trace_new_def Selection_default_def)
qed (auto intro: capture_step_inv)

text \<open>
  C36. Input is never applied to another picture than the one it was aimed at: whatever captures are started,
  restarted, resized, invalidated or dropped, a command that carries the identifier and revision of some published
  frame is accepted only while that very frame's geometry is the current one, and a pointer command is then mapped with
  exactly that frame's display rectangle and size.
\<close>

theorem stamped_command_uses_its_frame:
  assumes "reaches capture_step trace_new t" and "g \<in> set (published t)"
    and "v_get v ''capture_id'' = Some (Str (fg_capture_id g))" and "v_get v ''geometry_revision'' = Some (json_u64 (geometry_revision g))"
    and "map_command (trace_sel t) v = Ok v'"
  shows "sel_frame (trace_sel t) = Some g
    \<and> (\<forall>kind \<in> set pointer_kinds. v_index v ''type'' = Str kind \<longrightarrow>
         (\<exists>x y d px py. i32_of_value v ''x'' = Some x \<and> i32_of_value v ''y'' = Some y \<and> desktop g = Some d
           \<and> rect_map d (frame_width g) (frame_height g) x y = Some (px, py)
           \<and> v' = v_set (v_set v ''x'' (json_int (sint px))) ''y'' (json_int (sint py))))"
proof -
  have st: "stamped v" using assms(3) by (simp add: stamped_def)
  with assms(5) have "stamp_current (trace_sel t) v" by (auto simp: map_command_def split: if_splits)
  then obtain f where f: "sel_frame (trace_sel t) = Some f" "fg_capture_id f = fg_capture_id g" "geometry_revision f = geometry_revision g"
    using assms(3,4) by (auto simp: stamp_current_def is_some_and_iff)
  have "f = g" using captures.inv_reachable [OF assms(1)] f assms(2) unfolding trace_inv_def by metis
  with assms(5) st f(1) show ?thesis
    by (auto simp: map_command_def map_point_def split: if_splits option.splits bind_split_asm)
qed

definition portrait_frame :: FrameGeometry where
  "portrait_frame = \<lparr> fg_capture_id = ''a'', geometry_revision = 1, monitor_index = Some 1, desktop = Some portrait_display,
     frame_width = 540, frame_height = 960 \<rparr>"

definition portrait_selection :: Selection where
  "portrait_selection = \<lparr> sel_id = Some ''a'', sel_revision = 1, sel_frame = Some portrait_frame, legacy_primary = False \<rparr>"

lemma portrait_valid [simp]: "rect_valid portrait_display"
  by (simp add: rect_valid_def portrait_display_def i32_max_def)

lemma portrait_published:
  "publish (sel_begin ''a'' False) ''a'' (Some 1) (Some portrait_display) 540 960 = (Some portrait_frame, portrait_selection)"
  by (simp add: publish_def sel_begin_def portrait_frame_def portrait_selection_def Let_def)

lemma portrait_reached: "reaches capture_step trace_new \<lparr> trace_sel = portrait_selection, published = [portrait_frame] \<rparr>"
proof -
  have "capture_step trace_new () (trace_new\<lparr>trace_sel := sel_begin ''a'' False\<rparr>)"
    by (rule capture_step.started) (simp add: trace_new_def)
  moreover have "capture_step (trace_new\<lparr>trace_sel := sel_begin ''a'' False\<rparr>) () \<lparr> trace_sel = portrait_selection, published = [portrait_frame] \<rparr>"
    using capture_step.framed [of "trace_new\<lparr>trace_sel := sel_begin ''a'' False\<rparr>" "''a''" "Some 1" "Some portrait_display" 540 960]
      portrait_published by (simp add: trace_new_def)
  ultimately show ?thesis by (blast intro: reaches.intros)
qed

theorem stamped_command_uses_its_frame_witness:
  "\<exists>v'. map_command portrait_selection (json_obj [(''type'', Str ''MouseMove''), (''x'', json_int 539), (''y'', json_int 0),
      (''capture_id'', Str ''a''), (''geometry_revision'', json_u64 1)]) = Ok v' \<and> v_index v' ''x'' = json_int (- 1)"
proof -
  let ?v = "json_obj [(''type'', Str ''MouseMove''), (''x'', json_int 539), (''y'', json_int 0),
      (''capture_id'', Str ''a''), (''geometry_revision'', json_u64 1)]"
  have m: "rect_map portrait_display 540 960 539 0 = Some (- 1, - 200)"
    by (simp add: rect_map_def) (simp add: portrait_display_def axis_def axis_product_def clamp_def)
  have xy: "i32_of_value ?v ''x'' = Some 539" "i32_of_value ?v ''y'' = Some 0"
    by (simp_all add: i32_of_value_def i32_try_from_def i32_min_def i32_max_def)
  have "map_command portrait_selection ?v = Ok (v_set (v_set ?v ''x'' (json_int (- 1))) ''y'' (json_int (- 200)))"
    using xy m by (simp add: map_command_def map_point_def stamped_def stamp_current_def portrait_selection_def portrait_frame_def pointer_kinds_def)
  with stamped_command_uses_its_frame [OF portrait_reached, of portrait_frame ?v] show ?thesis
    by (simp add: portrait_frame_def portrait_selection_def)
qed


section \<open>The server reads what the device writes\<close>

text \<open>The geometries the server lets an operator control with.\<close>

definition controllable :: "Uuid_fmt \<Rightarrow> FrameGeometry \<Rightarrow> bool" where
  "controllable u f \<longleftrightarrow> parse_str u (fg_capture_id f) \<noteq> None \<and> geometry_revision f \<noteq> 0
     \<and> unat (frame_width f) \<le> 65535 \<and> unat (frame_height f) \<le> 65535
     \<and> is_some_and (desktop f) (\<lambda>d. unat (physical_width d) \<le> 65535 \<and> unat (physical_height d) \<le> 65535)
     \<and> is_some_and (monitor_index f) (\<lambda>m. m < 64)"

lemma u16_json: "0 < w \<Longrightarrow> in_u16_range (json_u64 (ucast (w :: u32))) \<longleftrightarrow> unat w \<le> 65535"
proof -
  assume "0 < w"
  have "unat (ucast w :: u64) = unat w" using unsigned_less [where 'a = nat, of w] by (simp add: unsigned_ucast_eq take_bit_nat_eq_self)
  with \<open>0 < w\<close> show ?thesis by (simp add: in_u16_range_def word_le_nat_alt word_less_nat_alt)
qed

lemma span_json:
  assumes "sint (x :: i32) + uint (w :: u32) - 1 \<le> i32_max"
  shows "span_ok (json_int (sint x)) (json_u64 (ucast w))"
proof -
  have x: "i32_min \<le> sint x" "sint x \<le> i32_max" using i32_bounds [of x] by (simp_all add: i32_min_def i32_max_def)
  have "uint (ucast w :: u64) = uint w" using uint_bounded [of w] by (simp add: unsigned_ucast_eq take_bit_int_eq_self)
  moreover have "uint w < 2 ^ 32" using uint_bounded [of w] by simp
  moreover have "signed_take_bit 63 (uint w) = uint w"
    by (rule signed_take_bit_int_eq_self) (use uint_bounded [of w] in \<open>simp_all add: order_trans [OF _ uint_ge_0]\<close>)
  ultimately have "sint (ucast w :: u64) = uint w" by (simp add: sint_uint)
  with x assms show ?thesis by (simp add: span_ok_def i32_try_from_def)
qed

lemma check_device_geometry:
  assumes "frame_width f > 0" "frame_height f > 0" "\<And>d. desktop f = Some d \<Longrightarrow> rect_valid d"
  shows "check_geometry u (geometry_value f) = (if controllable u f then Some (json_geometry f) else None)"
proof (cases "desktop f")
  case None
  then show ?thesis by (simp add: check_geometry_def geometry_value_def json_geometry_def controllable_def Let_def in_u16_range_def)
next
  case (Some d)
  with assms(3) have d: "0 < physical_width d" "0 < physical_height d"
    "span_ok (json_int (sint (rect_x d))) (json_u64 (ucast (physical_width d)))"
    "span_ok (json_int (sint (rect_y d))) (json_u64 (ucast (physical_height d)))" by (auto simp: rect_valid_def intro: span_json)
  have head: "v_index (geometry_value f) ''type'' = Str ''capture_geometry''" "as_i64 (v_index (geometry_value f) ''schema_version'') = Some 1"
    "v_index (geometry_value f) ''geometry'' = json_geometry f"
    by (simp_all add: geometry_value_def json_nat_def i64_max_def)
  have fields: "uuid_field u (json_geometry f) ''capture_id'' = parse_str u (fg_capture_id f)"
    "as_u64 (v_index (json_geometry f) ''geometry_revision'') = Some (geometry_revision f)"
    "v_index (json_geometry f) ''frame_width'' = json_u64 (ucast (frame_width f))"
    "v_index (json_geometry f) ''frame_height'' = json_u64 (ucast (frame_height f))"
    "as_u64 (v_index (json_geometry f) ''monitor_index'') = monitor_index f"
    "v_index (json_geometry f) ''desktop'' = json_rect d"
    using Some by (cases "monitor_index f"; simp add: json_geometry_def uuid_field_def)+
  have rect: "v_index (json_rect d) ''x'' = json_int (sint (rect_x d))" "v_index (json_rect d) ''y'' = json_int (sint (rect_y d))"
    "v_index (json_rect d) ''physical_width'' = json_u64 (ucast (physical_width d))"
    "v_index (json_rect d) ''physical_height'' = json_u64 (ucast (physical_height d))"
    by (simp_all add: json_rect_def)
  show ?thesis
    by (simp add: check_geometry_def Let_def head fields rect d u16_json assms(1,2) controllable_def Some)
qed


lemma be_bytes_read: "n < 65536 \<Longrightarrow> unat (of_nat (n div 256) :: u8) * 256 + unat (of_nat n :: u8) = n"
  by (simp add: unsigned_of_nat take_bit_eq_mod less_mult_imp_div_less)

lemma geometry_segment:
  assumes "length data \<le> 16384" "take 2 img = [0xff, 0xd8]" "take 15 data = GEOMETRY_TAG"
  shows "frame_geometry env (take 2 img @ [0xff, 0xef] @ to_be_bytes (length data + 2) @ data @ rest)
    = Option.bind (from_slice env (drop 15 data)) (check_geometry (fmt env))"
proof -
  let ?n = "length data + 2" and ?b = "[0xff, 0xd8, 0xff, 0xef] @ to_be_bytes (length data + 2) @ data @ rest"
  have tag: "length GEOMETRY_TAG = 15" by (simp add: GEOMETRY_TAG_def)
  note n = be_bytes_read [of ?n]
  have "geometry_scan env ?b (Suc 127) 2 = Option.bind (from_slice env (drop 15 data)) (check_geometry (fmt env))"
    using assms(1,3) n by (subst geometry_scan.simps(2))
      (simp add: byte_at_def skip_fill_def to_be_bytes_def Let_def tag nth_append del: add_2_eq_Suc')
  then show ?thesis by (simp add: frame_geometry_def assms(2))
qed


text \<open>
  The geometry a device writes into a frame is the one the server reads: for every frame the device marks, the
  server finds in it exactly the published geometry if that can be controlled (a display with a rectangle, an index
  below 64, sizes up to 65535), and none otherwise, which makes the stream view-only; and the picture itself is
  unchanged around the marker. The JSON library is assumed to read back what it writes, in at most 16369 bytes.
\<close>

theorem server_reads_device_geometry:
  assumes "session_frame to_vec s i mon rect w h img = (Some marked, s')" and "sel_frame s' = Some f"
    and "from_slice env (to_vec (geometry_value f)) = Some (geometry_value f)" and "length (to_vec (geometry_value f)) \<le> 16369"
  shows "frame_geometry env marked = (if controllable (fmt env) f then Some (json_geometry f) else None)
    \<and> take 2 marked @ drop (21 + length (to_vec (geometry_value f))) marked = img
    \<and> fg_capture_id f = i \<and> frame_width f = w \<and> frame_height f = h \<and> monitor_index f = mon
    \<and> desktop f = option_filter rect_valid rect"
proof -
  obtain f' where p: "publish s i mon rect w h = (Some f', s')"
    using assms(1) by (auto simp: session_frame_def Let_def split: prod.splits option.splits if_splits)
  from publish_SomeD [OF p] assms(2) have f: "f' = f" by simp
  let ?data = "GEOMETRY_TAG @ to_vec (geometry_value f)"
  have tag: "length GEOMETRY_TAG = 15" by (simp add: GEOMETRY_TAG_def)
  have m: "marked = take 2 img @ [0xff, 0xef] @ to_be_bytes (length ?data + 2) @ ?data @ drop 2 img" "take 2 img = [0xff, 0xd8]"
    using assms(1) p f by (auto simp: session_frame_def Let_def split: if_splits)
  have pub: "w \<noteq> 0" "h \<noteq> 0" "frame_width f = w" "frame_height f = h" "monitor_index f = mon" "desktop f = option_filter rect_valid rect"
    "fg_capture_id f = i" using p f by (auto simp: publish_def Let_def split: if_splits)
  have "frame_geometry env marked = check_geometry (fmt env) (geometry_value f)"
    unfolding m(1) using assms(3,4) tag by (subst geometry_segment [OF _ m(2)]) simp_all
  also have "\<dots> = (if controllable (fmt env) f then Some (json_geometry f) else None)"
    using pub by (intro check_device_geometry) (auto simp: word_greater_zero_iff option_filter_eq_Some dest: sym [of "Some _"])
  finally have "frame_geometry env marked = (if controllable (fmt env) f then Some (json_geometry f) else None)" .
  moreover have "take 2 marked @ drop (21 + length (to_vec (geometry_value f))) marked = img"
  proof -
    let ?head = "take 2 img @ [0xff, 0xef] @ to_be_bytes (length ?data + 2) @ ?data"
    have "marked = ?head @ drop 2 img" "length ?head = 21 + length (to_vec (geometry_value f))" "take 2 marked = take 2 img"
      using m tag by (simp_all add: to_be_bytes_def)
    then show ?thesis by (metis append_eq_conv_conj append_take_drop_id)
  qed
  ultimately show ?thesis using pub by blast
qed

definition portrait_fmt :: Uuid_fmt where
  "portrait_fmt = \<lparr> parse_str = (\<lambda>s. if s = ''a'' then Some 7 else None), to_str = (\<lambda>_. ''a'') \<rparr>"

theorem server_reads_device_geometry_witness:
  "\<exists>marked. session_frame (\<lambda>_. [1]) (sel_begin ''a'' False) ''a'' (Some 1) (Some portrait_display) 540 960 [0xff, 0xd8, 0xff, 0xd9]
      = (Some marked, portrait_selection)
    \<and> frame_geometry (example_env\<lparr>fmt := portrait_fmt, from_slice := (\<lambda>b. if b = [1] then Some (geometry_value portrait_frame) else None)\<rparr>) marked
      = Some (json_geometry portrait_frame)"
proof -
  let ?env = "example_env\<lparr>fmt := portrait_fmt, from_slice := (\<lambda>b. if b = [1] then Some (geometry_value portrait_frame) else None)\<rparr>"
  obtain marked where m: "session_frame (\<lambda>_. [1]) (sel_begin ''a'' False) ''a'' (Some 1) (Some portrait_display) 540 960 [0xff, 0xd8, 0xff, 0xd9]
      = (Some marked, portrait_selection)"
    by (simp add: session_frame_def portrait_published Let_def GEOMETRY_TAG_def)
  have "controllable (fmt ?env) portrait_frame" by (simp add: controllable_def portrait_fmt_def portrait_frame_def portrait_display_def)
  with server_reads_device_geometry [OF m, of portrait_frame ?env] m show ?thesis by (simp add: portrait_selection_def)
qed

end
