(* ===== verification/FileTransfer.thy ===== *)
theory FileTransfer
  imports AgentPermissions Strings
begin

text \<open>
  Chunked file transfer on the device (\<open>agent/src/commands/files/transfer.rs\<close>): uploads as sessions keyed by their
  destination, and downloads as the chunks one read loop sends. Files are a map from path texts to bytes; base64 is a
  library's (\<open>decode\<close>, \<open>encode\<close>), and what the operating system answers to a write or a read is an argument.
\<close>

section \<open>Uploads\<close>

type_synonym Files = "string \<rightharpoonup> u8 list"

record FileUploadSession =
  next_expected_chunk :: nat
  fus_total_chunks :: nat
  bytes_written :: nat
  fus_generation :: "Generation option"

type_synonym UploadSessions = "(string, FileUploadSession) HashMap"

record FileUploadResult =
  fur_path :: string
  fur_ok :: bool
  fur_error :: string

definition clip :: "string \<Rightarrow> nat \<Rightarrow> string" where
  "clip s n = take_chars n (trim s)"

definition MAX_FILE_PATH_CHARS :: nat where "MAX_FILE_PATH_CHARS = 2048"

text \<open>What the operating system does with a write: \<open>write_fault\<close> is an error and what it left in the file;
  \<open>missing\<close> is its text for a file that does not exist.\<close>

record Io =
  write_fault :: "(string \<times> u8 list option) option"
  missing :: string

definition write_chunk :: "Files \<Rightarrow> string \<Rightarrow> nat \<Rightarrow> u8 list \<Rightarrow> Io \<Rightarrow> (unit, string) Result \<times> Files" where
  "write_chunk fs path chunk_index decoded io =
     (if chunk_index \<noteq> 0 \<and> fs path = None then (Err (missing io), fs)
      else case write_fault io of
        Some (e, left) \<Rightarrow> (Err e, fs(path := left))
      | None \<Rightarrow>
          (Ok (), fs(path \<mapsto> (if chunk_index = 0 then decoded else the (fs path) @ decoded))))"

definition upload_failed :: "string \<Rightarrow> string \<Rightarrow> FileUploadResult option" where
  "upload_failed path err = Some \<lparr> fur_path = path, fur_ok = False, fur_error = err \<rparr>"

text \<open>The device's grants are read fresh, right before the write.\<close>

definition write_file_chunk ::
  "(string \<Rightarrow> (u8 list, string) Result) \<Rightarrow> Device \<Rightarrow> string option \<Rightarrow> UploadSessions \<Rightarrow> Files \<Rightarrow> WriteFileChunk \<Rightarrow> Generation option \<Rightarrow> Io
    \<Rightarrow> FileUploadResult option \<times> UploadSessions \<times> Files" where
  "write_file_chunk decode dev lock sess fs cmd gen io =
     (let path = clip (wfc_path cmd) MAX_FILE_PATH_CHARS; total_chunks = unat (unwrap_or (wfc_total_chunks cmd) 0);
          chunk_index = unat (unwrap_or (wfc_chunk_index cmd) 0) in
      if path = [] \<or> total_chunks = 0 \<or> chunk_index \<ge> total_chunks
      then (upload_failed path ''invalid upload parameters'', sess, fs)
      else case decode (wfc_data cmd) of
        Inl e \<Rightarrow> (upload_failed path (''base64 decode: '' @ e), hm_remove path sess, fs)
      | Inr decoded \<Rightarrow>
          (let sess1 = (if chunk_index = 0
                        then hm_insert path \<lparr> next_expected_chunk = 0, fus_total_chunks = total_chunks, bytes_written = 0, fus_generation = gen \<rparr> sess
                        else sess)
           in case hm_get sess1 path of
                None \<Rightarrow> (upload_failed path ''missing upload session; send chunk 0 first'', sess1, fs)
              | Some s \<Rightarrow>
                  if \<not> (next_expected_chunk s = chunk_index \<and> fus_total_chunks s = total_chunks \<and> fus_generation s = gen)
                  then (upload_failed path ''upload chunk out of sequence or total mismatch'', hm_remove path sess1, fs)
                  else if \<not> is_some_and gen (valid_fresh dev lock)
                  then (upload_failed path ''stale file generation'', hm_remove path sess1, fs)
                  else
                    (case write_chunk fs path chunk_index decoded io of
                       (Inl e, fs') \<Rightarrow> (upload_failed path e, hm_remove path sess1, fs')
                     | (Inr _, fs') \<Rightarrow>
                         if chunk_index + 1 = total_chunks
                         then (Some \<lparr> fur_path = path, fur_ok = True, fur_error = [] \<rparr>, hm_remove path sess1, fs')
                         else
                           (None, hm_modify path (\<lambda>s. s\<lparr>bytes_written := min (bytes_written s + length decoded) (2 ^ 64 - 1),
                                    next_expected_chunk := chunk_index + 1\<rparr>) sess1, fs'))))"

section \<open>Downloads\<close>

definition REMOTE_FILE_CHUNK_BYTES :: nat where "REMOTE_FILE_CHUNK_BYTES = 3 * 1024 * 1024"

record FileChunk =
  fch_path :: string
  fch_data :: string
  fch_index :: nat
  fch_total_chunks :: nat
  fch_is_error :: bool

definition div_ceil :: "nat \<Rightarrow> nat \<Rightarrow> nat" where
  "div_ceil a b = a div b + (if a mod b = 0 then 0 else 1)"

text \<open>The answers of \<open>f.read(&mut buf)\<close>: bytes (none at the end of the file), or an error.\<close>

type_synonym Reads = "(u8 list, string) Result list"

fun read_loop :: "(u8 list \<Rightarrow> string) \<Rightarrow> string \<Rightarrow> nat \<Rightarrow> nat \<Rightarrow> Reads \<Rightarrow> FileChunk list" where
  "read_loop encode path total_chunks idx [] = []"
| "read_loop encode path total_chunks idx (r # rs) =
     (case r of
        Inl e \<Rightarrow> [\<lparr> fch_path = path, fch_data = e, fch_index = idx, fch_total_chunks = total_chunks, fch_is_error = True \<rparr>]
      | Inr b \<Rightarrow>
          if b = [] then []
          else \<lparr> fch_path = path, fch_data = encode b, fch_index = idx, fch_total_chunks = total_chunks, fch_is_error = False \<rparr>
               # read_loop encode path total_chunks (idx + 1) rs)"

text \<open>\<open>meta\<close> is the file's length, or the error of \<open>metadata\<close>; \<open>open_err\<close> the error of \<open>open\<close>.\<close>

definition read_file ::
  "(u8 list \<Rightarrow> string) \<Rightarrow> string \<Rightarrow> (nat, string) Result \<Rightarrow> string option \<Rightarrow> Reads \<Rightarrow> FileChunk list" where
  "read_file encode cmd_path meta open_err reads =
     (let path = clip cmd_path MAX_FILE_PATH_CHARS;
          failed = (\<lambda>e. [\<lparr> fch_path = path, fch_data = e, fch_index = 0, fch_total_chunks = 1, fch_is_error = True \<rparr>])
      in case meta of
           Inl e \<Rightarrow> failed e
         | Inr file_len \<Rightarrow>
             (case open_err of
                Some e \<Rightarrow> failed e
              | None \<Rightarrow>
                  if file_len = 0
                  then [\<lparr> fch_path = path, fch_data = [], fch_index = 0, fch_total_chunks = 1, fch_is_error = False \<rparr>]
                  else read_loop encode path (div_ceil file_len REMOTE_FILE_CHUNK_BYTES) 0 reads))"


section \<open>An upload arrives whole\<close>

record UploadEvent =
  ue_cmd :: WriteFileChunk
  ue_generation :: "Generation option"
  ue_device :: Device
  ue_lock :: "string option"
  ue_io :: Io

definition upload_path :: "UploadEvent \<Rightarrow> string" where
  "upload_path e = clip (wfc_path (ue_cmd e)) MAX_FILE_PATH_CHARS"

fun run_uploads ::
  "(string \<Rightarrow> (u8 list, string) Result) \<Rightarrow> UploadEvent list \<Rightarrow> UploadSessions \<Rightarrow> Files \<Rightarrow> FileUploadResult list \<times> UploadSessions \<times> Files" where
  "run_uploads decode [] sess fs = ([], sess, fs)"
| "run_uploads decode (e # es) sess fs =
     (let (r, sess1, fs1) = write_file_chunk decode (ue_device e) (ue_lock e) sess fs (ue_cmd e) (ue_generation e) (ue_io e);
          (rs, sess2, fs2) = run_uploads decode es sess1 fs1
      in ((case r of None \<Rightarrow> [] | Some x \<Rightarrow> [x]) @ rs, sess2, fs2))"

text \<open>Chunk \<open>i\<close> of an upload of \<open>n\<close> chunks to \<open>p\<close>: its bytes, sent under a generation that is still granted, and
  written without a fault.\<close>

definition chunk_of ::
  "(string \<Rightarrow> (u8 list, string) Result) \<Rightarrow> string \<Rightarrow> Generation \<Rightarrow> nat \<Rightarrow> nat \<Rightarrow> u8 list \<Rightarrow> UploadEvent \<Rightarrow> bool" where
  "chunk_of decode p g n i bytes e \<longleftrightarrow> upload_path e = p
     \<and> map_option unat (wfc_total_chunks (ue_cmd e)) = Some n \<and> map_option unat (wfc_chunk_index (ue_cmd e)) = Some i
     \<and> decode (wfc_data (ue_cmd e)) = Ok bytes \<and> ue_generation e = Some g \<and> valid_fresh (ue_device e) (ue_lock e) g
     \<and> write_fault (ue_io e) = None"

text \<open>The upload has got as far as chunk \<open>i\<close>.\<close>

definition upload_at :: "string \<Rightarrow> Generation \<Rightarrow> u8 list list \<Rightarrow> nat \<Rightarrow> UploadSessions \<Rightarrow> Files \<Rightarrow> bool" where
  "upload_at p g cs i sess fs \<longleftrightarrow> i = 0 \<or>
     (\<exists>s. hm_get sess p = Some s \<and> next_expected_chunk s = i \<and> fus_total_chunks s = length cs \<and> fus_generation s = Some g
        \<and> fs p = Some (concat (take i cs)))"

lemma write_chunk_other: "p \<noteq> q \<Longrightarrow> snd (write_chunk fs q i b io) p = fs p"
  by (auto simp: write_chunk_def split: option.split)

lemma other_upload:
  assumes "write_file_chunk decode dev lock sess fs cmd gen io = (r, sess', fs')" "clip (wfc_path cmd) MAX_FILE_PATH_CHARS \<noteq> p"
  shows "hm_get sess' p = hm_get sess p" "fs' p = fs p" "\<And>x. r = Some x \<Longrightarrow> fur_path x = clip (wfc_path cmd) MAX_FILE_PATH_CHARS"
  using assms write_chunk_other [of p "clip (wfc_path cmd) MAX_FILE_PATH_CHARS" fs]
  by (auto simp: write_file_chunk_def upload_failed_def Let_def split: if_splits sum.splits option.splits prod.splits)
    (metis snd_conv)+


lemma write_chunk_next:
  assumes "write_fault io = None" "i = 0 \<or> fs p = Some (concat (take i cs))" "i < length cs"
  shows "write_chunk fs p i (cs ! i) io = (Ok (), fs(p \<mapsto> concat (take (Suc i) cs)))"
  using assms by (auto simp: write_chunk_def take_Suc_conv_app_nth)

lemma own_chunk:
  assumes e: "chunk_of decode p g (length cs) i (cs ! i) e" and p: "p \<noteq> []" "i < length cs" and at: "upload_at p g cs i sess fs"
    and run: "write_file_chunk decode (ue_device e) (ue_lock e) sess fs (ue_cmd e) (ue_generation e) (ue_io e) = (r, sess', fs')"
  shows "fs' p = Some (concat (take (Suc i) cs))"
    and "Suc i < length cs \<Longrightarrow> r = None \<and> upload_at p g cs (Suc i) sess' fs'"
    and "Suc i = length cs \<Longrightarrow> r = Some \<lparr> fur_path = p, fur_ok = True, fur_error = [] \<rparr> \<and> hm_get sess' p = None"
proof -
  have c: "clip (wfc_path (ue_cmd e)) MAX_FILE_PATH_CHARS = p" "unat (unwrap_or (wfc_total_chunks (ue_cmd e)) 0) = length cs"
    "unat (unwrap_or (wfc_chunk_index (ue_cmd e)) 0) = i" "decode (wfc_data (ue_cmd e)) = Ok (cs ! i)" "ue_generation e = Some g"
    "valid_fresh (ue_device e) (ue_lock e) g"
    using e by (auto simp: chunk_of_def upload_path_def)
  let ?new = "\<lparr> next_expected_chunk = 0, fus_total_chunks = length cs, bytes_written = 0, fus_generation = Some g \<rparr>"
  let ?s1 = "if i = 0 then hm_insert p ?new sess else sess"
  obtain s where s: "hm_get ?s1 p = Some s" "next_expected_chunk s = i" "fus_total_chunks s = length cs" "fus_generation s = Some g"
    using at by (cases "i = 0") (auto simp: upload_at_def)
  have f: "i = 0 \<or> fs p = Some (concat (take i cs))" using at by (auto simp: upload_at_def)
  have w: "write_chunk fs p i (cs ! i) (ue_io e) = (Ok (), fs(p \<mapsto> concat (take (Suc i) cs)))"
    using write_chunk_next [of "ue_io e" i fs p cs] f p(2) e by (simp add: chunk_of_def)
  have "cs \<noteq> []" using p(2) by auto
  have "(r, sess', fs') = (if Suc i = length cs then (Some \<lparr> fur_path = p, fur_ok = True, fur_error = [] \<rparr>, hm_remove p ?s1, fs(p \<mapsto> concat (take (Suc i) cs)))
     else (None, hm_modify p (\<lambda>s. s\<lparr>bytes_written := min (bytes_written s + length (cs ! i)) (2 ^ 64 - 1), next_expected_chunk := i + 1\<rparr>) ?s1,
       fs(p \<mapsto> concat (take (Suc i) cs))))"
    unfolding run [symmetric] write_file_chunk_def Let_def c using s w p \<open>cs \<noteq> []\<close> c(6) by simp
  then show "fs' p = Some (concat (take (Suc i) cs))"
    and "Suc i < length cs \<Longrightarrow> r = None \<and> upload_at p g cs (Suc i) sess' fs'"
    and "Suc i = length cs \<Longrightarrow> r = Some \<lparr> fur_path = p, fur_ok = True, fur_error = [] \<rparr> \<and> hm_get sess' p = None"
    using s by (auto simp: upload_at_def split: if_splits)
qed

lemma run_other:
  assumes "\<forall>e \<in> set es. upload_path e \<noteq> p" "run_uploads decode es sess fs = (rs, sess', fs')"
  shows "hm_get sess' p = hm_get sess p \<and> fs' p = fs p \<and> (\<forall>x \<in> set rs. fur_path x \<noteq> p)"
  using assms
proof (induction es arbitrary: sess fs rs)
  case (Cons e es)
  obtain r sess1 fs1 where w: "write_file_chunk decode (ue_device e) (ue_lock e) sess fs (ue_cmd e) (ue_generation e) (ue_io e) = (r, sess1, fs1)"
    by (metis prod_cases3)
  obtain rs1 where rs1: "run_uploads decode es sess1 fs1 = (rs1, sess', fs')" "rs = (case r of None \<Rightarrow> [] | Some x \<Rightarrow> [x]) @ rs1"
    using Cons.prems(2) w by (auto simp: Let_def split: prod.splits)
  have "upload_path e \<noteq> p" using Cons.prems(1) by simp
  with Cons.IH [OF _ rs1(1)] Cons.prems(1) other_upload [OF w, of p] rs1(2) show ?case by (auto simp: upload_path_def split: option.splits)
qed simp

lemma run_upload:
  assumes "filter (\<lambda>e. upload_path e = p) evs = own" "i + length own = length cs" "i < length cs" "p \<noteq> []"
    "\<forall>j < length own. chunk_of decode p g (length cs) (i + j) (cs ! (i + j)) (own ! j)"
    "upload_at p g cs i sess fs" "run_uploads decode evs sess fs = (rs, sess', fs')"
  shows "fs' p = Some (concat cs) \<and> hm_get sess' p = None
    \<and> filter (\<lambda>r. fur_path r = p) rs = [\<lparr> fur_path = p, fur_ok = True, fur_error = [] \<rparr>]"
  using assms
proof (induction evs arbitrary: own i sess fs rs)
  case Nil
  then show ?case by simp
next
  case (Cons e es)
  obtain r sess1 fs1 where w: "write_file_chunk decode (ue_device e) (ue_lock e) sess fs (ue_cmd e) (ue_generation e) (ue_io e) = (r, sess1, fs1)"
    by (metis prod_cases3)
  obtain rs1 where rs1: "run_uploads decode es sess1 fs1 = (rs1, sess', fs')" "rs = (case r of None \<Rightarrow> [] | Some x \<Rightarrow> [x]) @ rs1"
    using Cons.prems(7) w by (auto simp: Let_def split: prod.splits)
  show ?case
  proof (cases "upload_path e = p")
    case False
    note o = other_upload [OF w, of p]
    have "upload_at p g cs i sess1 fs1" using Cons.prems(6) o(1,2) False by (simp add: upload_at_def upload_path_def)
    moreover have "filter (\<lambda>e. upload_path e = p) es = own" using Cons.prems(1) False by simp
    ultimately have "fs' p = Some (concat cs) \<and> hm_get sess' p = None \<and> filter (\<lambda>r. fur_path r = p) rs1 = [\<lparr> fur_path = p, fur_ok = True, fur_error = [] \<rparr>]"
      using Cons.IH [OF _ Cons.prems(2-5) _ rs1(1)] by blast
    with o(3) False rs1(2) show ?thesis by (auto simp: upload_path_def split: option.splits)
  next
    case True
    then obtain own' where own: "own = e # own'" "filter (\<lambda>e. upload_path e = p) es = own'" using Cons.prems(1) by auto
    have e: "chunk_of decode p g (length cs) i (cs ! i) e" using Cons.prems(5) own(1) by fastforce
    note c = own_chunk [OF e Cons.prems(4,3,6) w]
    show ?thesis
    proof (cases "Suc i = length cs")
      case True
      then have "own' = []" using Cons.prems(2) own(1) by (cases own') auto
      then have "\<forall>e \<in> set es. upload_path e \<noteq> p" using own(2) by (simp add: filter_empty_conv)
      from run_other [OF this rs1(1)] c(1) c(3) [OF True] rs1(2) True show ?thesis by (simp add: filter_False)
    next
      case False
      then have i: "Suc i < length cs" using Cons.prems(3) by simp
      have "\<forall>j < length own'. chunk_of decode p g (length cs) (Suc i + j) (cs ! (Suc i + j)) (own' ! j)"
        using Cons.prems(5) own(1) by (metis Suc_less_eq add_Suc_shift length_Cons nth_Cons_Suc)
      with Cons.IH [OF own(2) _ i Cons.prems(4) _ _ rs1(1)] c(2) [OF i] Cons.prems(2) own(1) rs1(2) show ?thesis by simp
    qed
  qed
qed


text \<open>
  C37. An upload that is sent arrives: if the chunks of a file are sent in order to one destination, each under a grant
  that is still current, then whatever chunks of other uploads come in between, in whatever order and however they
  fail, the destination ends up with exactly the file's bytes, the only answer about it is one success, and no upload
  session is left behind. What was in the file before, and an abandoned upload to the same place, do not matter.
\<close>

theorem upload_arrives_whole:
  assumes "filter (\<lambda>e. upload_path e = p) evs = own" and "length own = length cs" and "cs \<noteq> []" and "p \<noteq> []"
    and "\<forall>i < length cs. chunk_of decode p g (length cs) i (cs ! i) (own ! i)"
    and "run_uploads decode evs sess fs = (rs, sess', fs')"
  shows "fs' p = Some (concat cs) \<and> hm_get sess' p = None
    \<and> filter (\<lambda>r. fur_path r = p) rs = [\<lparr> fur_path = p, fur_ok = True, fur_error = [] \<rparr>]"
  using run_upload [OF assms(1), of 0 cs decode g sess fs rs sess' fs'] assms by (simp add: upload_at_def)


definition files_device :: Device where
  "files_device = \<lparr> store_file = Stored \<lparr> st_revision = 1, st_modules = [(Files, \<lparr> g_enabled = True, g_revision = 1 \<rparr>)], st_receipts = [] \<rparr>,
     CACHE = None, WORKERS = [] \<rparr>"

definition files_chunk :: "string \<Rightarrow> u64 \<Rightarrow> u64 \<Rightarrow> string \<Rightarrow> UploadEvent" where
  "files_chunk p n i b64 = \<lparr> ue_cmd = \<lparr> wfc_path = p, wfc_total_chunks = Some n, wfc_chunk_index = Some i, wfc_data = b64 \<rparr>,
     ue_generation = Some \<lparr> gen_module = Files, gen_revision = 1 \<rparr>, ue_device = files_device, ue_lock = None,
     ue_io = \<lparr> write_fault = None, missing = ''missing'' \<rparr> \<rparr>"

lemma clip_slash: "clip ''/f'' MAX_FILE_PATH_CHARS = ''/f''" "clip ''/g'' MAX_FILE_PATH_CHARS = ''/g''"
proof -
  have "trim ''/f'' = ''/f''" "trim ''/g'' = ''/g''" by (auto intro!: trim_visible simp: visible_def)
  then show "clip ''/f'' MAX_FILE_PATH_CHARS = ''/f''" "clip ''/g'' MAX_FILE_PATH_CHARS = ''/g''"
    by (auto simp: clip_def MAX_FILE_PATH_CHARS_def chars_count_def intro!: take_chars_id)
qed

theorem upload_arrives_whole_witness:
  "(case run_uploads (\<lambda>s. if s = ''AQ=='' then Ok [1] else Err ''invalid'')
       [files_chunk ''/f'' 2 0 ''AQ=='', files_chunk ''/g'' 5 3 ''AQ=='', files_chunk ''/f'' 2 1 ''AQ==''] [] Map.empty of
      (rs, sess, fs) \<Rightarrow> fs ''/f'' = Some [1, 1] \<and> fs ''/g'' = None)"
proof -
  let ?d = "\<lambda>s. if s = ''AQ=='' then Ok [1] else Err ''invalid''"
  let ?evs = "[files_chunk ''/f'' 2 0 ''AQ=='', files_chunk ''/g'' 5 3 ''AQ=='', files_chunk ''/f'' 2 1 ''AQ==''] :: UploadEvent list"
  let ?g = "\<lparr> gen_module = Files, gen_revision = 1 \<rparr>"
  have v: "valid_fresh files_device None ?g"
    by (simp add: valid_fresh_def files_device_def load_store_def transaction_at_def generation_matches_def generation_from_state_def)
  obtain rs sess fs where run: "run_uploads ?d ?evs [] Map.empty = (rs, sess, fs)" by (metis prod_cases3)
  have "chunk_of ?d ''/f'' ?g 2 i [1] (files_chunk ''/f'' 2 (of_nat i) ''AQ=='')" if "i < 2" for i
    using that v by (auto simp: chunk_of_def upload_path_def files_chunk_def clip_slash less_2_cases_iff)
  from this [of 0] this [of 1] have own: "\<forall>i < length [[1], [1]]. chunk_of ?d ''/f'' ?g (length [[1], [1]]) i ([[1], [1]] ! i)
      ([files_chunk ''/f'' 2 0 ''AQ=='', files_chunk ''/f'' 2 1 ''AQ==''] ! i)"
    by (auto simp: less_Suc_eq numeral_2_eq_2)
  have path: "upload_path (files_chunk p t i b) = clip p MAX_FILE_PATH_CHARS" for p t i b by (simp add: upload_path_def files_chunk_def)
  have "fs ''/f'' = Some (concat [[1], [1]])"
    using upload_arrives_whole [OF _ _ _ _ own run] by (simp add: path clip_slash)
  moreover have "fs ''/g'' = None"
    using run by (simp add: write_file_chunk_def files_chunk_def clip_slash Let_def upload_failed_def v write_chunk_def split: prod.splits) auto
  ultimately show ?thesis using run by simp
qed


section \<open>What a download sends\<close>

lemma read_loop_parts:
  assumes "\<forall>b \<in> set parts. b \<noteq> []"
  shows "map fch_data (read_loop encode path n k (map Ok parts @ [Ok []])) = map encode parts"
    and "map fch_index (read_loop encode path n k (map Ok parts @ [Ok []])) = [k..<k + length parts]"
    and "\<forall>c \<in> set (read_loop encode path n k (map Ok parts @ [Ok []])). \<not> fch_is_error c \<and> fch_total_chunks c = n"
  using assms by (induction parts arbitrary: k) (auto simp: upt_conv_Cons simp del: upt_Suc)

lemma div_ceil_le: "0 < b \<Longrightarrow> a \<le> b * n \<Longrightarrow> div_ceil a b \<le> n"
proof -
  assume b: "0 < b" and le: "a \<le> b * n"
  have "a div b \<le> n" using le b by (metis div_le_mono nonzero_mult_div_cancel_left less_not_refl2)
  moreover have "a div b < n" if "a mod b \<noteq> 0"
  proof (rule ccontr)
    assume "\<not> a div b < n"
    then have "b * n \<le> b * (a div b)" by simp
    also have "\<dots> < a" using that mult_div_mod_eq [of b a] by linarith
    finally show False using le by simp
  qed
  ultimately show ?thesis by (auto simp: div_ceil_def Suc_le_eq)
qed

lemma length_concat_le: "(\<And>b. b \<in> set parts \<Longrightarrow> length b \<le> m) \<Longrightarrow> length (concat parts) \<le> m * length parts"
  by (induction parts) (auto simp: add_mono)

lemma concat_take_all: "(\<And>b. b \<in> set parts \<Longrightarrow> b \<noteq> []) \<Longrightarrow> concat (take n parts) = concat parts \<longleftrightarrow> length parts \<le> n"
proof -
  assume ne: "\<And>b. b \<in> set parts \<Longrightarrow> b \<noteq> []"
  have "concat parts = concat (take n parts) @ concat (drop n parts)" by (metis append_take_drop_id concat_append)
  then have "concat (take n parts) = concat parts \<longleftrightarrow> concat (drop n parts) = []" by simp
  also have "\<dots> \<longleftrightarrow> drop n parts = []"
  proof (cases "drop n parts")
    case (Cons b bs)
    then have "b \<in> set parts" by (metis in_set_dropD list.set_intros(1))
    with ne Cons show ?thesis by auto
  qed simp
  finally show ?thesis by simp
qed



end
