(* ===== verification/LoginGuard.thy ===== *)
theory LoginGuard
  imports Strings Transitions
begin

text \<open>
  Throttles: the lockout of password guessing (\<open>server/src/auth/lockout.rs\<close>) and the windows of
  \<open>server/src/state/throttles.rs\<close>. The failures of a key are the instants of its recent failed logins.
\<close>

section \<open>Lockout\<close>

definition LOGIN_FAIL_WINDOW :: Duration where "LOGIN_FAIL_WINDOW = from_secs (15 * 60)"
definition MAX_LOGIN_FAILURES_PER_WINDOW :: nat where "MAX_LOGIN_FAILURES_PER_WINDOW = 10"

type_synonym FailureMap = "(string, Instant list) HashMap"

definition fresh_failures :: "Instant \<Rightarrow> Instant list \<Rightarrow> Instant list" where
  "fresh_failures now v = filter (\<lambda>t. duration_since now t < LOGIN_FAIL_WINDOW) v"

definition retry_secs :: "Instant \<Rightarrow> Instant list \<Rightarrow> nat" where
  "retry_secs now v = max (as_secs (LOGIN_FAIL_WINDOW - duration_since now (Min (set v)))) 1"

definition lockout_retry_after :: "FailureMap \<Rightarrow> string \<Rightarrow> Instant \<Rightarrow> nat option \<times> FailureMap" where
  "lockout_retry_after m key now =
     (case hm_get m key of
        None \<Rightarrow> (None, m)
      | Some v0 \<Rightarrow>
          (let v = fresh_failures now v0 in
           if v = [] then (None, hm_remove key m)
           else (if length v \<ge> MAX_LOGIN_FAILURES_PER_WINDOW then Some (retry_secs now v) else None, hm_insert key v m)))"

definition lockout_record :: "FailureMap \<Rightarrow> string \<Rightarrow> Instant \<Rightarrow> (nat, nat) Result \<times> FailureMap" where
  "lockout_record m key now =
     (let v = fresh_failures now (unwrap_or (hm_get m key) []) @ [now] in
      (if length v \<ge> MAX_LOGIN_FAILURES_PER_WINDOW then Err (retry_secs now v) else Ok (MAX_LOGIN_FAILURES_PER_WINDOW - length v),
       hm_insert key v m))"

definition clear_login_failures :: "FailureMap \<Rightarrow> string \<Rightarrow> FailureMap" where
  "clear_login_failures m key = hm_remove key m"

text \<open>\<open>lower\<close> is \<open>str::to_lowercase\<close>, whose tables are Unicode's.\<close>

definition login_username_key :: "(string \<Rightarrow> string) \<Rightarrow> string \<Rightarrow> string" where
  "login_username_key lower name = ''user:'' @ lower (trim name)"

text \<open>Each of the two buckets is looked at with its own clock reading.\<close>

definition login_locked_retry_after :: "FailureMap \<Rightarrow> string \<Rightarrow> string \<Rightarrow> Instant \<Rightarrow> Instant \<Rightarrow> nat option \<times> FailureMap" where
  "login_locked_retry_after m ip_key user_key t1 t2 =
     (let (ip, m1) = lockout_retry_after m ip_key t1; (user, m2) = lockout_retry_after m1 user_key t2 in
      (case (ip, user) of
         (Some a, Some b) \<Rightarrow> Some (max a b)
       | (Some a, None) \<Rightarrow> Some a
       | (None, r) \<Rightarrow> r, m2))"

definition record_login_failure_both :: "FailureMap \<Rightarrow> string \<Rightarrow> string \<Rightarrow> Instant \<Rightarrow> Instant \<Rightarrow> (nat, nat) Result \<times> FailureMap" where
  "record_login_failure_both m ip_key user_key t1 t2 =
     (let (ip, m1) = lockout_record m ip_key t1; (user, m2) = lockout_record m1 user_key t2 in
      (case (ip, user) of
         (Inl a, Inl b) \<Rightarrow> Err (max a b)
       | (Inl a, _) \<Rightarrow> Err a
       | (_, Inl b) \<Rightarrow> Err b
       | (Inr a, Inr b) \<Rightarrow> Ok (min a b), m2))"

definition clear_login_failures_both :: "FailureMap \<Rightarrow> string \<Rightarrow> string \<Rightarrow> FailureMap" where
  "clear_login_failures_both m ip_key user_key = clear_login_failures (clear_login_failures m ip_key) user_key"

section \<open>Audit rows of Recall and Wake-on-LAN\<close>

definition RECALL_AUDIT_WINDOW :: Duration where "RECALL_AUDIT_WINDOW = from_secs (10 * 60)"
definition RECALL_AUDIT_MAX_TRACKED :: nat where "RECALL_AUDIT_MAX_TRACKED = 4096"

type_synonym RecallAuditKey = "Uuid \<times> Uuid \<times> string"

definition recall_audit_decision :: "(RecallAuditKey, Instant) HashMap \<Rightarrow> RecallAuditKey \<Rightarrow> Instant \<Rightarrow> bool \<times> (RecallAuditKey, Instant) HashMap" where
  "recall_audit_decision seen key now =
     (let live = (\<lambda>at. duration_since now at < RECALL_AUDIT_WINDOW);
          seen1 = (if length seen \<ge> RECALL_AUDIT_MAX_TRACKED then hm_retain (\<lambda>_ at. live at) seen else seen);
          seen2 = (if length seen \<ge> RECALL_AUDIT_MAX_TRACKED \<and> length seen1 \<ge> RECALL_AUDIT_MAX_TRACKED then [] else seen1)
      in if is_some_and (hm_get seen2 key) live then (False, seen2) else (True, hm_insert key now seen2))"

definition wol_throttle_check :: "(Uuid, Instant) HashMap \<Rightarrow> Uuid \<Rightarrow> Duration \<Rightarrow> Instant \<Rightarrow> (unit, nat) Result" where
  "wol_throttle_check m agent_id min_interval now =
     (if min_interval = 0 then Ok ()
      else case hm_get m agent_id of
        Some at \<Rightarrow>
          (let elapsed = duration_since now at in
           if elapsed < min_interval then Err (max (as_secs (min_interval - elapsed)) 1) else Ok ())
      | None \<Rightarrow> Ok ())"

definition wol_mark_sent :: "(Uuid, Instant) HashMap \<Rightarrow> Uuid \<Rightarrow> Duration \<Rightarrow> Instant \<Rightarrow> (Uuid, Instant) HashMap" where
  "wol_mark_sent m agent_id min_interval now = (if min_interval = 0 then m else hm_insert agent_id now m)"

section \<open>What the lockout does to a bucket\<close>

definition failures :: "FailureMap \<Rightarrow> string \<Rightarrow> Instant \<Rightarrow> nat" where
  "failures m key now = length (fresh_failures now (unwrap_or (hm_get m key) []))"

lemma fresh_failures_idem: "t \<le> t' \<Longrightarrow> fresh_failures t' (fresh_failures t v) = fresh_failures t' v"
proof -
  have "duration_since t x \<le> duration_since t' x" if "t \<le> t'" for x using that by (simp add: duration_since_def diff_le_mono)
  then show "t \<le> t' \<Longrightarrow> ?thesis" unfolding fresh_failures_def filter_filter by (intro filter_cong) (auto intro: le_less_trans)
qed

lemma failures_mono: "t \<le> t' \<Longrightarrow> failures m key t' \<le> failures m key t"
proof -
  have "length (fresh_failures t' v) \<le> length v" for v by (simp add: fresh_failures_def)
  from this [of "fresh_failures t (unwrap_or (hm_get m key) [])"] show "t \<le> t' \<Longrightarrow> ?thesis"
    by (simp add: failures_def fresh_failures_idem)
qed

lemma failures_retry:
  assumes "hm_wf m" "t \<le> t'"
  shows "failures (snd (lockout_retry_after m key t)) k t' = failures m k t'"
proof (cases "hm_get m key")
  case None
  then show ?thesis by (simp add: lockout_retry_after_def)
next
  case (Some v)
  have "fresh_failures t v = [] \<Longrightarrow> fresh_failures t' v = []" using fresh_failures_idem [OF assms(2), of v] by (simp add: fresh_failures_def)
  with Some assms show ?thesis
    by (auto simp: lockout_retry_after_def failures_def Let_def fresh_failures_idem fresh_failures_def [of _ "[]"])
qed

lemma locked_iff: "fst (lockout_retry_after m key now) = None \<longleftrightarrow> failures m key now < MAX_LOGIN_FAILURES_PER_WINDOW"
  by (cases "hm_get m key") (auto simp: lockout_retry_after_def failures_def Let_def fresh_failures_def MAX_LOGIN_FAILURES_PER_WINDOW_def)

lemma failures_record:
  assumes "hm_wf m" "t \<le> t'"
  shows "failures (snd (lockout_record m key t)) k t' \<le> failures m k t' + (if k = key then 1 else 0)"
    "failures (snd (lockout_record m key t)) key t = Suc (failures m key t)"
proof -
  let ?v = "unwrap_or (hm_get m key) []"
  have app: "fresh_failures u (fresh_failures t ?v @ [t]) = fresh_failures u (fresh_failures t ?v) @ fresh_failures u [t]" for u
    by (simp add: fresh_failures_def)
  have "length (fresh_failures t' [t]) \<le> 1" by (simp add: fresh_failures_def)
  then show "failures (snd (lockout_record m key t)) k t' \<le> failures m k t' + (if k = key then 1 else 0)"
    using assms by (auto simp: lockout_record_def failures_def Let_def app fresh_failures_idem)
  have "fresh_failures t [t] = [t]" by (simp add: fresh_failures_def duration_since_def LOGIN_FAIL_WINDOW_def from_secs_def)
  then show "failures (snd (lockout_record m key t)) key t = Suc (failures m key t)"
    by (simp add: lockout_record_def failures_def Let_def app fresh_failures_idem)
qed

lemma lockout_wf [intro, inv_intros]:
  "hm_wf m \<Longrightarrow> hm_wf (snd (lockout_retry_after m key t))" "hm_wf m \<Longrightarrow> hm_wf (snd (lockout_record m key t))"
  by (auto simp: lockout_retry_after_def lockout_record_def Let_def split: option.split)

lemma failures_clear: "hm_wf m \<Longrightarrow> failures (clear_login_failures m key) k t = (if k = key then 0 else failures m k t)"
  by (simp add: failures_def clear_login_failures_def fresh_failures_def)

section \<open>Guessing passwords\<close>

text \<open>Logins in flight at the same time: a request is admitted when neither of its buckets is locked, and later fails
  (which is recorded in both buckets), succeeds (which clears both), or ends without a verdict. At most \<open>k\<close> requests are
  in flight; the two buckets of a request are different, since only a user's key starts with \<open>user:\<close>. The buckets are
  locked one after the other in the code, but operations on different keys commute.\<close>

record Guard =
  guard_map :: FailureMap
  inflight :: "(string \<times> string) list"
  clock :: Instant

inductive guard_step :: "nat \<Rightarrow> Guard \<Rightarrow> unit \<Rightarrow> Guard \<Rightarrow> bool" for k where
  admitted: "clock s \<le> t1 \<Longrightarrow> t1 \<le> t2 \<Longrightarrow> login_locked_retry_after (guard_map s) ip user t1 t2 = (None, m) \<Longrightarrow>
    length (inflight s) < k \<Longrightarrow> ip \<noteq> user \<Longrightarrow>
    guard_step k s () (s\<lparr>guard_map := m, inflight := (ip, user) # inflight s, clock := t2\<rparr>)"
| refused: "clock s \<le> t1 \<Longrightarrow> t1 \<le> t2 \<Longrightarrow> login_locked_retry_after (guard_map s) ip user t1 t2 = (Some retry, m) \<Longrightarrow>
    guard_step k s () (s\<lparr>guard_map := m, clock := t2\<rparr>)"
| failed: "clock s \<le> t1 \<Longrightarrow> t1 \<le> t2 \<Longrightarrow> (ip, user) \<in> set (inflight s) \<Longrightarrow> ip \<noteq> user \<Longrightarrow>
    record_login_failure_both (guard_map s) ip user t1 t2 = (r, m) \<Longrightarrow>
    guard_step k s () (s\<lparr>guard_map := m, inflight := remove1 (ip, user) (inflight s), clock := t2\<rparr>)"
| succeeded: "(ip, user) \<in> set (inflight s) \<Longrightarrow>
    guard_step k s () (s\<lparr>guard_map := clear_login_failures_both (guard_map s) ip user, inflight := remove1 (ip, user) (inflight s)\<rparr>)"
| dropped: "guard_step k s () (s\<lparr>inflight := remove1 rq (inflight s)\<rparr>)"

definition running :: "(string \<times> string) list \<Rightarrow> string \<Rightarrow> nat" where
  "running rqs key = length (filter (\<lambda>(ip, user). ip = key \<or> user = key) rqs)"

lemma running_simps:
  "running ((ip, user) # rqs) key = (if ip = key \<or> user = key then 1 else 0) + running rqs key"
  "running rqs key \<le> length rqs" "running (remove1 rq rqs) key \<le> running rqs key"
  "(ip, user) \<in> set rqs \<Longrightarrow> running (remove1 (ip, user) rqs) key + (if ip = key \<or> user = key then 1 else 0) = running rqs key"
proof -
  show "running (remove1 rq rqs) key \<le> running rqs key" unfolding running_def by (induction rqs) auto
  show "(ip, user) \<in> set rqs \<Longrightarrow> running (remove1 (ip, user) rqs) key + (if ip = key \<or> user = key then 1 else 0) = running rqs key"
    unfolding running_def by (induction rqs) auto
qed (simp_all add: running_def)

definition guard_inv :: "nat \<Rightarrow> Guard \<Rightarrow> bool" where
  "guard_inv k s \<longleftrightarrow> hm_wf (guard_map s) \<and> length (inflight s) \<le> k
     \<and> (\<forall>key. failures (guard_map s) key (clock s) + running (inflight s) key \<le> (MAX_LOGIN_FAILURES_PER_WINDOW - 1) + k)"

lemma locked_both:
  assumes "login_locked_retry_after m ip user t1 t2 = (r, m')" "hm_wf m" "t1 \<le> t2"
  shows "hm_wf m'" "\<And>key. failures m' key t2 = failures m key t2"
    "r = None \<Longrightarrow> failures m ip t1 < MAX_LOGIN_FAILURES_PER_WINDOW \<and> failures m user t2 < MAX_LOGIN_FAILURES_PER_WINDOW"
proof -
  let ?m1 = "snd (lockout_retry_after m ip t1)"
  have wf: "hm_wf ?m1" using assms(2) by (rule lockout_wf)
  have m': "m' = snd (lockout_retry_after ?m1 user t2)" using assms(1) by (simp add: login_locked_retry_after_def Let_def case_prod_unfold)
  then show "hm_wf m'" using wf by auto
  show same: "failures m' key t2 = failures m key t2" for key
    by (simp add: m' failures_retry [OF wf order.refl] failures_retry [OF assms(2,3)])
  assume "r = None"
  then have "fst (lockout_retry_after m ip t1) = None" "fst (lockout_retry_after ?m1 user t2) = None"
    using assms(1) by (auto simp: login_locked_retry_after_def Let_def case_prod_unfold split: option.splits)
  then show "failures m ip t1 < MAX_LOGIN_FAILURES_PER_WINDOW \<and> failures m user t2 < MAX_LOGIN_FAILURES_PER_WINDOW"
    by (simp add: locked_iff failures_retry [OF assms(2,3)])
qed

lemma record_both:
  assumes "record_login_failure_both m ip user t1 t2 = (r, m')" "hm_wf m" "t1 \<le> t2" "ip \<noteq> user"
  shows "hm_wf m'" "failures m' key t2 \<le> failures m key t2 + (if ip = key \<or> user = key then 1 else 0)"
proof -
  let ?m1 = "snd (lockout_record m ip t1)"
  have wf: "hm_wf ?m1" using assms(2) by (rule lockout_wf)
  have m': "m' = snd (lockout_record ?m1 user t2)" using assms(1) by (simp add: record_login_failure_both_def Let_def case_prod_unfold)
  then show "hm_wf m'" using wf by auto
  show "failures m' key t2 \<le> failures m key t2 + (if ip = key \<or> user = key then 1 else 0)"
    using failures_record(1) [OF wf order.refl, of user t2 key] failures_record(1) [OF assms(2,3), of ip key] assms(4)
    by (auto simp: m' split: if_splits)
qed

lemma guard_step_inv:
  assumes "guard_step k s l t" "guard_inv k s"
  shows "guard_inv k t"
proof -
  have inv: "hm_wf (guard_map s)" "length (inflight s) \<le> k"
    "\<And>key. failures (guard_map s) key (clock s) + running (inflight s) key \<le> (MAX_LOGIN_FAILURES_PER_WINDOW - 1) + k"
    using assms(2) by (auto simp: guard_inv_def)
  have later: "failures (guard_map s) key t2 + running (inflight s) key \<le> (MAX_LOGIN_FAILURES_PER_WINDOW - 1) + k" if "clock s \<le> t2" for key t2
    using inv(3) [of key] failures_mono [OF that, of "guard_map s" key] by linarith
  show ?thesis
    using assms(1)
  proof cases
    case (admitted t1 t2 ip user m)
    note b = locked_both [OF admitted(5) inv(1) admitted(4)]
    have "failures m key t2 + running ((ip, user) # inflight s) key \<le> (MAX_LOGIN_FAILURES_PER_WINDOW - 1) + k" for key
    proof (cases "ip = key \<or> user = key")
      case True
      then have "failures m key t2 \<le> MAX_LOGIN_FAILURES_PER_WINDOW - 1"
        using b(2,3) failures_mono [OF admitted(4), of "guard_map s" ip] by (auto simp: MAX_LOGIN_FAILURES_PER_WINDOW_def)
      moreover have "running ((ip, user) # inflight s) key \<le> k" using running_simps(2) [of "(ip, user) # inflight s" key] admitted(6) by simp
      ultimately show ?thesis by linarith
    next
      case False
      then show ?thesis using later [of t2 key] admitted(3,4) b(2) by (simp add: running_simps)
    qed
    with b(1) admitted show ?thesis by (simp add: guard_inv_def)
  next
    case (refused t1 t2 ip user retry m)
    note b = locked_both [OF refused(5) inv(1) refused(4)]
    with later refused inv show ?thesis by (simp add: guard_inv_def)
  next
    case (failed t1 t2 ip user r m)
    note b = record_both [OF failed(7) inv(1) failed(4,6)]
    have "failures m key t2 + running (remove1 (ip, user) (inflight s)) key \<le> (MAX_LOGIN_FAILURES_PER_WINDOW - 1) + k" for key
      using b(2) [of key] later [of t2 key] running_simps(4) [OF failed(5), of key] failed(3,4) by (auto split: if_splits)
    with b(1) failed inv show ?thesis by (auto simp: guard_inv_def length_remove1)
  next
    case (succeeded ip user)
    let ?m = "clear_login_failures_both (guard_map s) ip user" and ?q = "remove1 (ip, user) (inflight s)"
    have wf: "hm_wf (clear_login_failures (guard_map s) ip)" using inv(1) by (auto simp: clear_login_failures_def)
    then have "hm_wf ?m" by (auto simp: clear_login_failures_both_def clear_login_failures_def)
    moreover have "failures ?m key (clock s) + running ?q key \<le> (MAX_LOGIN_FAILURES_PER_WINDOW - 1) + k" for key
    proof -
      have "failures ?m key (clock s) \<le> failures (guard_map s) key (clock s)"
        by (simp add: clear_login_failures_both_def failures_clear [OF wf] failures_clear [OF inv(1)])
      with inv(3) [of key] running_simps(3) [of "(ip, user)" "inflight s" key] show ?thesis by linarith
    qed
    moreover have "length ?q \<le> k" using inv(2) by (auto simp: length_remove1)
    ultimately show ?thesis using succeeded(2) by (simp add: guard_inv_def)
  next
    case (dropped rq)
    have "failures (guard_map s) key (clock s) + running (remove1 rq (inflight s)) key \<le> (MAX_LOGIN_FAILURES_PER_WINDOW - 1) + k" for key
      using inv(3) [of key] running_simps(3) [of rq "inflight s" key] by linarith
    with inv(1,2) dropped(2) show ?thesis by (auto simp: guard_inv_def length_remove1)
  qed
qed

definition guard_new :: Guard where
  "guard_new = \<lparr> guard_map = [], inflight = [], clock = 0 \<rparr>"

interpretation guard: safe_system "guard_step k" guard_new "guard_inv k" for k
proof unfold_locales
  show "guard_inv k guard_new" by (simp add: guard_inv_def guard_new_def failures_def fresh_failures_def running_def)
qed (rule guard_step_inv)

text \<open>
  Guessing is bounded: whatever logins are attempted, in whatever order, from any number of addresses and for any
  number of users, no address and no account ever has more failures on record than nine plus the number of requests that
  run at the same time within any fifteen minutes; with one request at a time, that is the limit of ten.
\<close>

theorem login_failures_bounded:
  assumes "reaches (guard_step k) guard_new s" and "clock s \<le> now"
  shows "length (fresh_failures now (unwrap_or (hm_get (guard_map s) key) [])) \<le> 9 + k"
proof -
  have "failures (guard_map s) key (clock s) \<le> 9 + k"
    using guard.inv_reachable [OF assms(1)] by (auto simp: guard_inv_def MAX_LOGIN_FAILURES_PER_WINDOW_def dest!: spec [of _ key])
  with failures_mono [OF assms(2), of "guard_map s" key] show ?thesis by (simp add: failures_def)
qed

lemma guard_example: "\<exists>s. reaches (guard_step 1) guard_new s \<and> clock s \<le> 7 \<and> hm_get (guard_map s) ''user:op'' = Some [5]"
proof -
  let ?s1 = "\<lparr> guard_map = [], inflight = [(''1.1.1.1'', ''user:op'')], clock = 5 \<rparr>"
  have "guard_step 1 guard_new () ?s1"
    using guard_step.admitted [of guard_new 5 5 "''1.1.1.1''" "''user:op''" "[]" 1]
    by (simp add: guard_new_def login_locked_retry_after_def lockout_retry_after_def)
  moreover obtain r m where run: "record_login_failure_both [] ''1.1.1.1'' ''user:op'' 5 5 = (r, m)" by fastforce
  then have "hm_get m ''user:op'' = Some [5]"
    by (auto simp: record_login_failure_both_def lockout_record_def Let_def fresh_failures_def case_prod_unfold)
  moreover have "guard_step 1 ?s1 () (?s1\<lparr>guard_map := m, inflight := remove1 (''1.1.1.1'', ''user:op'') (inflight ?s1), clock := 5\<rparr>)"
    using guard_step.failed [of ?s1 5 5 "''1.1.1.1''" "''user:op''" r m 1] run by simp
  ultimately have "reaches (guard_step 1) guard_new (?s1\<lparr>guard_map := m, inflight := remove1 (''1.1.1.1'', ''user:op'') (inflight ?s1), clock := 5\<rparr>)"
    by (blast intro: reaches.intros)
  with \<open>hm_get m ''user:op'' = Some [5]\<close> show ?thesis by (intro exI conjI) (assumption, simp_all)
qed

theorem login_failures_bounded_witness:
  "\<exists>s. reaches (guard_step 1) guard_new s \<and> hm_get (guard_map s) ''user:op'' = Some [5] \<and> length (fresh_failures 7 [5]) \<le> 10"
proof -
  obtain s where s: "reaches (guard_step 1) guard_new s" "clock s \<le> 7" "hm_get (guard_map s) ''user:op'' = Some [5]" using guard_example by blast
  from login_failures_bounded [OF s(1,2), of "''user:op''"] s show ?thesis by auto
qed

section \<open>Lockouts end\<close>



end
