(* ===== verification/TrustedProxy.thy ===== *)
theory TrustedProxy
  imports LoginGuard
begin

text \<open>
  Which address a request is from (\<open>server/src/http/trusted_proxy.rs\<close>, \<open>client_ip.rs\<close>, \<open>login_client_key\<close> of
  \<open>auth/lockout.rs\<close>): the operator's list of trusted reverse proxies, the forwarding headers, and the key of the login
  lockout. Addresses are read and printed the way \<open>std::net\<close> does. The headers are a map from lower-case names to the
  first value, where \<open>to_str\<close> can read it.
\<close>

unbundle bit_operations_syntax

section \<open>Reading addresses\<close>

datatype IpAddr = V4 "32 word" | V6 "128 word"

definition to_digit :: "nat \<Rightarrow> char \<Rightarrow> nat option" where
  "to_digit radix c =
     (let n = of_char c :: nat;
          d = (if 48 \<le> n \<and> n \<le> 57 then Some (n - 48)
               else if 97 \<le> n \<and> n \<le> 122 then Some (n - 87)
               else if 65 \<le> n \<and> n \<le> 90 then Some (n - 55) else None)
      in option_filter (\<lambda>k. k < radix) d)"

definition digits_value :: "nat \<Rightarrow> string \<Rightarrow> nat" where
  "digits_value radix s = foldl (\<lambda>a c. a * radix + unwrap_or (to_digit radix c) 0) 0 s"

definition leading_digits :: "nat \<Rightarrow> string \<Rightarrow> string" where
  "leading_digits radix s = takeWhile (\<lambda>c. to_digit radix c \<noteq> None) s"

definition read_number :: "nat \<Rightarrow> nat \<Rightarrow> bool \<Rightarrow> nat \<Rightarrow> string \<Rightarrow> (nat \<times> string) option" where
  "read_number radix max_digits zero_prefix limit s =
     (let ds = leading_digits radix s; n = digits_value radix ds in
      if ds = [] \<or> length ds > max_digits then None
      else if \<not> zero_prefix \<and> hd ds = CHR ''0'' \<and> length ds > 1 then None
      else if n > limit then None
      else Some (n, drop (length ds) s))"

definition read_char :: "char \<Rightarrow> string \<Rightarrow> string option" where
  "read_char c s = (case s of [] \<Rightarrow> None | x # xs \<Rightarrow> if x = c then Some xs else None)"

definition after_separator :: "char \<Rightarrow> bool \<Rightarrow> string \<Rightarrow> (string \<Rightarrow> 'a option) \<Rightarrow> 'a option" where
  "after_separator sep first s p = (if first then p s else Option.bind (read_char sep s) p)"

fun read_octets :: "nat \<Rightarrow> bool \<Rightarrow> string \<Rightarrow> (nat list \<times> string) option" where
  "read_octets 0 first s = Some ([], s)"
| "read_octets (Suc n) first s =
     (case after_separator CHR ''.'' first s (read_number 10 3 False 255) of
        None \<Rightarrow> None
      | Some (o1, rest) \<Rightarrow> map_option (\<lambda>(os, r). (o1 # os, r)) (read_octets n False rest))"

definition groups_value :: "nat \<Rightarrow> nat list \<Rightarrow> nat" where
  "groups_value base gs = foldl (\<lambda>a g. a * base + g) 0 gs"

definition read_ipv4_addr :: "string \<Rightarrow> (nat \<times> string) option" where
  "read_ipv4_addr s = map_option (\<lambda>(os, r). (groups_value 256 os, r)) (read_octets 4 True s)"

text \<open>The groups read, whether the last two came from an embedded IPv4 address, and what is left.\<close>

fun read_groups :: "nat \<Rightarrow> bool \<Rightarrow> string \<Rightarrow> nat list \<times> bool \<times> string" where
  "read_groups 0 first s = ([], False, s)"
| "read_groups (Suc n) first s =
     (case (if n > 0 then after_separator CHR '':'' first s read_ipv4_addr else None) of
        Some (v4, rest) \<Rightarrow> ([v4 div 65536, v4 mod 65536], True, rest)
      | None \<Rightarrow>
          (case after_separator CHR '':'' first s (read_number 16 4 True 65535) of
             None \<Rightarrow> ([], False, s)
           | Some (g, rest) \<Rightarrow> (let (gs, b, r) = read_groups n False rest in (g # gs, b, r))))"

definition read_ipv6_addr :: "string \<Rightarrow> (nat \<times> string) option" where
  "read_ipv6_addr s =
     (let (head, head_v4, s1) = read_groups 8 True s in
      if length head = 8 then Some (groups_value 65536 head, s1)
      else if head_v4 then None
      else case Option.bind (read_char CHR '':'' s1) (read_char CHR '':'') of
        None \<Rightarrow> None
      | Some s2 \<Rightarrow>
          (let (tail, _, s3) = read_groups (8 - (length head + 1)) True s2
           in Some (groups_value 65536 (head @ replicate (8 - length head - length tail) 0 @ tail), s3)))"

definition parse_ip :: "string \<Rightarrow> IpAddr option" where
  "parse_ip s =
     (case (case read_ipv4_addr s of
              Some (n, r) \<Rightarrow> Some (V4 (of_nat n), r)
            | None \<Rightarrow> map_option (\<lambda>(n, r). (V6 (of_nat n), r)) (read_ipv6_addr s)) of
        Some (ip, []) \<Rightarrow> Some ip
      | _ \<Rightarrow> None)"

text \<open>\<open>str::parse::<u8>\<close>\<close>

definition parse_u8 :: "string \<Rightarrow> nat option" where
  "parse_u8 s =
     (let ds = (case s of c # cs \<Rightarrow> if c = CHR ''+'' \<and> cs \<noteq> [] then cs else s | [] \<Rightarrow> []) in
      if ds = [] \<or> \<not> list_all (\<lambda>c. to_digit 10 c \<noteq> None) ds \<or> digits_value 10 ds > 255 then None
      else Some (digits_value 10 ds))"

section \<open>Printing addresses\<close>

definition digit_char :: "nat \<Rightarrow> char" where
  "digit_char d = char_of (if d < 10 then 48 + d else 87 + d)"

fun show_digits :: "nat \<Rightarrow> nat \<Rightarrow> nat \<Rightarrow> string" where
  "show_digits radix 0 n = []"
| "show_digits radix (Suc k) n = (if n < radix then [digit_char n] else show_digits radix k (n div radix) @ [digit_char (n mod radix)])"

fun join :: "string \<Rightarrow> string list \<Rightarrow> string" where
  "join sep [] = []"
| "join sep [x] = x"
| "join sep (x # xs) = x @ sep @ join sep xs"

definition octets :: "32 word \<Rightarrow> nat list" where
  "octets a = map (\<lambda>k. unat a div 256 ^ k mod 256) [3, 2, 1, 0]"

definition show_v4 :: "32 word \<Rightarrow> string" where
  "show_v4 a = join ''.'' (map (show_digits 10 3) (octets a))"

definition segments :: "128 word \<Rightarrow> nat list" where
  "segments a = map (\<lambda>k. unat a div 65536 ^ k mod 65536) [7, 6, 5, 4, 3, 2, 1, 0]"

text \<open>The first longest run of zero segments, as its start and length.\<close>

fun longest_zeroes :: "nat list \<Rightarrow> nat \<Rightarrow> nat \<times> nat \<Rightarrow> nat \<times> nat \<Rightarrow> nat \<times> nat" where
  "longest_zeroes [] i cur best = best"
| "longest_zeroes (g # gs) i cur best =
     (if g = 0 then
        (let cur' = (if snd cur = 0 then (i, 1) else (fst cur, Suc (snd cur)))
         in longest_zeroes gs (Suc i) cur' (if snd cur' > snd best then cur' else best))
      else longest_zeroes gs (Suc i) (0, 0) best)"

definition show_v6 :: "128 word \<Rightarrow> string" where
  "show_v6 a =
     (let gs = segments a; hex = (\<lambda>gs. join '':'' (map (show_digits 16 4) gs)); (start, len) = longest_zeroes gs 0 (0, 0) (0, 0) in
      if take 5 gs = [0, 0, 0, 0, 0] \<and> gs ! 5 = 65535 then ''::ffff:'' @ show_v4 (ucast a)
      else if len > 1 then hex (take start gs) @ ''::'' @ hex (drop (start + len) gs)
      else hex gs)"

definition show_ip :: "IpAddr \<Rightarrow> string" where
  "show_ip ip = (case ip of V4 a \<Rightarrow> show_v4 a | V6 a \<Rightarrow> show_v6 a)"

section \<open>Blocks of addresses\<close>

record Cidr =
  base :: IpAddr
  cidr_prefix :: nat

definition max_prefix :: "IpAddr \<Rightarrow> nat" where
  "max_prefix ip = (case ip of V4 _ \<Rightarrow> 32 | V6 _ \<Rightarrow> 128)"

definition split_once :: "char \<Rightarrow> string \<Rightarrow> (string \<times> string) option" where
  "split_once sep s =
     (if sep \<in> set s then Some (takeWhile (\<lambda>c. c \<noteq> sep) s, tl (dropWhile (\<lambda>c. c \<noteq> sep) s)) else None)"

definition Cidr_parse :: "string \<Rightarrow> Cidr option" where
  "Cidr_parse s0 =
     (let s = trim s0 in
      if s = [] then None
      else case split_once CHR ''/'' s of
        Some (addr_s, prefix_s) \<Rightarrow>
          (case parse_ip (trim addr_s) of
             None \<Rightarrow> None
           | Some b \<Rightarrow>
               (case parse_u8 (trim prefix_s) of
                  None \<Rightarrow> None
                | Some p \<Rightarrow> if p > max_prefix b then None else Some \<lparr> base = b, cidr_prefix = p \<rparr>))
      | None \<Rightarrow> map_option (\<lambda>b. \<lparr> base = b, cidr_prefix = max_prefix b \<rparr>) (parse_ip s))"

text \<open>\<open>MAX.checked_shl(n).unwrap_or(0)\<close>\<close>

definition prefix_mask :: "nat \<Rightarrow> 'a::len word" where
  "prefix_mask n = (if n < LENGTH('a) then push_bit n (- 1) else 0)"

definition masked_eq_v4 :: "32 word \<Rightarrow> 32 word \<Rightarrow> nat \<Rightarrow> bool" where
  "masked_eq_v4 a b p \<longleftrightarrow> a AND prefix_mask (32 - p) = b AND prefix_mask (32 - p)"

definition masked_eq_v6 :: "128 word \<Rightarrow> 128 word \<Rightarrow> nat \<Rightarrow> bool" where
  "masked_eq_v6 a b p \<longleftrightarrow> a AND prefix_mask (128 - p) = b AND prefix_mask (128 - p)"

definition cidr_contains :: "Cidr \<Rightarrow> IpAddr \<Rightarrow> bool" where
  "cidr_contains c ip =
     (case (base c, ip) of
        (V4 b, V4 i) \<Rightarrow> masked_eq_v4 b i (cidr_prefix c)
      | (V6 b, V6 i) \<Rightarrow> masked_eq_v6 b i (cidr_prefix c)
      | _ \<Rightarrow> False)"

section \<open>Trusted proxies\<close>

type_synonym TrustedProxies = "Cidr list"
type_synonym Headers = "(string, string) HashMap"

definition list_separator :: "char \<Rightarrow> bool" where
  "list_separator c \<longleftrightarrow> c \<in> set ('', '' @ map char_of [10 :: nat, 9, 13])"

definition parse_list :: "string \<Rightarrow> TrustedProxies \<times> string list" where
  "parse_list s =
     (let parts = filter (\<lambda>p. p \<noteq> []) (map trim (split_at list_separator s))
      in (List.map_filter Cidr_parse parts, filter (\<lambda>p. Cidr_parse p = None) parts))"

definition is_trusted :: "TrustedProxies \<Rightarrow> IpAddr \<Rightarrow> bool" where
  "is_trusted tp ip = list_ex (\<lambda>c. cidr_contains c ip) tp"

text \<open>\<open>find_map\<close>\<close>

fun find_map :: "('a \<Rightarrow> 'b option) \<Rightarrow> 'a list \<Rightarrow> 'b option" where
  "find_map f [] = None"
| "find_map f (x # xs) = (case f x of Some y \<Rightarrow> Some y | None \<Rightarrow> find_map f xs)"

definition forwarded_client_ip :: "Headers \<Rightarrow> IpAddr option" where
  "forwarded_client_ip headers =
     (case Option.bind (hm_get headers ''x-forwarded-for'') (\<lambda>v. find_map (\<lambda>s. parse_ip (trim s)) (split_at (\<lambda>c. c = CHR '','') v)) of
        Some ip \<Rightarrow> Some ip
      | None \<Rightarrow> Option.bind (hm_get headers ''x-real-ip'') (\<lambda>v. parse_ip (trim v)))"

definition client_ip :: "TrustedProxies \<Rightarrow> Headers \<Rightarrow> IpAddr \<Rightarrow> IpAddr" where
  "client_ip tp headers peer =
     (if is_trusted tp peer then unwrap_or (forwarded_client_ip headers) peer else peer)"

definition login_client_key :: "TrustedProxies \<Rightarrow> Headers \<Rightarrow> IpAddr \<Rightarrow> string" where
  "login_client_key tp headers peer = show_ip (client_ip tp headers peer)"

text \<open>\<open>extract\<close> of the rate limiter's key: \<open>peer\<close> is the connection's address, if the request carries one.\<close>

definition rate_limit_key :: "TrustedProxies \<Rightarrow> Headers \<Rightarrow> IpAddr option \<Rightarrow> IpAddr option" where
  "rate_limit_key tp headers peer = map_option (client_ip tp headers) peer"

definition client_ip_for_audit :: "Headers \<Rightarrow> IpAddr option \<Rightarrow> string option" where
  "client_ip_for_audit headers connect =
     (case Option.bind (hm_get headers ''x-forwarded-for'')
             (\<lambda>ff. option_filter (\<lambda>t. t \<noteq> []) (Some (trim (hd (split_at (\<lambda>c. c = CHR '','') ff))))) of
        Some t \<Rightarrow> Some t
      | None \<Rightarrow>
          (case Option.bind (hm_get headers ''x-real-ip'') (\<lambda>x. option_filter (\<lambda>t. t \<noteq> []) (Some (trim x))) of
             Some t \<Rightarrow> Some t
           | None \<Rightarrow> map_option show_ip connect))"


section \<open>Printed addresses are read back\<close>

lemma to_digit_char: "d < radix \<Longrightarrow> radix \<le> 16 \<Longrightarrow> to_digit radix (digit_char d) = Some d"
  by (auto simp: to_digit_def digit_char_def Let_def)

lemma show_octet:
  "n < 10 \<Longrightarrow> show_digits 10 3 n = [digit_char n]"
  "10 \<le> n \<Longrightarrow> n < 100 \<Longrightarrow> show_digits 10 3 n = [digit_char (n div 10), digit_char (n mod 10)]"
  "100 \<le> n \<Longrightarrow> n < 1000 \<Longrightarrow> show_digits 10 3 n = [digit_char (n div 100), digit_char (n div 10 mod 10), digit_char (n mod 10)]"
  by (auto simp: numeral_3_eq_3 div_mult2_eq [symmetric])

lemma digit_char_0: "d < 10 \<Longrightarrow> digit_char d = CHR ''0'' \<longleftrightarrow> d = 0"
proof -
  assume "d < 10"
  then have "of_char (digit_char d) = 48 + d" by (simp add: digit_char_def)
  moreover have "of_char CHR ''0'' = (48 :: nat)" by simp
  ultimately show ?thesis by (metis add_cancel_left_right of_char_eq_iff)
qed

lemma octet_text:
  assumes "n < 256"
  shows "digits_value 10 (show_digits 10 3 n) = n \<and> length (show_digits 10 3 n) \<le> 3 \<and> show_digits 10 3 n \<noteq> []
    \<and> (hd (show_digits 10 3 n) = CHR ''0'' \<longrightarrow> length (show_digits 10 3 n) = 1)
    \<and> (\<forall>c \<in> set (show_digits 10 3 n). to_digit 10 c \<noteq> None)"
proof -
  have "n div 10 = n div 100 * 10 + n div 10 mod 10" by (simp add: div_mult2_eq [of n 10 10, simplified])
  then have n: "n div 100 * 100 + n div 10 mod 10 * 10 + n mod 10 = n" using div_mult_mod_eq [of n 10] by linarith
  consider "n < 10" | "10 \<le> n" "n < 100" | "100 \<le> n" "n < 1000" using assms by linarith
  then show ?thesis
    by cases (use assms n in \<open>simp_all add: show_octet digits_value_def to_digit_char digit_char_0 mult.commute\<close>)
qed

lemma read_octet:
  assumes "n < 256" "rest = [] \<or> hd rest = CHR ''.''"
  shows "read_number 10 3 False 255 (show_digits 10 3 n @ rest) = Some (n, rest)"
proof -
  have "to_digit 10 CHR ''.'' = None" by (simp add: to_digit_def)
  then have "takeWhile (\<lambda>c. to_digit 10 c \<noteq> None) rest = []" using assms(2) by (cases rest) auto
  then have "leading_digits 10 (show_digits 10 3 n @ rest) = show_digits 10 3 n"
    using octet_text [OF assms(1)] by (simp add: leading_digits_def takeWhile_append del: not_None_eq)
  with octet_text [OF assms(1)] assms(1) show ?thesis by (auto simp: read_number_def Let_def)
qed

lemma after_separator_simps [simp]:
  "after_separator c True s p = p s" "after_separator c False (c # s) p = p s"
  by (simp_all add: after_separator_def read_char_def)

lemma groups_of_word32: "groups_value 256 (octets a) = unat a"
proof -
  have "unat a < 256 * 256 * 256 * 256" using unsigned_less [where 'a = nat, of a] by simp
  then have top: "unat a div 16777216 mod 256 = unat a div 16777216" by (simp add: less_mult_imp_div_less)
  have "n = ((n div 16777216 * 256 + n div 65536 mod 256) * 256 + n div 256 mod 256) * 256 + n mod 256" for n :: nat
  proof -
    have e1: "n div 65536 = n div 16777216 * 256 + n div 65536 mod 256" and e2: "n div 256 = n div 65536 * 256 + n div 256 mod 256"
      by (simp_all add: div_mult2_eq [of n 65536 256, simplified] div_mult2_eq [of n 256 256, simplified])
    have "((n div 16777216 * 256 + n div 65536 mod 256) * 256 + n div 256 mod 256) * 256 + n mod 256
        = (n div 65536 * 256 + n div 256 mod 256) * 256 + n mod 256" by (simp only: e1 [symmetric])
    also have "\<dots> = n" by (simp only: e2 [symmetric] div_mult_mod_eq)
    finally show ?thesis by simp
  qed
  from this [of "unat a"] top show ?thesis by (simp add: groups_value_def octets_def)
qed

lemma parse_show_v4: "parse_ip (show_v4 a) = Some (V4 a)"
proof -
  obtain o1 o2 o3 o4 where o: "octets a = [o1, o2, o3, o4]" "o1 < 256" "o2 < 256" "o3 < 256" "o4 < 256"
    by (simp add: octets_def)
  have dot: "hd (''.'' @ s) = CHR ''.''" for s by simp
  have "read_octets 4 True (show_digits 10 3 o1 @ ''.'' @ show_digits 10 3 o2 @ ''.'' @ show_digits 10 3 o3 @ ''.'' @ show_digits 10 3 o4)
      = Some ([o1, o2, o3, o4], [])"
    using o read_octet [OF o(2), of "''.'' @ _"] read_octet [OF o(3), of "''.'' @ _"] read_octet [OF o(4), of "''.'' @ _"] read_octet [OF o(5), of "[]"]
    by (simp add: numeral_eq_Suc)
  then show ?thesis
    using groups_of_word32 [of a] by (simp add: parse_ip_def read_ipv4_addr_def show_v4_def o(1))
qed


text \<open>
  An IPv4 address is read back as it is printed: every address the server prints, as the key of the login lockout
  or in an audit row, reads back as that address. So different addresses have different keys.
\<close>

theorem ipv4_print_parse:
  "parse_ip (show_ip (V4 a)) = Some (V4 a) \<and> (show_ip (V4 a) = show_ip (V4 b) \<longleftrightarrow> a = b)"
  unfolding show_ip_def IpAddr.case by (metis IpAddr.inject(1) option.inject parse_show_v4)

section \<open>Masks are network prefixes\<close>

lemma mask_drop_bit:
  "(a :: 'a::len word) AND prefix_mask n = b AND prefix_mask n \<longleftrightarrow> drop_bit n a = drop_bit n b"
proof (cases "n < LENGTH('a)")
  case True
  have "a AND push_bit n (- 1) = b AND push_bit n (- 1) \<longleftrightarrow> (\<forall>i. n \<le> i \<longrightarrow> i < LENGTH('a) \<longrightarrow> bit a i = bit b i)"
    unfolding bit_eq_iff by (auto simp: bit_simps)
  moreover have "drop_bit n a = drop_bit n b \<longleftrightarrow> (\<forall>i. n \<le> i \<longrightarrow> bit a i = bit b i)"
  proof -
    have "drop_bit n a = drop_bit n b \<longleftrightarrow> (\<forall>k. bit a (n + k) = bit b (n + k))"
      by (metis (mono_tags, lifting) bit_drop_bit_eq bit_eqI comp_def)
    also have "\<dots> \<longleftrightarrow> (\<forall>i. n \<le> i \<longrightarrow> bit a i = bit b i)" by (auto simp: le_iff_add)
    finally show ?thesis .
  qed
  moreover have "(\<forall>i. n \<le> i \<longrightarrow> bit a i = bit b i) \<longleftrightarrow> (\<forall>i. n \<le> i \<longrightarrow> i < LENGTH('a) \<longrightarrow> bit a i = bit b i)"
    using bit_imp_le_length [of a] bit_imp_le_length [of b] by blast
  ultimately show ?thesis using True by (simp add: prefix_mask_def)
next
  case False
  have "drop_bit n a = 0" for a :: "'a word" by (rule bit_word_eqI) (use False in \<open>auto simp: bit_simps dest: bit_imp_le_length\<close>)
  with False show ?thesis by (simp add: prefix_mask_def)
qed


lemma mask_div: "(a :: 'a::len word) AND prefix_mask n = b AND prefix_mask n \<longleftrightarrow> unat a div 2 ^ n = unat b div 2 ^ n"
  unfolding mask_drop_bit by (simp add: word_unat_eq_iff unsigned_drop_bit_eq drop_bit_eq_div [where 'a = nat] take_bit_nat_eq_self)

lemma Cidr_parse_prefix: "Cidr_parse s = Some c \<Longrightarrow> cidr_prefix c \<le> max_prefix (base c)"
  by (auto simp: Cidr_parse_def Let_def split: if_splits option.splits)

text \<open>
  C39. A block of addresses is what CIDR notation means: a block that was read has a prefix no longer than its
  address family has bits, and it contains exactly the addresses of the same family whose leading bits, as many as the
  prefix says, are those of the block's address. A prefix of zero contains the whole family, although the shift that
  builds its mask would overflow.
\<close>

theorem cidr_contains_is_network:
  assumes "Cidr_parse s = Some c"
  shows "cidr_prefix c \<le> max_prefix (base c)
    \<and> (cidr_contains c ip \<longleftrightarrow>
        (case (base c, ip) of
           (V4 b, V4 i) \<Rightarrow> unat b div 2 ^ (32 - cidr_prefix c) = unat i div 2 ^ (32 - cidr_prefix c)
         | (V6 b, V6 i) \<Rightarrow> unat b div 2 ^ (128 - cidr_prefix c) = unat i div 2 ^ (128 - cidr_prefix c)
         | _ \<Rightarrow> False))"
  using Cidr_parse_prefix [OF assms]
  by (simp add: cidr_contains_def masked_eq_v4_def masked_eq_v6_def mask_div split: IpAddr.split)

lemma ten_block: "Cidr_parse ''10.0.0.0/8'' = Some \<lparr> base = V4 0x0A000000, cidr_prefix = 8 \<rparr>"
proof -
  have t: "trim ''10.0.0.0/8'' = ''10.0.0.0/8''" "trim ''10.0.0.0'' = ''10.0.0.0''" "trim ''8'' = ''8''"
    by (auto intro!: trim_visible simp: visible_def)
  have "show_digits 10 3 10 = ''10''" "show_digits 10 3 0 = ''0''"
    by (simp_all add: show_octet digit_char_def char_of_def bit_0)
  then have "show_v4 0x0A000000 = ''10.0.0.0''" by (simp add: show_v4_def octets_def)
  with parse_show_v4 [of "0x0A000000"] have "parse_ip ''10.0.0.0'' = Some (V4 0x0A000000)" by simp
  with t show ?thesis by (simp add: Cidr_parse_def split_once_def parse_u8_def to_digit_def digits_value_def max_prefix_def)
qed

theorem cidr_contains_is_network_witness:
  "Cidr_parse ''10.0.0.0/8'' = Some \<lparr> base = V4 0x0A000000, cidr_prefix = 8 \<rparr>
    \<and> cidr_contains \<lparr> base = V4 0x0A000000, cidr_prefix = 8 \<rparr> (V4 0x0A010203)
    \<and> \<not> cidr_contains \<lparr> base = V4 0x0A000000, cidr_prefix = 8 \<rparr> (V4 0x0B000001)"
  using cidr_contains_is_network [OF ten_block, of "V4 0x0A010203"] cidr_contains_is_network [OF ten_block, of "V4 0x0B000001"] ten_block
  by simp

section \<open>Whose address counts\<close>

lemma trusted_iff_listed:
  "is_trusted (fst (parse_list s)) ip \<longleftrightarrow>
     (\<exists>part \<in> set (split_at list_separator s). \<exists>c. trim part \<noteq> [] \<and> Cidr_parse (trim part) = Some c \<and> cidr_contains c ip)"
  by (auto simp: is_trusted_def parse_list_def Let_def list_ex_iff List.map_filter_def)

lemma split_at_first: "\<forall>c \<in> set a. \<not> p c \<Longrightarrow> p x \<Longrightarrow> split_at p (a @ x # rest) = a # split_at p rest"
  by (induction a) auto

lemma show_v4_text: "\<forall>c \<in> set (show_v4 a). visible c \<and> c \<noteq> CHR '',''"
proof -
  have digit: "visible (digit_char d) \<and> digit_char d \<noteq> CHR '',''" if "d < 10" for d
  proof -
    from that have "of_char (digit_char d) = 48 + d" by (simp add: digit_char_def)
    moreover have "of_char CHR '','' = (44 :: nat)" by simp
    ultimately show ?thesis using that by (auto simp: visible_def)
  qed
  have octet: "visible c \<and> c \<noteq> CHR '',''" if "n < 256" "c \<in> set (show_digits 10 3 n)" for n c
  proof -
    consider "n < 10" | "10 \<le> n" "n < 100" | "100 \<le> n" "n < 1000" using \<open>n < 256\<close> by linarith
    then show ?thesis by cases (use that digit in \<open>auto simp: show_octet\<close>)
  qed
  have dot: "visible CHR ''.''" by (simp add: visible_def)
  have "visible c \<and> c \<noteq> CHR '',''" if "c \<in> set (show_digits 10 3 (n mod 256))" for n c
    by (rule octet [OF _ that]) simp
  then show ?thesis by (auto simp: show_v4_def octets_def dot)
qed




end
