(* ===== verification/AlertRules.thy ===== *)
theory AlertRules
  imports Connections TrustedProxy
begin

text \<open>
  Alert rules: the rules and their scopes (\<open>server/src/policy/alert_rules/db/rules.rs\<close>), the administrator's handlers
  that write them (\<open>api.rs\<close>), the engine that evaluates them against what devices report (\<open>engine.rs\<close>) and the events
  it leaves (\<open>db/events.rs\<close>).

  The tables are lists of rows. What a query answers when it fails, the identifier a sequence draws and the clock
  readings are arguments. Regular expressions, Unicode lower case and the text of numbers and dates are those of
  the libraries the code calls: the record \<open>AlertEnv\<close> is a parameter.
\<close>

section \<open>Rules\<close>

text \<open>A finite \<open>f32\<close> is a whole number of units of \<open>2\<^sup>-\<^sup>1\<^sup>4\<^sup>9\<close>; an infinity is beyond every finite one.\<close>

type_synonym F32 = int

definition f32_of_nat :: "nat \<Rightarrow> F32" where "f32_of_nat n = int n * 2 ^ 149"

type_synonym Scope = "string \<times> Uuid option \<times> Uuid option"

record AlertRuleUpsert =
  up_name :: string
  up_channel :: string
  up_pattern :: string
  up_match_mode :: string
  up_case_insensitive :: bool
  up_cooldown_secs :: int
  up_enabled :: bool
  up_take_screenshot :: bool
  up_metric :: "string option"
  up_comparator :: "string option"
  up_threshold :: "F32 option"
  up_duration_secs :: "int option"
  up_scopes :: "Scope list"

record AlertRuleRow =
  ar_id :: int
  ar_name :: string
  ar_pattern :: string
  ar_match_mode :: string
  ar_case_insensitive :: bool
  ar_cooldown_secs :: int
  ar_take_screenshot :: bool
  ar_metric :: "string option"
  ar_comparator :: "string option"
  ar_threshold :: "F32 option"
  ar_duration_secs :: "int option"
  ar_scope_kind :: string

record AlertRuleEvent =
  ev_id :: int
  ev_agent :: Uuid
  ev_rule_id :: "int option"
  ev_rule_name :: string
  ev_channel :: string
  ev_snippet :: string

text \<open>The tables: a rule is its identifier with the columns of \<open>AlertRuleUpsert\<close> (scopes empty), a scope row its rule's
  identifier with the scope.\<close>

record AlertDb =
  alert_rules :: "(int \<times> AlertRuleUpsert) list"
  alert_rule_scopes :: "(int \<times> Scope) list"
  agent_group_members :: "(Uuid \<times> Uuid) list"
  alert_rule_events :: "AlertRuleEvent list"
  alert_rule_event_screenshots :: "(int, u8 list) HashMap"

definition scope_applies :: "AlertDb \<Rightarrow> Uuid \<Rightarrow> Scope \<Rightarrow> bool" where
  "scope_applies d agent s =
     (let (kind, group, device) = s in
      kind = ''all'' \<or> kind = ''agent'' \<and> device = Some agent
      \<or> kind = ''group'' \<and> is_some_and group (\<lambda>g. (g, agent) \<in> set (agent_group_members d)))"

definition scope_rank :: "string \<Rightarrow> nat" where
  "scope_rank kind = (if kind = ''all'' then 1 else if kind = ''group'' then 2 else 3)"

definition applied_scopes :: "AlertDb \<Rightarrow> Uuid \<Rightarrow> int \<Rightarrow> string list" where
  "applied_scopes d agent i = [fst s. (r, s) \<leftarrow> alert_rule_scopes d, r = i \<and> scope_applies d agent s]"

definition effective_row :: "AlertDb \<Rightarrow> Uuid \<Rightarrow> int \<times> AlertRuleUpsert \<Rightarrow> AlertRuleRow" where
  "effective_row d agent r =
     (let (i, u) = r in
      \<lparr> ar_id = i, ar_name = up_name u, ar_pattern = up_pattern u, ar_match_mode = up_match_mode u,
        ar_case_insensitive = up_case_insensitive u, ar_cooldown_secs = up_cooldown_secs u,
        ar_take_screenshot = up_take_screenshot u, ar_metric = up_metric u, ar_comparator = up_comparator u,
        ar_threshold = up_threshold u, ar_duration_secs = up_duration_secs u,
        ar_scope_kind = hd (sort_key scope_rank (applied_scopes d agent i)) \<rparr>)"

definition alert_rules_effective_for_agent :: "AlertDb \<Rightarrow> Uuid \<Rightarrow> string \<Rightarrow> AlertRuleRow list" where
  "alert_rules_effective_for_agent d agent channel =
     map (effective_row d agent)
       (sort_key fst (filter (\<lambda>(i, u). up_enabled u \<and> up_channel u = channel \<and> applied_scopes d agent i \<noteq> []) (alert_rules d)))"

definition has_enabled_alert_rules :: "AlertDb \<Rightarrow> string \<Rightarrow> bool" where
  "has_enabled_alert_rules d channel = list_ex (\<lambda>(i, u). up_channel u = channel \<and> up_enabled u) (alert_rules d)"

definition alert_rules_list_all :: "AlertDb \<Rightarrow> (int \<times> AlertRuleUpsert) list" where
  "alert_rules_list_all d =
     map (\<lambda>(i, u). (i, u\<lparr>up_scopes := [s. (r, s) \<leftarrow> alert_rule_scopes d, r = i]\<rparr>)) (sort_key fst (alert_rules d))"

definition alert_rule_scopes_write_tx :: "AlertDb \<Rightarrow> int \<Rightarrow> Scope list \<Rightarrow> AlertDb" where
  "alert_rule_scopes_write_tx d i scopes =
     d\<lparr>alert_rule_scopes := filter (\<lambda>(r, s). r \<noteq> i) (alert_rule_scopes d) @ map (Pair i) scopes\<rparr>"

text \<open>The \<open>CHECK\<close> constraints of the table.\<close>

definition CHANNELS :: "string list" where
  "CHANNELS = [''url'', ''keys'', ''url_category'', ''agent_offline'', ''resource'']"

definition table_check :: "AlertRuleUpsert \<Rightarrow> bool" where
  "table_check u \<longleftrightarrow> up_channel u \<in> set CHANNELS \<and> up_match_mode u \<in> {''substring'', ''regex''} \<and> 0 \<le> up_cooldown_secs u"

text \<open>\<open>fresh\<close> is the identifier the sequence draws, \<open>None\<close> when the transaction fails otherwise (a scope that names an
  unknown group or device, a lost connection).\<close>

definition alert_rule_create_with_scopes :: "AlertDb \<Rightarrow> AlertRuleUpsert \<Rightarrow> int option \<Rightarrow> int option \<times> AlertDb" where
  "alert_rule_create_with_scopes d params fresh =
     (if \<not> table_check params then (None, d)
      else case fresh of
        None \<Rightarrow> (None, d)
      | Some i \<Rightarrow>
          (Some i, alert_rule_scopes_write_tx (d\<lparr>alert_rules := alert_rules d @ [(i, params\<lparr>up_scopes := []\<rparr>)]\<rparr>) i (up_scopes params)))"

definition alert_rule_update_with_scopes :: "AlertDb \<Rightarrow> int \<Rightarrow> AlertRuleUpsert \<Rightarrow> bool \<Rightarrow> bool option \<times> AlertDb" where
  "alert_rule_update_with_scopes d i params tx_ok =
     (if \<not> tx_ok then (None, d)
      else if \<not> list_ex (\<lambda>(r, _). r = i) (alert_rules d) then (Some False, d)
      else if \<not> table_check params then (None, d)
      else
        (Some True,
         alert_rule_scopes_write_tx
           (d\<lparr>alert_rules := map (\<lambda>(r, u). (r, if r = i then params\<lparr>up_scopes := []\<rparr> else u)) (alert_rules d)\<rparr>) i (up_scopes params)))"

text \<open>Scopes cascade; events keep the rule's name and lose its identifier.\<close>

definition alert_rule_delete :: "AlertDb \<Rightarrow> int \<Rightarrow> bool \<times> AlertDb" where
  "alert_rule_delete d i =
     (list_ex (\<lambda>(r, _). r = i) (alert_rules d),
      d\<lparr>alert_rules := filter (\<lambda>(r, _). r \<noteq> i) (alert_rules d),
        alert_rule_scopes := filter (\<lambda>(r, _). r \<noteq> i) (alert_rule_scopes d),
        alert_rule_events := map (\<lambda>e. if ev_rule_id e = Some i then e\<lparr>ev_rule_id := None\<rparr> else e) (alert_rule_events d)\<rparr>)"

section \<open>The administrator's handlers\<close>

record AlertEnv =
  regex_is_match :: "string \<Rightarrow> bool \<Rightarrow> (string \<Rightarrow> bool) option"
  to_lowercase :: "string \<Rightarrow> string"
  as_f32 :: "Value \<Rightarrow> F32 option"
  show_f32 :: "F32 \<Rightarrow> string"
  rfc3339_encoded :: "Time \<Rightarrow> string"
  public_base_url :: "string option"
  uuids :: Uuid_fmt

definition normalize_alert_scopes :: "Scope list \<Rightarrow> (Scope list, string) Result" where
  "normalize_alert_scopes scopes =
     (if scopes = [] then Err ''at least one scope is required''
      else if list_all (\<lambda>(kind, g, a). kind = ''all'' \<and> g = None \<and> a = None \<or> kind = ''group'' \<and> g \<noteq> None \<and> a = None
                          \<or> kind = ''agent'' \<and> a \<noteq> None \<and> g = None) scopes
      then Ok scopes
      else Err ''each scope must be { kind: \"all\" } or { kind: \"group\", group_id } or { kind: \"agent\", agent_id }'')"

text \<open>The regular expression library's account of what is wrong with a pattern is left out of the answer.\<close>

definition validate_alert_rule_pattern :: "AlertEnv \<Rightarrow> AlertRuleUpsert \<Rightarrow> (unit, string) Result" where
  "validate_alert_rule_pattern env u =
     (if up_channel u \<in> {''url'', ''keys'', ''url_category''} then
        (if up_match_mode u \<noteq> ''substring'' \<and> up_match_mode u \<noteq> ''regex'' then Err ''match_mode must be \"substring\" or \"regex\"''
         else if trim (up_pattern u) = [] then Err ''pattern must be non-empty''
         else if up_match_mode u = ''regex'' \<and> regex_is_match env (up_pattern u) (up_case_insensitive u) = None then Err ''invalid regex''
         else Ok ())
      else if up_channel u = ''resource'' then
        (if up_metric u \<notin> {Some ''cpu_pct'', Some ''mem_pct'', Some ''disk_pct''} then
           Err ''metric must be \"cpu_pct\", \"mem_pct\", or \"disk_pct\"''
         else if up_comparator u \<notin> {Some ''gt'', Some ''lt''} then Err ''comparator must be \"gt\" or \"lt\"''
         else if is_some_and (up_threshold u) (\<lambda>t. 0 \<le> t \<and> t \<le> f32_of_nat 100) then Ok ()
         else Err ''threshold must be between 0 and 100'')
      else if up_channel u = ''agent_offline'' then
        (if is_some_and (up_duration_secs u) (\<lambda>n. n < 0) then Err ''duration_secs must be >= 0'' else Ok ())
      else Err ''channel must be \"url\", \"keys\", \"url_category\", \"resource\", or \"agent_offline\"'')"

text \<open>The body of a request, as \<open>AlertRuleUpsert\<close> with the scopes it lists; both handlers read it the same way.\<close>

definition trimmed_body :: "AlertRuleUpsert \<Rightarrow> AlertRuleUpsert" where
  "trimmed_body b = b\<lparr>up_name := trim (up_name b), up_channel := trim (up_channel b), up_pattern := trim (up_pattern b),
     up_match_mode := trim (up_match_mode b)\<rparr>"

definition checked_params :: "AlertEnv \<Rightarrow> AlertRuleUpsert \<Rightarrow> (AlertRuleUpsert, ApiError) Result" where
  "checked_params env body =
     (case validate_alert_rule_pattern env (trimmed_body body) of
        Inl e \<Rightarrow> Err (BadRequest e)
      | Inr _ \<Rightarrow>
          (case normalize_alert_scopes (up_scopes body) of
             Inl e \<Rightarrow> Err (BadRequest e)
           | Inr scopes \<Rightarrow> Ok ((trimmed_body body)\<lparr>up_scopes := scopes\<rparr>)))"

definition alert_rules_create_h :: "AlertEnv \<Rightarrow> AlertDb \<Rightarrow> AuthUser \<Rightarrow> AlertRuleUpsert \<Rightarrow> int option \<Rightarrow> (int, ApiError) Result \<times> AlertDb" where
  "alert_rules_create_h env d user body fresh =
     (if \<not> is_admin user then (Err (Forbidden ''Forbidden''), d)
      else case checked_params env body of
        Inl e \<Rightarrow> (Err e, d)
      | Inr params \<Rightarrow>
          (case alert_rule_create_with_scopes d params fresh of
             (None, d') \<Rightarrow> (Err Internal, d')
           | (Some i, d') \<Rightarrow> (Ok i, d')))"

definition alert_rules_update_h ::
  "AlertEnv \<Rightarrow> AlertDb \<Rightarrow> AuthUser \<Rightarrow> int \<Rightarrow> AlertRuleUpsert \<Rightarrow> bool \<Rightarrow> (unit, ApiError) Result \<times> AlertDb" where
  "alert_rules_update_h env d user i body tx_ok =
     (if \<not> is_admin user then (Err (Forbidden ''Forbidden''), d)
      else case checked_params env body of
        Inl e \<Rightarrow> (Err e, d)
      | Inr params \<Rightarrow>
          (case alert_rule_update_with_scopes d i params tx_ok of
             (None, d') \<Rightarrow> (Err Internal, d')
           | (Some False, d') \<Rightarrow> (Err (NotFound ''Rule not found''), d')
           | (Some True, d') \<Rightarrow> (Ok (), d')))"

definition alert_rules_delete_h :: "AlertDb \<Rightarrow> AuthUser \<Rightarrow> int \<Rightarrow> bool \<Rightarrow> (unit, ApiError) Result \<times> AlertDb" where
  "alert_rules_delete_h d user i tx_ok =
     (if \<not> is_admin user then (Err (Forbidden ''Forbidden''), d)
      else if \<not> tx_ok then (Err Internal, d)
      else case alert_rule_delete d i of
        (False, d') \<Rightarrow> (Err (NotFound ''Rule not found''), d')
      | (True, d') \<Rightarrow> (Ok (), d'))"


section \<open>The engine\<close>

record AlertMatchPayload =
  am_event_id :: int
  am_rule_id :: int
  am_rule_name :: string
  am_channel :: string
  am_agent_id :: Uuid
  am_agent_name :: string
  am_snippet :: string
  am_ts :: int
  am_dashboard_url :: "string option"
  am_dashboard_activity_url :: "string option"

text \<open>The server, the throttle \<open>alert_match_cooldowns\<close>, the tables, the screenshots that were asked for (spawned tasks)
  and what was handed to the notification providers.\<close>

record AlertState =
  al_app :: AppState
  cooldowns :: "(int \<times> Uuid, Instant) HashMap"
  al_db :: AlertDb
  capture_tasks :: "(Uuid \<times> int) list"
  dispatched :: "AlertMatchPayload list"

definition str_contains :: "string \<Rightarrow> string \<Rightarrow> bool" where
  "str_contains h p = list_ex (\<lambda>k. take (length p) (drop k h) = p) [0..<Suc (length h)]"

definition haystack_for_channel :: "string \<Rightarrow> Value \<Rightarrow> string" where
  "haystack_for_channel channel payload =
     (if channel = ''url'' then unwrap_or (as_str (v_index payload ''url'')) []
      else if channel = ''keys'' then unwrap_or (as_str (v_index payload ''text'')) []
      else if channel = ''url_category'' then unwrap_or (as_str (v_index payload ''category_key'')) []
      else [])"

definition ellipsis :: string where "ellipsis = [CHR 0xE2, CHR 0x80, CHR 0xA6]"

definition truncate_snippet :: "string \<Rightarrow> string \<Rightarrow> string" where
  "truncate_snippet s channel =
     (let max_chars = (if channel = ''keys'' then 48 else 120); t = take_chars max_chars s in
      if chars_count s > max_chars then t @ ellipsis else t)"

definition rule_matches :: "AlertEnv \<Rightarrow> AlertRuleRow \<Rightarrow> string \<Rightarrow> bool" where
  "rule_matches env rule haystack =
     (if haystack = [] then False
      else if ar_match_mode rule = ''regex'' then
        (case regex_is_match env (ar_pattern rule) (ar_case_insensitive rule) of None \<Rightarrow> False | Some m \<Rightarrow> m haystack)
      else if ar_case_insensitive rule then
        str_contains (to_lowercase env haystack) (to_lowercase env (ar_pattern rule))
      else str_contains haystack (ar_pattern rule))"

text \<open>What one firing reads from outside: the monotonic clock, the identifier of the inserted event (\<open>None\<close> when the
  insertion fails) and the time of day.\<close>

record AlertIo =
  io_now :: Instant
  io_event :: "int option"
  io_utc :: Time

definition alert_event :: "Uuid_fmt \<Rightarrow> Uuid \<Rightarrow> string \<Rightarrow> int \<Rightarrow> string \<Rightarrow> string \<Rightarrow> string \<Rightarrow> int \<Rightarrow> Value" where
  "alert_event f agent_id agent_name rule_id rule_name channel snippet ts =
     json_obj [(''event'', Str ''alert_rule_match''), (''rule_id'', json_int rule_id), (''rule_name'', Str rule_name),
       (''channel'', Str channel), (''agent_id'', json_uuid f agent_id), (''agent_name'', Str agent_name),
       (''snippet'', Str snippet), (''ts'', json_int ts)]"

definition dashboard_urls :: "AlertEnv \<Rightarrow> Uuid \<Rightarrow> Time \<Rightarrow> string option \<times> string option" where
  "dashboard_urls env agent_id now =
     (case public_base_url env of
        None \<Rightarrow> (None, None)
      | Some b \<Rightarrow>
          (let agent_url = b @ ''/agents/'' @ to_str (uuids env) agent_id
           in (Some agent_url, Some (agent_url @ ''?tab=activity&at='' @ rfc3339_encoded env now))))"

definition alert_rule_event_insert :: "AlertDb \<Rightarrow> Uuid \<Rightarrow> int \<Rightarrow> string \<Rightarrow> string \<Rightarrow> string \<Rightarrow> int \<Rightarrow> AlertDb" where
  "alert_rule_event_insert d agent_id rule_id rule_name channel snippet i =
     d\<lparr>alert_rule_events := alert_rule_events d @
        [\<lparr> ev_id = i, ev_agent = agent_id, ev_rule_id = Some rule_id, ev_rule_name = rule_name, ev_channel = channel,
           ev_snippet = snippet \<rparr>]\<rparr>"

text \<open>The cooldown gate of \<open>fire_alert\<close>: whether the alert goes on, and the map it leaves.\<close>

definition cooldown_gate :: "(int \<times> Uuid, Instant) HashMap \<Rightarrow> int \<times> Uuid \<Rightarrow> int \<Rightarrow> Instant \<Rightarrow> bool \<times> (int \<times> Uuid, Instant) HashMap" where
  "cooldown_gate m key cooldown_secs now =
     (let cooldown = nat (max cooldown_secs 0) in
      if cooldown = 0 then (True, m)
      else if is_some_and (hm_get m key) (\<lambda>at. as_secs (duration_since now at) < cooldown) then (False, m)
      else (True, hm_insert key now m))"

definition fire_alert ::
  "AlertEnv \<Rightarrow> AlertState \<Rightarrow> AlertIo \<Rightarrow> Uuid \<Rightarrow> string \<Rightarrow> int \<Rightarrow> string \<Rightarrow> string \<Rightarrow> string \<Rightarrow> bool \<Rightarrow> int \<Rightarrow> AlertState" where
  "fire_alert env st io agent_id agent_name rule_id rule_name channel snippet take_screenshot cooldown_secs =
     (case cooldown_gate (cooldowns st) (rule_id, agent_id) cooldown_secs (io_now io) of
        (False, _) \<Rightarrow> st
      | (True, m) \<Rightarrow>
          (let st1 = st\<lparr>cooldowns := m\<rparr> in
           case io_event io of
             None \<Rightarrow> st1
           | Some event_id \<Rightarrow>
               (let ts = io_utc io div 1000000; (url, activity) = dashboard_urls env agent_id (io_utc io) in
                st1\<lparr>al_db := alert_rule_event_insert (al_db st1) agent_id rule_id rule_name channel snippet event_id,
                    capture_tasks := capture_tasks st1 @ (if take_screenshot then [(agent_id, event_id)] else []),
                    al_app := broadcast (al_app st1) (alert_event (uuids env) agent_id agent_name rule_id rule_name channel snippet ts),
                    dispatched := dispatched st1 @
                      [\<lparr> am_event_id = event_id, am_rule_id = rule_id, am_rule_name = rule_name, am_channel = channel,
                         am_agent_id = agent_id, am_agent_name = agent_name, am_snippet = snippet, am_ts = ts,
                         am_dashboard_url = url, am_dashboard_activity_url = activity \<rparr>]\<rparr>)))"

text \<open>The rules are loaded once (\<open>rules_ok\<close>: the query did not fail) and evaluated in their order; \<open>io\<close> gives what the
  firing of each rule reads.\<close>

definition on_url_or_keys_event ::
  "AlertEnv \<Rightarrow> AlertState \<Rightarrow> bool \<Rightarrow> (int \<Rightarrow> AlertIo) \<Rightarrow> Uuid \<Rightarrow> string \<Rightarrow> string \<Rightarrow> Value \<Rightarrow> AlertState" where
  "on_url_or_keys_event env st rules_ok io agent_id agent_name channel payload =
     (if channel \<notin> {''url'', ''keys'', ''url_category''} then st
      else
        (let haystack = haystack_for_channel channel payload in
         if haystack = [] \<or> \<not> rules_ok then st
         else foldl (\<lambda>s rule.
                if \<not> rule_matches env rule haystack then s
                else fire_alert env s (io (ar_id rule)) agent_id agent_name (ar_id rule) (ar_name rule) channel
                       (truncate_snippet haystack channel) (ar_take_screenshot rule) (ar_cooldown_secs rule))
              st (alert_rules_effective_for_agent (al_db st) agent_id channel)))"

definition on_url_category_event ::
  "AlertEnv \<Rightarrow> AlertState \<Rightarrow> bool \<Rightarrow> (int \<Rightarrow> AlertIo) \<Rightarrow> Uuid \<Rightarrow> string \<Rightarrow> Value \<Rightarrow> AlertState" where
  "on_url_category_event env st rules_ok io agent_id agent_name payload =
     on_url_or_keys_event env st rules_ok io agent_id agent_name ''url_category'' payload"

definition metric_label :: "string \<Rightarrow> string" where
  "metric_label m = (if m = ''cpu_pct'' then ''CPU'' else if m = ''mem_pct'' then ''Memory'' else if m = ''disk_pct'' then ''Disk'' else m)"

text \<open>The snippet of a rule whose threshold the frame breaches.\<close>

definition breach :: "AlertEnv \<Rightarrow> Value \<Rightarrow> AlertRuleRow \<Rightarrow> string option" where
  "breach env metrics rule =
     (case (ar_metric rule, ar_threshold rule) of
        (Some metric, Some threshold) \<Rightarrow>
          (case as_f32 env (v_index metrics metric) of
             None \<Rightarrow> None
           | Some v \<Rightarrow>
               (let is_lt = ar_comparator rule = Some ''lt'' in
                if (if is_lt then v < threshold else v > threshold)
                then Some (metric_label metric @ '' '' @ show_f32 env v @ ''% '' @ (if is_lt then ''<'' else ''>'') @ '' '' @ show_f32 env threshold @ ''%'')
                else None))
      | _ \<Rightarrow> None)"

definition on_metrics_event ::
  "AlertEnv \<Rightarrow> AlertState \<Rightarrow> bool \<Rightarrow> (int \<Rightarrow> AlertIo) \<Rightarrow> Uuid \<Rightarrow> string \<Rightarrow> Value \<Rightarrow> AlertState" where
  "on_metrics_event env st rules_ok io agent_id agent_name metrics =
     (if \<not> rules_ok then st
      else foldl (\<lambda>s rule.
             case breach env metrics rule of
               None \<Rightarrow> s
             | Some snippet \<Rightarrow>
                 fire_alert env s (io (ar_id rule)) agent_id agent_name (ar_id rule) (ar_name rule) ''resource'' snippet
                   (ar_take_screenshot rule) (ar_cooldown_secs rule))
           st (alert_rules_effective_for_agent (al_db st) agent_id ''resource''))"

function show_nat :: "nat \<Rightarrow> string" where
  "show_nat n = (if n < 10 then [digit_char n] else show_nat (n div 10) @ [digit_char (n mod 10)])"
  by pat_completeness auto
termination by (relation "measure id") auto

declare show_nat.simps [simp del]

text \<open>One device of the sweep. \<open>rules_ok\<close> and \<open>io\<close> are what its queries and firings read.\<close>

definition offline_agent ::
  "AlertEnv \<Rightarrow> Uuid list \<Rightarrow> Time \<Rightarrow> (Uuid \<Rightarrow> bool) \<Rightarrow> (Uuid \<Rightarrow> int \<Rightarrow> AlertIo) \<Rightarrow> AlertState \<Rightarrow> Uuid \<times> string \<times> Time \<Rightarrow> AlertState" where
  "offline_agent env connected now rules_ok io st agent =
     (let (agent_id, agent_name, last_seen) = agent in
      if agent_id \<in> set connected \<or> \<not> rules_ok agent_id then st
      else
        (let offline_secs = max ((now - last_seen) div 1000000) 0 in
         foldl (\<lambda>s rule.
           if offline_secs < max (unwrap_or (ar_duration_secs rule) 300) 0 then s
           else fire_alert env s (io agent_id (ar_id rule)) agent_id agent_name (ar_id rule) (ar_name rule) ''agent_offline''
                  (''Offline for '' @ show_nat (nat (offline_secs div 60)) @ ''m'') False (ar_cooldown_secs rule))
           st (alert_rules_effective_for_agent (al_db st) agent_id ''agent_offline'')))"

text \<open>\<open>seen\<close> is the answer of \<open>all_agents_last_seen\<close>, \<open>None\<close> when one of the two queries before the loop fails.\<close>

definition evaluate_offline_alerts ::
  "AlertEnv \<Rightarrow> AlertState \<Rightarrow> (Uuid \<times> string \<times> Time) list option \<Rightarrow> Time \<Rightarrow> (Uuid \<Rightarrow> bool) \<Rightarrow> (Uuid \<Rightarrow> int \<Rightarrow> AlertIo) \<Rightarrow> AlertState" where
  "evaluate_offline_alerts env st seen now rules_ok io =
     (if \<not> has_enabled_alert_rules (al_db st) ''agent_offline'' then st
      else case seen of
        None \<Rightarrow> st
      | Some rows \<Rightarrow> foldl (offline_agent env (map fst (connections (agents (al_app st)))) now rules_ok io) st rows)"

section \<open>Screenshots of alerts\<close>

text \<open>The polls of the frame cache: each is a clock reading and the frames cached then.\<close>

fun poll_frame :: "Instant \<Rightarrow> u64 \<Rightarrow> Uuid \<Rightarrow> (Instant \<times> (Uuid, Frame) HashMap) list \<Rightarrow> u8 list option" where
  "poll_frame limit prev_seq agent_id [] = None"
| "poll_frame limit prev_seq agent_id ((now, fs) # rest) =
     (if now \<ge> limit then None
      else case option_filter (\<lambda>f. seq f > prev_seq \<and> jpeg f \<noteq> []) (hm_get fs agent_id) of
        Some f \<Rightarrow> Some (jpeg f)
      | None \<Rightarrow> poll_frame limit prev_seq agent_id rest)"

definition capture_and_store_screenshot_for_event ::
  "Uuid_fmt \<Rightarrow> AlertState \<Rightarrow> Uuid \<Rightarrow> int \<Rightarrow> Instant \<Rightarrow> (Instant \<times> (Uuid, Frame) HashMap) list \<Rightarrow> AlertState" where
  "capture_and_store_screenshot_for_event f st agent_id event_id start polls =
     (let reg = agents (al_app st) in
      if \<not> hm_contains (cmds reg) agent_id then st
      else
        (let prev_seq = (case hm_get (frames (media (al_app st))) agent_id of None \<Rightarrow> 0 | Some fr \<Rightarrow> seq fr);
             (sent, reg1) = try_send_command f reg agent_id (StartCapture StartCapture_default);
             st1 = st\<lparr>al_app := (al_app st)\<lparr>agents := reg1\<rparr>\<rparr>
         in if \<not> sent then st1
            else
              (let shot = poll_frame (start + from_secs 3) prev_seq agent_id polls;
                   (_, reg2) = try_send_command f reg1 agent_id StopCapture;
                   st2 = st1\<lparr>al_app := (al_app st1)\<lparr>agents := reg2\<rparr>\<rparr>
               in case shot of
                    None \<Rightarrow> st2
                  | Some j \<Rightarrow>
                      st2\<lparr>al_db := (al_db st2)\<lparr>alert_rule_event_screenshots :=
                        hm_insert event_id j (alert_rule_event_screenshots (al_db st2))\<rparr>\<rparr>)))"


section \<open>Alert screenshots are refused\<close>

lemma start_capture_kind: "v_index (to_value f (StartCapture x)) ''type'' = Str ''start_capture''"
  by (simp add: to_value_def)

text \<open>
  C34. No screenshot of an alert is ever taken: the request for a capture goes through the plain sender, which refuses
  \<open>start_capture\<close> on every path, so the task leaves the server, its queues and the screenshot table as they were,
  whatever the device's grants and whatever frames arrive.
\<close>

theorem alert_screenshot_never_taken: "capture_and_store_screenshot_for_event f st agent_id event_id start polls = st"
proof -
  have "try_send_command f reg agent_id (StartCapture x) = (False, reg)" for reg x
    using start_capture_kind [of f x]
    by (auto simp: try_send_command_def send_command_def send_agent_command_json_def Let_def split: sum.split)
  then show ?thesis by (simp add: capture_and_store_screenshot_for_event_def Let_def)
qed

section \<open>What firing leaves alone\<close>

abbreviation same_rules :: "AlertDb \<Rightarrow> AlertDb \<Rightarrow> bool" where
  "same_rules d d' \<equiv> alert_rules d' = alert_rules d \<and> alert_rule_scopes d' = alert_rule_scopes d
     \<and> agent_group_members d' = agent_group_members d \<and> alert_rule_event_screenshots d' = alert_rule_event_screenshots d"

definition quiet :: "AlertState \<Rightarrow> int \<Rightarrow> Uuid \<Rightarrow> int \<Rightarrow> Instant \<Rightarrow> bool" where
  "quiet st rule_id agent_id cooldown_secs now \<longleftrightarrow> \<not> fst (cooldown_gate (cooldowns st) (rule_id, agent_id) cooldown_secs now)"

lemma gate_wf [inv_intros]: "hm_wf m \<Longrightarrow> hm_wf (snd (cooldown_gate m key cd now))"
  by (auto simp: cooldown_gate_def Let_def)

lemma gate_other: "k \<noteq> key \<Longrightarrow> hm_get (snd (cooldown_gate m key cd now)) k = hm_get m k"
  by (simp add: cooldown_gate_def Let_def)

lemma fire_alert_effect:
  "fire_alert env st io a nm r rn ch sn shot cd = st' \<Longrightarrow>
     same_rules (al_db st) (al_db st')
     \<and> cooldowns st' = (if quiet st r a cd (io_now io) then cooldowns st else snd (cooldown_gate (cooldowns st) (r, a) cd (io_now io)))
     \<and> alert_rule_events (al_db st') = alert_rule_events (al_db st) @
         (if quiet st r a cd (io_now io) then []
          else case io_event io of None \<Rightarrow> []
               | Some i \<Rightarrow> [\<lparr> ev_id = i, ev_agent = a, ev_rule_id = Some r, ev_rule_name = rn, ev_channel = ch, ev_snippet = sn \<rparr>])"
  by (auto simp: fire_alert_def quiet_def alert_rule_event_insert_def dashboard_urls_def Let_def split: prod.splits bool.splits option.splits)

lemma quiet_other: "(r', a') \<noteq> (r, a) \<Longrightarrow> quiet (fire_alert env st io a nm r rn ch sn shot cd) r' a' cd' now = quiet st r' a' cd' now"
  using fire_alert_effect [OF refl, of env st io a nm r rn ch sn shot cd] gate_other [of "(r', a')" "(r, a)"]
  by (auto simp: quiet_def cooldown_gate_def [of _ "(r', a')"] Let_def)


section \<open>Which rules are recorded\<close>

lemma applied_scopes_iff: "applied_scopes d agent i \<noteq> [] \<longleftrightarrow> (\<exists>s. (i, s) \<in> set (alert_rule_scopes d) \<and> scope_applies d agent s)"
  by (fastforce simp: applied_scopes_def filter_empty_conv concat_eq_Nil_conv split: if_splits)

lemma effective_iff:
  "r \<in> set (alert_rules_effective_for_agent d agent ch) \<longleftrightarrow>
     (\<exists>i u. (i, u) \<in> set (alert_rules d) \<and> up_enabled u \<and> up_channel u = ch \<and> applied_scopes d agent i \<noteq> [] \<and> r = effective_row d agent (i, u))"
  by (auto simp: alert_rules_effective_for_agent_def)

lemma effective_ids:
  assumes "distinct (map fst (alert_rules d))"
  shows "distinct (map ar_id (alert_rules_effective_for_agent d agent ch))" "sorted (map ar_id (alert_rules_effective_for_agent d agent ch))"
proof -
  have "ar_id \<circ> effective_row d agent = fst" by (auto simp: effective_row_def Let_def)
  moreover have "distinct (map fst (filter p (alert_rules d)))" for p using assms by (rule distinct_map_filter)
  then have "distinct (map fst (sort_key fst (filter p (alert_rules d))))" for p
    by (simp add: distinct_map)
  ultimately show "distinct (map ar_id (alert_rules_effective_for_agent d agent ch))"
    "sorted (map ar_id (alert_rules_effective_for_agent d agent ch))"
    by (simp_all add: alert_rules_effective_for_agent_def)
qed

text \<open>The events a pass over \<open>rules\<close> adds; \<open>sel\<close> is the snippet of a rule that matches.\<close>

definition event_of :: "(int \<Rightarrow> AlertIo) \<Rightarrow> AlertState \<Rightarrow> Uuid \<Rightarrow> string \<Rightarrow> (AlertRuleRow \<Rightarrow> string option) \<Rightarrow> AlertRuleRow \<Rightarrow> AlertRuleEvent list" where
  "event_of io st agent ch sel rule =
     (case (sel rule, io_event (io (ar_id rule))) of
        (Some sn, Some i) \<Rightarrow>
          if quiet st (ar_id rule) agent (ar_cooldown_secs rule) (io_now (io (ar_id rule))) then []
          else [\<lparr> ev_id = i, ev_agent = agent, ev_rule_id = Some (ar_id rule), ev_rule_name = ar_name rule, ev_channel = ch, ev_snippet = sn \<rparr>]
      | _ \<Rightarrow> [])"

definition fire_rule ::
  "AlertEnv \<Rightarrow> (int \<Rightarrow> AlertIo) \<Rightarrow> Uuid \<Rightarrow> string \<Rightarrow> string \<Rightarrow> (AlertRuleRow \<Rightarrow> string option) \<Rightarrow> AlertState \<Rightarrow> AlertRuleRow \<Rightarrow> AlertState" where
  "fire_rule env io agent nm ch sel s rule =
     (case sel rule of None \<Rightarrow> s
      | Some sn \<Rightarrow> fire_alert env s (io (ar_id rule)) agent nm (ar_id rule) (ar_name rule) ch sn (ar_take_screenshot rule) (ar_cooldown_secs rule))"

lemma pass_records:
  "distinct (map ar_id rules) \<Longrightarrow>
     alert_rule_events (al_db (foldl (fire_rule env io agent nm ch sel) st rules))
       = alert_rule_events (al_db st) @ concat (map (event_of io st agent ch sel) rules)"
proof (induction rules arbitrary: st)
  case (Cons rule rules)
  let ?st = "fire_rule env io agent nm ch sel st rule"
  have "event_of io ?st agent ch sel r = event_of io st agent ch sel r" if "r \<in> set rules" for r
  proof -
    from that have "ar_id r \<in> ar_id ` set rules" by (rule imageI)
    with Cons.prems have "ar_id r \<noteq> ar_id rule" by auto
    then have "quiet ?st (ar_id r) agent cd now = quiet st (ar_id r) agent cd now" for cd now
      by (auto simp: fire_rule_def quiet_other split: option.split)
    then show ?thesis by (simp add: event_of_def split: option.split)
  qed
  then have "map (event_of io ?st agent ch sel) rules = map (event_of io st agent ch sel) rules" by simp
  moreover have "alert_rule_events (al_db ?st) = alert_rule_events (al_db st) @ event_of io st agent ch sel rule"
    using fire_alert_effect [OF refl] by (auto simp: fire_rule_def event_of_def split: option.split)
  ultimately show ?case using Cons by (simp del: map_eq_conv)
qed simp

lemma url_event_is_pass:
  assumes "ch \<in> {''url'', ''keys'', ''url_category''}"
  shows "on_url_or_keys_event env st True io agent nm ch payload =
    foldl (fire_rule env io agent nm ch
        (\<lambda>rule. if rule_matches env rule (haystack_for_channel ch payload) then Some (truncate_snippet (haystack_for_channel ch payload) ch) else None))
      st (alert_rules_effective_for_agent (al_db st) agent ch)"
proof -
  have "foldl (fire_rule env io agent nm ch (\<lambda>rule. None)) st rs = st" for rs by (induction rs) (auto simp: fire_rule_def)
  then have "foldl (fire_rule env io agent nm ch (\<lambda>rule. if rule_matches env rule [] then Some sn else None)) st rs = st" for rs sn
    by (simp add: rule_matches_def)
  moreover have "(if \<not> rule_matches env rule h then s else fire_alert env s (io (ar_id rule)) agent nm (ar_id rule) (ar_name rule) ch sn
      (ar_take_screenshot rule) (ar_cooldown_secs rule)) = fire_rule env io agent nm ch (\<lambda>rule. if rule_matches env rule h then Some sn else None) s rule"
    for s rule h sn by (simp add: fire_rule_def)
  ultimately show ?thesis using assms by (simp add: on_url_or_keys_event_def Let_def)
qed


lemma find_unique: "r \<in> set rs \<Longrightarrow> \<forall>x \<in> set rs. P x \<longleftrightarrow> x = r \<Longrightarrow> find P rs = Some r"
  by (induction rs) auto

lemma event_of_rule: "e \<in> set (event_of io st agent ch sel r) \<Longrightarrow> ev_rule_id e = Some (ar_id r)"
  by (auto simp: event_of_def split: option.splits if_splits)

lemma events_of_rule:
  "distinct (map ar_id rules) \<Longrightarrow>
     filter (\<lambda>e. ev_rule_id e = Some i) (concat (map (event_of io st agent ch sel) rules))
       = (case find (\<lambda>r. ar_id r = i) rules of None \<Rightarrow> [] | Some r \<Rightarrow> event_of io st agent ch sel r)"
proof (induction rules)
  case (Cons r rules)
  have own: "filter (\<lambda>e. ev_rule_id e = Some i) (event_of io st agent ch sel r) = (if ar_id r = i then event_of io st agent ch sel r else [])"
    by (auto simp: filter_empty_conv filter_id_conv dest: event_of_rule)
  have "find (\<lambda>r. ar_id r = i) rules = None" if "ar_id r = i"
    using that Cons.prems unfolding find_None_iff by (metis distinct.simps(2) imageI list.set_map list.simps(9))
  with Cons own show ?case by simp
qed simp

lemma find_effective:
  assumes "distinct (map fst (alert_rules d))" "(i, u) \<in> set (alert_rules d)"
  shows "find (\<lambda>r. ar_id r = i) (alert_rules_effective_for_agent d agent ch) =
    (if up_enabled u \<and> up_channel u = ch \<and> applied_scopes d agent i \<noteq> [] then Some (effective_row d agent (i, u)) else None)"
proof -
  have row: "ar_id (effective_row d agent (j, v)) = j" for j v by (simp add: effective_row_def)
  have uniq: "v = u" if "(i, v) \<in> set (alert_rules d)" for v using assms that by (meson eq_key_imp_eq_value)
  show ?thesis
  proof (cases "up_enabled u \<and> up_channel u = ch \<and> applied_scopes d agent i \<noteq> []")
    case True
    with assms(2) have "effective_row d agent (i, u) \<in> set (alert_rules_effective_for_agent d agent ch)" unfolding effective_iff by blast
    moreover have "\<forall>r \<in> set (alert_rules_effective_for_agent d agent ch). ar_id r = i \<longleftrightarrow> r = effective_row d agent (i, u)"
      using uniq by (auto simp: effective_iff row)
    ultimately show ?thesis using True by (simp add: find_unique)
  next
    case False
    then have "ar_id r \<noteq> i" if "r \<in> set (alert_rules_effective_for_agent d agent ch)" for r
      using that uniq by (auto simp: effective_iff row)
    then have "find (\<lambda>r. ar_id r = i) (alert_rules_effective_for_agent d agent ch) = None" by (simp add: find_None_iff)
    with False show ?thesis by simp
  qed
qed

text \<open>
  C24. An address, keystrokes or a category is recorded under exactly the rules that match it: a rule gets one event if
  it is enabled for the channel, one of its scopes covers the device, its pattern matches the text, its cooldown for
  this device has passed and the event can be stored, and none otherwise; the text in the event is the shortened one.
  What was recorded before stays.
\<close>

theorem matching_rules_are_recorded:
  assumes "distinct (map fst (alert_rules (al_db st)))" "ch \<in> {''url'', ''keys'', ''url_category''}"
  shows "\<exists>new. alert_rule_events (al_db (on_url_or_keys_event env st True io agent nm ch payload)) = alert_rule_events (al_db st) @ new
    \<and> (\<forall>(i, u) \<in> set (alert_rules (al_db st)). filter (\<lambda>e. ev_rule_id e = Some i) new =
        (if up_enabled u \<and> up_channel u = ch
            \<and> (\<exists>s. (i, s) \<in> set (alert_rule_scopes (al_db st)) \<and> scope_applies (al_db st) agent s)
            \<and> rule_matches env (effective_row (al_db st) agent (i, u)) (haystack_for_channel ch payload)
            \<and> \<not> quiet st i agent (up_cooldown_secs u) (io_now (io i))
         then (case io_event (io i) of
                 None \<Rightarrow> []
               | Some e \<Rightarrow> [\<lparr> ev_id = e, ev_agent = agent, ev_rule_id = Some i, ev_rule_name = up_name u, ev_channel = ch,
                              ev_snippet = truncate_snippet (haystack_for_channel ch payload) ch \<rparr>])
         else []))"
proof -
  let ?rs = "alert_rules_effective_for_agent (al_db st) agent ch" and ?h = "haystack_for_channel ch payload"
  let ?new = "concat (map (event_of io st agent ch (\<lambda>rule. if rule_matches env rule ?h then Some (truncate_snippet ?h ch) else None)) ?rs)"
  have ids: "distinct (map ar_id ?rs)" by (rule effective_ids [OF assms(1)])
  show ?thesis
  proof (intro exI [of _ ?new] conjI ballI, goal_cases)
    case 1
    show ?case unfolding url_event_is_pass [OF assms(2)] by (rule pass_records [OF ids])
  next
    case (2 iu)
    obtain i u where iu: "iu = (i, u)" by (cases iu)
    have "ar_id (effective_row (al_db st) agent (i, u)) = i" "ar_name (effective_row (al_db st) agent (i, u)) = up_name u"
      "ar_cooldown_secs (effective_row (al_db st) agent (i, u)) = up_cooldown_secs u"
      by (simp_all add: effective_row_def)
    moreover from 2 have "(i, u) \<in> set (alert_rules (al_db st))" by (simp add: iu)
    ultimately show ?case
      unfolding iu prod.case applied_scopes_iff [symmetric] events_of_rule [OF ids] find_effective [OF assms(1) \<open>(i, u) \<in> _\<close>]
      by (simp add: event_of_def split: option.split)
  qed
qed


definition example_alert_env :: AlertEnv where
  "example_alert_env = \<lparr> regex_is_match = (\<lambda>_ _. None), to_lowercase = (\<lambda>s. s), as_f32 = (\<lambda>_. None), show_f32 = (\<lambda>_. []),
     rfc3339_encoded = (\<lambda>_. []), public_base_url = None, uuids = \<lparr> parse_str = (\<lambda>_. None), to_str = (\<lambda>_. []) \<rparr> \<rparr>"

definition example_alert_rule :: AlertRuleUpsert where
  "example_alert_rule = \<lparr> up_name = ''games'', up_channel = ''url'', up_pattern = ''game'', up_match_mode = ''substring'',
     up_case_insensitive = False, up_cooldown_secs = 300, up_enabled = True, up_take_screenshot = True, up_metric = None,
     up_comparator = None, up_threshold = None, up_duration_secs = None, up_scopes = [] \<rparr>"

definition example_alerts :: AlertState where
  "example_alerts = \<lparr> al_app = AppState_new, cooldowns = [],
     al_db = \<lparr> alert_rules = [(7, example_alert_rule), (9, example_alert_rule)], alert_rule_scopes = [(7, ''group'', Some 3, None), (9, ''agent'', None, Some 2)],
       agent_group_members = [(3, 1)], alert_rule_events = [], alert_rule_event_screenshots = [] \<rparr>,
     capture_tasks = [], dispatched = [] \<rparr>"

definition example_alert_io :: "Instant \<Rightarrow> int \<Rightarrow> AlertIo" where
  "example_alert_io now i = \<lparr> io_now = now, io_event = Some (i + 100), io_utc = 0 \<rparr>"

theorem matching_rules_are_recorded_witness:
  "\<exists>new. alert_rule_events (al_db (on_url_or_keys_event example_alert_env example_alerts True (example_alert_io 5) 1 ''pc'' ''url''
        (Obj [(''url'', Str ''a game'')]))) = new
    \<and> filter (\<lambda>e. ev_rule_id e = Some 7) new
        = [\<lparr> ev_id = 107, ev_agent = 1, ev_rule_id = Some 7, ev_rule_name = ''games'', ev_channel = ''url'', ev_snippet = ''a game'' \<rparr>]
    \<and> filter (\<lambda>e. ev_rule_id e = Some 9) new = []"
proof -
  have "distinct (map fst (alert_rules (al_db example_alerts)))" by (simp add: example_alerts_def)
  note t = matching_rules_are_recorded [OF this, of "''url''" example_alert_env "example_alert_io 5" 1 "''pc''" "Obj [(''url'', Str ''a game'')]"]
  have h: "haystack_for_channel ''url'' (Obj [(''url'', Str ''a game'')]) = ''a game''" by code_simp
  have s: "truncate_snippet ''a game'' ''url'' = ''a game''" by code_simp
  have m: "rule_matches example_alert_env (effective_row (al_db example_alerts) 1 (7, example_alert_rule)) ''a game''" by code_simp
  have q: "\<not> quiet example_alerts 7 1 300 5" by (simp add: quiet_def cooldown_gate_def example_alerts_def)
  have "\<exists>s. (7, s) \<in> set (alert_rule_scopes (al_db example_alerts)) \<and> scope_applies (al_db example_alerts) 1 s"
    by (rule exI [of _ "(''group'', Some 3, None)"]) (simp add: example_alerts_def scope_applies_def is_some_and_def)
  moreover have "\<not> (\<exists>s. (9, s) \<in> set (alert_rule_scopes (al_db example_alerts)) \<and> scope_applies (al_db example_alerts) 1 s)"
    by (simp add: example_alerts_def scope_applies_def)
  moreover have "alert_rules (al_db example_alerts) = [(7, example_alert_rule), (9, example_alert_rule)]" "alert_rule_events (al_db example_alerts) = []"
    by (simp_all add: example_alerts_def)
  moreover have "up_enabled example_alert_rule" "up_channel example_alert_rule = ''url''" "up_name example_alert_rule = ''games''"
    "up_cooldown_secs example_alert_rule = 300" "io_event (example_alert_io 5 i) = Some (i + 100)" "io_now (example_alert_io 5 i) = 5" for i
    by (simp_all add: example_alert_rule_def example_alert_io_def)
  ultimately show ?thesis using t unfolding h s by (simp add: m q)
qed

section \<open>Cooldowns\<close>

text \<open>One attempt to fire, as \<open>fire_alert\<close>'s arguments.\<close>

record AlertCall =
  c_io :: AlertIo
  c_agent :: Uuid
  c_agent_name :: string
  c_rule :: int
  c_rule_name :: string
  c_channel :: string
  c_snippet :: string
  c_shot :: bool
  c_cooldown :: int

definition fire_call :: "AlertEnv \<Rightarrow> AlertState \<Rightarrow> AlertCall \<Rightarrow> AlertState" where
  "fire_call env st c = fire_alert env st (c_io c) (c_agent c) (c_agent_name c) (c_rule c) (c_rule_name c) (c_channel c)
     (c_snippet c) (c_shot c) (c_cooldown c)"

abbreviation call_key :: "AlertCall \<Rightarrow> int \<times> Uuid" where "call_key c \<equiv> (c_rule c, c_agent c)"
abbreviation call_time :: "AlertCall \<Rightarrow> Instant" where "call_time c \<equiv> io_now (c_io c)"

definition events_for :: "AlertState \<Rightarrow> int \<times> Uuid \<Rightarrow> AlertRuleEvent list" where
  "events_for st key = filter (\<lambda>e. ev_rule_id e = Some (fst key) \<and> ev_agent e = snd key) (alert_rule_events (al_db st))"

definition call_quiet :: "AlertState \<Rightarrow> AlertCall \<Rightarrow> bool" where
  "call_quiet st c = quiet st (c_rule c) (c_agent c) (c_cooldown c) (call_time c)"

lemma fire_call_other:
  "call_key c \<noteq> key \<Longrightarrow> hm_get (cooldowns (fire_call env st c)) key = hm_get (cooldowns st) key \<and> events_for (fire_call env st c) key = events_for st key"
  using fire_alert_effect [OF refl, of env st "c_io c" "c_agent c" "c_agent_name c" "c_rule c" "c_rule_name c" "c_channel c" "c_snippet c" "c_shot c" "c_cooldown c"]
  by (cases key) (auto simp: fire_call_def events_for_def gate_other split: option.split)

lemma fire_call_quiet: "call_quiet st c \<Longrightarrow> cooldowns (fire_call env st c) = cooldowns st \<and> events_for (fire_call env st c) key = events_for st key"
  using fire_alert_effect [OF refl, of env st "c_io c" "c_agent c" "c_agent_name c" "c_rule c" "c_rule_name c" "c_channel c" "c_snippet c" "c_shot c" "c_cooldown c"]
  by (simp add: fire_call_def call_quiet_def events_for_def)

lemma fire_call_fires:
  assumes "\<not> call_quiet st c"
  shows "0 < c_cooldown c \<Longrightarrow> hm_get (cooldowns (fire_call env st c)) (call_key c) = Some (call_time c)"
    "length (events_for (fire_call env st c) (call_key c)) = length (events_for st (call_key c)) + (if io_event (c_io c) = None then 0 else 1)"
  using fire_alert_effect [OF refl, of env st "c_io c" "c_agent c" "c_agent_name c" "c_rule c" "c_rule_name c" "c_channel c" "c_snippet c" "c_shot c" "c_cooldown c"] assms
  by (auto simp: fire_call_def call_quiet_def quiet_def cooldown_gate_def events_for_def Let_def split: option.split if_splits)

lemma call_quiet_iff:
  assumes "hm_get (cooldowns st) (call_key c) = Some t" "t \<le> call_time c" "0 < c_cooldown c"
  shows "call_quiet st c \<longleftrightarrow> call_time c < t + from_secs (nat (c_cooldown c))"
proof -
  have "as_secs d < n \<longleftrightarrow> d < from_secs n" for d n by (simp add: as_secs_def from_secs_def div_less_iff_less_mult mult.commute)
  with assms show ?thesis
    by (auto simp: call_quiet_def quiet_def cooldown_gate_def duration_since_def Let_def less_diff_conv2 add.commute max_def)
qed


lemma calls_in_window:
  assumes "hm_get (cooldowns st) key = Some t" "0 < cd"
    "\<forall>c \<in> set cs. call_key c = key \<longrightarrow> c_cooldown c = cd \<and> t \<le> call_time c \<and> call_time c < t + from_secs (nat cd)"
  shows "hm_get (cooldowns (foldl (fire_call env) st cs)) key = Some t \<and> events_for (foldl (fire_call env) st cs) key = events_for st key"
  using assms
proof (induction cs arbitrary: st)
  case (Cons c cs)
  have "hm_get (cooldowns (fire_call env st c)) key = Some t \<and> events_for (fire_call env st c) key = events_for st key"
  proof (cases "call_key c = key")
    case True
    with Cons.prems have "call_quiet st c" by (subst call_quiet_iff [of _ _ t]) auto
    then show ?thesis using Cons.prems(1) fire_call_quiet by metis
  next
    case False
    then show ?thesis using Cons.prems(1) fire_call_other by metis
  qed
  with Cons.IH [of "fire_call env st c"] Cons.prems show ?case by simp
qed simp

text \<open>
  C25. Alerts of a rule for a device are a cooldown apart: once an attempt passes the gate, no attempt for the same rule
  and device within the cooldown adds an event, whatever other rules and devices fire in between, and the first attempt
  at or after its end passes again. The cooldown starts with the attempt, also when storing its event fails.
\<close>

theorem alerts_are_spaced:
  assumes "\<not> call_quiet st c" "0 < c_cooldown c"
    "\<forall>c' \<in> set cs. call_key c' = call_key c \<longrightarrow>
       c_cooldown c' = c_cooldown c \<and> call_time c \<le> call_time c' \<and> call_time c' < call_time c + from_secs (nat (c_cooldown c))"
    "call_key late = call_key c" "c_cooldown late = c_cooldown c" "call_time c + from_secs (nat (c_cooldown c)) \<le> call_time late"
  shows "let st1 = fire_call env st c; st2 = foldl (fire_call env) st1 cs in
    length (events_for st1 (call_key c)) = length (events_for st (call_key c)) + (if io_event (c_io c) = None then 0 else 1)
    \<and> events_for st2 (call_key c) = events_for st1 (call_key c)
    \<and> length (events_for (fire_call env st2 late) (call_key c)) = length (events_for st2 (call_key c)) + (if io_event (c_io late) = None then 0 else 1)"
proof -
  let ?st1 = "fire_call env st c"
  let ?st2 = "foldl (fire_call env) ?st1 cs"
  have st1: "hm_get (cooldowns ?st1) (call_key c) = Some (call_time c)" by (rule fire_call_fires(1) [OF assms(1,2)])
  note window = calls_in_window [OF st1 assms(2,3), of env]
  have "\<not> call_quiet ?st2 late" using window assms(2,4-6) by (subst call_quiet_iff [of _ _ "call_time c"]) auto
  then show ?thesis using window fire_call_fires(2) [OF assms(1), of env] fire_call_fires(2) [of ?st2 late env] assms(4) by (simp add: Let_def)
qed

definition example_call :: "Instant \<Rightarrow> AlertCall" where
  "example_call now = \<lparr> c_io = example_alert_io now 7, c_agent = 1, c_agent_name = ''pc'', c_rule = 7, c_rule_name = ''games'',
     c_channel = ''url'', c_snippet = ''a game'', c_shot = False, c_cooldown = 300 \<rparr>"

theorem alerts_are_spaced_witness:
  "length (events_for (foldl (fire_call example_alert_env) example_alerts
      [example_call 0, example_call (from_secs 299), example_call (from_secs 300)]) (7, 1)) = 2"
proof -
  have "\<not> call_quiet example_alerts (example_call 0)"
    by (simp add: call_quiet_def quiet_def cooldown_gate_def example_alerts_def)
  moreover have "events_for example_alerts (7, 1) = []" by (simp add: events_for_def example_alerts_def)
  ultimately show ?thesis
    using alerts_are_spaced [of example_alerts "example_call 0" "[example_call (from_secs 299)]" "example_call (from_secs 300)" example_alert_env]
    by (simp add: example_call_def example_alert_io_def Let_def from_secs_def)
qed


section \<open>What the administrator saves\<close>

definition scope_ok :: "Scope \<Rightarrow> bool" where
  "scope_ok s \<longleftrightarrow> normalize_alert_scopes [s] = Ok [s]"

definition alert_db_ok :: "AlertEnv \<Rightarrow> AlertDb \<Rightarrow> bool" where
  "alert_db_ok env d \<longleftrightarrow> distinct (map fst (alert_rules d))
     \<and> (\<forall>(i, u) \<in> set (alert_rules d). table_check u \<and> validate_alert_rule_pattern env u = Ok () \<and> (\<exists>s. (i, s) \<in> set (alert_rule_scopes d)))
     \<and> (\<forall>(i, s) \<in> set (alert_rule_scopes d). i \<in> fst ` set (alert_rules d) \<and> scope_ok s)"

lemma normalize_ok: "normalize_alert_scopes ss = Inr ss' \<Longrightarrow> ss' = ss \<and> ss \<noteq> [] \<and> (\<forall>s \<in> set ss. scope_ok s)"
  by (auto simp: normalize_alert_scopes_def scope_ok_def list_all_iff split: if_splits)

lemma validate_scopes: "validate_alert_rule_pattern env (u\<lparr>up_scopes := x\<rparr>) = validate_alert_rule_pattern env u"
  by (simp add: validate_alert_rule_pattern_def)

lemma table_check_scopes [simp]: "table_check (u\<lparr>up_scopes := x\<rparr>) = table_check u"
  by (simp add: table_check_def)

lemma checked_params_ok:
  "checked_params env body = Inr p \<Longrightarrow>
     p = trimmed_body body \<and> validate_alert_rule_pattern env p = Ok () \<and> up_scopes p \<noteq> [] \<and> (\<forall>s \<in> set (up_scopes p). scope_ok s)"
  by (auto simp: checked_params_def trimmed_body_def validate_scopes split: sum.splits dest!: normalize_ok)

lemma write_rule_ok:
  assumes "alert_db_ok env d" "checked_params env body = Inr p" "table_check p"
    "distinct (map fst rules)" "i \<in> fst ` set rules" "insert i (fst ` set (alert_rules d)) = fst ` set rules"
    "\<forall>(j, u) \<in> set rules. if j = i then u = p\<lparr>up_scopes := []\<rparr> else (j, u) \<in> set (alert_rules d)"
  shows "alert_db_ok env (alert_rule_scopes_write_tx (d\<lparr>alert_rules := rules\<rparr>) i (up_scopes p))"
proof -
  note p = checked_params_ok [OF assms(2)]
  have "\<exists>s. (j, s) \<in> set (alert_rule_scopes (alert_rule_scopes_write_tx (d\<lparr>alert_rules := rules\<rparr>) i (up_scopes p)))
      \<and> table_check u \<and> validate_alert_rule_pattern env u = Ok ()" if "(j, u) \<in> set rules" for j u
  proof (cases "j = i")
    case True
    with that assms(7) have "u = p\<lparr>up_scopes := []\<rparr>" by auto
    with True p assms(3) show ?thesis by (cases "up_scopes p") (auto simp: alert_rule_scopes_write_tx_def validate_scopes)
  next
    case False
    with that assms(7) have "(j, u) \<in> set (alert_rules d)" by auto
    with assms(1) False show ?thesis by (fastforce simp: alert_db_ok_def alert_rule_scopes_write_tx_def)
  qed
  then have "\<forall>(j, u) \<in> set rules. table_check u \<and> validate_alert_rule_pattern env u = Ok ()
      \<and> (\<exists>s. (j, s) \<in> set (alert_rule_scopes (alert_rule_scopes_write_tx (d\<lparr>alert_rules := rules\<rparr>) i (up_scopes p))))" by blast
  note ok = this
  have scopes: "j \<in> fst ` set rules \<and> scope_ok s"
    if "(j, s) \<in> set (alert_rule_scopes (alert_rule_scopes_write_tx (d\<lparr>alert_rules := rules\<rparr>) i (up_scopes p)))" for j s
  proof -
    from that have "(j, s) \<in> set (alert_rule_scopes d) \<or> j = i \<and> s \<in> set (up_scopes p)" by (auto simp: alert_rule_scopes_write_tx_def)
    then show ?thesis using assms(1,5,6) p unfolding alert_db_ok_def by blast
  qed
  from scopes have "\<forall>(j, s) \<in> set (alert_rule_scopes (alert_rule_scopes_write_tx (d\<lparr>alert_rules := rules\<rparr>) i (up_scopes p))).
      j \<in> fst ` set rules \<and> scope_ok s" by blast
  moreover have "alert_rules (alert_rule_scopes_write_tx (d\<lparr>alert_rules := rules\<rparr>) i (up_scopes p)) = rules"
    by (simp add: alert_rule_scopes_write_tx_def)
  ultimately show ?thesis unfolding alert_db_ok_def using assms(4) ok by presburger
qed

lemma create_effect:
  "fst (alert_rules_create_h env d user body fresh) = Ok i \<Longrightarrow>
     fresh = Some i \<and> is_admin user \<and> checked_params env body = Ok (trimmed_body body) \<and> table_check (trimmed_body body)
     \<and> snd (alert_rules_create_h env d user body fresh) =
         alert_rule_scopes_write_tx (d\<lparr>alert_rules := alert_rules d @ [(i, (trimmed_body body)\<lparr>up_scopes := []\<rparr>)]\<rparr>) i (up_scopes body)"
  by (auto simp: alert_rules_create_h_def alert_rule_create_with_scopes_def trimmed_body_def
      split: if_splits sum.splits option.splits prod.splits dest!: checked_params_ok)

lemma create_refused: "fst (alert_rules_create_h env d user body fresh) = Inl e \<Longrightarrow> snd (alert_rules_create_h env d user body fresh) = d"
  by (auto simp: alert_rules_create_h_def alert_rule_create_with_scopes_def split: if_splits sum.splits option.splits prod.splits)

lemma update_effect:
  "fst (alert_rules_update_h env d user i body tx_ok) = Ok () \<Longrightarrow>
     is_admin user \<and> checked_params env body = Ok (trimmed_body body) \<and> table_check (trimmed_body body) \<and> i \<in> fst ` set (alert_rules d)
     \<and> snd (alert_rules_update_h env d user i body tx_ok) =
         alert_rule_scopes_write_tx (d\<lparr>alert_rules := map (\<lambda>(r, u). (r, if r = i then (trimmed_body body)\<lparr>up_scopes := []\<rparr> else u)) (alert_rules d)\<rparr>)
           i (up_scopes body)"
  by (force simp: alert_rules_update_h_def alert_rule_update_with_scopes_def trimmed_body_def list_ex_iff
      split: if_splits sum.splits option.splits prod.splits bool.splits dest!: checked_params_ok)

lemma update_refused: "fst (alert_rules_update_h env d user i body tx_ok) = Inl e \<Longrightarrow> snd (alert_rules_update_h env d user i body tx_ok) = d"
  by (auto simp: alert_rules_update_h_def alert_rule_update_with_scopes_def split: if_splits sum.splits option.splits prod.splits bool.splits)


text \<open>
  C33. What an administrator saves is valid and stays so: creating, changing and deleting rules keep every rule in one of
  the five channels with the fields its channel needs, with at least one scope, and every scope well formed and of an
  existing rule; a refused request changes nothing.
\<close>

theorem saved_rules_stay_valid:
  assumes "alert_db_ok env d" "\<And>i. fresh = Some i \<Longrightarrow> i \<notin> fst ` set (alert_rules d)"
  shows "alert_db_ok env (snd (alert_rules_create_h env d user body fresh))
    \<and> alert_db_ok env (snd (alert_rules_update_h env d user j body tx_ok))
    \<and> alert_db_ok env (snd (alert_rules_delete_h d user j tx_ok))"
proof (intro conjI)
  show "alert_db_ok env (snd (alert_rules_create_h env d user body fresh))"
  proof (cases "fst (alert_rules_create_h env d user body fresh)")
    case (Inr i)
    note e = create_effect [OF this]
    have up: "up_scopes (trimmed_body body) = up_scopes body" by (simp add: trimmed_body_def)
    have "i \<notin> fst ` set (alert_rules d)" using e assms(2) by blast
    then have "alert_db_ok env (alert_rule_scopes_write_tx (d\<lparr>alert_rules := alert_rules d @ [(i, (trimmed_body body)\<lparr>up_scopes := []\<rparr>)]\<rparr>) i
        (up_scopes (trimmed_body body)))"
      using e assms(1) by (intro write_rule_ok) (auto simp: alert_db_ok_def rev_image_eqI)
    with e up show ?thesis by metis
  next
    case (Inl x)
    then show ?thesis using assms(1) by (simp add: create_refused)
  qed
  show "alert_db_ok env (snd (alert_rules_update_h env d user j body tx_ok))"
  proof (cases "fst (alert_rules_update_h env d user j body tx_ok)")
    case (Inr u)
    then have e: "fst (alert_rules_update_h env d user j body tx_ok) = Ok ()" by simp
    note e = update_effect [OF this]
    let ?rules = "map (\<lambda>(r, u). (r, if r = j then (trimmed_body body)\<lparr>up_scopes := []\<rparr> else u)) (alert_rules d)"
    have up: "up_scopes (trimmed_body body) = up_scopes body" by (simp add: trimmed_body_def)
    have ids: "map fst ?rules = map fst (alert_rules d)" by auto
    then have set_ids: "fst ` set ?rules = fst ` set (alert_rules d)" by (metis list.set_map)
    have "distinct (map fst ?rules)" unfolding ids using assms(1) by (simp add: alert_db_ok_def)
    moreover have "\<forall>(k, u) \<in> set ?rules. if k = j then u = (trimmed_body body)\<lparr>up_scopes := []\<rparr> else (k, u) \<in> set (alert_rules d)"
      by (auto split: if_splits)
    ultimately have "alert_db_ok env (alert_rule_scopes_write_tx (d\<lparr>alert_rules := ?rules\<rparr>) j (up_scopes (trimmed_body body)))"
      using e assms(1) set_ids by (intro write_rule_ok [of env d body]) (simp_all only: insert_absorb)
    with e show ?thesis by (simp add: up)
  next
    case (Inl x)
    then show ?thesis using assms(1) by (simp add: update_refused)
  qed
  show "alert_db_ok env (snd (alert_rules_delete_h d user j tx_ok))"
  proof -
    have "distinct (map fst (filter (\<lambda>(r, _). r \<noteq> j) (alert_rules d)))" using assms(1) by (simp add: alert_db_ok_def distinct_map_filter)
    moreover have "table_check u \<and> validate_alert_rule_pattern env u = Ok () \<and> (\<exists>s. (i, s) \<in> set (filter (\<lambda>(r, _). r \<noteq> j) (alert_rule_scopes d)))"
      if "(i, u) \<in> set (filter (\<lambda>(r, _). r \<noteq> j) (alert_rules d))" for i u
    proof -
      from that have "(i, u) \<in> set (alert_rules d)" "i \<noteq> j" by auto
      with assms(1) obtain s where "table_check u" "validate_alert_rule_pattern env u = Ok ()" "(i, s) \<in> set (alert_rule_scopes d)"
        unfolding alert_db_ok_def by blast
      moreover from this \<open>i \<noteq> j\<close> have "(i, s) \<in> set (filter (\<lambda>(r, _). r \<noteq> j) (alert_rule_scopes d))" by simp
      ultimately show ?thesis by blast
    qed
    moreover have "i \<in> fst ` set (filter (\<lambda>(r, _). r \<noteq> j) (alert_rules d)) \<and> scope_ok s"
      if "(i, s) \<in> set (filter (\<lambda>(r, _). r \<noteq> j) (alert_rule_scopes d))" for i s
    proof -
      from that have "(i, s) \<in> set (alert_rule_scopes d)" "i \<noteq> j" by auto
      with assms(1) have "i \<in> fst ` set (alert_rules d)" "scope_ok s" unfolding alert_db_ok_def by blast+
      with \<open>i \<noteq> j\<close> show ?thesis by (auto intro!: rev_image_eqI)
    qed
    moreover have "alert_rules (snd (alert_rule_delete d j)) = filter (\<lambda>(r, _). r \<noteq> j) (alert_rules d)"
      "alert_rule_scopes (snd (alert_rule_delete d j)) = filter (\<lambda>(r, _). r \<noteq> j) (alert_rule_scopes d)"
      by (simp_all add: alert_rule_delete_def)
    ultimately have "alert_db_ok env (snd (alert_rule_delete d j))" unfolding alert_db_ok_def by (simp only: case_prod_beta) force
    then show ?thesis using assms(1) by (auto simp: alert_rules_delete_h_def split: prod.split bool.split)
  qed
qed

lemma effective_id_iff:
  "i \<in> ar_id ` set (alert_rules_effective_for_agent d agent ch) \<longleftrightarrow>
     (\<exists>v. (i, v) \<in> set (alert_rules d) \<and> up_enabled v \<and> up_channel v = ch \<and> applied_scopes d agent i \<noteq> [])"
proof -
  have "ar_id \<circ> effective_row d agent = fst" by (auto simp: effective_row_def Let_def)
  then show ?thesis by (force simp: alert_rules_effective_for_agent_def image_comp)
qed

lemma written_rule_reads_back:
  assumes "(i, p\<lparr>up_scopes := []\<rparr>) \<in> set rules" "distinct (map fst rules)"
  shows "(i, p) \<in> set (alert_rules_list_all (alert_rule_scopes_write_tx (d\<lparr>alert_rules := rules\<rparr>) i (up_scopes p)))
    \<and> (i \<in> ar_id ` set (alert_rules_effective_for_agent (alert_rule_scopes_write_tx (d\<lparr>alert_rules := rules\<rparr>) i (up_scopes p)) agent (up_channel p))
        \<longleftrightarrow> up_enabled p \<and> (\<exists>s \<in> set (up_scopes p). scope_applies d agent s))"
proof -
  let ?d = "alert_rule_scopes_write_tx (d\<lparr>alert_rules := rules\<rparr>) i (up_scopes p)"
  have all: "concat (map (\<lambda>(r, s). if r = i then [s] else []) (map (Pair i) ss)) = ss" for ss :: "Scope list" by (induction ss) auto
  have none: "concat (map (\<lambda>(r, s). if r = i then [s] else []) (filter (\<lambda>(r, s). r \<noteq> i) rows)) = []" for rows :: "(int \<times> Scope) list"
    by (induction rows) auto
  have "concat (map (\<lambda>(r, s). if r = i then [s] else []) (alert_rule_scopes ?d)) = up_scopes p"
    using all none by (simp add: alert_rule_scopes_write_tx_def)
  moreover have "p\<lparr>up_scopes := up_scopes p\<rparr> = p" by simp
  ultimately have "(i, p) = (\<lambda>(i, u). (i, u\<lparr>up_scopes := concat (map (\<lambda>(r, s). if r = i then [s] else []) (alert_rule_scopes ?d))\<rparr>)) (i, p\<lparr>up_scopes := []\<rparr>)"
    by simp
  then have "(i, p) \<in> set (alert_rules_list_all ?d)"
    unfolding alert_rules_list_all_def set_map using assms(1) by (intro image_eqI) (auto simp: alert_rule_scopes_write_tx_def)
  moreover have "scope_applies ?d agent s = scope_applies d agent s" for s
    by (simp add: scope_applies_def alert_rule_scopes_write_tx_def split: prod.split)
  then have "applied_scopes ?d agent i \<noteq> [] \<longleftrightarrow> (\<exists>s \<in> set (up_scopes p). scope_applies d agent s)"
    unfolding applied_scopes_iff by (auto simp: alert_rule_scopes_write_tx_def)
  moreover have "i \<in> ar_id ` set (alert_rules_effective_for_agent ?d agent (up_channel p)) \<longleftrightarrow> up_enabled p \<and> applied_scopes ?d agent i \<noteq> []"
  proof -
    have uniq: "v = p\<lparr>up_scopes := []\<rparr>" if "(i, v) \<in> set rules" for v using assms that by (meson eq_key_imp_eq_value)
    have "(\<exists>v. (i, v) \<in> set rules \<and> up_enabled v \<and> up_channel v = up_channel p \<and> A) \<longleftrightarrow> up_enabled p \<and> A" for A
      using assms(1) by (auto dest: uniq intro!: exI [of _ "p\<lparr>up_scopes := []\<rparr>"])
    moreover have "alert_rules ?d = rules" by (simp add: alert_rule_scopes_write_tx_def)
    ultimately show ?thesis unfolding effective_id_iff by metis
  qed
  ultimately show ?thesis by blast
qed



definition example_admin :: AuthUser where
  "example_admin = \<lparr> user_id = 1, username = ''root'', role = ''admin'' \<rparr>"

definition example_body :: AlertRuleUpsert where
  "example_body = example_alert_rule\<lparr>up_scopes := [(''group'', Some 3, None)]\<rparr>"

lemma example_db_ok: "alert_db_ok example_alert_env (al_db example_alerts)"
proof -
  have "trim ''game'' = ''game''" by (auto intro!: trim_visible simp: visible_def)
  then show ?thesis
    by (simp add: alert_db_ok_def example_alerts_def example_alert_rule_def table_check_def CHANNELS_def validate_alert_rule_pattern_def
        scope_ok_def normalize_alert_scopes_def example_alert_env_def)
qed

lemma example_saves:
  "fst (alert_rules_create_h example_alert_env (al_db example_alerts) example_admin example_body (Some 11)) = Ok 11"
  "fst (alert_rules_update_h example_alert_env (al_db example_alerts) example_admin 9 example_body True) = Ok ()"
proof -
  have t: "trim ''game'' = ''game''" "trim ''url'' = ''url''" "trim ''substring'' = ''substring''" "trim ''games'' = ''games''"
    by (auto intro!: trim_visible simp: visible_def)
  show "fst (alert_rules_create_h example_alert_env (al_db example_alerts) example_admin example_body (Some 11)) = Ok 11"
    "fst (alert_rules_update_h example_alert_env (al_db example_alerts) example_admin 9 example_body True) = Ok ()"
    by (simp_all add: alert_rules_create_h_def alert_rules_update_h_def example_admin_def is_admin_def checked_params_def trimmed_body_def
        example_body_def example_alert_rule_def t validate_alert_rule_pattern_def normalize_alert_scopes_def alert_rule_create_with_scopes_def
        alert_rule_update_with_scopes_def table_check_def CHANNELS_def example_alerts_def)
qed

theorem saved_rules_stay_valid_witness:
  "alert_db_ok example_alert_env (snd (alert_rules_create_h example_alert_env (al_db example_alerts) example_admin example_body (Some 11)))
    \<and> fst (alert_rules_create_h example_alert_env (al_db example_alerts) example_admin example_body (Some 11)) = Ok 11"
proof -
  have "11 \<notin> fst ` set (alert_rules (al_db example_alerts))" by (simp add: example_alerts_def)
  then show ?thesis
    using saved_rules_stay_valid [OF example_db_ok, of "Some 11" example_admin example_body] example_saves(1) by simp
qed


end
