(* ===== verification/RecallContext.thy ===== *)
theory RecallContext
  imports AgentPermissions TrustedProxy "HOL-Library.While_Combinator"
begin

text \<open>
  What a Recall keyframe says about the foreground window: the vocabulary both sides share
  (\<open>protocol/src/recall_context.rs\<close>), the context the device builds around a capture and re-checks against its grants
  (\<open>agent/src/capture/recall_context/mod.rs\<close>) and the server's own check before anything is stored
  (\<open>server/src/recall/context.rs\<close>).

  Reading the foreground window is the operating system's: a sample is an argument. International domain names and the
  host parser of \<open>url\<close> are parameters, as is the length of serialized JSON.
\<close>

section \<open>The shared vocabulary\<close>

definition CONTEXT_VERSION :: u8 where "CONTEXT_VERSION = 1"
definition CONTEXT_SCOPE :: string where "CONTEXT_SCOPE = ''session_foreground''"
definition MAX_BRACKET_MS :: nat where "MAX_BRACKET_MS = 1000"
definition MAX_CONTEXT_BYTES :: nat where "MAX_CONTEXT_BYTES = 4096"
definition MAX_APP_BYTES :: nat where "MAX_APP_BYTES = 256"
definition MAX_TITLE_BYTES :: nat where "MAX_TITLE_BYTES = 1024"
definition MONITOR_RELATIONS :: "string list" where "MONITOR_RELATIONS = [''unknown'', ''same'', ''other'']"

datatype ContextStatus = Observed | Uncertain | StatusUnknown | NotCollected

datatype Reason = ModuleDisabled | Revoked | Unsupported | NoForeground | ReadFailed | SampleTimeout | Changed
  | IdentityUnverified | NotBrowser | InvalidUrl | InvalidContext

datatype Source = Win32 | Hyprland | UiaHwnd | NoSource

definition STATUSES :: "(ContextStatus \<times> string) list" where
  "STATUSES = [(Observed, ''observed''), (Uncertain, ''uncertain''), (StatusUnknown, ''unknown''), (NotCollected, ''not_collected'')]"

definition REASONS :: "(Reason \<times> string) list" where
  "REASONS = [(ModuleDisabled, ''module_disabled''), (Revoked, ''revoked''), (Unsupported, ''unsupported''),
     (NoForeground, ''no_foreground''), (ReadFailed, ''read_failed''), (SampleTimeout, ''sample_timeout''), (Changed, ''changed''),
     (IdentityUnverified, ''identity_unverified''), (NotBrowser, ''not_browser''), (InvalidUrl, ''invalid_url''),
     (InvalidContext, ''invalid_context'')]"

definition SOURCES :: "(Source \<times> string) list" where
  "SOURCES = [(Win32, ''win32''), (Hyprland, ''hyprland''), (UiaHwnd, ''uia_hwnd''), (NoSource, ''none'')]"

text \<open>\<open>as_str\<close> and \<open>from_wire\<close> of \<open>wire_enum!\<close>, from the table the macro is given.\<close>

definition wire_as_str :: "('a \<times> string) list \<Rightarrow> 'a \<Rightarrow> string" where
  "wire_as_str table x = unwrap_or (map_of table x) []"

definition from_wire :: "('a \<times> string) list \<Rightarrow> string \<Rightarrow> 'a option" where
  "from_wire table s = map_of (map (\<lambda>(x, w). (w, x)) table) s"

definition is_window_source :: "Source \<Rightarrow> bool" where
  "is_window_source s \<longleftrightarrow> s \<in> {Win32, Hyprland, NoSource}"

definition is_browser_source :: "Source \<Rightarrow> bool" where
  "is_browser_source s \<longleftrightarrow> s \<in> {UiaHwnd, NoSource}"

record WindowContext =
  wc_status :: ContextStatus
  wc_reason :: "Reason option"
  wc_source :: Source
  wc_app :: "string option"
  wc_title :: "string option"
  wc_title_truncated :: bool

record BrowserContext =
  bc_status :: ContextStatus
  bc_reason :: "Reason option"
  bc_source :: Source
  bc_url :: "string option"
  bc_url_host :: "string option"

record Context =
  cx_version :: u8
  cx_scope :: string
  cx_bracket_ms :: nat
  cx_monitor_relation :: string
  cx_window :: WindowContext
  cx_browser :: BrowserContext
  cx_grant_revisions :: "(Module, u64) HashMap"

definition WindowContext_empty :: "ContextStatus \<Rightarrow> Reason \<Rightarrow> WindowContext" where
  "WindowContext_empty status reason = \<lparr> wc_status = status, wc_reason = Some reason, wc_source = NoSource, wc_app = None,
     wc_title = None, wc_title_truncated = False \<rparr>"

definition is_supported :: "Context \<Rightarrow> bool" where
  "is_supported c \<longleftrightarrow> cx_version c = CONTEXT_VERSION \<and> cx_scope c = CONTEXT_SCOPE \<and> cx_bracket_ms c \<le> MAX_BRACKET_MS"

definition context_signature :: "Context \<Rightarrow> (string option \<times> string option) option" where
  "context_signature c = (if wc_status (cx_window c) = Observed then Some (wc_app (cx_window c), wc_title (cx_window c)) else None)"

text \<open>\<open>filter(|c| !c.is_control())\<close>: the characters below 32, 127, and 128 to 159, which are the two bytes \<open>C2 80\<close> to
  \<open>C2 9F\<close>.\<close>

fun strip_control :: "string \<Rightarrow> string" where
  "strip_control [] = []"
| "strip_control [c] = (if (of_char c :: nat) < 32 \<or> (of_char c :: nat) = 127 then [] else [c])"
| "strip_control (c # d # cs) =
     (if (of_char c :: nat) < 32 \<or> (of_char c :: nat) = 127 then strip_control (d # cs)
      else if (of_char c :: nat) = 0xC2 \<and> 128 \<le> (of_char d :: nat) \<and> (of_char d :: nat) < 160 then strip_control cs
      else c # strip_control (d # cs))"

text \<open>\<open>is_char_boundary\<close>\<close>

definition is_char_boundary :: "string \<Rightarrow> nat \<Rightarrow> bool" where
  "is_char_boundary s i \<longleftrightarrow> i = 0 \<or> i = length s \<or> i < length s \<and> \<not> is_utf8_continuation (s ! i)"

text \<open>The loop that looks for the place to cut; zero is a boundary, so the subtraction never underflows.\<close>

definition cut_loop :: "string \<Rightarrow> nat \<Rightarrow> nat option" where
  "cut_loop s cap = while_option (\<lambda>e. \<not> is_char_boundary s e) (\<lambda>e. e - 1) cap"

definition bounded_clean :: "string \<Rightarrow> nat \<Rightarrow> string \<times> bool" where
  "bounded_clean raw cap =
     (let clean = strip_control raw in
      if length clean \<le> cap then (clean, False) else (take (the (cut_loop clean cap)) clean, True))"

section \<open>The device\<close>

definition BRACKET_BUDGET :: Duration where "BRACKET_BUDGET = from_millis 250"

record Generations =
  window_generation :: "Generation option"
  browser_generation :: "Generation option"

definition Generations_from_state :: "GrantState \<Rightarrow> Generations" where
  "Generations_from_state s = \<lparr> window_generation = generation_from_state s WindowActivity,
     browser_generation = generation_from_state s BrowserUrls \<rparr>"

record Snapshot =
  sn_identity :: string
  sn_app :: string
  sn_title :: string
  sn_source :: Source
  sn_title_truncated :: bool

text \<open>\<open>native\<close> is what the operating system answers; the worker lease lasts as long as the call.\<close>

definition snapshot :: "Device \<Rightarrow> string option \<Rightarrow> Generation option \<Rightarrow> (Snapshot, Reason) Result \<Rightarrow> (Snapshot, Reason) Result" where
  "snapshot d lock gen native =
     (if \<not> is_some_and gen (\<lambda>g. gen_module g = WindowActivity \<and> valid_fresh d lock g) then Err ModuleDisabled else native)"

definition bounded :: "string \<Rightarrow> nat \<Rightarrow> string option \<times> bool" where
  "bounded raw cap = (let (s, truncated) = bounded_clean raw cap in (if s = [] then None else Some s, truncated))"

definition around_window ::
  "(Snapshot, Reason) Result \<Rightarrow> (Snapshot, Reason) Result \<Rightarrow> Duration \<Rightarrow> Generations \<Rightarrow> WindowContext" where
  "around_window before after elapsed generations =
     (if window_generation generations = None then WindowContext_empty NotCollected ModuleDisabled
      else if elapsed > BRACKET_BUDGET then WindowContext_empty StatusUnknown SampleTimeout
      else case (before, after) of
        (Inr a, Inr b) \<Rightarrow>
          if a = b \<and> sn_identity a \<noteq> [] then
            (let (app, app_truncated) = bounded (sn_app a) MAX_APP_BYTES; (title, title_truncated) = bounded (sn_title a) MAX_TITLE_BYTES in
             \<lparr> wc_status = Observed, wc_reason = None, wc_source = sn_source a, wc_app = (if app_truncated then None else app),
               wc_title = title, wc_title_truncated = (sn_title_truncated a \<or> title_truncated) \<rparr>)
          else WindowContext_empty Uncertain Changed
      | (Inl e, Inr _) \<Rightarrow> if e = Changed then WindowContext_empty Uncertain Changed else WindowContext_empty StatusUnknown e
      | (Inr _, Inl e) \<Rightarrow> if e = Changed then WindowContext_empty Uncertain Changed else WindowContext_empty StatusUnknown e
      | (Inl e, Inl e') \<Rightarrow>
          if e = Changed \<or> e' = Changed then WindowContext_empty Uncertain Changed else WindowContext_empty StatusUnknown e)"

definition context_around ::
  "(Snapshot, Reason) Result \<Rightarrow> (Snapshot, Reason) Result \<Rightarrow> Duration \<Rightarrow> Generations \<Rightarrow> Context" where
  "context_around before after elapsed generations =
     (let window = around_window before after elapsed generations; browser_granted = (browser_generation generations \<noteq> None) in
      \<lparr> cx_version = CONTEXT_VERSION, cx_scope = CONTEXT_SCOPE, cx_bracket_ms = min (as_millis elapsed) MAX_BRACKET_MS,
        cx_monitor_relation = ''unknown'', cx_window = window,
        cx_browser = \<lparr> bc_status = (if browser_granted then StatusUnknown else NotCollected),
          bc_reason = Some (if browser_granted then Unsupported else ModuleDisabled), bc_source = NoSource, bc_url = None,
          bc_url_host = None \<rparr>,
        cx_grant_revisions =
          (if wc_status window = Observed
           then (case window_generation generations of None \<Rightarrow> [] | Some g \<Rightarrow> hm_insert WindowActivity (gen_revision g) [])
           else []) \<rparr>)"

definition sanitize_in :: "GrantState \<Rightarrow> Generations \<Rightarrow> Context \<Rightarrow> Context" where
  "sanitize_in s generations c =
     (let w = cx_window c;
          valid = option_filter (\<lambda>g. gen_module g = WindowActivity \<and> generation_matches g s) (window_generation generations);
          (window, revisions) =
            (case valid of
               None \<Rightarrow> (WindowContext_empty NotCollected (if window_generation generations \<noteq> None then Revoked else ModuleDisabled),
                        hm_remove WindowActivity (cx_grant_revisions c))
             | Some g \<Rightarrow>
                 if wc_status w = Observed then
                   (let (app, long) = bounded (unwrap_or (wc_app w) []) MAX_APP_BYTES;
                        (title, truncated) = bounded (unwrap_or (wc_title w) []) MAX_TITLE_BYTES in
                    (w\<lparr>wc_app := (if long then None else app), wc_title := title, wc_title_truncated := wc_title_truncated w \<or> truncated\<rparr>,
                     hm_insert WindowActivity (gen_revision g) (cx_grant_revisions c)))
                 else (w\<lparr>wc_app := None, wc_title := None\<rparr>, hm_remove WindowActivity (cx_grant_revisions c)));
          browser_valid = is_some_and (browser_generation generations) (\<lambda>g. gen_module g = BrowserUrls \<and> generation_matches g s)
      in c\<lparr>cx_monitor_relation := ''unknown'', cx_window := window,
           cx_browser := \<lparr> bc_status = (if browser_valid then StatusUnknown else NotCollected),
             bc_reason = Some (if browser_valid then Unsupported else if browser_generation generations \<noteq> None then Revoked else ModuleDisabled),
             bc_source = NoSource, bc_url = None, bc_url_host = None \<rparr>,
           cx_grant_revisions := hm_retain (\<lambda>m _. m = WindowActivity) revisions\<rparr>)"

definition context_sanitize :: "Device \<Rightarrow> string option \<Rightarrow> Generations \<Rightarrow> Context \<Rightarrow> Context" where
  "context_sanitize d lock generations c = sanitize_in (load_or_default (store_file d) lock) generations c"


section \<open>Cutting text\<close>

lemma cut_loop_unfold: "cut_loop s e = (if is_char_boundary s e then Some e else cut_loop s (e - 1))"
  unfolding cut_loop_def by (subst while_option_unfold) simp

text \<open>
  C12. Cutting a text ends, at a character boundary: the loop that walks back from the byte limit stops for every text
  and limit, at the greatest character boundary that is not beyond the limit, so that the slice it is used for never
  panics and no more is cut off than needed.
\<close>

theorem cut_ends_at_boundary: "cut_loop s cap = Some (Max {k. k \<le> cap \<and> is_char_boundary s k})"
proof (induction cap)
  case 0
  have "{k. k \<le> 0 \<and> is_char_boundary s k} = {0}" by (auto simp: is_char_boundary_def)
  then show ?case by (subst cut_loop_unfold) (simp add: is_char_boundary_def)
next
  case (Suc n)
  show ?case
  proof (cases "is_char_boundary s (Suc n)")
    case True
    then have "Max {k. k \<le> Suc n \<and> is_char_boundary s k} = Suc n" by (intro Max_eqI) auto
    with True show ?thesis by (subst cut_loop_unfold) simp
  next
    case False
    then have "{k. k \<le> Suc n \<and> is_char_boundary s k} = {k. k \<le> n \<and> is_char_boundary s k}" by (auto simp: le_Suc_eq)
    with False Suc show ?thesis by (subst cut_loop_unfold) simp
  qed
qed

lemma cut_loop_stops: "\<exists>e. cut_loop s cap = Some e \<and> e \<le> cap \<and> is_char_boundary s e"
proof (induction cap)
  case 0
  then show ?case by (subst cut_loop_unfold) (simp add: is_char_boundary_def)
next
  case (Suc n)
  then show ?case by (subst cut_loop_unfold) auto
qed

definition printable :: "char \<Rightarrow> bool" where
  "printable c \<longleftrightarrow> 32 \<le> (of_char c :: nat) \<and> (of_char c :: nat) \<noteq> 127"

lemma strip_control_printable: "c \<in> set (strip_control s) \<Longrightarrow> printable c"
  by (induction s rule: strip_control.induct) (auto simp: printable_def split: if_splits)

lemma strip_control_id: "\<forall>c \<in> set s. printable c \<and> (of_char c :: nat) \<noteq> 0xC2 \<Longrightarrow> strip_control s = s"
  by (induction s rule: strip_control.induct) (auto simp: printable_def)

lemma bounded_clean_bounds:
  "length (fst (bounded_clean raw cap)) \<le> cap" "c \<in> set (fst (bounded_clean raw cap)) \<Longrightarrow> printable c"
  using cut_loop_stops [of "strip_control raw" cap]
  by (auto simp: bounded_clean_def Let_def split: if_splits dest: in_set_takeD strip_control_printable)

lemma bounded_bounds: "bounded raw cap = (Some t, b) \<Longrightarrow> t \<noteq> [] \<and> length t \<le> cap \<and> list_all printable t"
  using bounded_clean_bounds [where raw = raw and cap = cap] by (auto simp: bounded_def list_all_iff split: prod.splits if_splits)

section \<open>Context only under its grant\<close>

text \<open>A grant that was replaced never matches again.\<close>

lemma generation_gone:
  assumes "grants_wf s" "evolves s t" "evolves t u" "generation_from_state s m = Some g" "\<not> generation_matches g t"
  shows "\<not> generation_matches g u"
proof
  assume u: "generation_matches g u"
  from assms(4) have g: "gen_module g = m" by (auto simp: generation_from_state_def)
  have rev: "grant_revision x m = gen_revision g" if "generation_from_state x m = Some g" for x
    using that by (auto simp: generation_from_state_def grant_revision_def option_filter_def split: option.splits if_splits)
  have "grant_revision s m = gen_revision g" "grant_revision u m = gen_revision g"
    using assms(4) u g rev unfolding generation_matches_def by metis+
  moreover have "grant_revision s m \<le> grant_revision t m" "grant_revision t m \<le> grant_revision u m"
    using assms(2,3) by (simp_all add: evolves_def)
  ultimately have "grant_revision s m = grant_revision t m" by simp
  then have "hm_get (st_modules s) m = hm_get (st_modules t) m" using assms(2) by (simp add: evolves_def)
  then have "generation_from_state t m = Some g" using assms(4) by (simp add: generation_from_state_def)
  with g assms(5) show False by (simp add: generation_matches_def)
qed

lemma sanitized_without_grant:
  assumes "\<not> is_some_and (window_generation gens) (\<lambda>g. gen_module g = WindowActivity \<and> generation_matches g s)"
  shows "cx_window (sanitize_in s gens c) = WindowContext_empty NotCollected (if window_generation gens \<noteq> None then Revoked else ModuleDisabled)"
  using assms by (cases "window_generation gens") (auto simp: sanitize_in_def option_filter_def is_some_and_def Let_def)

lemma sanitized_always:
  "bc_url (cx_browser (sanitize_in s gens c)) = None" "bc_url_host (cx_browser (sanitize_in s gens c)) = None"
  "cx_monitor_relation (sanitize_in s gens c) = ''unknown''"
  "wc_app (cx_window (sanitize_in s gens c)) = Some a \<Longrightarrow> length a \<le> MAX_APP_BYTES \<and> list_all printable a"
  "wc_title (cx_window (sanitize_in s gens c)) = Some t \<Longrightarrow> length t \<le> MAX_TITLE_BYTES \<and> list_all printable t"
  by (auto simp: sanitize_in_def WindowContext_empty_def Let_def split: prod.splits option.splits if_splits
      dest: bounded_bounds)


lemma sanitized_revisions:
  assumes "hm_wf (cx_grant_revisions c)"
  shows "hm_get (cx_grant_revisions (sanitize_in s gens c)) m =
    (case option_filter (\<lambda>g. gen_module g = WindowActivity \<and> generation_matches g s) (window_generation gens) of
       None \<Rightarrow> None
     | Some g \<Rightarrow> if m = WindowActivity \<and> wc_status (cx_window c) = Observed then Some (gen_revision g) else None)"
  using assms by (auto simp: sanitize_in_def hm_get_retain hm.invar_insert hm.invar_remove option_filter_def Let_def split: prod.splits option.splits)

text \<open>
  C9. A window title never leaves the device under a grant that was taken back: whatever context is read from the spool,
  once the grant the frame was captured under is gone or replaced, checking it against the grants of that or any later
  moment removes application and title and the claimed revision, also when the owner has turned the module on again
  since. Web addresses are always removed.
\<close>

theorem revoked_context_stays_hidden:
  assumes "reaches grant_step GrantState_default s" "reaches grant_step s t" "reaches grant_step t u"
    "\<not> is_some_and (window_generation (Generations_from_state s)) (\<lambda>g. generation_matches g t)" "hm_wf (cx_grant_revisions c)"
  shows "let c' = sanitize_in u (Generations_from_state s) c in
    wc_status (cx_window c') = NotCollected \<and> wc_app (cx_window c') = None \<and> wc_title (cx_window c') = None
    \<and> hm_get (cx_grant_revisions c') WindowActivity = None \<and> bc_url (cx_browser c') = None \<and> bc_url_host (cx_browser c') = None"
proof -
  have wf: "grants_wf s" using device_grants.le_reaches [OF assms(1)] by (simp add: grants_le_def)
  with device_grants.le_reaches [OF assms(2)] have st: "grants_wf t" "evolves s t" by (simp_all add: grants_le_def)
  with device_grants.le_reaches [OF assms(3)] have tu: "evolves t u" by (simp add: grants_le_def)
  have none: "\<not> is_some_and (window_generation (Generations_from_state s)) (\<lambda>g. gen_module g = WindowActivity \<and> generation_matches g u)"
    using generation_gone [OF wf st(2) tu] assms(4) by (auto simp: Generations_from_state_def is_some_and_def split: option.splits)
  then have "option_filter (\<lambda>g. gen_module g = WindowActivity \<and> generation_matches g u) (window_generation (Generations_from_state s)) = None"
    by (auto simp: option_filter_def is_some_and_def split: option.splits)
  with sanitized_without_grant [OF none] show ?thesis
    by (simp add: Let_def sanitized_always sanitized_revisions [OF assms(5)] WindowContext_empty_def)
qed


section \<open>The server\<close>

text \<open>The length of serialized JSON, \<open>idna::domain_to_ascii\<close> and the host of \<open>url::Url::parse\<close>.\<close>

record RecallEnv =
  wire_len :: "Value \<Rightarrow> nat"
  domain_to_ascii :: "string \<Rightarrow> string option"
  url_host_str :: "string \<Rightarrow> string option"

definition has_white_space :: "string \<Rightarrow> bool" where
  "has_white_space s = list_ex (\<lambda>k. list_ex (leads (drop k s)) white_space) [0..<length s]"

definition strip_brackets :: "string \<Rightarrow> string" where
  "strip_brackets raw = (if length raw \<ge> 2 \<and> hd raw = CHR ''['' \<and> last raw = CHR '']'' then butlast (tl raw) else raw)"

definition strip_dot :: "string \<Rightarrow> string" where
  "strip_dot s = (if s \<noteq> [] \<and> last s = CHR ''.'' then butlast s else s)"

definition label_ok :: "string \<Rightarrow> bool" where
  "label_ok l \<longleftrightarrow> l \<noteq> [] \<and> length l \<le> 63 \<and> hd l \<noteq> CHR ''-'' \<and> last l \<noteq> CHR ''-''
     \<and> list_all (\<lambda>c. to_digit 36 c \<noteq> None \<or> c = CHR ''-'') l"

definition normalize_host :: "RecallEnv \<Rightarrow> string \<Rightarrow> (string, string) Result" where
  "normalize_host env raw =
     (if raw = [] \<or> length raw > 1024 \<or> trim raw \<noteq> raw \<or> strip_control raw \<noteq> raw then Err ''invalid url_host''
      else case parse_ip (strip_brackets raw) of
        Some ip \<Rightarrow> Ok (show_ip ip)
      | None \<Rightarrow>
          if list_ex (\<lambda>c. c \<in> set ''/:?#@%[]'' \<or> of_char c = (92 :: nat)) raw \<or> has_white_space raw then
            Err ''url_host must be a host literal without scheme, path or port''
          else
            (case domain_to_ascii env (strip_dot raw) of
               None \<Rightarrow> Err ''invalid url_host''
             | Some ascii \<Rightarrow>
                 (let host = to_ascii_lowercase ascii in
                  if host = [] \<or> length host > 253 \<or> \<not> list_all label_ok (split_at (\<lambda>c. c = CHR ''.'') host) then Err ''invalid url_host''
                  else case url_host_str env (''https://'' @ host @ ''/'') of
                    None \<Rightarrow> Err ''invalid url_host''
                  | Some h \<Rightarrow> Ok (rev (dropWhile (\<lambda>c. c = CHR ''.'') (rev h))))))"

definition empty_component :: "Reason \<Rightarrow> ContextStatus \<Rightarrow> bool \<Rightarrow> Value" where
  "empty_component reason status browser =
     (if browser then
        json_obj [(''status'', Str (wire_as_str STATUSES status)), (''reason'', Str (wire_as_str REASONS reason)), (''source'', Str ''none''),
          (''url'', Null), (''url_host'', Null)]
      else
        json_obj [(''status'', Str (wire_as_str STATUSES status)), (''reason'', Str (wire_as_str REASONS reason)), (''source'', Str ''none''),
          (''app'', Null), (''title'', Null)])"

fun obj_keys :: "Value \<Rightarrow> string list" where
  "obj_keys (Obj kvs) = map fst kvs"
| "obj_keys _ = []"

definition component_keys :: "bool \<Rightarrow> string list" where
  "component_keys browser =
     (if browser then [''status'', ''reason'', ''source'', ''url'', ''url_host'']
      else [''status'', ''reason'', ''source'', ''app'', ''title'', ''title_truncated''])"

definition scalar :: "Value \<Rightarrow> string \<Rightarrow> bool" where
  "scalar c key = is_none_or (v_get c key) (\<lambda>v. v = Null \<or> as_str v \<noteq> None)"

text \<open>The check of a component's fields: the parsed status and source when all of them are acceptable.\<close>

definition component_shape :: "Value \<Rightarrow> bool \<Rightarrow> (ContextStatus \<times> Source) option" where
  "component_shape c browser =
     (let status = Option.bind (as_str (v_index c ''status'')) (from_wire STATUSES);
          reason = as_str (v_index c ''reason'');
          valid_reason = (v_get c ''reason'' = Some Null \<or> is_some_and reason (\<lambda>r. from_wire REASONS r \<noteq> None));
          source = Option.bind (as_str (v_index c ''source'')) (from_wire SOURCES);
          valid_source = is_some_and source (if browser then is_browser_source else is_window_source);
          valid_values = (if browser then is_none_or (v_get c ''url'') (\<lambda>v. v = Null) \<and> scalar c ''url_host''
                          else scalar c ''app'' \<and> scalar c ''title'' \<and> is_none_or (v_get c ''title_truncated'') (\<lambda>v. as_bool v \<noteq> None))
      in if list_ex (\<lambda>k. k \<notin> set (component_keys browser)) (obj_keys c) \<or> status = None \<or> \<not> valid_reason \<or> \<not> valid_source \<or> \<not> valid_values
            \<or> status = Some Observed \<and> (source = Some NoSource \<or> reason \<noteq> None)
         then None
         else case (status, source) of (Some st, Some src) \<Rightarrow> Some (st, src) | _ \<Rightarrow> None)"

definition observed_window :: "Value \<Rightarrow> Source \<Rightarrow> Value" where
  "observed_window c source =
     (let app = Option.bind (as_str (v_index c ''app''))
                  (\<lambda>s. let (t, long) = bounded_clean s MAX_APP_BYTES in
                       if \<not> long \<and> t \<noteq> [] \<and> \<not> list_ex (\<lambda>x. x = CHR ''/'' \<or> of_char x = (92 :: nat)) t then Some t else None);
          title = map_option (\<lambda>s. bounded_clean s MAX_TITLE_BYTES) (as_str (v_index c ''title''));
          truncated = (unwrap_or (as_bool (v_index c ''title_truncated'')) False \<or> is_some_and title snd);
          out = json_obj [(''status'', Str (wire_as_str STATUSES Observed)), (''reason'', Null), (''source'', Str (wire_as_str SOURCES source)),
                  (''app'', json_opt Str app), (''title'', json_opt Str (option_filter (\<lambda>s. s \<noteq> []) (map_option fst title)))]
      in if truncated then v_set out ''title_truncated'' (Bool True) else out)"

definition component :: "RecallEnv \<Rightarrow> Value option \<Rightarrow> bool \<Rightarrow> u64 option \<Rightarrow> u64 option \<Rightarrow> Value" where
  "component env raw browser revision current =
     (case option_filter is_obj raw of
        None \<Rightarrow> empty_component InvalidContext StatusUnknown browser
      | Some c \<Rightarrow>
          (case component_shape c browser of
             None \<Rightarrow> empty_component InvalidContext StatusUnknown browser
           | Some (status, source) \<Rightarrow>
               if status \<noteq> Observed then
                 (if (if browser then v_index c ''url_host'' \<noteq> Null else v_index c ''app'' \<noteq> Null \<or> v_index c ''title'' \<noteq> Null)
                  then empty_component InvalidContext StatusUnknown browser
                  else json_obj ([(''status'', Str (wire_as_str STATUSES status)), (''reason'', v_index c ''reason''),
                                  (''source'', Str (wire_as_str SOURCES source))]
                                @ (if browser then [(''url'', Null), (''url_host'', Null)] else [(''app'', Null), (''title'', Null)])))
               else if revision = None \<or> revision \<noteq> current then empty_component Revoked NotCollected browser
               else if browser then
                 (case map_option (normalize_host env) (as_str (v_index c ''url_host'')) of
                    Some (Inl _) \<Rightarrow> empty_component InvalidUrl StatusUnknown True
                  | Some (Inr h) \<Rightarrow>
                      json_obj [(''status'', Str (wire_as_str STATUSES status)), (''reason'', Null), (''source'', Str (wire_as_str SOURCES source)),
                        (''url'', Null), (''url_host'', Str h)]
                  | None \<Rightarrow>
                      json_obj [(''status'', Str (wire_as_str STATUSES status)), (''reason'', Null), (''source'', Str (wire_as_str SOURCES source)),
                        (''url'', Null), (''url_host'', Null)])
               else observed_window c source))"

record Metadata =
  md_context :: "Value option"
  md_duration_ms :: "int option"
  md_app :: "string option"
  md_title :: "string option"
  md_host :: "string option"

definition context_fits :: "RecallEnv \<Rightarrow> Value \<Rightarrow> bool" where
  "context_fits env v = (wire_len env v \<le> MAX_CONTEXT_BYTES)"

definition CONTEXT_KEYS :: "string list" where
  "CONTEXT_KEYS = [''version'', ''scope'', ''bracket_ms'', ''monitor_relation'', ''window'', ''browser'', ''grant_revisions'']"

definition envelope_ok :: "RecallEnv \<Rightarrow> Value \<Rightarrow> bool" where
  "envelope_ok env c \<longleftrightarrow> context_fits env c \<and> as_u64 (v_index c ''version'') = Some (ucast CONTEXT_VERSION)
     \<and> as_str (v_index c ''scope'') = Some CONTEXT_SCOPE
     \<and> is_some_and (as_u64 (v_index c ''bracket_ms'')) (\<lambda>n. unat n \<le> MAX_BRACKET_MS)
     \<and> is_some_and (as_str (v_index c ''monitor_relation'')) (\<lambda>r. r \<in> set MONITOR_RELATIONS)
     \<and> list_all (\<lambda>k. k \<in> set CONTEXT_KEYS) (obj_keys c)"

definition recall_sanitize :: "RecallEnv \<Rightarrow> Value \<Rightarrow> u64 option \<Rightarrow> u64 option \<Rightarrow> Metadata" where
  "recall_sanitize env header window_revision browser_revision =
     (let m = \<lparr> md_context = None,
                md_duration_ms = map_option uint (option_filter (\<lambda>v. unat v \<le> 1000) (as_u64 (v_index header ''capture_duration_ms''))),
                md_app = None, md_title = None, md_host = None \<rparr>
      in case option_filter is_obj (v_get header ''context'') of
           None \<Rightarrow> m
         | Some c \<Rightarrow>
             if \<not> envelope_ok env c then m
             else
               (let window = component env (v_get c ''window'') False
                               (as_u64 (v_index (v_index c ''grant_revisions'') ''window_activity'')) window_revision;
                    browser = component env (v_get c ''browser'') True
                               (as_u64 (v_index (v_index c ''grant_revisions'') ''browser_urls'')) browser_revision
                in m\<lparr>md_app := map_option to_ascii_lowercase (as_str (v_index window ''app'')),
                     md_title := as_str (v_index window ''title''),
                     md_host := as_str (v_index browser ''url_host''),
                     md_context := Some (json_obj [(''version'', json_nat 1), (''scope'', Str ''session_foreground''),
                       (''bracket_ms'', v_index c ''bracket_ms''), (''monitor_relation'', v_index c ''monitor_relation''),
                       (''window'', window), (''browser'', browser)])\<rparr>))"


section \<open>What the server lets through\<close>

lemma empty_component_values:
  "as_str (v_index (empty_component r st b) ''app'') = None" "as_str (v_index (empty_component r st b) ''title'') = None"
  "as_str (v_index (empty_component r st b) ''url_host'') = None"
  by (simp_all add: empty_component_def)

lemma as_str_json_opt [simp]: "as_str (json_opt Str x) = x"
  by (cases x) simp_all

lemma observed_window_values:
  "as_str (v_index (observed_window c src) ''app'') =
     Option.bind (as_str (v_index c ''app''))
       (\<lambda>s. let (t, long) = bounded_clean s MAX_APP_BYTES in
            if \<not> long \<and> t \<noteq> [] \<and> \<not> list_ex (\<lambda>x. x = CHR ''/'' \<or> of_char x = (92 :: nat)) t then Some t else None)"
  "as_str (v_index (observed_window c src) ''title'') =
     option_filter (\<lambda>s. s \<noteq> []) (map_option (\<lambda>s. fst (bounded_clean s MAX_TITLE_BYTES)) (as_str (v_index c ''title'')))"
  by (auto simp: observed_window_def Let_def json_obj_def option.map_comp comp_def)

lemma component_window_values:
  assumes "as_str (v_index (component env raw False revision current) k) = Some x" "k \<in> {''app'', ''title''}"
  shows "revision \<noteq> None \<and> revision = current \<and> x \<noteq> [] \<and> list_all printable x
    \<and> length x \<le> (if k = ''app'' then MAX_APP_BYTES else MAX_TITLE_BYTES)"
proof -
  obtain c src where c: "revision \<noteq> None" "revision = current" "as_str (v_index (observed_window c src) k) = Some x"
    using assms by (auto simp: component_def empty_component_values split: option.splits if_splits prod.splits)
  have "x \<noteq> [] \<and> (\<exists>s cap. x = fst (bounded_clean s cap) \<and> cap = (if k = ''app'' then MAX_APP_BYTES else MAX_TITLE_BYTES))"
    using c(3) assms(2)
    by (auto simp: observed_window_values option_filter_def Let_def bind_eq_Some_conv case_prod_unfold split: if_splits option.splits)
  then show ?thesis using c bounded_clean_bounds by (auto simp: list_all_iff)
qed

lemma component_browser_value:
  "as_str (v_index (component env raw True revision current) ''url_host'') = Some h \<Longrightarrow> revision \<noteq> None \<and> revision = current"
  by (auto simp: component_def empty_component_values json_obj_def split: option.splits if_splits prod.splits sum.splits)



section \<open>Text is cleaned once\<close>

text \<open>The bytes of a Rust string are those of its characters.\<close>

definition utf8_char :: "string \<Rightarrow> bool" where
  "utf8_char c = (case c of [] \<Rightarrow> False
     | l # cs \<Rightarrow> \<not> is_utf8_continuation l \<and> list_all is_utf8_continuation cs
         \<and> ((of_char l :: nat) < 128 \<longleftrightarrow> cs = []) \<and> ((of_char l :: nat) = 0xC2 \<longrightarrow> length cs = 1))"

definition utf8 :: "string \<Rightarrow> bool" where
  "utf8 s \<longleftrightarrow> (\<exists>cs. s = concat cs \<and> list_all utf8_char cs)"

abbreviation ascii_control :: "char \<Rightarrow> bool" where
  "ascii_control c \<equiv> (of_char c :: nat) < 32 \<or> (of_char c :: nat) = 127"

definition control_char :: "string \<Rightarrow> bool" where
  "control_char c = (case c of [b] \<Rightarrow> ascii_control b | [b, d] \<Rightarrow> (of_char b :: nat) = 0xC2 \<and> (of_char d :: nat) < 160 | _ \<Rightarrow> False)"

lemma strip_control_cont: "list_all is_utf8_continuation cs \<Longrightarrow> strip_control (cs @ s) = cs @ strip_control s"
proof (induction cs)
  case (Cons c cs)
  then have "strip_control (c # cs @ s) = c # strip_control (cs @ s)" by (cases "cs @ s") (auto simp: is_utf8_continuation_def)
  with Cons show ?case by simp
qed simp

lemma strip_control_char: "utf8_char c \<Longrightarrow> strip_control (c @ s) = (if control_char c then [] else c) @ strip_control s"
proof (cases c)
  case (Cons l cs)
  assume c: "utf8_char c"
  show ?thesis
  proof (cases cs)
    case Nil
    with c Cons have "(of_char l :: nat) < 128" by (auto simp: utf8_char_def)
    then show ?thesis using Cons Nil by (cases s) (auto simp: control_char_def)
  next
    case (Cons d ds)
    with c \<open>c = l # cs\<close> have l: "192 \<le> (of_char l :: nat)" "(of_char l :: nat) = 0xC2 \<Longrightarrow> ds = []" "128 \<le> (of_char d :: nat)"
      "list_all is_utf8_continuation (d # ds)"
      by (auto simp: utf8_char_def is_utf8_continuation_def)
    show ?thesis
    proof (cases "(of_char l :: nat) = 0xC2 \<and> (of_char d :: nat) < 160")
      case True
      with l Cons \<open>c = l # cs\<close> show ?thesis by (simp add: control_char_def)
    next
      case False
      then have "strip_control (c @ s) = l # strip_control ((d # ds) @ s)" using l(1,3) Cons \<open>c = l # cs\<close> by auto
      also have "\<dots> = c @ strip_control s" using strip_control_cont [OF l(4)] Cons \<open>c = l # cs\<close> by simp
      finally show ?thesis using False Cons \<open>c = l # cs\<close> by (auto simp: control_char_def split: list.splits)
    qed
  qed
qed (simp add: utf8_char_def)

lemma strip_control_concat: "list_all utf8_char cs \<Longrightarrow> strip_control (concat cs) = concat (filter (\<lambda>c. \<not> control_char c) cs)"
  by (induction cs) (simp_all add: strip_control_char)

lemma take_boundary:
  "list_all utf8_char cs \<Longrightarrow> is_char_boundary (concat cs) e \<Longrightarrow> \<exists>k. take e (concat cs) = concat (take k cs)"
proof (induction cs arbitrary: e)
  case (Cons c cs)
  consider "e = 0" | "0 < e" "e < length c" | "length c \<le> e" by linarith
  then show ?case
  proof cases
    case 1
    then show ?thesis by (intro exI [of _ 0]) simp
  next
    case 2
    with Cons.prems have "is_utf8_continuation (c ! e)"
      by (cases c) (auto simp: utf8_char_def list_all_length nth_Cons split: nat.split)
    with 2 Cons.prems(2) show ?thesis by (simp add: is_char_boundary_def nth_append)
  next
    case 3
    with Cons.prems(2) have "is_char_boundary (concat cs) (e - length c)"
      by (auto simp: is_char_boundary_def nth_append)
    with Cons obtain k where "take (e - length c) (concat cs) = concat (take k cs)" by auto
    with 3 show ?thesis by (intro exI [of _ "Suc k"]) simp
  qed
qed simp

lemma bounded_clean_once:
  assumes "utf8 raw"
  shows "bounded_clean (fst (bounded_clean raw cap)) cap = (fst (bounded_clean raw cap), False)"
proof -
  obtain cs where cs: "raw = concat cs" "list_all utf8_char cs" using assms by (auto simp: utf8_def)
  let ?cs = "filter (\<lambda>c. \<not> control_char c) cs"
  have clean: "strip_control raw = concat ?cs" "list_all utf8_char ?cs" using cs by (auto simp: strip_control_concat list_all_iff)
  obtain e where e: "cut_loop (concat ?cs) cap = Some e" "is_char_boundary (concat ?cs) e" using cut_loop_stops by blast
  obtain k where k: "fst (bounded_clean raw cap) = concat (take k ?cs)"
  proof (cases "length (concat ?cs) \<le> cap")
    case True
    then have "fst (bounded_clean raw cap) = concat (take (length ?cs) ?cs)" by (simp add: bounded_clean_def clean(1))
    then show thesis by (rule that)
  next
    case False
    then show thesis using take_boundary [OF clean(2) e(2)] e(1) that by (auto simp: bounded_clean_def clean(1) Let_def)
  qed
  have "list_all utf8_char (take k ?cs)" "filter (\<lambda>c. \<not> control_char c) (take k ?cs) = take k ?cs"
    using clean(2) by (auto simp: list_all_iff filter_id_conv dest: in_set_takeD)
  then have "strip_control (fst (bounded_clean raw cap)) = fst (bounded_clean raw cap)" by (simp add: k strip_control_concat)
  then show ?thesis using bounded_clean_bounds(1) [of raw cap] by (simp add: bounded_clean_def [of "fst (bounded_clean raw cap)"])
qed


section \<open>The device's context is accepted\<close>

text \<open>The \<open>Serialize\<close> instances of the three structs.\<close>

definition json_window :: "WindowContext \<Rightarrow> Value" where
  "json_window w = json_obj ([(''status'', Str (wire_as_str STATUSES (wc_status w))), (''reason'', json_opt (\<lambda>r. Str (wire_as_str REASONS r)) (wc_reason w)),
     (''source'', Str (wire_as_str SOURCES (wc_source w))), (''app'', json_opt Str (wc_app w)), (''title'', json_opt Str (wc_title w))]
     @ (if wc_title_truncated w then [(''title_truncated'', Bool True)] else []))"

definition json_browser :: "BrowserContext \<Rightarrow> Value" where
  "json_browser b = json_obj [(''status'', Str (wire_as_str STATUSES (bc_status b))), (''reason'', json_opt (\<lambda>r. Str (wire_as_str REASONS r)) (bc_reason b)),
     (''source'', Str (wire_as_str SOURCES (bc_source b))), (''url'', json_opt Str (bc_url b)), (''url_host'', json_opt Str (bc_url_host b))]"

definition json_context :: "Context \<Rightarrow> Value" where
  "json_context c = json_obj [(''version'', json_nat (unat (cx_version c))), (''scope'', Str (cx_scope c)), (''bracket_ms'', json_nat (cx_bracket_ms c)),
     (''monitor_relation'', Str (cx_monitor_relation c)), (''window'', json_window (cx_window c)), (''browser'', json_browser (cx_browser c)),
     (''grant_revisions'', json_obj (map (\<lambda>(m, r). (module_as_str m, json_u64 r)) (cx_grant_revisions c)))]"

lemma obj_keys_json_obj: "set (obj_keys (json_obj kvs)) = fst ` set kvs"
proof -
  have "fst ` set (foldr (\<lambda>(k, v). obj_insert k v) kvs []) = fst ` set kvs"
    by (induction kvs) (simp_all only: foldr.simps o_apply case_prod_unfold fst_set_obj_insert list.set image_insert id_apply)
  then show ?thesis by (simp add: json_obj_def)
qed

lemma wire_simps:
  "wire_as_str STATUSES Observed = ''observed''" "from_wire STATUSES ''observed'' = Some Observed"
  "from_wire SOURCES (wire_as_str SOURCES src) = Some src"
  by (simp_all add: wire_as_str_def from_wire_def STATUSES_def) (cases src; simp add: wire_as_str_def from_wire_def SOURCES_def)

lemma json_window_shape:
  assumes "wc_status w = Observed" "wc_reason w = None" "wc_source w \<in> {Win32, Hyprland}"
  shows "component_shape (json_window w) False = Some (Observed, wc_source w)"
proof -
  have "(\<lambda>k. k \<notin> set (component_keys False)) k = False" if "k \<in> set (obj_keys (json_window w))" for k
    using that unfolding json_window_def obj_keys_json_obj by (auto simp: component_keys_def split: if_splits)
  then have "list_ex (\<lambda>k. k \<notin> set (component_keys False)) (obj_keys (json_window w)) = False" by (auto simp: list_ex_iff)
  moreover have "json_opt Str x = Null \<or> as_str (json_opt Str x) \<noteq> None" for x by (cases x) simp_all
  then have "scalar (json_window w) ''app''" "scalar (json_window w) ''title''"
    by (simp_all add: json_window_def scalar_def is_none_or_def del: as_str_json_opt)
  moreover have "is_none_or (v_get (json_window w) ''title_truncated'') (\<lambda>v. as_bool v \<noteq> None)"
    by (auto simp: json_window_def is_none_or_def)
  moreover have "v_index (json_window w) ''status'' = Str ''observed''" "v_index (json_window w) ''reason'' = Null" "v_get (json_window w) ''reason'' = Some Null"
    "v_index (json_window w) ''source'' = Str (wire_as_str SOURCES (wc_source w))"
    using assms by (simp_all add: json_window_def wire_simps)
  ultimately show ?thesis
    using assms(3) unfolding component_shape_def Let_def
    by (auto simp: wire_simps is_some_and_def is_window_source_def)
qed

text \<open>A revision map the device sends has at most the entry of the window module.\<close>

lemma sent_revision:
  assumes "hm_get m WindowActivity = Some r" "hm_wf m" "\<forall>(k, v) \<in> set m. k = WindowActivity"
  shows "as_u64 (v_index (json_obj (map (\<lambda>(m, r). (module_as_str m, json_u64 r)) m)) ''window_activity'') = Some r"
proof -
  have "m = [(WindowActivity, r)]"
  proof (cases m)
    case (Cons p ps)
    then have "ps = []" using assms(2,3) by (cases ps) (auto simp: hm_wf_def)
    with Cons assms show ?thesis by (cases p) auto
  qed (use assms in simp)
  then show ?thesis by (simp add: json_u64_def)
qed


lemma bounded_again:
  assumes "utf8 raw"
  shows "bounded (unwrap_or (fst (bounded raw cap)) []) cap = (fst (bounded raw cap), False)"
    "fst (bounded raw cap) = Some t \<Longrightarrow> bounded_clean t cap = (t, False)"
proof -
  have "bounded_clean [] cap = ([], False)" by (simp add: bounded_clean_def)
  with bounded_clean_once [OF assms, of cap]
  show "bounded (unwrap_or (fst (bounded raw cap)) []) cap = (fst (bounded raw cap), False)"
    "fst (bounded raw cap) = Some t \<Longrightarrow> bounded_clean t cap = (t, False)"
    by (auto simp: bounded_def case_prod_unfold Let_def split: if_splits)
qed

lemma sanitize_keeps_window:
  assumes "utf8 (sn_app a)" "utf8 (sn_title a)" "sn_identity a \<noteq> []" "elapsed \<le> BRACKET_BUDGET"
    "window_generation gens = Some g" "gen_module g = WindowActivity" "generation_matches g u"
  shows "cx_window (sanitize_in u gens (context_around (Ok a) (Ok a) elapsed gens)) = around_window (Ok a) (Ok a) elapsed gens"
    "wc_status (around_window (Ok a) (Ok a) elapsed gens) = Observed" "wc_reason (around_window (Ok a) (Ok a) elapsed gens) = None"
    "wc_source (around_window (Ok a) (Ok a) elapsed gens) = sn_source a"
    "wc_title (around_window (Ok a) (Ok a) elapsed gens) = fst (bounded (sn_title a) MAX_TITLE_BYTES)"
    "wc_app (around_window (Ok a) (Ok a) elapsed gens) = (if snd (bounded (sn_app a) MAX_APP_BYTES) then None else fst (bounded (sn_app a) MAX_APP_BYTES))"
    "cx_grant_revisions (sanitize_in u gens (context_around (Ok a) (Ok a) elapsed gens)) = [(WindowActivity, gen_revision g)]"
proof -
  let ?w = "around_window (Ok a) (Ok a) elapsed gens"
  have w: "?w = \<lparr> wc_status = Observed, wc_reason = None, wc_source = sn_source a,
      wc_app = (if snd (bounded (sn_app a) MAX_APP_BYTES) then None else fst (bounded (sn_app a) MAX_APP_BYTES)),
      wc_title = fst (bounded (sn_title a) MAX_TITLE_BYTES),
      wc_title_truncated = (sn_title_truncated a \<or> snd (bounded (sn_title a) MAX_TITLE_BYTES)) \<rparr>"
    using assms(3-5) by (simp add: around_window_def case_prod_unfold Let_def)
  then show "wc_status ?w = Observed" "wc_reason ?w = None" "wc_source ?w = sn_source a" "wc_title ?w = fst (bounded (sn_title a) MAX_TITLE_BYTES)"
    "wc_app ?w = (if snd (bounded (sn_app a) MAX_APP_BYTES) then None else fst (bounded (sn_app a) MAX_APP_BYTES))" by simp_all
  have valid: "option_filter (\<lambda>g. gen_module g = WindowActivity \<and> generation_matches g u) (window_generation gens) = Some g"
    using assms(5-7) by (simp add: option_filter_def)
  have nil: "bounded [] cap = (None, False)" for cap by (simp add: bounded_def bounded_clean_def)
  show "cx_window (sanitize_in u gens (context_around (Ok a) (Ok a) elapsed gens)) = ?w"
    by (simp add: sanitize_in_def context_around_def Let_def valid w bounded_again assms(1,2) nil case_prod_unfold)
  show "cx_grant_revisions (sanitize_in u gens (context_around (Ok a) (Ok a) elapsed gens)) = [(WindowActivity, gen_revision g)]"
    by (simp add: sanitize_in_def context_around_def Let_def valid w assms(5-7) hm_insert_def hm_retain_def case_prod_unfold)
qed



section \<open>Witnesses\<close>

definition granted_once :: GrantState where "granted_once = snd (state_local_set GrantState_default WindowActivity True)"
definition granted_off :: GrantState where "granted_off = snd (state_local_set granted_once WindowActivity False)"
definition granted_twice :: GrantState where "granted_twice = snd (state_local_set granted_off WindowActivity True)"

definition example_sample :: Snapshot where
  "example_sample = \<lparr> sn_identity = ''w1'', sn_app = ''Editor'', sn_title = ''notes'', sn_source = Hyprland, sn_title_truncated = False \<rparr>"

lemma grant_modules:
  "hm_get (st_modules granted_once) m = (if m = WindowActivity then Some \<lparr> g_enabled = True, g_revision = 1 \<rparr> else None)"
  "hm_get (st_modules granted_off) m = (if m = WindowActivity then Some \<lparr> g_enabled = False, g_revision = 2 \<rparr> else None)"
  by (simp_all add: granted_off_def granted_once_def state_local_set_def GrantState_default_def Let_def)

lemma once_generation: "window_generation (Generations_from_state granted_once) = Some \<lparr> gen_module = WindowActivity, gen_revision = 1 \<rparr>"
  by (simp add: Generations_from_state_def generation_from_state_def grant_modules option_filter_def)

theorem revoked_context_stays_hidden_witness:
  "wc_title (cx_window (sanitize_in granted_twice (Generations_from_state granted_once)
      (context_around (Ok example_sample) (Ok example_sample) 0 (Generations_from_state granted_once)))) = None
   \<and> wc_title (cx_window (context_around (Ok example_sample) (Ok example_sample) 0 (Generations_from_state granted_once))) = Some ''notes''"
proof -
  let ?c = "context_around (Ok example_sample) (Ok example_sample) 0 (Generations_from_state granted_once)"
  have "reaches grant_step GrantState_default granted_once" "reaches grant_step granted_once granted_off" "reaches grant_step granted_off granted_twice"
    unfolding granted_once_def granted_off_def granted_twice_def by (meson reaches_refl reaches_step owner_sets)+
  moreover have "\<not> is_some_and (window_generation (Generations_from_state granted_once)) (\<lambda>g. generation_matches g granted_off)"
    by (simp add: once_generation is_some_and_def generation_matches_def generation_from_state_def grant_modules option_filter_def)
  moreover have "hm_wf (cx_grant_revisions ?c)" by (auto simp: context_around_def Let_def split: option.split)
  ultimately have "wc_title (cx_window (sanitize_in granted_twice (Generations_from_state granted_once) ?c)) = None"
    using revoked_context_stays_hidden [of granted_once granted_off granted_twice ?c] by (simp add: Let_def)
  moreover have "bounded_clean ''notes'' MAX_TITLE_BYTES = (''notes'', False)" by code_simp
  then have "wc_title (cx_window ?c) = Some ''notes''"
    by (simp add: context_around_def around_window_def once_generation example_sample_def bounded_def case_prod_unfold Let_def BRACKET_BUDGET_def from_millis_def)
  ultimately show ?thesis by simp
qed

definition example_recall_env :: RecallEnv where
  "example_recall_env = \<lparr> wire_len = (\<lambda>_. 300), domain_to_ascii = Some, url_host_str = (\<lambda>s. Some s) \<rparr>"

definition example_frame_header :: Value where
  "example_frame_header = Obj [(''context'', json_context (sanitize_in granted_once (Generations_from_state granted_once)
     (context_around (Ok example_sample) (Ok example_sample) 0 (Generations_from_state granted_once))))]"

lemma utf8_ascii: "\<forall>c \<in> set s. (of_char c :: nat) < 128 \<Longrightarrow> utf8 s"
  unfolding utf8_def by (rule exI [of _ "map (\<lambda>c. [c]) s"]) (auto simp: list_all_iff utf8_char_def is_utf8_continuation_def)



end
