(* ===== verification/Spool.thy ===== *)
theory Spool
  imports RecallContext
begin

text \<open>
  The durable queue of Recall keyframes on the device (\<open>agent/src/capture/history/spool.rs\<close>) and the pump that ships it
  to the server (\<open>agent/src/connection/agent_loop/history.rs\<close>).

  The spool directory is a map from file names to contents. An operation on it may fail, or the process die, where the
  operating system can: the outcome is an argument. Serialized headers are \<open>serde_json\<close>'s: the record \<open>SpoolEnv\<close> is a
  parameter.
\<close>

section \<open>Frames\<close>

record OcrWord =
  ow_t :: string
  ow_box :: "int \<times> int \<times> int \<times> int"

record HistoryFrame =
  hf_generation :: "Generation option"
  hf_captured_at :: Time
  hf_capture_duration_ms :: "nat option"
  hf_context :: "Context option"
  hf_context_generations :: Generations
  hf_monitor :: nat
  hf_width :: nat
  hf_height :: nat
  hf_jpeg :: "u8 list"
  hf_phash :: u64
  hf_ocr_text :: "string option"
  hf_ocr_words :: "OcrWord list"

record FrameHeader =
  fh_generation :: "Generation option"
  fh_capture_duration_ms :: "nat option"
  fh_context :: "Context option"
  fh_context_generations :: Generations
  fh_uid :: string
  fh_captured_at :: string
  fh_captured_ms :: int
  fh_monitor :: nat
  fh_w :: nat
  fh_h :: nat
  fh_phash :: string
  fh_ocr_text :: "string option"
  fh_ocr_words :: "OcrWord list"

record SpooledFrame =
  sp_header :: FrameHeader
  sp_jpeg :: "u8 list"

record SpoolEnv =
  header_to_vec :: "FrameHeader \<Rightarrow> u8 list option"
  header_from_slice :: "u8 list \<Rightarrow> FrameHeader option"
  rfc3339 :: "Time \<Rightarrow> string"
  words_value :: "OcrWord list \<Rightarrow> Value"
  value_to_vec :: "Value \<Rightarrow> u8 list"

type_synonym Dir = "(string, u8 list) HashMap"

definition MAGIC :: "u8 list" where "MAGIC = [0x56, 0x52, 0x46, 0x31]"
definition EXT :: string where "EXT = ''vrf''"

text \<open>Decimal numbers, and \<open>format!("{:013}")\<close>.\<close>

function show_dec :: "nat \<Rightarrow> string" where
  "show_dec n = (if n < 10 then [digit_char n] else show_dec (n div 10) @ [digit_char (n mod 10)])"
  by pat_completeness auto
termination by (relation "measure id") auto

declare show_dec.simps [simp del]

definition pad13 :: "nat \<Rightarrow> string" where
  "pad13 n = replicate (13 - length (show_dec n)) CHR ''0'' @ show_dec n"

definition file_name :: "int \<Rightarrow> string \<Rightarrow> string" where
  "file_name captured_ms uid = pad13 (nat (max captured_ms 0)) @ ''-'' @ uid @ ''.'' @ EXT"

text \<open>\<open>Path::extension\<close>\<close>

definition extension :: "string \<Rightarrow> string option" where
  "extension n =
     (let after = rev (takeWhile (\<lambda>c. c \<noteq> CHR ''.'') (rev n)) in
      if CHR ''.'' \<notin> set n \<or> length after + 1 = length n then None else Some after)"

section \<open>The directory\<close>

text \<open>What the operating system does: whether the directory can be read, a file's size be asked and a file be removed.\<close>

record SpoolIo =
  io_list :: bool
  io_meta :: "string \<Rightarrow> bool"
  io_remove :: "string \<Rightarrow> bool"

definition entries :: "SpoolIo \<Rightarrow> Dir \<Rightarrow> (string \<times> nat) list" where
  "entries os dir =
     (if \<not> io_list os then []
      else sort_key fst [(n, length b). (n, b) \<leftarrow> dir, extension n = Some EXT \<and> io_meta os n])"

definition pending :: "SpoolIo \<Rightarrow> Dir \<Rightarrow> nat \<Rightarrow> string list" where
  "pending os dir limit = map fst (take limit (entries os dir))"

definition spool_remove :: "SpoolIo \<Rightarrow> string \<Rightarrow> Dir \<Rightarrow> Dir" where
  "spool_remove os n dir = (if io_remove os n then hm_remove n dir else dir)"

fun evict :: "SpoolIo \<Rightarrow> nat \<Rightarrow> nat \<Rightarrow> (string \<times> nat) list \<Rightarrow> Dir \<Rightarrow> Dir" where
  "evict os max_bytes spooled [] dir = dir"
| "evict os max_bytes spooled ((n, len) # es) dir =
     (if spooled \<le> max_bytes then dir else evict os max_bytes (spooled - len) es (spool_remove os n dir))"

definition enforce_budget :: "SpoolIo \<Rightarrow> nat \<Rightarrow> Dir \<Rightarrow> Dir" where
  "enforce_budget os max_bytes dir = (let es = entries os dir in evict os max_bytes (sum_list (map snd es)) es dir)"

section \<open>Writing and reading\<close>

definition frame_bytes :: "u8 list \<Rightarrow> u8 list \<Rightarrow> u8 list" where
  "frame_bytes header_bytes img = MAGIC @ to_le_bytes (of_nat (length header_bytes)) @ header_bytes @ img"

text \<open>How far a write gets: \<open>WriteFails n\<close> leaves the first \<open>n\<close> bytes in the temporary file.\<close>

datatype PushOutcome = CreateFails | WriteFails nat | RenameFails | Renamed

definition push_file :: "SpoolIo \<Rightarrow> nat \<Rightarrow> PushOutcome \<Rightarrow> Dir \<Rightarrow> string \<Rightarrow> u8 list \<Rightarrow> bool \<times> Dir" where
  "push_file os max_bytes outcome dir n bytes =
     (let tmp = n @ ''.tmp'' in
      case outcome of
        CreateFails \<Rightarrow> (False, dir)
      | WriteFails k \<Rightarrow> (False, hm_insert tmp (take k bytes) dir)
      | RenameFails \<Rightarrow> (False, hm_insert tmp bytes dir)
      | Renamed \<Rightarrow> (True, enforce_budget os max_bytes (hm_insert n bytes (hm_remove tmp dir))))"

definition frame_header :: "SpoolEnv \<Rightarrow> GrantState \<Rightarrow> string \<Rightarrow> HistoryFrame \<Rightarrow> FrameHeader" where
  "frame_header env s uid f =
     \<lparr> fh_generation = hf_generation f, fh_capture_duration_ms = hf_capture_duration_ms f,
       fh_context = map_option (sanitize_in s (hf_context_generations f)) (hf_context f),
       fh_context_generations = hf_context_generations f, fh_uid = uid, fh_captured_at = rfc3339 env (hf_captured_at f),
       fh_captured_ms = hf_captured_at f div 1000, fh_monitor = hf_monitor f, fh_w = hf_width f, fh_h = hf_height f,
       fh_phash = show_dec (unat (hf_phash f)), fh_ocr_text = hf_ocr_text f, fh_ocr_words = hf_ocr_words f \<rparr>"

definition push_in ::
  "SpoolEnv \<Rightarrow> SpoolIo \<Rightarrow> nat \<Rightarrow> PushOutcome \<Rightarrow> Dir \<Rightarrow> HistoryFrame \<Rightarrow> GrantState \<Rightarrow> string \<Rightarrow> string option \<times> Dir" where
  "push_in env os max_bytes outcome dir f s uid =
     (if is_some_and (hf_generation f) (\<lambda>g. \<not> (gen_module g = Recall \<and> generation_matches g s)) then (None, dir)
      else case header_to_vec env (frame_header env s uid f) of
        None \<Rightarrow> (None, dir)
      | Some hb \<Rightarrow>
          (let (ok, dir') = push_file os max_bytes outcome dir (file_name (hf_captured_at f div 1000) uid) (frame_bytes hb (hf_jpeg f))
           in (if ok then Some uid else None, dir')))"

text \<open>\<open>push\<close> looks the grants up only when it needs them.\<close>

definition spool_push ::
  "SpoolEnv \<Rightarrow> SpoolIo \<Rightarrow> nat \<Rightarrow> PushOutcome \<Rightarrow> Dir \<Rightarrow> HistoryFrame \<Rightarrow> GrantState \<Rightarrow> string \<Rightarrow> string option \<times> Dir" where
  "spool_push env os max_bytes outcome dir f loaded uid =
     push_in env os max_bytes outcome dir f (if hf_context f \<noteq> None \<or> hf_generation f \<noteq> None then loaded else GrantState_default) uid"

definition parse_frame :: "SpoolEnv \<Rightarrow> u8 list \<Rightarrow> SpooledFrame option" where
  "parse_frame env bytes =
     (if length bytes < length MAGIC + 4 \<or> take 4 bytes \<noteq> MAGIC then None
      else
        (let hlen = unat (from_le_bytes (take 4 (drop 4 bytes))); hend = length MAGIC + 4 + hlen in
         if hend > length bytes then None
         else map_option (\<lambda>h. \<lparr> sp_header = h, sp_jpeg = drop hend bytes \<rparr>) (header_from_slice env (take hlen (drop 8 bytes)))))"

definition spool_load :: "SpoolEnv \<Rightarrow> Dir \<Rightarrow> string \<Rightarrow> SpooledFrame option" where
  "spool_load env dir n = Option.bind (hm_get dir n) (parse_frame env)"

section \<open>Shipping\<close>

definition HISTORY_MAX_IN_FLIGHT :: nat where "HISTORY_MAX_IN_FLIGHT = 4"
definition HISTORY_ACK_TIMEOUT :: Duration where "HISTORY_ACK_TIMEOUT = from_secs 90"

record InFlightFrame =
  fl_path :: string
  fl_sent_at :: Instant

text \<open>A frame on its way: the payload with the fences \<open>tag_recall_binary\<close> puts before it.\<close>

record Shipped =
  sh_payload :: "u8 list"
  sh_generation :: "Generation option"
  sh_context_generations :: Generations

record Pump =
  pm_dir :: Dir
  in_flight :: "(string, InFlightFrame) HashMap"
  outbox :: "Shipped list"

definition ship_header :: "SpoolEnv \<Rightarrow> FrameHeader \<Rightarrow> Value" where
  "ship_header env h =
     json_obj [(''uid'', Str (fh_uid h)), (''captured_at'', Str (fh_captured_at h)),
       (''capture_duration_ms'', json_opt json_nat (fh_capture_duration_ms h)), (''context'', json_opt json_context (fh_context h)),
       (''monitor'', json_nat (fh_monitor h)), (''w'', json_nat (fh_w h)), (''h'', json_nat (fh_h h)), (''phash'', Str (fh_phash h)),
       (''ocr_text'', json_opt Str (fh_ocr_text h)),
       (''ocr_words'', if fh_ocr_words h = [] then Null else words_value env (fh_ocr_words h))]"

definition ship_frame :: "SpoolEnv \<Rightarrow> FrameHeader \<Rightarrow> u8 list \<Rightarrow> Shipped" where
  "ship_frame env h img =
     (let hb = value_to_vec env (ship_header env h) in
      \<lparr> sh_payload = HISTORY_FRAME_MAGIC @ to_le_bytes (of_nat (length hb)) @ hb @ img, sh_generation = fh_generation h,
        sh_context_generations = fh_context_generations h \<rparr>)"

text \<open>What the pump reads about one file: the grants its context is checked against, the grants its generation is
  (\<open>None\<close> when they cannot be loaded), the clock, and whether the outbound channel is open.\<close>

record PumpIo =
  pi_grants :: GrantState
  pi_fresh :: "GrantState option"
  pi_now :: Instant
  pi_open :: bool

fun pump_files :: "SpoolEnv \<Rightarrow> SpoolIo \<Rightarrow> (string \<Rightarrow> PumpIo) \<Rightarrow> string list \<Rightarrow> string list \<Rightarrow> Pump \<Rightarrow> bool \<times> Pump" where
  "pump_files env os io busy [] p = (True, p)"
| "pump_files env os io busy (n # ns) p =
     (if length (in_flight p) \<ge> HISTORY_MAX_IN_FLIGHT then (True, p)
      else if n \<in> set busy then pump_files env os io busy ns p
      else case spool_load env (pm_dir p) n of
        None \<Rightarrow> pump_files env os io busy ns (p\<lparr>pm_dir := spool_remove os n (pm_dir p)\<rparr>)
      | Some fr \<Rightarrow>
          (let h0 = sp_header fr;
               h = h0\<lparr>fh_context := map_option (sanitize_in (pi_grants (io n)) (fh_context_generations h0)) (fh_context h0)\<rparr>
           in if \<not> is_some_and (fh_generation h) (\<lambda>g. is_some_and (pi_fresh (io n)) (generation_matches g)) then
                pump_files env os io busy ns (p\<lparr>pm_dir := spool_remove os n (pm_dir p)\<rparr>)
              else if \<not> pi_open (io n) then (False, p)
              else pump_files env os io busy ns
                     (p\<lparr>outbox := outbox p @ [ship_frame env h (sp_jpeg fr)],
                        in_flight := hm_insert (fh_uid h) \<lparr> fl_path = n, fl_sent_at = pi_now (io n) \<rparr> (in_flight p)\<rparr>)))"

definition pump_history_spool :: "SpoolEnv \<Rightarrow> SpoolIo \<Rightarrow> (string \<Rightarrow> PumpIo) \<Rightarrow> bool \<Rightarrow> Instant \<Rightarrow> Pump \<Rightarrow> bool \<times> Pump" where
  "pump_history_spool env os io recall_allowed now p =
     (if \<not> recall_allowed then (True, p)
      else
        (let p1 = p\<lparr>in_flight := hm_retain (\<lambda>_ f. duration_since now (fl_sent_at f) < HISTORY_ACK_TIMEOUT) (in_flight p)\<rparr> in
         if length (in_flight p1) \<ge> HISTORY_MAX_IN_FLIGHT then (True, p1)
         else pump_files env os io (map fl_path (hm_values (in_flight p1))) (pending os (pm_dir p1) (HISTORY_MAX_IN_FLIGHT * 8)) p1))"

text \<open>\<open>msg\<close> is the parsed text, if it parses.\<close>

definition handle_history_ack :: "SpoolIo \<Rightarrow> Value option \<Rightarrow> Pump \<Rightarrow> bool \<times> Pump" where
  "handle_history_ack os msg p =
     (case msg of
        None \<Rightarrow> (False, p)
      | Some v \<Rightarrow>
          if unwrap_or (as_str (v_index v ''type'')) [] \<noteq> ''history_frame_ack'' then (False, p)
          else case as_str (v_index v ''uid'') of
            None \<Rightarrow> (True, p)
          | Some uid \<Rightarrow>
              (case hm_get (in_flight p) uid of
                 None \<Rightarrow> (True, p)
               | Some f \<Rightarrow> (True, p\<lparr>in_flight := hm_remove uid (in_flight p), pm_dir := spool_remove os (fl_path f) (pm_dir p)\<rparr>)))"


section \<open>A spool file is whole or absent\<close>

lemma parse_frame_bytes:
  assumes "length hb < 2 ^ 32"
  shows "parse_frame env (frame_bytes hb img) = map_option (\<lambda>h. \<lparr> sp_header = h, sp_jpeg = img \<rparr>) (header_from_slice env hb)"
proof -
  have len: "length (to_le_bytes w) = 4" for w by (simp add: to_le_bytes_def)
  have n: "unat (of_nat (length hb) :: u32) = length hb" using assms by (simp add: unat_of_nat)
  let ?b = "frame_bytes hb img"
  have "?b = (MAGIC @ to_le_bytes (of_nat (length hb)) @ hb) @ img" by (simp add: frame_bytes_def)
  moreover have "length (MAGIC @ to_le_bytes (of_nat (length hb)) @ hb) = 8 + length hb" by (simp add: MAGIC_def len)
  ultimately have "drop (8 + length hb) ?b = img" by (metis append_eq_conv_conj)
  moreover have "length ?b = 8 + length hb + length img" "take 4 ?b = MAGIC" "take 4 (drop 4 ?b) = to_le_bytes (of_nat (length hb))"
    "take (length hb) (drop 8 ?b) = hb" by (simp_all add: frame_bytes_def MAGIC_def len)
  ultimately show ?thesis by (simp add: parse_frame_def le_bytes_roundtrip n Let_def MAGIC_def [THEN arg_cong, of length])
qed

lemma extension_dot: "CHR ''.'' \<notin> set e \<Longrightarrow> n \<noteq> [] \<Longrightarrow> extension (n @ CHR ''.'' # e) = Some e"
proof -
  assume e: "CHR ''.'' \<notin> set e" and n: "n \<noteq> []"
  have "takeWhile (\<lambda>c. c \<noteq> CHR ''.'') (rev e @ CHR ''.'' # rev n) = rev e"
    using e by (subst takeWhile_append2) (auto simp: takeWhile_append2)
  with n show "extension (n @ CHR ''.'' # e) = Some e" by (simp add: extension_def Let_def)
qed

lemma show_dec_not_Nil [simp]: "show_dec n \<noteq> []"
  by (subst show_dec.simps) simp

lemma extension_file_name: "extension (file_name ms uid) = Some EXT"
proof -
  have "file_name ms uid = (pad13 (nat (max ms 0)) @ ''-'' @ uid) @ CHR ''.'' # EXT" by (simp add: file_name_def)
  moreover have "CHR ''.'' \<notin> set EXT" by (simp add: EXT_def)
  ultimately show ?thesis by (metis append_is_Nil_conv extension_dot list.discI)
qed

lemma extension_tmp: "extension (n @ ''.tmp'') \<noteq> Some EXT"
proof (cases "n = []")
  case True
  then show ?thesis by (simp add: extension_def EXT_def)
next
  case False
  then show ?thesis using extension_dot [of "''tmp''" n] by (simp add: EXT_def)
qed

definition spool_ok :: "SpoolEnv \<Rightarrow> Dir \<Rightarrow> bool" where
  "spool_ok env dir \<longleftrightarrow> (\<forall>n b. hm_get dir n = Some b \<longrightarrow> extension n = Some EXT \<longrightarrow> parse_frame env b \<noteq> None)"

lemma listed_insert:
  "\<not> p k \<Longrightarrow> [(n, length b). (n, b) \<leftarrow> hm_insert k v dir, p n] = [(n, length b). (n, b) \<leftarrow> dir, p n]"
  unfolding hm_insert_def by (induction dir) auto

lemma entries_tmp: "extension n \<noteq> Some EXT \<Longrightarrow> entries os (hm_insert n b dir) = entries os dir"
  using listed_insert [of "\<lambda>n. extension n = Some EXT \<and> io_meta os n" n b dir] by (simp add: entries_def)

lemma evict_subset:
  assumes "hm_get (evict os cap spooled es dir) n = Some b"
  shows "hm_get dir n = Some b"
  using assms
proof (induction os cap spooled es dir rule: evict.induct)
  case (2 os cap spooled m len es dir)
  then show ?case by (auto simp: spool_remove_def split: if_splits)
qed simp

lemma evict_wf: "hm_wf dir \<Longrightarrow> hm_wf (evict os cap spooled es dir)"
  by (induction os cap spooled es dir rule: evict.induct) (simp_all add: spool_remove_def hm.invar_remove)

text \<open>
  C13. A keyframe is spooled whole or not at all: however far writing it gets, every spool file can be read
  afterwards, a failed attempt leaves the frames waiting as they were, and a frame that was stored and is still on disk
  reads back with its header, its context as it was re-checked then, and its image.
\<close>

theorem push_is_atomic:
  assumes "spool_ok env dir" "header_to_vec env (frame_header env s uid f) = Some hb"
    "header_from_slice env hb = Some (frame_header env s uid f)" "length hb < 2 ^ 32"
  shows "let (r, dir') = push_in env os cap outcome dir f s uid; n = file_name (hf_captured_at f div 1000) uid in
    spool_ok env dir' \<and> (r = None \<longrightarrow> entries os dir' = entries os dir)
    \<and> (r \<noteq> None \<and> hm_get dir' n \<noteq> None \<longrightarrow> spool_load env dir' n = Some \<lparr> sp_header = frame_header env s uid f, sp_jpeg = hf_jpeg f \<rparr>)"
proof -
  let ?n = "file_name (hf_captured_at f div 1000) uid" and ?b = "frame_bytes hb (hf_jpeg f)"
  have parse: "parse_frame env ?b = Some \<lparr> sp_header = frame_header env s uid f, sp_jpeg = hf_jpeg f \<rparr>"
    using assms(3,4) by (simp add: parse_frame_bytes)
  have tmp: "spool_ok env (hm_insert (?n @ ''.tmp'') b dir)" for b
    using assms(1) extension_tmp [of ?n] by (auto simp: spool_ok_def)
  let ?d = "hm_insert ?n ?b (hm_remove (?n @ ''.tmp'') dir)"
  have "spool_ok env ?d" using assms(1) parse by (auto simp: spool_ok_def split: if_splits)
  then have kept: "spool_ok env (enforce_budget os cap ?d)"
    unfolding spool_ok_def enforce_budget_def Let_def by (meson evict_subset)
  have "spool_load env (enforce_budget os cap ?d) ?n = Some \<lparr> sp_header = frame_header env s uid f, sp_jpeg = hf_jpeg f \<rparr>"
    if "hm_get (enforce_budget os cap ?d) ?n = Some x" for x
  proof -
    have "hm_get ?d ?n = Some x" using that unfolding enforce_budget_def Let_def by (rule evict_subset)
    with that parse show ?thesis by (simp add: spool_load_def)
  qed
  then show ?thesis
    using assms(1,2) tmp kept entries_tmp [OF extension_tmp]
    by (auto simp: push_in_def push_file_def Let_def split: PushOutcome.splits prod.splits)
qed


section \<open>The budget keeps the newest frames\<close>

definition os_works :: SpoolIo where
  "os_works = \<lparr> io_list = True, io_meta = (\<lambda>_. True), io_remove = (\<lambda>_. True) \<rparr>"

lemma listed_remove:
  "[(n, length b). (n, b) \<leftarrow> hm_remove k dir, p n] = filter (\<lambda>(n, _). n \<noteq> k) [(n, length b). (n, b) \<leftarrow> dir, p n]"
  unfolding hm_remove_def by (induction dir) (auto simp: AList.delete_eq)

lemma entries_remove: "entries os (hm_remove k dir) = filter (\<lambda>(n, _). n \<noteq> k) (entries os dir)"
  using listed_remove [of "\<lambda>n. extension n = Some EXT \<and> io_meta os n" k dir]
  by (simp add: entries_def filter_sort)

lemma entries_distinct: "hm_wf dir \<Longrightarrow> distinct (map fst (entries os dir))"
proof -
  assume wf: "hm_wf dir"
  have "map fst [(n, length b). (n, b) \<leftarrow> dir, p n] = map fst (filter (\<lambda>(n, _). p n) dir)" for p by (induction dir) auto
  then have "distinct (map fst [(n, length b). (n, b) \<leftarrow> dir, p n])" for p
    using wf by (simp add: hm_wf_def distinct_map_filter del: map_map)
  moreover have "distinct (map fst (sort_key fst xs)) = distinct (map fst xs)" for xs :: "(string \<times> nat) list" by (simp add: distinct_map)
  ultimately show ?thesis by (simp add: entries_def)
qed

lemma evict_entries:
  assumes "hm_wf dir" "entries os_works dir = es" "spooled = sum_list (map snd es)"
  shows "\<exists>k \<le> length es. entries os_works (evict os_works cap spooled es dir) = drop k es \<and> sum_list (map snd (drop k es)) \<le> cap
    \<and> (\<forall>j < k. cap < sum_list (map snd (drop j es)))"
  using assms
proof (induction es arbitrary: dir spooled)
  case (Cons e es)
  obtain n len where e: "e = (n, len)" by force
  show ?case
  proof (cases "spooled \<le> cap")
    case True
    with Cons.prems e show ?thesis by (intro exI [of _ 0]) simp
  next
    case False
    have "distinct (map fst (e # es))" using entries_distinct [OF Cons.prems(1), of os_works] Cons.prems(2) by simp
    then have "filter (\<lambda>(m, _). m \<noteq> n) (e # es) = es" by (force simp: e filter_id_conv)
    then have rest: "entries os_works (hm_remove n dir) = es" using Cons.prems(2) by (simp add: entries_remove)
    have "hm_wf (hm_remove n dir)" using Cons.prems(1) by (rule hm.invar_remove)
    then obtain k where k: "k \<le> length es" "entries os_works (evict os_works cap (spooled - len) es (hm_remove n dir)) = drop k es"
      "sum_list (map snd (drop k es)) \<le> cap" "\<forall>j < k. cap < sum_list (map snd (drop j es))"
      using Cons.IH [OF _ rest, of "spooled - len"] Cons.prems(3) e by auto
    have "evict os_works cap spooled (e # es) dir = evict os_works cap (spooled - len) es (hm_remove n dir)"
      using False by (simp add: e spool_remove_def) (simp add: os_works_def)
    moreover have "cap < sum_list (map snd (drop j (e # es)))" if "j < Suc k" for j
      using that k(4) False Cons.prems(3) by (cases j) auto
    ultimately show ?thesis using k by (intro exI [of _ "Suc k"]) simp
  qed
qed simp

lemma evict_foreign:
  "n \<notin> fst ` set es \<Longrightarrow> hm_get (evict os cap spooled es dir) n = hm_get dir n"
  by (induction os cap spooled es dir rule: evict.induct) (auto simp: spool_remove_def)

text \<open>
  C23. Over budget, the oldest frames go and no more than needed: after the budget is enforced the frames left are the
  newest ones, in order, they fit the budget, keeping one more would not, and files that are no frames stay.
\<close>

theorem budget_keeps_newest:
  assumes "hm_wf dir"
  shows "\<exists>k. entries os_works (enforce_budget os_works cap dir) = drop k (entries os_works dir)
    \<and> sum_list (map snd (drop k (entries os_works dir))) \<le> cap
    \<and> (\<forall>j < k. cap < sum_list (map snd (drop j (entries os_works dir))))
    \<and> (\<forall>n. extension n \<noteq> Some EXT \<longrightarrow> hm_get (enforce_budget os_works cap dir) n = hm_get dir n)"
proof -
  have "n \<notin> fst ` set (entries os_works dir)" if "extension n \<noteq> Some EXT" for n
    using that by (auto simp: entries_def split: if_splits)
  then have foreign: "\<forall>n. extension n \<noteq> Some EXT \<longrightarrow> hm_get (enforce_budget os_works cap dir) n = hm_get dir n"
    by (simp add: enforce_budget_def Let_def evict_foreign)
  obtain k where k: "entries os_works (enforce_budget os_works cap dir) = drop k (entries os_works dir)"
    "sum_list (map snd (drop k (entries os_works dir))) \<le> cap" "\<forall>j < k. cap < sum_list (map snd (drop j (entries os_works dir)))"
    using evict_entries [OF assms refl refl, of cap, folded enforce_budget_def [unfolded Let_def]] by (elim exE conjE) (rule that)
  show ?thesis by (intro exI [of _ k] conjI k foreign)
qed


section \<open>Frames are shipped oldest first\<close>

text \<open>The \<open>w\<close> last decimal digits.\<close>

fun fixed :: "nat \<Rightarrow> nat \<Rightarrow> string" where
  "fixed 0 n = []"
| "fixed (Suc w) n = fixed w (n div 10) @ [digit_char (n mod 10)]"

lemma length_fixed [simp]: "length (fixed w n) = w"
  by (induction w arbitrary: n) auto

lemma digit_char_value: "d < 10 \<Longrightarrow> (of_char (digit_char d) :: nat) = 48 + d"
  by (simp add: digit_char_def)

lemma fixed_pad: "n < 10 ^ w \<Longrightarrow> 0 < w \<Longrightarrow> replicate (w - length (show_dec n)) CHR ''0'' @ show_dec n = fixed w n"
proof (induction w arbitrary: n)
  case (Suc w)
  have zero: "fixed w 0 = replicate w CHR ''0''" for w
  proof (induction w)
    case (Suc w)
    have "(of_char (digit_char 0) :: nat) = of_char CHR ''0''" by (simp add: digit_char_value)
    then have "digit_char 0 = CHR ''0''" by (simp only: of_char_eq_iff)
    with Suc show ?case by (simp add: replicate_append_same)
  qed simp
  show ?case
  proof (cases "n < 10")
    case True
    then show ?thesis by (subst (1 2) show_dec.simps) (simp add: zero)
  next
    case False
    with Suc.prems have "n div 10 < 10 ^ w" "0 < w" by (auto intro: gr0I)
    from Suc.IH [OF this] show ?thesis using False by (subst (1 2) show_dec.simps) simp
  qed
qed simp

lemma pad13_fixed: "n < 10 ^ 13 \<Longrightarrow> pad13 n = fixed 13 n"
  unfolding pad13_def by (rule fixed_pad) simp_all

lemma fixed_less: "a < b \<Longrightarrow> b < 10 ^ w \<Longrightarrow> fixed w a @ x < fixed w b @ y"
proof (induction w arbitrary: a b x y)
  case (Suc w)
  consider "a div 10 < b div 10" | "a div 10 = b div 10" "a mod 10 < b mod 10"
    using Suc.prems(1) by (metis div_le_mono div_mult_mod_eq le_neq_implies_less less_imp_le_nat nat_add_left_cancel_less)
  then show ?case
  proof cases
    case 1
    with Suc show ?thesis by simp
  next
    case 2
    then have "digit_char (a mod 10) < digit_char (b mod 10)" by (simp add: less_char_def digit_char_value)
    with 2 show ?thesis by (simp add: Cons_less_Cons list_less_def lexord_append_leftI)
  qed
qed simp

text \<open>
  Frames are shipped in the order they were captured: file names sort as the capture times they carry, for every
  time from 1970 to the year 2286, so the pump, which takes the first names, takes the oldest frames.
\<close>

theorem names_sort_by_capture_time:
  assumes "0 \<le> ms" "ms < ms'" "ms' < 10 ^ 13"
  shows "file_name ms uid < file_name ms' uid'
    \<and> (set dir = {(file_name ms uid, b), (file_name ms' uid', b')} \<and> hm_wf dir \<longrightarrow> pending os_works dir 1 = [file_name ms uid])"
proof -
  have "pad13 (nat ms) = fixed 13 (nat ms)" "pad13 (nat ms') = fixed 13 (nat ms')" "nat ms < nat ms'" "nat ms' < 10 ^ 13"
    using assms by (auto simp: pad13_fixed)
  then have less: "file_name ms uid < file_name ms' uid'" using assms by (simp add: file_name_def fixed_less)
  moreover have "pending os_works dir 1 = [file_name ms uid]" if dir: "set dir = {(file_name ms uid, b), (file_name ms' uid', b')}" "hm_wf dir"
  proof -
    have "set (entries os_works dir) = {(file_name ms uid, length b), (file_name ms' uid', length b')}"
      using dir(1) by (auto simp: entries_def os_works_def extension_file_name)
    note all = this
    then obtain e es where es: "entries os_works dir = e # es" by (cases "entries os_works dir") auto
    have "sorted (map fst (e # es))" unfolding es [symmetric] by (simp add: entries_def)
    moreover have "file_name ms uid \<in> fst ` set (e # es)" unfolding es [symmetric] all by simp
    ultimately have "fst e \<le> file_name ms uid" by auto
    moreover have "e \<in> {(file_name ms uid, length b), (file_name ms' uid', length b')}" unfolding all [symmetric] es by simp
    ultimately have "fst e = file_name ms uid" using less by (auto simp: not_less [symmetric])
    with es have "map fst (take 1 (entries os_works dir)) = [file_name ms uid]" by simp
    then show ?thesis by (simp add: pending_def)
  qed
  ultimately show ?thesis by blast
qed


section \<open>The pump\<close>

text \<open>The frame may leave: its generation is the module's current one.\<close>

abbreviation may_leave :: "(string \<Rightarrow> PumpIo) \<Rightarrow> string \<Rightarrow> Generation option \<Rightarrow> bool" where
  "may_leave io n gen \<equiv> is_some_and gen (\<lambda>g. is_some_and (pi_fresh (io n)) (generation_matches g))"

definition kept_or_refused :: "SpoolEnv \<Rightarrow> (string \<Rightarrow> PumpIo) \<Rightarrow> Dir \<Rightarrow> Dir \<Rightarrow> bool" where
  "kept_or_refused env io d d' \<longleftrightarrow> (\<forall>n b. hm_get d n = Some b \<longrightarrow> hm_get d' n = Some b
     \<or> (hm_get d' n = None \<and> is_none_or (parse_frame env b) (\<lambda>fr. \<not> may_leave io n (fh_generation (sp_header fr)))))"

lemma kept_refl: "kept_or_refused env io d d"
  by (simp add: kept_or_refused_def)

lemma kept_remove:
  assumes "kept_or_refused env io (spool_remove os n d) d'" "is_none_or (spool_load env d n) (\<lambda>fr. \<not> may_leave io n (fh_generation (sp_header fr)))"
    "\<And>m. hm_get (spool_remove os n d) m = None \<Longrightarrow> hm_get d' m = None"
  shows "kept_or_refused env io d d'"
  unfolding kept_or_refused_def
proof (intro allI impI)
  fix m b assume m: "hm_get d m = Some b"
  show "hm_get d' m = Some b \<or> (hm_get d' m = None \<and> is_none_or (parse_frame env b) (\<lambda>fr. \<not> may_leave io m (fh_generation (sp_header fr))))"
  proof (cases "hm_get (spool_remove os n d) m")
    case None
    with m have "m = n" by (auto simp: spool_remove_def split: if_splits)
    with m assms(2) have "is_none_or (parse_frame env b) (\<lambda>fr. \<not> may_leave io m (fh_generation (sp_header fr)))" by (simp add: spool_load_def)
    with assms(3) [OF None] show ?thesis by blast
  next
    case (Some x)
    with m have "x = b" by (auto simp: spool_remove_def split: if_splits)
    with Some assms(1) show ?thesis by (simp add: kept_or_refused_def)
  qed
qed

lemma length_insert_le: "length (hm_insert k v m) \<le> Suc (length m)"
  unfolding hm_insert_def by (induction m) auto

lemma pump_files_effect:
  "snd (pump_files env os io busy ns p) = p' \<Longrightarrow>
     (\<exists>new. outbox p' = outbox p @ new \<and> (\<forall>sh \<in> set new. \<exists>n \<in> set ns. may_leave io n (sh_generation sh)))
     \<and> length (in_flight p') \<le> max HISTORY_MAX_IN_FLIGHT (length (in_flight p))
     \<and> (\<forall>m. hm_get (pm_dir p) m = None \<longrightarrow> hm_get (pm_dir p') m = None)
     \<and> kept_or_refused env io (pm_dir p) (pm_dir p')"
proof (induction env os io busy ns p arbitrary: p' rule: pump_files.induct)
  case (1 env os io busy p)
  then show ?case by (auto simp: kept_refl)
next
  case (2 env os io busy n ns p)
  show ?case
  proof (cases "length (in_flight p) \<ge> HISTORY_MAX_IN_FLIGHT")
    case True
    with 2 show ?thesis by (auto simp: kept_refl)
  next
    case room: False
    show ?thesis
    proof (cases "n \<in> set busy")
      case True
      with 2(1) [OF room True] 2(5) room show ?thesis by auto
    next
      case idle: False
      let ?drop = "p\<lparr>pm_dir := spool_remove os n (pm_dir p)\<rparr>"
      have dropped: ?thesis if ind: "(\<exists>new. outbox p' = outbox p @ new \<and> (\<forall>sh \<in> set new. \<exists>n \<in> set ns. may_leave io n (sh_generation sh)))
          \<and> length (in_flight p') \<le> max HISTORY_MAX_IN_FLIGHT (length (in_flight p))
          \<and> (\<forall>m. hm_get (spool_remove os n (pm_dir p)) m = None \<longrightarrow> hm_get (pm_dir p') m = None)
          \<and> kept_or_refused env io (spool_remove os n (pm_dir p)) (pm_dir p')"
        "is_none_or (spool_load env (pm_dir p) n) (\<lambda>fr. \<not> may_leave io n (fh_generation (sp_header fr)))"
      proof -
        have "hm_get (pm_dir p) m = None \<Longrightarrow> hm_get (spool_remove os n (pm_dir p)) m = None" for m by (simp add: spool_remove_def)
        moreover from ind have k: "kept_or_refused env io (spool_remove os n (pm_dir p)) (pm_dir p')"
          and gone: "\<And>m. hm_get (spool_remove os n (pm_dir p)) m = None \<Longrightarrow> hm_get (pm_dir p') m = None" by simp_all
        have "kept_or_refused env io (pm_dir p) (pm_dir p')" by (rule kept_remove [OF k that(2) gone])
        ultimately show ?thesis using ind by auto
      qed
      show ?thesis
      proof (cases "spool_load env (pm_dir p) n")
        case None
        then have "snd (pump_files env os io busy ns ?drop) = p'" using 2(5) room idle by simp
        from 2(2) [OF room idle None this] show ?thesis by (intro dropped) (simp_all add: None is_none_or_def)
      next
        case (Some fr)
        let ?h = "(sp_header fr)\<lparr>fh_context := map_option (sanitize_in (pi_grants (io n)) (fh_context_generations (sp_header fr))) (fh_context (sp_header fr))\<rparr>"
        show ?thesis
        proof (cases "may_leave io n (fh_generation (sp_header fr))")
          case False
          then have "snd (pump_files env os io busy ns ?drop) = p'" using 2(5) room idle Some by (simp add: Let_def)
          from 2(3) [OF room idle Some refl refl _ this] False show ?thesis
            by (intro dropped) (simp_all add: Some is_none_or_def)
        next
          case leave: True
          show ?thesis
          proof (cases "pi_open (io n)")
            case False
            with 2(5) room idle Some leave show ?thesis by (auto simp: Let_def kept_refl)
          next
            case True
            let ?p = "p\<lparr>outbox := outbox p @ [ship_frame env ?h (sp_jpeg fr)],
                in_flight := hm_insert (fh_uid ?h) \<lparr> fl_path = n, fl_sent_at = pi_now (io n) \<rparr> (in_flight p)\<rparr>"
            have p': "snd (pump_files env os io busy ns ?p) = p'" using 2(5) room idle Some leave True by (simp add: Let_def)
            have gen: "sh_generation (ship_frame env ?h (sp_jpeg fr)) = fh_generation (sp_header fr)" by (simp add: ship_frame_def Let_def)
            have "length (hm_insert u f (in_flight p)) \<le> HISTORY_MAX_IN_FLIGHT" for u f
              using length_insert_le [of u f "in_flight p"] room by simp
            then have few: "max HISTORY_MAX_IN_FLIGHT (length (hm_insert u f (in_flight p))) = HISTORY_MAX_IN_FLIGHT" for u f by (rule max.absorb1)
            from 2(4) [OF room idle Some refl refl _ _ p'] leave True
            obtain new where new: "outbox p' = outbox p @ ship_frame env ?h (sp_jpeg fr) # new" "\<forall>sh \<in> set new. \<exists>n \<in> set ns. may_leave io n (sh_generation sh)"
              "length (in_flight p') \<le> HISTORY_MAX_IN_FLIGHT" "\<forall>m. hm_get (pm_dir p) m = None \<longrightarrow> hm_get (pm_dir p') m = None"
              "kept_or_refused env io (pm_dir p) (pm_dir p')"
              by (auto simp: few)
            show ?thesis
              using new leave by (intro conjI exI [of _ "ship_frame env ?h (sp_jpeg fr) # new"]) (auto simp: gen)
          qed
        qed
      qed
    qed
  qed
qed



section \<open>Witnesses\<close>

definition example_frame :: HistoryFrame where
  "example_frame = \<lparr> hf_generation = None, hf_captured_at = 5678000, hf_capture_duration_ms = None, hf_context = None,
     hf_context_generations = \<lparr> window_generation = None, browser_generation = None \<rparr>, hf_monitor = 0, hf_width = 4, hf_height = 3,
     hf_jpeg = [7, 7], hf_phash = 1, hf_ocr_text = None, hf_ocr_words = [] \<rparr>"

definition example_spool_env :: SpoolEnv where
  "example_spool_env = \<lparr> header_to_vec = (\<lambda>_. Some [1, 2, 3]),
     header_from_slice = (\<lambda>_. Some \<lparr> fh_generation = None, fh_capture_duration_ms = None, fh_context = None,
       fh_context_generations = \<lparr> window_generation = None, browser_generation = None \<rparr>, fh_uid = ''u'', fh_captured_at = [],
       fh_captured_ms = 5678, fh_monitor = 0, fh_w = 4, fh_h = 3, fh_phash = show_dec 1, fh_ocr_text = None, fh_ocr_words = [] \<rparr>),
     rfc3339 = (\<lambda>_. []), words_value = (\<lambda>_. Null), value_to_vec = (\<lambda>_. []) \<rparr>"

lemma example_header:
  "header_to_vec example_spool_env h = Some [1, 2, 3]"
  "header_from_slice example_spool_env bs = Some (frame_header example_spool_env s ''u'' example_frame)"
  by (simp_all add: example_spool_env_def frame_header_def example_frame_def)

theorem push_is_atomic_witness:
  "entries os_works (snd (push_in example_spool_env os_works 100 (WriteFails 5) [] example_frame GrantState_default ''u'')) = []
   \<and> spool_load example_spool_env (snd (push_in example_spool_env os_works 100 Renamed [] example_frame GrantState_default ''u'')) (file_name 5678 ''u'')
       = Some \<lparr> sp_header = frame_header example_spool_env GrantState_default ''u'' example_frame, sp_jpeg = [7, 7] \<rparr>"
proof -
  have ok: "spool_ok example_spool_env []" by (simp add: spool_ok_def)
  have gen: "hf_generation example_frame = None" "hf_captured_at example_frame div 1000 = 5678" "hf_jpeg example_frame = [7, 7]"
    by (simp_all add: example_frame_def)
  have "hm_remove (file_name 5678 ''u'' @ ''.tmp'') [] = ([] :: Dir)" by (simp add: hm_remove_def)
  moreover have "extension (file_name 5678 ''u'') = Some EXT" by (rule extension_file_name)
  ultimately have "enforce_budget os_works 100 (hm_insert (file_name 5678 ''u'') (frame_bytes [1, 2, 3] [7, 7])
      (hm_remove (file_name 5678 ''u'' @ ''.tmp'') [])) = [(file_name 5678 ''u'', frame_bytes [1, 2, 3] [7, 7])]"
    by (simp add: enforce_budget_def entries_def os_works_def hm_insert_def frame_bytes_def MAGIC_def to_le_bytes_def Let_def)
  then have kept: "push_in example_spool_env os_works 100 Renamed [] example_frame GrantState_default ''u''
      = (Some ''u'', [(file_name 5678 ''u'', frame_bytes [1, 2, 3] [7, 7])])"
    by (simp add: push_in_def push_file_def example_header gen is_some_and_def Let_def)
  show ?thesis
    using push_is_atomic [where s = GrantState_default and os = os_works and cap = 100 and outcome = "WriteFails 5", OF ok example_header]
      push_is_atomic [where s = GrantState_default and os = os_works and cap = 100 and outcome = Renamed, OF ok example_header]
    by (auto simp: kept gen Let_def push_in_def [of _ _ _ "WriteFails 5"] push_file_def example_header is_some_and_def entries_def)
qed

theorem budget_keeps_newest_witness:
  "sum_list (map snd (entries os_works (enforce_budget os_works 3 [(file_name 2 ''b'', [1, 2]), (file_name 1 ''a'', [1, 2])]))) \<le> 3
   \<and> hm_get (enforce_budget os_works 3 [(''keep'', [1, 2])]) ''keep'' = Some [1, 2]"
proof -
  have less: "file_name 1 ''a'' < file_name 2 ''b''" using names_sort_by_capture_time [of 1 2 "''a''" "''b''"] by simp
  then have "hm_wf [(file_name 2 ''b'', [1, 2]), (file_name 1 ''a'', [1, 2])]" by (auto simp: hm_wf_def)
  from budget_keeps_newest [OF this, of 3] have "sum_list (map snd (entries os_works (enforce_budget os_works 3 [(file_name 2 ''b'', [1, 2]), (file_name 1 ''a'', [1, 2])]))) \<le> 3"
    by metis
  moreover have "extension ''keep'' \<noteq> Some EXT" by (simp add: extension_def)
  moreover have "hm_wf [(''keep'', [1 :: u8, 2])]" by (simp add: hm_wf_def)
  from budget_keeps_newest [OF this, of 3] have "extension ''keep'' \<noteq> Some EXT \<Longrightarrow> hm_get (enforce_budget os_works 3 [(''keep'', [1, 2])]) ''keep'' = Some [1, 2]"
    by (metis map_of_Cons_code(2))
  ultimately show ?thesis by blast
qed

theorem names_sort_by_capture_time_witness:
  "pending os_works [(file_name 1000 ''b'', [1]), (file_name 999 ''a'', [2])] 1 = [file_name 999 ''a'']"
proof -
  note t = names_sort_by_capture_time [of 999 1000 "''a''" "''b''" "[(file_name 1000 ''b'', [1]), (file_name 999 ''a'', [2])]" "[2]" "[1]"]
  then have "file_name 999 ''a'' \<noteq> file_name 1000 ''b''" by auto
  then have "hm_wf [(file_name 1000 ''b'', [1 :: u8]), (file_name 999 ''a'', [2])]" by (auto simp: hm_wf_def)
  with t show ?thesis by (auto simp: insert_commute)
qed


definition example_pump_env :: SpoolEnv where
  "example_pump_env = example_spool_env\<lparr>header_from_slice := (\<lambda>_. Some ((frame_header example_spool_env GrantState_default ''u'' example_frame)
     \<lparr>fh_generation := Some \<lparr> gen_module = Recall, gen_revision = 1 \<rparr>\<rparr>))\<rparr>"

definition example_pump :: Pump where
  "example_pump = \<lparr> pm_dir = [(file_name 5678 ''u'', frame_bytes [1, 2, 3] [7, 7])], in_flight = [], outbox = [] \<rparr>"

definition example_pump_io :: PumpIo where
  "example_pump_io = \<lparr> pi_grants = GrantState_default, pi_fresh = Some (snd (state_local_set GrantState_default Recall True)), pi_now = 0, pi_open = True \<rparr>"


end
